(* ===== verification/Prelude.thy ===== *)
theory Prelude
  imports Main "HOL-Library.Word"
begin

text \<open>
  Shared vocabulary of the development: the C integer types of
  \<^verbatim>\<open>Kernel/include/types.h\<close> as fixed-width words, little-endian assembly of bytes,
  and the generic list and word lemmas the components use.  The theorem collections
  \<open>mem_simps\<close> (reads over writes) and \<open>le_simps\<close> (little-endian fields) carry the
  proofs about buffers and memory.
\<close>

unbundle bit_operations_syntax

named_theorems mem_simps "reads of the flat memory after writes"
named_theorems le_simps "little-endian encoding and decoding"

section \<open>C integer types\<close>

type_synonym u8 = "8 word"
type_synonym u16 = "16 word"
type_synonym u32 = "32 word"
type_synonym u64 = "64 word"
type_synonym addr = "64 word"

text \<open>A C \<^verbatim>\<open>int\<close> is a 32-bit word; the value \<^verbatim>\<open>-1\<close> that several routines return is this one.\<close>

abbreviation int_m1 :: u32 where
  "int_m1 \<equiv> 0xFFFFFFFF"

section \<open>Little-endian assembly of bytes\<close>

definition le16 :: "u8 \<Rightarrow> u8 \<Rightarrow> u16" where
  "le16 b0 b1 = ucast b0 OR push_bit 8 (ucast b1)"

definition le32 :: "u8 \<Rightarrow> u8 \<Rightarrow> u8 \<Rightarrow> u8 \<Rightarrow> u32" where
  "le32 b0 b1 b2 b3 =
     ucast b0 OR push_bit 8 (ucast b1) OR push_bit 16 (ucast b2) OR push_bit 24 (ucast b3)"

definition le64 :: "u32 \<Rightarrow> u32 \<Rightarrow> u64" where
  "le64 lo hi = ucast lo OR push_bit 32 (ucast hi)"

text \<open>The byte of a value at a bit position, as the source writes it:
  \<^verbatim>\<open>(uint8_t)((v >> sh) & 0xFF)\<close>.\<close>

definition byte_at :: "nat \<Rightarrow> 'a::len word \<Rightarrow> u8" where
  "byte_at sh v = ucast (drop_bit sh v AND 0xFF)"

lemma bit_byte_at:
  "bit (byte_at k v) n \<longleftrightarrow> n < 8 \<and> bit v (k + n)"
proof -
  have m: "(0xFF :: 'a word) = mask 8" by (simp add: mask_eq_exp_minus_1)
  show ?thesis
    unfolding byte_at_def m
    by (auto simp: bit_simps ac_simps dest: bit_imp_le_length)
qed

lemma bit_le16:
  "bit (le16 b0 b1) n \<longleftrightarrow> n < 8 \<and> bit b0 n \<or> 8 \<le> n \<and> n < 16 \<and> bit b1 (n - 8)"
  by (auto simp: le16_def bit_simps dest: bit_imp_le_length)

lemma bit_le32:
  "bit (le32 b0 b1 b2 b3) n \<longleftrightarrow>
     n < 8 \<and> bit b0 n \<or> 8 \<le> n \<and> n < 16 \<and> bit b1 (n - 8) \<or>
     16 \<le> n \<and> n < 24 \<and> bit b2 (n - 16) \<or> 24 \<le> n \<and> n < 32 \<and> bit b3 (n - 24)"
  by (auto simp: le32_def bit_simps dest: bit_imp_le_length)

lemma bit_le64:
  "bit (le64 lo hi) n \<longleftrightarrow> n < 32 \<and> bit lo n \<or> 32 \<le> n \<and> n < 64 \<and> bit hi (n - 32)"
  by (auto simp: le64_def bit_simps dest: bit_imp_le_length)

lemma low_bits:
  assumes "bit w n" "unat w < 2 ^ k"
  shows "n < k"
proof -
  have "bit (take_bit k (unat w)) n" using assms by (simp add: take_bit_nat_eq_self bit_unsigned_iff)
  then show ?thesis by (simp add: bit_take_bit_iff)
qed

lemma le16_byte_at [le_simps]: "le16 (byte_at 0 v) (byte_at 8 v) = v"
  by (rule bit_word_eqI) (auto simp: bit_le16 bit_byte_at)

lemma le32_byte_at [le_simps]:
  "le32 (byte_at 0 v) (byte_at 8 v) (byte_at 16 v) (byte_at 24 v) = v"
proof (rule bit_word_eqI)
  fix n assume "n < LENGTH(32)"
  then consider "n < 8" | "8 \<le> n" "n < 16" | "16 \<le> n" "n < 24" | "24 \<le> n" "n < 32"
    by fastforce
  then show "bit (le32 (byte_at 0 v) (byte_at 8 v) (byte_at 16 v) (byte_at 24 v)) n = bit v n"
    by cases (auto simp: bit_le32 bit_byte_at)
qed

text \<open>The two halves of a 64-bit value, and the eight bytes it is stored as.\<close>

definition lo32 :: "u64 \<Rightarrow> u32" where "lo32 v = ucast v"
definition hi32 :: "u64 \<Rightarrow> u32" where "hi32 v = ucast (drop_bit 32 v)"

lemma le64_halves [le_simps]: "le64 (lo32 v) (hi32 v) = v"
  by (rule bit_word_eqI) (auto simp: bit_le64 lo32_def hi32_def bit_simps)

lemma byte_at_le16 [le_simps]:
  "byte_at 0 (le16 b0 b1) = b0" "byte_at 8 (le16 b0 b1) = b1"
  by (rule bit_word_eqI, auto simp: bit_le16 bit_byte_at)+

lemma byte_at_le32 [le_simps]:
  "byte_at 0 (le32 b0 b1 b2 b3) = b0" "byte_at 8 (le32 b0 b1 b2 b3) = b1"
  "byte_at 16 (le32 b0 b1 b2 b3) = b2" "byte_at 24 (le32 b0 b1 b2 b3) = b3"
  by (rule bit_word_eqI, auto simp: bit_le32 bit_byte_at)+

section \<open>Widening\<close>

lemma unat_ucast_up [simp]:
  "LENGTH('a) \<le> LENGTH('b) \<Longrightarrow> unat (ucast (x :: 'a::len word) :: 'b::len word) = unat x"
  by (simp add: unsigned_ucast_eq) (meson take_bit_nat_eq_self unsigned_less
      power_increasing le_trans less_le_trans one_le_numeral)

lemma ucast_up_inj:
  "LENGTH('a) \<le> LENGTH('b) \<Longrightarrow>
   (ucast (x :: 'a::len word) :: 'b::len word) = ucast y \<longleftrightarrow> x = y"
  by (metis unat_ucast_up unsigned_word_eqI)

lemma unat_eqI: "unat x = unat y \<Longrightarrow> x = y" for x y :: "'a::len word"
  by (rule unsigned_word_eqI)

text \<open>The page offset \<^verbatim>\<open>vaddr & (PAGE_SIZE - 1)\<close>.\<close>

lemma and_FFF: "x AND 0xFFF = x mod 4096" for x :: u64
proof -
  have "(0xFFF :: u64) = mask 12" by (simp add: mask_eq_exp_minus_1)
  then have "x AND 0xFFF = take_bit 12 x" by (simp add: take_bit_eq_mask)
  then show ?thesis by (simp add: take_bit_eq_mod)
qed

section \<open>Words as loop counters\<close>

text \<open>An index below a bound of its own type can be incremented without wrapping.\<close>

lemma unat_inc: "x < y \<Longrightarrow> unat (x + 1) = Suc (unat x)" for x y :: "'a::len word"
proof -
  assume "x < y"
  then have "unat x < unat y" by (simp add: word_less_nat_alt)
  moreover have "unat y < 2 ^ LENGTH('a)" by (rule unsigned_less)
  ultimately have "unat x + 1 < 2 ^ LENGTH('a)" by linarith
  then show ?thesis by (simp add: unat_word_ariths)
qed

lemma word_inc_less: "x < y \<Longrightarrow> x < x + 1" for x y :: "'a::len word"
  by (simp add: unat_inc word_less_nat_alt)

lemma word_inc_le: "x < y \<Longrightarrow> x + 1 \<le> y" for x y :: "'a::len word"
  by (simp add: unat_inc word_less_nat_alt word_le_nat_alt)

text \<open>Splitting off the first index of a range.\<close>

lemma word_le_split: "x < y \<Longrightarrow> x \<le> j \<longleftrightarrow> j = x \<or> x + 1 \<le> j" for x y j :: "'a::len word"
proof -
  assume "x < y"
  then have "unat (x + 1) = Suc (unat x)" by (rule unat_inc)
  moreover have "j = x \<longleftrightarrow> unat j = unat x" by (auto intro: unsigned_word_eqI)
  ultimately show ?thesis by (auto simp: word_le_nat_alt)
qed

section \<open>Memory of a caller\<close>

text \<open>A write or read past the end of the memory is \<open>None\<close>.\<close>

definition put_bytes :: "u8 list \<Rightarrow> nat \<Rightarrow> u8 list \<Rightarrow> u8 list option" where
  "put_bytes buf off bs =
     (if off + length bs \<le> length buf then Some (take off buf @ bs @ drop (off + length bs) buf) else None)"

definition get_bytes :: "u8 list \<Rightarrow> nat \<Rightarrow> nat \<Rightarrow> u8 list option" where
  "get_bytes src off n = (if off + n \<le> length src then Some (take n (drop off src)) else None)"

section \<open>Returning\<close>

text \<open>The call comes back: it does not wait for ever and touches no memory that is not there.\<close>

definition returns :: "'a option \<Rightarrow> bool" where
  "returns x \<longleftrightarrow> x \<noteq> None"

lemma returns_Some [simp, intro!]: "returns (Some y)"
  by (simp add: returns_def)

lemma returns_bind: "returns x \<Longrightarrow> (\<And>y. x = Some y \<Longrightarrow> returns (f y)) \<Longrightarrow> returns (Option.bind x f)"
  by (cases x) (auto simp: returns_def)

end
