(* ===== verification/Queue.thy ===== *)
theory Queue
  imports Prelude
begin

text \<open>
  Intrusive queues.  The kernel keeps four of them (ready threads, sleeping threads, the waiters of
  a mutex, the waiters of a semaphore), each a head and a tail pointer and the \<^verbatim>\<open>next\<close>
  field of the threads in it.  The theory relates such a queue to the list of its members and
  states the contract the four copies of the code fulfil as the locale \<open>fifo_queue\<close>.
\<close>

section \<open>Linked lists of pointers\<close>

text \<open>From \<open>h\<close> the \<^verbatim>\<open>next\<close> pointers run through \<open>xs\<close> and end in \<^verbatim>\<open>NULL\<close>.\<close>

fun linked :: "(addr \<Rightarrow> addr) \<Rightarrow> addr \<Rightarrow> addr list \<Rightarrow> bool" where
  "linked nx h [] \<longleftrightarrow> h = 0"
| "linked nx h (x # xs) \<longleftrightarrow> h = x \<and> x \<noteq> 0 \<and> linked nx (nx x) xs"

definition tail_of :: "addr list \<Rightarrow> addr" where
  "tail_of xs = (if xs = [] then 0 else last xs)"

definition queue_ok :: "(addr \<Rightarrow> addr) \<Rightarrow> addr \<Rightarrow> addr \<Rightarrow> addr list \<Rightarrow> bool" where
  "queue_ok nx h t xs \<longleftrightarrow> linked nx h xs \<and> distinct xs \<and> t = tail_of xs"

lemma linked_cong: "(\<And>x. x \<in> set xs \<Longrightarrow> nx' x = nx x) \<Longrightarrow> linked nx' h xs = linked nx h xs"
  by (induction xs arbitrary: h) auto

lemma linked_zero: "linked nx h xs \<Longrightarrow> 0 \<notin> set xs"
  by (induction xs arbitrary: h) auto

lemma linked_hd: "linked nx h xs \<Longrightarrow> h = (if xs = [] then 0 else hd xs)"
  by (cases xs) auto

lemma linked_fun: "linked nx h xs \<Longrightarrow> linked nx h ys \<Longrightarrow> xs = ys"
proof (induction xs arbitrary: h ys)
  case Nil
  then show ?case by (cases ys) auto
next
  case (Cons x xs)
  then show ?case by (cases ys) auto
qed

lemma linked_append: "linked nx h (xs @ [t]) \<Longrightarrow> nx t = 0"
  by (induction xs arbitrary: h) auto

lemma linked_snoc:
  "linked nx h xs \<Longrightarrow> distinct (xs @ [t]) \<Longrightarrow> t \<noteq> 0 \<Longrightarrow>
   linked (if xs = [] then nx(t := 0) else nx(t := 0, last xs := t)) (if xs = [] then t else h) (xs @ [t])"
proof (induction xs arbitrary: h)
  case (Cons x xs)
  then have IH: "linked (if xs = [] then nx(t := 0) else nx(t := 0, last xs := t))
      (if xs = [] then t else nx x) (xs @ [t])" by simp
  show ?case
  proof (cases "xs = []")
    case False
    then have "last xs \<noteq> x" "t \<noteq> x" using Cons.prems by auto
    then show ?thesis using IH Cons.prems False by (simp add: fun_upd_def)
  qed (use Cons.prems in auto)
qed simp

lemma tail_of_snoc [simp]: "tail_of (xs @ [t]) = t"
  by (simp add: tail_of_def)

lemma tail_of_Nil [simp]: "tail_of [] = 0"
  by (simp add: tail_of_def)

lemma queue_ok_cong:
  "(\<And>x. x \<in> set xs \<Longrightarrow> nx' x = nx x) \<Longrightarrow> queue_ok nx' h t xs = queue_ok nx h t xs"
  using linked_cong [of xs nx' nx h] by (simp add: queue_ok_def)

lemma queue_ok_empty: "queue_ok nx h t xs \<Longrightarrow> h = 0 \<longleftrightarrow> xs = []"
  by (cases xs) (auto simp: queue_ok_def)

lemma queue_ok_tail: "queue_ok nx h t xs \<Longrightarrow> xs \<noteq> [] \<Longrightarrow> t = last xs \<and> t \<in> set xs"
  by (auto simp: queue_ok_def tail_of_def)

lemma queue_ok_zero: "queue_ok nx h t xs \<Longrightarrow> 0 \<notin> set xs"
  using linked_zero by (auto simp: queue_ok_def)

lemma queue_ok_snoc:
  "queue_ok nx h e xs \<Longrightarrow> t \<notin> set xs \<Longrightarrow> t \<noteq> 0 \<Longrightarrow>
   queue_ok (if h = 0 then nx(t := 0) else nx(t := 0, e := t)) (if h = 0 then t else h) t (xs @ [t])"
  using linked_snoc [of nx h xs t] queue_ok_empty [of nx h e xs]
  by (auto simp: queue_ok_def tail_of_def)

lemma queue_ok_pop:
  "queue_ok nx h e (x # xs) \<Longrightarrow>
   h = x \<and> x \<noteq> 0 \<and> queue_ok (nx(x := 0)) (nx x) (if nx x = 0 then 0 else e) xs"
proof -
  assume q: "queue_ok nx h e (x # xs)"
  then have l: "linked nx (nx x) xs" "h = x" "x \<noteq> 0" "x \<notin> set xs" "distinct xs" "e = last (x # xs)"
    by (auto simp: queue_ok_def tail_of_def)
  have "(nx(x := 0)) y = nx y" if "y \<in> set xs" for y using that l(4) by auto
  then have "linked (nx(x := 0)) (nx x) xs"
    using l(1) linked_cong [of xs "nx(x := 0)" nx "nx x"] by blast
  moreover have "nx x = 0 \<longleftrightarrow> xs = []"
    using l(1) by (cases xs) auto
  ultimately show ?thesis using l by (simp add: queue_ok_def tail_of_def)
qed

text \<open>Unlinking a member: its predecessor, or the head, is redirected to its successor.\<close>

lemma linked_remove:
  "linked nx h (pre @ x # post) \<Longrightarrow> distinct (pre @ x # post) \<Longrightarrow>
   linked (if pre = [] then nx else nx(last pre := nx x)) (if pre = [] then nx x else h) (pre @ post)"
proof (induction pre arbitrary: h)
  case (Cons y pre)
  then have IH: "linked (if pre = [] then nx else nx(last pre := nx x)) (if pre = [] then nx x else nx y) (pre @ post)"
    by simp
  have l: "linked nx (nx y) (pre @ x # post)" "h = y" "y \<noteq> 0" "y \<notin> set (pre @ x # post)"
    using Cons.prems by auto
  show ?case
  proof (cases "pre = []")
    case True
    then have "(nx(y := nx x)) z = nx z" if "z \<in> set post" for z using that l(4) by auto
    then have "linked (nx(y := nx x)) (nx x) post"
      using IH True linked_cong [of post "nx(y := nx x)" nx "nx x"] by simp
    then show ?thesis using l True by (simp add: fun_upd_def)
  next
    case False
    then have "last pre \<noteq> y" using l(4) by (metis Un_iff last_in_set set_append)
    then show ?thesis using IH l False by (simp add: fun_upd_def)
  qed
qed simp

lemma linked_next: "linked nx h (pre @ x # post) \<Longrightarrow> nx x = (if post = [] then 0 else hd post) \<and> x \<noteq> 0"
proof (induction pre arbitrary: h)
  case Nil
  then show ?case using linked_hd [of nx "nx x" post] by simp
next
  case (Cons y pre)
  then have "linked nx (nx y) (pre @ x # post)" by simp
  then show ?case by (rule Cons.IH)
qed

lemma queue_ok_remove:
  assumes "queue_ok nx h e (pre @ x # post)"
  shows "queue_ok (if pre = [] then nx else nx(last pre := nx x)) (if pre = [] then nx x else h)
    (if x = e then tail_of pre else e) (pre @ post)"
proof -
  have "x = last (pre @ x # post) \<longleftrightarrow> post = []"
    using assms by (auto simp: queue_ok_def)
  then show ?thesis
    using assms linked_remove [of nx h pre x post] by (auto simp: queue_ok_def tail_of_def)
qed

section \<open>The contract\<close>

text \<open>
  \<open>members\<close> is the abstraction: the list of the threads in the queue.  \<open>ok s t\<close> says that thread
  \<open>t\<close> may be put into the queue in state \<open>s\<close>; \<open>deq\<close> returns 0 for an empty queue.
\<close>

locale fifo_queue =
  fixes is_queue :: "'s \<Rightarrow> addr list \<Rightarrow> bool"
    and ok :: "'s \<Rightarrow> addr \<Rightarrow> bool"
    and enq :: "'s \<Rightarrow> addr \<Rightarrow> 's"
    and deq :: "'s \<Rightarrow> addr \<times> 's"
  assumes unique: "is_queue s xs \<Longrightarrow> is_queue s ys \<Longrightarrow> xs = ys"
    and no_null: "is_queue s xs \<Longrightarrow> 0 \<notin> set xs"
    and enq: "is_queue s xs \<Longrightarrow> ok s t \<Longrightarrow> t \<notin> set xs \<Longrightarrow> is_queue (enq s t) (xs @ [t])"
    and deq_empty: "is_queue s [] \<Longrightarrow> deq s = (0, s)"
    and deq: "is_queue s (x # xs) \<Longrightarrow> fst (deq s) = x \<and> is_queue (snd (deq s)) xs"
begin

fun drain :: "nat \<Rightarrow> 's \<Rightarrow> addr list" where
  "drain 0 s = []"
| "drain (Suc n) s = (let (t, s) = deq s in if t = 0 then [] else t # drain n s)"

fun fill :: "addr list \<Rightarrow> 's \<Rightarrow> 's" where
  "fill [] s = s"
| "fill (t # ts) s = fill ts (enq s t)"

lemma drain: "is_queue s xs \<Longrightarrow> length xs \<le> n \<Longrightarrow> drain n s = xs"
proof (induction n arbitrary: s xs)
  case (Suc n)
  show ?case
  proof (cases xs)
    case Nil
    then show ?thesis using deq_empty Suc.prems by simp
  next
    case (Cons x ys)
    then have d: "fst (deq s) = x" "is_queue (snd (deq s)) ys" using deq Suc.prems by auto
    have "x \<noteq> 0" using no_null Suc.prems Cons by force
    then show ?thesis
      using d Suc.IH [OF d(2)] Suc.prems Cons by (simp add: case_prod_unfold Let_def)
  qed
qed simp

lemma fill:
  "is_queue s xs \<Longrightarrow> distinct (xs @ ts) \<Longrightarrow> (\<And>s t. t \<in> set ts \<Longrightarrow> ok s t) \<Longrightarrow>
   is_queue (fill ts s) (xs @ ts)"
proof (induction ts arbitrary: s xs)
  case (Cons t ts)
  have "is_queue (enq s t) (xs @ [t])" using Cons.prems by (intro enq) auto
  then show ?case using Cons.IH [of "enq s t" "xs @ [t]"] Cons.prems by simp
qed simp

text \<open>First in, first out: what is put into an empty queue comes out in the same order.\<close>

lemma fifo:
  assumes "is_queue s []" "distinct ts" "\<And>s t. t \<in> set ts \<Longrightarrow> ok s t"
  shows "drain (length ts) (fill ts s) = ts"
  using fill [OF assms(1), of ts] assms(2,3) drain by simp

end

end
