(* ===== verification/CMem.thy ===== *)
theory CMem
  imports Prelude
begin

text \<open>
  The flat byte-addressed memory the kernel runs in.  Physical memory is identity mapped
  (\<^verbatim>\<open>Kernel/mm/paging.c\<close> copies the firmware's page tables), so a C pointer is an address
  of this memory.  Multi-byte accesses are little-endian; \<^verbatim>\<open>memset\<close> and \<^verbatim>\<open>memcpy\<close> are
  the byte loops of \<^verbatim>\<open>Kernel/lib/kstring.c\<close>.
\<close>

unbundle bit_operations_syntax

type_synonym mem = "addr \<Rightarrow> u8"

definition rd32 :: "mem \<Rightarrow> addr \<Rightarrow> u32" where
  "rd32 m a = le32 (m a) (m (a + 1)) (m (a + 2)) (m (a + 3))"

definition wr32 :: "mem \<Rightarrow> addr \<Rightarrow> u32 \<Rightarrow> mem" where
  "wr32 m a v = m(a := byte_at 0 v, a + 1 := byte_at 8 v, a + 2 := byte_at 16 v, a + 3 := byte_at 24 v)"

definition rd64 :: "mem \<Rightarrow> addr \<Rightarrow> u64" where
  "rd64 m a = le64 (rd32 m a) (rd32 m (a + 4))"

definition wr64 :: "mem \<Rightarrow> addr \<Rightarrow> u64 \<Rightarrow> mem" where
  "wr64 m a v = wr32 (wr32 m a (lo32 v)) (a + 4) (hi32 v)"

text \<open>
  \<^verbatim>\<open>while (count--) *xs++ = c;\<close> and \<^verbatim>\<open>for (i = 0; i < count; i++) d[i] = s[i];\<close>, by
  recursion on the number of iterations left.
\<close>

fun memset :: "mem \<Rightarrow> addr \<Rightarrow> u8 \<Rightarrow> nat \<Rightarrow> mem" where
  "memset m s c 0 = m"
| "memset m s c (Suc n) = memset (m(s := c)) (s + 1) c n"

fun memcpy :: "mem \<Rightarrow> addr \<Rightarrow> addr \<Rightarrow> nat \<Rightarrow> mem" where
  "memcpy m d s 0 = m"
| "memcpy m d s (Suc n) = memcpy (m(d := m s)) (d + 1) (s + 1) n"

section \<open>Address ranges\<close>

text \<open>\<open>x\<close> lies in the \<open>n\<close> bytes from \<open>a\<close>; the distance is taken modulo the address space.\<close>

definition within :: "addr \<Rightarrow> nat \<Rightarrow> addr \<Rightarrow> bool" where
  "within a n x \<longleftrightarrow> unat (x - a) < n"

definition disj :: "addr \<Rightarrow> nat \<Rightarrow> addr \<Rightarrow> nat \<Rightarrow> bool" where
  "disj a n b k \<longleftrightarrow> (\<forall>x. \<not> (within a n x \<and> within b k x))"

lemma disj_sym: "disj a n b k \<Longrightarrow> disj b k a n"
  by (auto simp: disj_def)

lemma within_self: "0 < n \<Longrightarrow> within a n a"
  by (simp add: within_def)

lemma within_off: "unat i < n \<Longrightarrow> within a n (a + i)"
  by (simp add: within_def)

lemma within_mono: "within a n x \<Longrightarrow> n \<le> k \<Longrightarrow> within a k x"
  by (simp add: within_def)

lemma disj_ne: "disj a n b k \<Longrightarrow> unat i < n \<Longrightarrow> unat j < k \<Longrightarrow> a + i \<noteq> b + j"
  by (metis disj_def within_off)

text \<open>Two ranges are disjoint when neither start lies in the other.\<close>

lemma disj_iff:
  assumes "0 < n" "0 < k"
  shows "disj a n b k \<longleftrightarrow> \<not> within a n b \<and> \<not> within b k a"
proof
  assume "disj a n b k"
  then show "\<not> within a n b \<and> \<not> within b k a"
    using assms by (auto simp: disj_def within_self)
next
  assume r: "\<not> within a n b \<and> \<not> within b k a"
  have False if "within a n x" "within b k x" for x
  proof (cases "x - b \<le> x - a")
    case True
    have "unat (b - a) = unat ((x - a) - (x - b))" by simp
    also have "\<dots> = unat (x - a) - unat (x - b)" using True by (rule unat_sub)
    finally show False using r that unfolding within_def by linarith
  next
    case False
    then have "x - a \<le> x - b" by simp
    have "unat (a - b) = unat ((x - b) - (x - a))" by simp
    also have "\<dots> = unat (x - b) - unat (x - a)" using \<open>x - a \<le> x - b\<close> by (rule unat_sub)
    finally show False using r that unfolding within_def by linarith
  qed
  then show "disj a n b k" by (auto simp: disj_def)
qed

lemma disj_sub:
  assumes "disj a n b k" "unat (c - a) + l \<le> n"
  shows "disj c l b k"
proof -
  have "within a n x" if "within c l x" for x
  proof -
    have "unat (x - a) = unat ((x - c) + (c - a))" by simp
    also have "\<dots> \<le> unat (x - c) + unat (c - a)" by (metis unat_plus_if_size le_add1 le_refl diff_le_self)
    finally show ?thesis using that assms(2) by (simp add: within_def)
  qed
  then show ?thesis using assms(1) by (auto simp: disj_def)
qed

section \<open>Reads after writes\<close>

lemma rd32_wr32 [mem_simps]: "rd32 (wr32 m a v) a = v"
  by (simp add: rd32_def wr32_def le_simps)

lemma wr32_other: "\<not> within a 4 x \<Longrightarrow> wr32 m a v x = m x"
  by (auto simp: wr32_def within_def)

lemma wr64_other: "\<not> within a 8 x \<Longrightarrow> wr64 m a v x = m x"
proof -
  assume w: "\<not> within a 8 x"
  then have "\<not> within a 4 x" by (auto simp: within_def)
  moreover have "\<not> within (a + 4) 4 x"
  proof
    assume h: "within (a + 4) 4 x"
    have "unat (x - a) = unat ((x - (a + 4)) + 4)" by simp
    also have "\<dots> \<le> unat (x - (a + 4)) + unat (4::addr)"
      by (metis unat_plus_if_size le_add1 le_refl diff_le_self)
    finally show False using h w by (simp add: within_def)
  qed
  ultimately show ?thesis by (simp add: wr64_def wr32_other)
qed

lemma rd32_cong: "(\<And>x. within a 4 x \<Longrightarrow> m x = m' x) \<Longrightarrow> rd32 m a = rd32 m' a"
  by (simp add: rd32_def within_def)

lemma rd64_cong: "(\<And>x. within a 8 x \<Longrightarrow> m x = m' x) \<Longrightarrow> rd64 m a = rd64 m' a"
  by (simp add: rd64_def rd32_def within_def add.assoc)

lemma rd64_wr64 [mem_simps]: "rd64 (wr64 m a v) a = v"
proof -
  have d: "disj (a + 4) 4 a 4" by (simp add: disj_iff within_def)
  have "rd32 (wr64 m a v) a = rd32 (wr32 m a (lo32 v)) a"
    unfolding wr64_def
    by (rule rd32_cong, rule wr32_other) (use d in \<open>auto simp: disj_def\<close>)
  then show ?thesis
    by (simp add: rd64_def mem_simps wr64_def le_simps)
qed

lemma rd32_wr32_disj [mem_simps]: "disj a 4 b 4 \<Longrightarrow> rd32 (wr32 m a v) b = rd32 m b"
  by (rule rd32_cong, rule wr32_other) (auto simp: disj_def)

lemma rd64_wr64_disj [mem_simps]: "disj a 8 b 8 \<Longrightarrow> rd64 (wr64 m a v) b = rd64 m b"
  by (rule rd64_cong, rule wr64_other) (auto simp: disj_def)

lemma rd32_wr64_disj [mem_simps]: "disj a 8 b 4 \<Longrightarrow> rd32 (wr64 m a v) b = rd32 m b"
  by (rule rd32_cong, rule wr64_other) (auto simp: disj_def)

lemma rd64_wr32_disj [mem_simps]: "disj a 4 b 8 \<Longrightarrow> rd64 (wr32 m a v) b = rd64 m b"
  by (rule rd64_cong, rule wr32_other) (auto simp: disj_def)

lemma within_Suc: "n < 2 ^ 64 \<Longrightarrow> within s (Suc n) x \<longleftrightarrow> x = s \<or> within (s + 1) n x"
proof (cases "x = s")
  case False
  then have "x - s \<noteq> 0" by simp
  then have "unat (x - s - 1) = unat (x - s) - 1" by (rule unat_minus_one)
  moreover have "0 < unat (x - s)" using \<open>x - s \<noteq> 0\<close> by (simp add: unat_gt_0)
  ultimately show ?thesis using False unfolding within_def diff_diff_eq by linarith
qed (simp add: within_def)

lemma memset_apply:
  "n \<le> 2 ^ 64 \<Longrightarrow> memset m s c n x = (if within s n x then c else m x)"
proof (induction n arbitrary: m s)
  case 0
  then show ?case by (simp add: within_def)
next
  case (Suc n)
  then show ?case by (simp add: within_Suc)
qed

text \<open>Between disjoint ranges \<^verbatim>\<open>memcpy\<close> copies; elsewhere it changes nothing.\<close>

lemma memcpy_other:
  "n \<le> 2 ^ 64 \<Longrightarrow> \<not> within d n x \<Longrightarrow> memcpy m d s n x = m x"
  by (induction n arbitrary: m d s) (auto simp: within_Suc)

end
