(* ===== verification/Bitmap.thy ===== *)
theory Bitmap
  imports CMem
begin

text \<open>
  The page bitmaps of \<^verbatim>\<open>Kernel/mm/bitmap.c\<close>.  A \<^verbatim>\<open>bitmap_t\<close> lives in memory at an
  address \<open>bm\<close>: \<^verbatim>\<open>bit_size\<close> at offset 0 and the pointer \<^verbatim>\<open>bits\<close> at offset 8, both
  read again at every access because the byte stores may alias them.
\<close>

unbundle bit_operations_syntax

section \<open>Operations\<close>

definition bm_size :: "mem \<Rightarrow> addr \<Rightarrow> u32" where
  "bm_size m bm = rd32 m bm"

definition bm_bits :: "mem \<Rightarrow> addr \<Rightarrow> addr" where
  "bm_bits m bm = rd64 m (bm + 8)"

definition BitmapBitSize :: "u32 \<Rightarrow> u32" where
  "BitmapBitSize bit_size = (bit_size + 8 - 1) div 8"

definition BitmapGetBit :: "mem \<Rightarrow> addr \<Rightarrow> u32 \<Rightarrow> bool" where
  "BitmapGetBit m bm index =
     (drop_bit (unat (index mod 8)) (m (bm_bits m bm + ucast (index div 8))) AND 1 \<noteq> 0)"

definition BitmapIsSet :: "mem \<Rightarrow> addr \<Rightarrow> u32 \<Rightarrow> bool" where
  "BitmapIsSet m bm index = BitmapGetBit m bm index"

definition BitmapInit :: "mem \<Rightarrow> addr \<Rightarrow> addr \<Rightarrow> u32 \<Rightarrow> bool \<Rightarrow> mem" where
  "BitmapInit m bm bits bit_size val =
     (let m = wr32 m bm bit_size;
          m = wr64 m (bm + 8) bits;
          bytes = unat (BitmapBitSize bit_size)
      in if val then memset m (bm_bits m bm) 0xFF bytes
         else memset m (bm_bits m bm) 0 bytes)"

text \<open>The body of the loop of \<^verbatim>\<open>BitmapSetBits\<close>.\<close>

definition set_one :: "mem \<Rightarrow> addr \<Rightarrow> u32 \<Rightarrow> bool \<Rightarrow> mem" where
  "set_one m bm index val =
     (let a = bm_bits m bm + ucast (index div 8); b = push_bit (unat (index mod 8)) 1
      in if val then m(a := m a OR b) else m(a := m a AND NOT b))"

text \<open>\<^verbatim>\<open>for (i = 0; i < size && index < bitmap->bit_size; i++)\<close>: the first argument is
  the number of iterations \<open>sz - i\<close> still allowed.\<close>

fun set_bits_loop :: "nat \<Rightarrow> mem \<Rightarrow> addr \<Rightarrow> u32 \<Rightarrow> bool \<Rightarrow> mem" where
  "set_bits_loop 0 m bm index val = m"
| "set_bits_loop (Suc n) m bm index val =
     (if index < bm_size m bm
      then set_bits_loop n (set_one m bm index val) bm (index + 1) val
      else m)"

definition BitmapSetBits :: "mem \<Rightarrow> addr \<Rightarrow> u32 \<Rightarrow> u32 \<Rightarrow> bool \<Rightarrow> mem" where
  "BitmapSetBits m bm index sz val = set_bits_loop (unat sz) m bm index val"

text \<open>
  \<^verbatim>\<open>BitmapAllocBits\<close>.  The inner loop
  \<^verbatim>\<open>for (i = 1; i < size && sidx < bitmap->bit_size; i++) if (BitmapGetBit(bitmap, sidx++) != val) ...\<close>
  yields whether it broke off, the final \<open>i\<close> and the final \<open>sidx\<close>.  \<^verbatim>\<open>sidx\<close> and
  \<^verbatim>\<open>i\<close> are \<^verbatim>\<open>int\<close>s compared with an unsigned bound, hence unsigned words here.
\<close>

function alloc_run :: "mem \<Rightarrow> addr \<Rightarrow> bool \<Rightarrow> u32 \<Rightarrow> u32 \<Rightarrow> u32 \<Rightarrow> bool \<times> u32 \<times> u32" where
  "alloc_run m bm val sz i sidx =
     (if i < sz \<and> sidx < bm_size m bm
      then if BitmapGetBit m bm sidx \<noteq> val then (True, i, sidx + 1)
           else alloc_run m bm val sz (i + 1) (sidx + 1)
      else (False, i, sidx))"
  by pat_completeness auto
termination
  by (relation "measure (\<lambda>(m, bm, val, sz, i, sidx). unat (bm_size m bm) - unat sidx)")
    (auto simp: unat_inc word_less_nat_alt)

declare alloc_run.simps [simp del]

lemma alloc_run_sidx:
  "alloc_run m bm val sz i sidx = (brk, i', sidx') \<Longrightarrow> sidx \<le> sidx' \<and>
   (i < sz \<and> sidx < bm_size m bm \<longrightarrow> sidx < sidx')"
proof (induction m bm val sz i sidx arbitrary: brk i' sidx' rule: alloc_run.induct)
  case (1 m bm val sz i sidx)
  show ?case
  proof (cases "i < sz \<and> sidx < bm_size m bm")
    case True
    then have lt: "sidx < sidx + 1" using word_inc_less by blast
    show ?thesis
    proof (cases "BitmapGetBit m bm sidx = val")
      case eq: True
      with True "1.prems" have "alloc_run m bm val sz (i + 1) (sidx + 1) = (brk, i', sidx')"
        by (simp add: alloc_run.simps [of m bm val sz i sidx])
      with "1.IH" True eq have "sidx + 1 \<le> sidx'" by blast
      with lt show ?thesis by (meson less_le_trans less_imp_le)
    next
      case False
      with True "1.prems" lt show ?thesis
        by (auto simp: alloc_run.simps [of m bm val sz i sidx])
    qed
  next
    case False
    with "1.prems" show ?thesis by (auto simp: alloc_run.simps [of m bm val sz i sidx])
  qed
qed

lemma alloc_run_brk:
  "alloc_run m bm v sz i sidx = (True, i', sidx') \<Longrightarrow> i' < sz"
proof (induction m bm v sz i sidx arbitrary: i' sidx' rule: alloc_run.induct)
  case (1 m bm v sz i sidx)
  then show ?case by (subst (asm) alloc_run.simps) (auto split: if_splits)
qed

lemma alloc_run_progress:
  assumes "alloc_run m bm val sz 1 sidx = (brk, i, sidx')" "sidx < bm_size m bm" "\<not> sz \<le> i"
  shows "unat sidx < unat sidx'"
proof -
  have "1 < sz"
    using assms by (cases "1 < sz") (auto simp: alloc_run.simps [of m bm val sz 1 sidx])
  with alloc_run_sidx [OF assms(1)] assms(2) show ?thesis by (simp add: word_less_nat_alt)
qed

function alloc_scan :: "mem \<Rightarrow> addr \<Rightarrow> bool \<Rightarrow> u32 \<Rightarrow> u32 \<Rightarrow> u32 \<Rightarrow> u32 \<times> mem" where
  "alloc_scan m bm val sz sidx ridx =
     (if sidx < bm_size m bm
      then if BitmapGetBit m bm sidx \<noteq> val then alloc_scan m bm val sz (sidx + 1) ridx
           else case alloc_run m bm val sz 1 sidx of (brk, i, sidx') \<Rightarrow>
             let ridx' = (if brk then int_m1 else sidx)
             in if sz \<le> i then (ridx', BitmapSetBits m bm ridx' sz True)
                else alloc_scan m bm val sz sidx' ridx'
      else (ridx, m))"
  by pat_completeness auto
termination
  by (relation "measure (\<lambda>(m, bm, val, sz, sidx, ridx). unat (bm_size m bm) - unat sidx)")
    (auto simp: unat_inc word_less_nat_alt dest: alloc_run_progress [OF sym])

declare alloc_scan.simps [simp del]

definition BitmapAllocBits :: "mem \<Rightarrow> addr \<Rightarrow> bool \<Rightarrow> u32 \<Rightarrow> u32 \<times> mem" where
  "BitmapAllocBits m bm val sz = alloc_scan m bm val sz 0 int_m1"

section \<open>Well-formed bitmaps\<close>

text \<open>
  The bit array does not overlap the \<^verbatim>\<open>bitmap_t\<close> itself, and its size leaves room for
  the rounding in \<^verbatim>\<open>BitmapBitSize\<close>.
\<close>

definition bm_bytes :: "mem \<Rightarrow> addr \<Rightarrow> nat" where
  "bm_bytes m bm = unat (BitmapBitSize (bm_size m bm))"

definition bm_ok :: "mem \<Rightarrow> addr \<Rightarrow> bool" where
  "bm_ok m bm \<longleftrightarrow> bm_size m bm \<le> 0xFFFFFFF8 \<and> disj bm 16 (bm_bits m bm) (bm_bytes m bm)"

lemma unat_BitmapBitSize: "s \<le> 0xFFFFFFF8 \<Longrightarrow> unat (BitmapBitSize s) = (unat s + 7) div 8"
proof -
  assume "s \<le> 0xFFFFFFF8"
  then have "unat s \<le> 4294967288" by (simp add: word_le_nat_alt)
  moreover have "s + 8 - 1 = s + 7" by simp
  ultimately show ?thesis by (simp add: BitmapBitSize_def unat_div unat_word_ariths)
qed

lemma bm_byte_in:
  assumes "bm_ok m bm" "j < bm_size m bm"
  shows "within (bm_bits m bm) (bm_bytes m bm) (bm_bits m bm + ucast (j div 8))"
proof -
  have "unat (ucast (j div 8) :: addr) = unat j div 8"
    by (simp add: unat_div)
  moreover have "unat j < unat (bm_size m bm)" using assms by (simp add: word_less_nat_alt)
  ultimately show ?thesis
    using assms by (simp add: within_def bm_bytes_def unat_BitmapBitSize bm_ok_def)
qed

lemma bm_frame:
  assumes "\<And>x. within bm 16 x \<Longrightarrow> m' x = m x"
  shows "bm_size m' bm = bm_size m bm" "bm_bits m' bm = bm_bits m bm"
proof -
  have "within bm 16 x" if "within (bm + 8) 8 x" for x
  proof -
    have "unat (x - bm) = unat ((x - (bm + 8)) + 8)" by simp
    also have "\<dots> \<le> unat (x - (bm + 8)) + unat (8::addr)"
      by (metis unat_plus_if_size le_refl diff_le_self)
    finally show ?thesis using that by (simp add: within_def)
  qed
  then show "bm_bits m' bm = bm_bits m bm"
    unfolding bm_bits_def by (intro rd64_cong) (simp add: assms)
  show "bm_size m' bm = bm_size m bm"
    unfolding bm_size_def by (intro rd32_cong assms) (simp add: within_def)
qed

lemma BitmapGetBit_bit:
  "BitmapGetBit m bm j \<longleftrightarrow> bit (m (bm_bits m bm + ucast (j div 8))) (unat (j mod 8))"
  by (simp add: BitmapGetBit_def and_one_eq bit_iff_odd_drop_bit odd_iff_mod_2_eq_one)

text \<open>One step of \<^verbatim>\<open>BitmapSetBits\<close>.\<close>

lemma set_one_other:
  "bm_ok m bm \<Longrightarrow> i < bm_size m bm \<Longrightarrow> \<not> within (bm_bits m bm) (bm_bytes m bm) x \<Longrightarrow>
   set_one m bm i v x = m x"
  using bm_byte_in by (fastforce simp: set_one_def Let_def)

lemma set_one_struct:
  assumes "bm_ok m bm" "i < bm_size m bm"
  shows "bm_size (set_one m bm i v) bm = bm_size m bm" "bm_bits (set_one m bm i v) bm = bm_bits m bm"
  using assms by (auto intro!: bm_frame set_one_other simp: bm_ok_def disj_def)

lemma set_one_ok: "bm_ok m bm \<Longrightarrow> i < bm_size m bm \<Longrightarrow> bm_ok (set_one m bm i v) bm"
  using set_one_struct [of m bm i v] by (simp add: bm_ok_def bm_bytes_def)

lemma div_mod_8_eq: "i div 8 = j div 8 \<Longrightarrow> i mod 8 = j mod 8 \<Longrightarrow> i = j" for i j :: u32
  by (metis div_mult_mod_eq)

lemma bit_set_u8:
  "n < 8 \<Longrightarrow> bit (w OR 2 ^ n :: u8) k \<longleftrightarrow> k = n \<or> bit w k"
  "n < 8 \<Longrightarrow> bit (w AND NOT (2 ^ n) :: u8) k \<longleftrightarrow> k \<noteq> n \<and> bit w k"
  by (auto simp: bit_simps dest: bit_imp_le_length)

lemma set_one_get:
  assumes "bm_ok m bm" "i < bm_size m bm"
  shows "BitmapGetBit (set_one m bm i v) bm j \<longleftrightarrow> (if j = i then v else BitmapGetBit m bm j)"
proof -
  have lt: "unat (i mod 8) < 8" "unat (j mod 8) < 8"
    by (simp_all add: unat_mod)
  have ne: "unat (j mod 8) \<noteq> unat (i mod 8)" if "j \<noteq> i" "j div 8 = i div 8"
    using that div_mod_8_eq by (metis unsigned_word_eqI)
  have inj: "ucast (j div 8) = (ucast (i div 8) :: addr) \<longleftrightarrow> j div 8 = i div 8"
    by (simp add: ucast_up_inj)
  show ?thesis
    unfolding BitmapGetBit_bit set_one_struct [OF assms]
    using ne inj by (auto simp: set_one_def Let_def bit_set_u8 [OF lt(1)])
qed

section \<open>Setting a run of bits\<close>

lemma set_bits_loop_spec:
  assumes "bm_ok m bm"
  shows "bm_size (set_bits_loop n m bm i v) bm = bm_size m bm \<and>
    bm_bits (set_bits_loop n m bm i v) bm = bm_bits m bm \<and>
    (\<forall>x. \<not> within (bm_bits m bm) (bm_bytes m bm) x \<longrightarrow> set_bits_loop n m bm i v x = m x) \<and>
    (\<forall>j < bm_size m bm. BitmapGetBit (set_bits_loop n m bm i v) bm j =
       (if i \<le> j \<and> unat j < unat i + n then v else BitmapGetBit m bm j))"
  using assms
proof (induction n arbitrary: m i)
  case 0
  then show ?case by (auto simp: word_le_nat_alt)
next
  case (Suc n)
  show ?case
  proof (cases "i < bm_size m bm")
    case True
    let ?m = "set_one m bm i v"
    have ok: "bm_ok ?m bm" using Suc.prems True by (rule set_one_ok)
    note st = set_one_struct [OF Suc.prems True, of v]
    have by': "bm_bytes ?m bm = bm_bytes m bm" by (simp add: bm_bytes_def st)
    have "\<not> i + 1 \<le> i" using word_inc_less [OF True] by simp
    then show ?thesis
      using Suc.IH [OF ok, of "i + 1"] True Suc.prems
      by (auto simp: st by' word_le_split [OF True] unat_inc [OF True] set_one_get set_one_other)
  next
    case False
    then show ?thesis by (auto simp: word_le_nat_alt not_less word_less_nat_alt)
  qed
qed

lemma BitmapSetBits_struct:
  assumes "bm_ok m bm"
  shows "bm_size (BitmapSetBits m bm i sz v) bm = bm_size m bm"
    "bm_bits (BitmapSetBits m bm i sz v) bm = bm_bits m bm"
    "bm_bytes (BitmapSetBits m bm i sz v) bm = bm_bytes m bm"
    "bm_ok (BitmapSetBits m bm i sz v) bm"
  using assms set_bits_loop_spec [OF assms, of "unat sz" i v]
  by (auto simp: BitmapSetBits_def bm_ok_def bm_bytes_def)

lemma BitmapSetBits_other:
  "bm_ok m bm \<Longrightarrow> \<not> within (bm_bits m bm) (bm_bytes m bm) x \<Longrightarrow>
   BitmapSetBits m bm i sz v x = m x"
  using set_bits_loop_spec [of m bm "unat sz" i v] by (auto simp: BitmapSetBits_def)

lemma BitmapSetBits_get:
  "bm_ok m bm \<Longrightarrow> j < bm_size m bm \<Longrightarrow>
   BitmapGetBit (BitmapSetBits m bm i sz v) bm j =
     (if i \<le> j \<and> unat j < unat i + unat sz then v else BitmapGetBit m bm j)"
  using set_bits_loop_spec [of m bm "unat sz" i v] by (auto simp: BitmapSetBits_def)

section \<open>Finding a run\<close>

text \<open>The inner loop has seen only bits of the wanted value before it stops.\<close>

lemma alloc_run_spec:
  "alloc_run m bm v sz i sidx = (False, i', sidx') \<Longrightarrow> i \<le> sz \<Longrightarrow>
   (\<forall>j. sidx \<le> j \<and> j < sidx' \<longrightarrow> BitmapGetBit m bm j = v) \<and>
   unat i' + unat sidx = unat i + unat sidx' \<and> (i' = sz \<or> bm_size m bm \<le> sidx') \<and>
   i' \<le> sz \<and> (sidx \<le> bm_size m bm \<longrightarrow> sidx' \<le> bm_size m bm)"
proof (induction m bm v sz i sidx arbitrary: i' sidx' rule: alloc_run.induct)
  case (1 m bm v sz i sidx)
  note step = alloc_run.simps [of m bm v sz i sidx]
  show ?case
  proof (cases "i < sz \<and> sidx < bm_size m bm")
    case True
    then have eq: "BitmapGetBit m bm sidx = v"
      and run: "alloc_run m bm v sz (i + 1) (sidx + 1) = (False, i', sidx')"
      using "1.prems" by (auto simp: step split: if_splits)
    have inc: "unat (i + 1) = Suc (unat i)" "unat (sidx + 1) = Suc (unat sidx)" "i + 1 \<le> sz"
      "sidx + 1 \<le> bm_size m bm"
      using True by (auto intro: unat_inc word_inc_le)
    have ih: "(\<forall>j. sidx + 1 \<le> j \<and> j < sidx' \<longrightarrow> BitmapGetBit m bm j = v) \<and>
      unat i' + unat (sidx + 1) = unat (i + 1) + unat sidx' \<and> (i' = sz \<or> bm_size m bm \<le> sidx') \<and>
      i' \<le> sz \<and> (sidx + 1 \<le> bm_size m bm \<longrightarrow> sidx' \<le> bm_size m bm)"
      using "1.IH" True eq run inc by simp
    have "BitmapGetBit m bm j = v" if "sidx \<le> j" "j < sidx'" for j
    proof (cases "j = sidx")
      case False
      then have "sidx + 1 \<le> j" using that(1) by (auto intro: word_inc_le)
      then show ?thesis using ih that(2) by blast
    qed (simp add: eq)
    then show ?thesis using ih inc by auto
  next
    case False
    with "1.prems" show ?thesis by (auto simp: step)
  qed
qed

text \<open>Allocation of one bit: the first bit of the wanted value, or nothing.\<close>

lemma alloc_scan_one:
  "(\<exists>k. sidx \<le> k \<and> k < bm_size m bm \<and> BitmapGetBit m bm k = v \<and>
      (\<forall>j. sidx \<le> j \<and> j < k \<longrightarrow> BitmapGetBit m bm j \<noteq> v) \<and>
      alloc_scan m bm v 1 sidx ridx = (k, BitmapSetBits m bm k 1 True)) \<or>
   (\<forall>j. sidx \<le> j \<and> j < bm_size m bm \<longrightarrow> BitmapGetBit m bm j \<noteq> v) \<and>
      alloc_scan m bm v 1 sidx ridx = (ridx, m)"
proof (induction m bm v "1 :: u32" sidx ridx rule: alloc_scan.induct)
  case (1 m bm v sidx ridx)
  note step = alloc_scan.simps [of m bm v 1 sidx ridx]
  have run: "alloc_run m bm v 1 1 sidx = (False, 1, sidx)" by (simp add: alloc_run.simps)
  show ?case
  proof (cases "sidx < bm_size m bm \<and> BitmapGetBit m bm sidx \<noteq> v")
    case True
    have split: "sidx \<le> j \<longleftrightarrow> j = sidx \<or> sidx + 1 \<le> j" for j
      by (rule word_le_split [OF conjunct1 [OF True]])
    from True have "alloc_scan m bm v 1 sidx ridx = alloc_scan m bm v 1 (sidx + 1) ridx"
      by (simp add: step)
    with "1.hyps"(1) True show ?thesis unfolding split by auto
  next
    case False
    then show ?thesis using run by (auto simp: step)
  qed
qed

lemma BitmapAllocBits_one_cases:
  obtains (found) k where "k < bm_size m bm" "BitmapGetBit m bm k = v"
      "\<And>j. j < k \<Longrightarrow> BitmapGetBit m bm j \<noteq> v"
      "BitmapAllocBits m bm v 1 = (k, BitmapSetBits m bm k 1 True)"
    | (full) "\<And>j. j < bm_size m bm \<Longrightarrow> BitmapGetBit m bm j \<noteq> v"
      "BitmapAllocBits m bm v 1 = (int_m1, m)"
  using alloc_scan_one [of 0 m bm v int_m1] by (auto simp: BitmapAllocBits_def)

text \<open>
  Allocation of several bits.  \<open>run_result\<close> describes what a call that starts a run at \<open>r\<close>
  delivers: the first \<open>sz - 1\<close> bits of the run had the wanted value, and either all of the run
  is marked, or the run reached the end of the bitmap and nothing is marked.
\<close>

definition run_result :: "mem \<Rightarrow> addr \<Rightarrow> bool \<Rightarrow> u32 \<Rightarrow> u32 \<Rightarrow> mem \<Rightarrow> bool" where
  "run_result m bm v sz r m' \<longleftrightarrow>
     r < bm_size m bm \<and>
     (\<forall>j < bm_size m bm. r \<le> j \<and> unat j + 1 < unat r + unat sz \<longrightarrow> BitmapGetBit m bm j = v) \<and>
     (m' = BitmapSetBits m bm r sz True \<and> unat r + unat sz \<le> unat (bm_size m bm) + 1 \<or>
      m' = m \<and> unat (bm_size m bm) + 1 < unat r + unat sz)"

lemma run_result_alloc:
  assumes run: "alloc_run m bm v sz 1 r = (False, i, r')" and r: "r < bm_size m bm" and sz: "1 < sz"
  shows "sz \<le> i \<Longrightarrow> run_result m bm v sz r (BitmapSetBits m bm r sz True)"
    and "\<not> sz \<le> i \<Longrightarrow> run_result m bm v sz r m" "\<not> sz \<le> i \<Longrightarrow> \<not> r' < bm_size m bm"
proof -
  have s: "(\<forall>j. r \<le> j \<and> j < r' \<longrightarrow> BitmapGetBit m bm j = v) \<and>
    unat i + unat r = Suc (unat r') \<and> (i = sz \<or> bm_size m bm \<le> r') \<and> i \<le> sz \<and> r' \<le> bm_size m bm"
    using alloc_run_spec [OF run] sz r by simp
  { assume "sz \<le> i"
    then have i: "i = sz" using s by simp
    have "j < r'" if "unat j + 1 < unat r + unat sz" for j
      using that s unfolding i word_less_nat_alt by linarith
    moreover have "unat r' \<le> unat (bm_size m bm)" using s by (simp add: word_le_nat_alt)
    ultimately show "run_result m bm v sz r (BitmapSetBits m bm r sz True)"
      using s r unfolding i run_result_def by simp }
  { assume n: "\<not> sz \<le> i"
    then have e: "r' = bm_size m bm" using s by auto
    then show "\<not> r' < bm_size m bm" by simp
    have "unat i < unat sz" using n by (simp add: word_le_nat_alt)
    then have "unat (bm_size m bm) + 1 < unat r + unat sz" using s e by simp
    then show "run_result m bm v sz r m" using s r e by (simp add: run_result_def) }
qed

lemma alloc_scan_many:
  "1 < sz \<Longrightarrow> alloc_scan m bm v sz sidx int_m1 = (r, m') \<Longrightarrow>
   r = int_m1 \<and> m' = m \<or> run_result m bm v sz r m'"
proof (induction m bm v sz sidx "int_m1" rule: alloc_scan.induct)
  case (1 m bm v sz sidx)
  note step = alloc_scan.simps [of m bm v sz sidx int_m1]
  obtain brk i sidx' where run: "alloc_run m bm v sz 1 sidx = (brk, i, sidx')"
    by (metis prod_cases3)
  consider "\<not> sidx < bm_size m bm" | "sidx < bm_size m bm" "BitmapGetBit m bm sidx \<noteq> v"
    | "sidx < bm_size m bm" "BitmapGetBit m bm sidx = v" "brk"
    | "sidx < bm_size m bm" "BitmapGetBit m bm sidx = v" "\<not> brk" by blast
  then show ?case
  proof cases
    case 3
    have "\<not> sz \<le> i"
      using alloc_run_brk [of m bm v sz 1 sidx i sidx'] run 3(3) by (simp add: not_le)
    then show ?thesis
      using "1.hyps"(2) [OF 3(1) _ run [symmetric] refl] 3 "1.prems" run by (simp add: step)
  next
    case 4
    then show ?thesis
      using run_result_alloc [of m bm v sz sidx i sidx'] run "1.prems"
      by (cases "sz \<le> i") (auto simp: step alloc_scan.simps [of m bm v sz sidx'])
  qed (use "1.hyps"(1) "1.prems" in \<open>auto simp: step\<close>)
qed

section \<open>Initialisation\<close>

lemma BitmapInit_spec:
  assumes sz: "s \<le> 0xFFFFFFF8" and d: "disj bm 16 bits (unat (BitmapBitSize s))"
  shows "bm_ok (BitmapInit m bm bits s v) bm \<and> bm_size (BitmapInit m bm bits s v) bm = s \<and>
    bm_bits (BitmapInit m bm bits s v) bm = bits \<and>
    (\<forall>j < s. BitmapGetBit (BitmapInit m bm bits s v) bm j = v) \<and>
    (\<forall>x. \<not> within bm 16 x \<and> \<not> within bits (unat (BitmapBitSize s)) x \<longrightarrow>
         BitmapInit m bm bits s v x = m x)"
proof -
  let ?m1 = "wr64 (wr32 m bm s) (bm + 8) bits" and ?n = "unat (BitmapBitSize s)"
  let ?m2 = "BitmapInit m bm bits s v"
  have d84: "disj bm 4 (bm + 8) 8" by (simp add: disj_iff within_def)
  have sz1: "bm_size ?m1 bm = s"
    using d84 by (simp add: bm_size_def mem_simps disj_sym)
  have bits1: "bm_bits ?m1 bm = bits" by (simp add: bm_bits_def mem_simps)
  have n: "?n \<le> 2 ^ 64"
  proof -
    have "?n < 2 ^ LENGTH(32)" by (rule unsigned_less)
    then show ?thesis by simp
  qed
  have app: "?m2 x = (if within bits ?n x then if v then 0xFF else 0 else ?m1 x)" for x
    unfolding BitmapInit_def Let_def bits1 by (simp add: memset_apply [OF n])
  have st: "bm_size ?m2 bm = s" "bm_bits ?m2 bm = bits"
    using d by (auto simp: app disj_def sz1 bits1 intro: bm_frame(1) [THEN trans] bm_frame(2) [THEN trans])
  then have ok: "bm_ok ?m2 bm" using assms by (simp add: bm_ok_def bm_bytes_def)
  have "BitmapGetBit ?m2 bm j = v" if "j < s" for j
  proof -
    have "unat (j mod 8) < 8" by (simp add: unat_mod)
    then have "bit (0xFF :: u8) (unat (j mod 8))"
      by (simp add: mask_eq_exp_minus_1 [where n = 8 and 'a = u8, simplified, symmetric] bit_simps)
    then show ?thesis
      using bm_byte_in [OF ok] that by (simp add: BitmapGetBit_bit st bm_bytes_def app)
  qed
  moreover have "?m2 x = m x" if "\<not> within bm 16 x" "\<not> within bits ?n x" for x
  proof -
    have "\<not> within bm 4 x" using that(1) by (auto simp: within_def)
    moreover have "\<not> within (bm + 8) 8 x"
    proof
      assume h: "within (bm + 8) 8 x"
      have "unat (x - bm) = unat ((x - (bm + 8)) + 8)" by simp
      also have "\<dots> \<le> unat (x - (bm + 8)) + unat (8::addr)"
        by (metis unat_plus_if_size le_refl diff_le_self)
      finally show False using h that(1) by (simp add: within_def)
    qed
    ultimately show ?thesis using that by (simp add: app wr32_other wr64_other)
  qed
  ultimately show ?thesis using ok st by blast
qed

section \<open>Properties\<close>

text \<open>\<^verbatim>\<open>BitmapSetBits\<close> writes exactly the requested run: every bit of the bitmap
  inside \<open>[i, i + sz)\<close> reads back as the written value, every other bit is unchanged, bits at or
  past \<^verbatim>\<open>bit_size\<close> are never touched, and no byte outside the bit array changes.\<close>

theorem BitmapSetBits_correct:
  "bm_ok m bm \<Longrightarrow>
   bm_ok (BitmapSetBits m bm i sz v) bm \<and>
   bm_size (BitmapSetBits m bm i sz v) bm = bm_size m bm \<and>
   (\<forall>j < bm_size m bm. BitmapGetBit (BitmapSetBits m bm i sz v) bm j =
      (if i \<le> j \<and> unat j < unat i + unat sz then v else BitmapGetBit m bm j)) \<and>
   (\<forall>x. \<not> within (bm_bits m bm) (bm_bytes m bm) x \<longrightarrow> BitmapSetBits m bm i sz v x = m x)"
  by (simp add: BitmapSetBits_struct BitmapSetBits_get BitmapSetBits_other)

lemma demo_disj: "disj (0x1000 :: addr) 16 0x2000 2"
  by (simp add: disj_iff within_def)

text \<open>A bitmap of 16 clear bits at \<open>0x1000\<close> with its bit array at \<open>0x2000\<close>.\<close>

definition demo_bitmap :: mem where
  "demo_bitmap = BitmapInit (\<lambda>_. 0) 0x1000 0x2000 16 False"

lemma demo_bitmap:
  "bm_ok demo_bitmap 0x1000" "bm_size demo_bitmap 0x1000 = 16"
  "j < 16 \<Longrightarrow> \<not> BitmapGetBit demo_bitmap 0x1000 j"
  using BitmapInit_spec [of 16 "0x1000" "0x2000" "\<lambda>_. 0" False] demo_disj
  by (simp_all add: demo_bitmap_def BitmapBitSize_def)

lemma BitmapSetBits_correct_witness:
  "BitmapGetBit (BitmapSetBits demo_bitmap 0x1000 3 2 True) 0x1000 4 \<and>
   \<not> BitmapGetBit (BitmapSetBits demo_bitmap 0x1000 3 2 True) 0x1000 5"
  using BitmapSetBits_correct [OF demo_bitmap(1), of 3 2 True] demo_bitmap by simp

text \<open>Allocating one bit returns the first bit of the wanted value and marks exactly that
  one, and reports \<open>-1\<close> leaving memory untouched only when no bit has the wanted value.\<close>

theorem BitmapAllocBits_one_correct:
  "(\<exists>k < bm_size m bm. BitmapGetBit m bm k = v \<and> (\<forall>j < k. BitmapGetBit m bm j \<noteq> v) \<and>
      BitmapAllocBits m bm v 1 = (k, BitmapSetBits m bm k 1 True)) \<or>
   (\<forall>j < bm_size m bm. BitmapGetBit m bm j \<noteq> v) \<and> BitmapAllocBits m bm v 1 = (int_m1, m)"
  by (rule BitmapAllocBits_one_cases [of m bm v]) blast+

lemma BitmapAllocBits_one_correct_witness:
  "BitmapAllocBits demo_bitmap 0x1000 False 1 = (0, BitmapSetBits demo_bitmap 0x1000 0 1 True)"
proof -
  have "\<not> (\<forall>j < bm_size demo_bitmap 0x1000. BitmapGetBit demo_bitmap 0x1000 j \<noteq> False)"
    using demo_bitmap(2) demo_bitmap(3) [of 0] by (auto intro!: exI [of _ 0])
  moreover have "k = 0" if "\<forall>j < k. BitmapGetBit demo_bitmap 0x1000 j \<noteq> False" for k
    using that demo_bitmap(3) [of 0] word_gt_0 [of k] by auto
  ultimately show ?thesis
    using BitmapAllocBits_one_correct [of demo_bitmap "0x1000" False] by auto
qed

text \<open>Allocating \<open>sz > 1\<close> bits returns \<open>-1\<close> without a change, or a run whose first
  \<open>sz - 1\<close> bits had the wanted value.  The last bit of the run is the one the code does not
  look at, and a run cut off by the end of the bitmap is returned unmarked.\<close>

theorem BitmapAllocBits_many:
  "1 < sz \<Longrightarrow> BitmapAllocBits m bm v sz = (r, m') \<Longrightarrow>
   r = int_m1 \<and> m' = m \<or> run_result m bm v sz r m'"
  unfolding BitmapAllocBits_def by (rule alloc_scan_many)

lemma BitmapAllocBits_many_witness:
  "let res = BitmapAllocBits demo_bitmap 0x1000 False 2
   in fst res = int_m1 \<and> snd res = demo_bitmap \<or>
      run_result demo_bitmap 0x1000 False 2 (fst res) (snd res)"
  using BitmapAllocBits_many [of 2 demo_bitmap "0x1000" False] by (simp add: Let_def)

text \<open>Because the inner loop tests bit \<open>sidx\<close> twice and the last bit of the run never, two
  allocations in a row can hand out the same page: after bit 1 is taken, a request for two bits
  returns the run \<open>0, 1\<close>.\<close>

theorem BitmapAllocBits_double_allocation:
  "let m = BitmapSetBits demo_bitmap 0x1000 1 1 True
   in BitmapGetBit m 0x1000 1 \<and>
      BitmapAllocBits m 0x1000 False 2 = (0, BitmapSetBits m 0x1000 0 2 True)"
proof -
  let ?m = "BitmapSetBits demo_bitmap 0x1000 1 1 True"
  have g: "BitmapGetBit ?m 0x1000 1" "\<not> BitmapGetBit ?m 0x1000 0" "bm_size ?m 0x1000 = 16"
    using BitmapSetBits_get [OF demo_bitmap(1)] BitmapSetBits_struct [OF demo_bitmap(1)] demo_bitmap
    by simp_all
  then have "alloc_run ?m 0x1000 False 2 1 0 = (False, 2, 1)"
    by (simp add: alloc_run.simps)
  then show ?thesis
    using g by (simp add: BitmapAllocBits_def alloc_scan.simps [of ?m "0x1000" False 2 0])
qed

end
