(* ===== verification/EfiMem.thy ===== *)
theory EfiMem
  imports Bitmap
begin

text \<open>
  The firmware's memory map, \<^verbatim>\<open>Kernel/mm/EfiMemDesc.c\<close>: the structure the bootloader
  passes on, the descriptors it points to (read from memory at a stride of
  \<^verbatim>\<open>DescriptorSize\<close>) and the queries on them.  A query that prints returns what it prints.
\<close>

unbundle bit_operations_syntax

section \<open>Data\<close>

record UEFI_MEMORY_MAP =
  MapSize :: u64
  DescriptorSize :: u64
  DescriptorVersion :: u32
  StackAddr :: addr
  Buffer :: addr
  OsDescAddr :: addr

text \<open>Fields of the \<^verbatim>\<open>UEFI_MEMORY_DESCRIPTOR\<close> at an address.\<close>

definition ud_Type :: "mem \<Rightarrow> addr \<Rightarrow> u32" where "ud_Type m d = rd32 m d"
definition ud_PhysicalStart :: "mem \<Rightarrow> addr \<Rightarrow> u64" where "ud_PhysicalStart m d = rd64 m (d + 8)"
definition ud_VirtualStart :: "mem \<Rightarrow> addr \<Rightarrow> u64" where "ud_VirtualStart m d = rd64 m (d + 16)"
definition ud_NumberOfPages :: "mem \<Rightarrow> addr \<Rightarrow> u64" where "ud_NumberOfPages m d = rd64 m (d + 24)"
definition ud_Attribute :: "mem \<Rightarrow> addr \<Rightarrow> u64" where "ud_Attribute m d = rd64 m (d + 32)"

definition BOOT_SERVICES_CODE :: u32 where "BOOT_SERVICES_CODE = 3"
definition BOOT_SERVICES_DATA :: u32 where "BOOT_SERVICES_DATA = 4"
definition CONVENTIONAL_MEMORY :: u32 where "CONVENTIONAL_MEMORY = 7"

section \<open>Operations\<close>

definition CheckMemoryMap :: "UEFI_MEMORY_MAP \<Rightarrow> u16" where
  "CheckMemoryMap mm =
     (let status = 0;
          status = (if Buffer mm = 0 then status + 1 else status);
          status = (if MapSize mm = 0 then status + 1 else status);
          status = (if DescriptorSize mm = 0 then status + 1 else status);
          status = (if DescriptorVersion mm = 0 then status + 1 else status);
          status = (if StackAddr mm = 0 then status + 1 else status)
      in status)"

definition IsMemoryAvailable :: "UEFI_MEMORY_MAP \<Rightarrow> mem \<Rightarrow> addr \<Rightarrow> bool" where
  "IsMemoryAvailable mm m d =
     (if ud_PhysicalStart m d = StackAddr mm then False
      else ud_Type m d = CONVENTIONAL_MEMORY \<or> ud_Type m d = BOOT_SERVICES_CODE \<or>
           ud_Type m d = BOOT_SERVICES_DATA)"

text \<open>\<^verbatim>\<open>uint32_t maxDescriptors = MapSize / DescriptorSize\<close>.\<close>

definition maxDescriptors :: "UEFI_MEMORY_MAP \<Rightarrow> u32" where
  "maxDescriptors mm = ucast (MapSize mm div DescriptorSize mm)"

definition descriptor_at :: "UEFI_MEMORY_MAP \<Rightarrow> u32 \<Rightarrow> addr" where
  "descriptor_at mm num = Buffer mm + DescriptorSize mm * ucast num"

definition AnalysisMemoryMap :: "UEFI_MEMORY_MAP \<Rightarrow> u32 \<Rightarrow> addr" where
  "AnalysisMemoryMap mm num = (if maxDescriptors mm \<le> num then 0 else descriptor_at mm num)"

text \<open>\<^verbatim>\<open>FindLargestAvailableBlock\<close>: the loop carries \<^verbatim>\<open>largest\<close> and \<^verbatim>\<open>largestSize\<close>.\<close>

definition largest_step :: "mem \<Rightarrow> addr \<Rightarrow> addr \<times> u64 \<Rightarrow> addr \<times> u64" where
  "largest_step m d acc =
     (if ud_Type m d = CONVENTIONAL_MEMORY
      then let sz = ud_NumberOfPages m d * 4096
           in if snd acc < sz then (d, sz) else acc
      else acc)"

definition FindLargestAvailableBlock :: "UEFI_MEMORY_MAP \<Rightarrow> mem \<Rightarrow> addr" where
  "FindLargestAvailableBlock mm m =
     fst (fold (\<lambda>i. largest_step m (descriptor_at mm (of_nat i)))
            [0..<unat (maxDescriptors mm)] (0, 0))"

text \<open>\<^verbatim>\<open>PrintAvailableMemoryDescriptor\<close>: the numbers printed, in order, and \<^verbatim>\<open>TotalNum\<close>.
  The loop leaves after the iteration in which the wanted count is reached, so a request for 0
  still looks at the first descriptor.\<close>

fun print_available_loop :: "UEFI_MEMORY_MAP \<Rightarrow> mem \<Rightarrow> u32 \<Rightarrow> nat list \<Rightarrow> nat list \<Rightarrow> nat list" where
  "print_available_loop mm m num [] printed = printed"
| "print_available_loop mm m num (a # as) printed =
     (let printed' = (if IsMemoryAvailable mm m (AnalysisMemoryMap mm (of_nat a))
                      then printed @ [a] else printed)
      in if unat num \<le> List.length printed' then printed'
         else print_available_loop mm m num as printed')"

definition PrintAvailableMemoryDescriptor :: "UEFI_MEMORY_MAP \<Rightarrow> mem \<Rightarrow> u32 \<Rightarrow> (nat list \<times> nat) option" where
  "PrintAvailableMemoryDescriptor mm m num =
     (if maxDescriptors mm \<le> num then None
      else let p = print_available_loop mm m num [0..<unat (maxDescriptors mm)] []
           in Some (p, List.length p))"

text \<open>\<^verbatim>\<open>PrintMemoryAttributes\<close>: the text between the parentheses.\<close>

definition attribute_names :: "(u64 \<times> string) list" where
  "attribute_names =
     [(0x1, ''Uncached''), (0x2, ''Write Combining''), (0x4, ''Write Through''), (0x8, ''Write Back''),
      (0x10, ''Uncached Export''), (0x1000, ''Write Protect''), (0x2000, ''Read Protect''),
      (0x4000, ''Execute Protect''), (0x20000, ''Read Only'')]"

definition attr_step :: "u64 \<Rightarrow> u64 \<times> string \<Rightarrow> string \<times> bool \<Rightarrow> string \<times> bool" where
  "attr_step attr b st =
     (if attr AND fst b \<noteq> 0
      then (fst st @ (if snd st then '''' else '' | '') @ snd b, False)
      else st)"

definition PrintMemoryAttributes :: "u64 \<Rightarrow> string" where
  "PrintMemoryAttributes attr =
     (let (out, first) = fold (attr_step attr) attribute_names ('''', True)
      in if first then ''None/Unknown'' else out)"

section \<open>Lemmas\<close>

lemma CheckMemoryMap_zero:
  "CheckMemoryMap mm = 0 \<longleftrightarrow>
     Buffer mm \<noteq> 0 \<and> MapSize mm \<noteq> 0 \<and> DescriptorSize mm \<noteq> 0 \<and> DescriptorVersion mm \<noteq> 0 \<and> StackAddr mm \<noteq> 0"
  by (simp add: CheckMemoryMap_def)

text \<open>The block found is the first of the largest ones.\<close>

definition block_size :: "mem \<Rightarrow> addr \<Rightarrow> u64" where
  "block_size m d = (if ud_Type m d = CONVENTIONAL_MEMORY then ud_NumberOfPages m d * 4096 else 0)"

lemma largest_fold:
  "fold (\<lambda>i. largest_step m (f i)) xs acc = (d, sz) \<Longrightarrow>
   snd acc \<le> sz \<and> (\<forall>i \<in> set xs. block_size m (f i) \<le> sz) \<and>
   ((d, sz) = acc \<or> (\<exists>i \<in> set xs. d = f i \<and> sz = block_size m (f i) \<and> 0 < sz))"
proof (induction xs arbitrary: acc)
  case (Cons x xs)
  let ?a = "largest_step m (f x) acc"
  have "snd acc \<le> snd ?a" "block_size m (f x) \<le> snd ?a"
    "?a = acc \<or> ?a = (f x, block_size m (f x)) \<and> 0 < block_size m (f x)"
    by (auto simp: largest_step_def block_size_def Let_def not_less word_gt_0)
  then show ?case using Cons.IH [of ?a] Cons.prems by (auto intro: order_trans)
qed auto

end
