(* ===== verification/Pmm.thy ===== *)
theory Pmm
  imports EfiMem
begin

text \<open>
  The physical page allocator, \<^verbatim>\<open>Kernel/mm/pmm.c\<close>, on the memory it keeps its own
  descriptors and bitmaps in.  The theory defines the state of the memory subsystem, the
  operations, the well-formedness of the descriptor array and the set of free pages it stands
  for, and states the allocator's contract as the locale \<open>page_allocator\<close>, which the
  interpretation \<open>pmm\<close> discharges for the code's model.
\<close>

unbundle bit_operations_syntax

section \<open>State\<close>

record mm_state =
  ram :: mem
  MemDescAddr :: addr
  MemDescNum :: int
  SYSTEM_MemoryMap :: UEFI_MEMORY_MAP
  cr3 :: addr
  UEFI_PML4 :: addr
  Current_VMM_Desc :: addr
  VMM_ERRORCODE :: int

definition PAGE_SIZE :: u64 where "PAGE_SIZE = 4096"

definition OS_AVAILABLE_MEMORY :: u32 where "OS_AVAILABLE_MEMORY = 1"
definition OS_UNAVAILABLE_MEMORY :: u32 where "OS_UNAVAILABLE_MEMORY = 2"

text \<open>\<^verbatim>\<open>OS_MEMORY_DESCRIPTOR\<close> is 48 bytes: \<^verbatim>\<open>Type\<close> at 0, \<^verbatim>\<open>PhysicalStart\<close> at 8,
  \<^verbatim>\<open>Address\<close> at 16, \<^verbatim>\<open>PageSize\<close> at 24 and the \<^verbatim>\<open>bitmap_t\<close> at 32.\<close>

definition sizeof_OS_MEMORY_DESCRIPTOR :: addr where "sizeof_OS_MEMORY_DESCRIPTOR = 48"

definition md :: "mm_state \<Rightarrow> nat \<Rightarrow> addr" where
  "md s i = MemDescAddr s + sizeof_OS_MEMORY_DESCRIPTOR * of_nat i"

definition md_Type :: "mem \<Rightarrow> addr \<Rightarrow> u32" where "md_Type m d = rd32 m d"
definition md_PhysicalStart :: "mem \<Rightarrow> addr \<Rightarrow> u64" where "md_PhysicalStart m d = rd64 m (d + 8)"
definition md_PageSize :: "mem \<Rightarrow> addr \<Rightarrow> u64" where "md_PageSize m d = rd64 m (d + 24)"
definition md_bitmap :: "addr \<Rightarrow> addr" where "md_bitmap d = d + 32"

section \<open>Operations\<close>

text \<open>The page at an index of a region: \<^verbatim>\<open>PhysicalStart + (start_page_index << PAGE_SHIFT)\<close>,
  the shift done in \<^verbatim>\<open>int\<close> and then converted to 64 bits.\<close>

definition page_addr :: "u64 \<Rightarrow> u32 \<Rightarrow> addr" where
  "page_addr start idx = start + scast (push_bit 12 idx)"

fun pmm_malloc_loop :: "mm_state \<Rightarrow> nat list \<Rightarrow> u32 \<Rightarrow> addr \<times> mm_state" where
  "pmm_malloc_loop s [] pages = (0, s)"
| "pmm_malloc_loop s (i # is) pages =
     (if md_Type (ram s) (md s i) = OS_AVAILABLE_MEMORY
      then let (start_page_index, m) = BitmapAllocBits (ram s) (md_bitmap (md s i)) False pages;
               s = s\<lparr>ram := m\<rparr>
           in if start_page_index \<noteq> int_m1
              then (page_addr (md_PhysicalStart (ram s) (md s i)) start_page_index, s)
              else pmm_malloc_loop s is pages
      else pmm_malloc_loop s is pages)"

definition Pmm_Malloc :: "mm_state \<Rightarrow> u32 \<Rightarrow> addr \<times> mm_state" where
  "Pmm_Malloc s pages = pmm_malloc_loop s [0..<nat (MemDescNum s)] pages"

definition in_region :: "mem \<Rightarrow> addr \<Rightarrow> addr \<Rightarrow> bool" where
  "in_region m d target \<longleftrightarrow>
     md_PhysicalStart m d \<le> target \<and>
     target < md_PhysicalStart m d + push_bit 12 (md_PageSize m d)"

fun pmm_free_loop :: "mm_state \<Rightarrow> nat list \<Rightarrow> addr \<Rightarrow> u32 \<Rightarrow> mm_state" where
  "pmm_free_loop s [] target pages = s"
| "pmm_free_loop s (i # is) target pages =
     (if md_Type (ram s) (md s i) = OS_AVAILABLE_MEMORY \<and> in_region (ram s) (md s i) target
      then let page_index = ucast (drop_bit 12 (target - md_PhysicalStart (ram s) (md s i)))
           in s\<lparr>ram := BitmapSetBits (ram s) (md_bitmap (md s i)) page_index pages False\<rparr>
      else pmm_free_loop s is target pages)"

definition Pmm_Free :: "mm_state \<Rightarrow> addr \<Rightarrow> u32 \<Rightarrow> mm_state" where
  "Pmm_Free s target pages = pmm_free_loop s [0..<nat (MemDescNum s)] target pages"

definition GetMemoryTotalSize :: "mm_state \<Rightarrow> u64" where
  "GetMemoryTotalSize s =
     fold (\<lambda>a acc. acc + md_PageSize (ram s) (md s a) * 4) [0..<nat (MemDescNum s)] 0"

text \<open>
  \<^verbatim>\<open>Init_Physical_Memory_Manager\<close>: one firmware descriptor is appended to the array, or
  merged into the last entry when that has the same type and ends where it starts.
\<close>

definition write_desc :: "mem \<Rightarrow> addr \<Rightarrow> addr \<Rightarrow> u32 \<Rightarrow> mem" where
  "write_desc m d edc ty =
     (let m = wr64 m (d + 8) (ud_PhysicalStart m edc);
          m = wr64 m (d + 16) (ud_VirtualStart m edc);
          m = wr64 m (d + 24) (ud_NumberOfPages m edc)
      in wr32 m d ty)"

definition starts_new :: "mm_state \<Rightarrow> addr \<Rightarrow> u32 \<Rightarrow> bool" where
  "starts_new s edc ty \<longleftrightarrow>
     MemDescNum s = 0 \<or>
     (let d = md s (nat (MemDescNum s - 1)) in
      md_Type (ram s) d \<noteq> ty \<or>
      ud_PhysicalStart (ram s) edc \<noteq>
        md_PhysicalStart (ram s) d + md_PageSize (ram s) d * PAGE_SIZE)"

definition init_step :: "mm_state \<Rightarrow> u32 \<Rightarrow> mm_state" where
  "init_step s a =
     (let edc = AnalysisMemoryMap (SYSTEM_MemoryMap s) a;
          d = md s (nat (MemDescNum s)); last = md s (nat (MemDescNum s - 1))
      in if ud_PhysicalStart (ram s) edc = 0 then s
         else if IsMemoryAvailable (SYSTEM_MemoryMap s) (ram s) edc
         then if starts_new s edc OS_AVAILABLE_MEMORY
              then let m = write_desc (ram s) d edc OS_AVAILABLE_MEMORY;
                       m = BitmapInit m (md_bitmap d) (d + sizeof_OS_MEMORY_DESCRIPTOR)
                             (ucast (ud_NumberOfPages m edc)) False
                   in s\<lparr>ram := m, MemDescNum := MemDescNum s + 1\<rparr>
              else let m = wr64 (ram s) (last + 24)
                             (md_PageSize (ram s) last + ud_NumberOfPages (ram s) edc);
                       m = BitmapInit m (md_bitmap last) (last + sizeof_OS_MEMORY_DESCRIPTOR)
                             (ucast (md_PageSize m last)) False
                   in s\<lparr>ram := m\<rparr>
         else if starts_new s edc OS_UNAVAILABLE_MEMORY
              then s\<lparr>ram := write_desc (ram s) d edc OS_UNAVAILABLE_MEMORY,
                     MemDescNum := MemDescNum s + 1\<rparr>
              else s\<lparr>ram := wr64 (ram s) (last + 24)
                       (md_PageSize (ram s) last + ud_NumberOfPages (ram s) edc)\<rparr>)"

definition Init_Physical_Memory_Manager :: "mm_state \<Rightarrow> u16 \<times> mm_state" where
  "Init_Physical_Memory_Manager s =
     (if CheckMemoryMap (SYSTEM_MemoryMap s) \<noteq> 0 then (1, s)
      else let s = s\<lparr>MemDescAddr := OsDescAddr (SYSTEM_MemoryMap s)\<rparr>
           in if MemDescAddr s = 0 then (2, s)
              else (0, fold (\<lambda>a s. init_step s (of_nat a))
                         [0..<unat (maxDescriptors (SYSTEM_MemoryMap s))] (s\<lparr>MemDescNum := 0\<rparr>)))"

section \<open>Page addresses\<close>

lemma scast_nonneg: "unat w < 2 ^ 31 \<Longrightarrow> (scast (w :: u32) :: u64) = ucast w"
proof -
  assume "unat w < 2 ^ 31"
  then have "uint w < 2 ^ 31" by (metis of_nat_less_iff of_nat_numeral of_nat_power uint_nat)
  then have "sint w = uint w" 
    by (simp add: sint_uint) (simp add: signed_take_bit_int_eq_self_iff uint_nonnegative order_trans [OF _ uint_nonnegative])
  then show ?thesis by (metis scast_eq ucast_eq)
qed

lemma scast_shift:
  assumes "idx < 0x80000"
  shows "(scast (push_bit 12 (idx :: u32)) :: u64) = 4096 * ucast idx"
proof -
  have i: "unat idx < 524288" using assms by (simp add: word_less_nat_alt)
  have u: "unat (push_bit 12 idx) = 4096 * unat idx"
    using i by (simp add: push_bit_eq_mult unat_word_ariths mult.commute)
  then have "(scast (push_bit 12 idx) :: u64) = ucast (push_bit 12 idx)"
    using i by (intro scast_nonneg) simp
  also have "\<dots> = 4096 * ucast idx"
    using i u by (intro unat_eqI) (simp add: unat_word_ariths)
  finally show ?thesis .
qed

section \<open>Well-formed descriptor arrays\<close>

definition bmp :: "mm_state \<Rightarrow> nat \<Rightarrow> addr" where "bmp s i = md_bitmap (md s i)"
definition bits :: "mm_state \<Rightarrow> nat \<Rightarrow> addr" where "bits s i = bm_bits (ram s) (bmp s i)"
definition nbits :: "mm_state \<Rightarrow> nat \<Rightarrow> u32" where "nbits s i = bm_size (ram s) (bmp s i)"
definition nbytes :: "mm_state \<Rightarrow> nat \<Rightarrow> nat" where "nbytes s i = bm_bytes (ram s) (bmp s i)"
definition start :: "mm_state \<Rightarrow> nat \<Rightarrow> addr" where "start s i = md_PhysicalStart (ram s) (md s i)"

definition avail :: "mm_state \<Rightarrow> nat \<Rightarrow> bool" where
  "avail s i \<longleftrightarrow> i < nat (MemDescNum s) \<and> md_Type (ram s) (md s i) = OS_AVAILABLE_MEMORY"

text \<open>The bytes the allocator keeps its own data in.\<close>

definition meta :: "mm_state \<Rightarrow> addr \<Rightarrow> bool" where
  "meta s x \<longleftrightarrow> (\<exists>i < nat (MemDescNum s). within (md s i) 48 x) \<or>
     (\<exists>i. avail s i \<and> within (bits s i) (nbytes s i) x)"

text \<open>One region: its bitmap is well formed, has one bit per page, and its pages neither wrap
  around the address space nor overflow the \<^verbatim>\<open>int\<close> the page index is shifted in.\<close>

definition region_ok :: "mm_state \<Rightarrow> nat \<Rightarrow> bool" where
  "region_ok s i \<longleftrightarrow>
     bm_ok (ram s) (bmp s i) \<and> nbits s i < 0x80000 \<and>
     md_PageSize (ram s) (md s i) = ucast (nbits s i) \<and>
     start s i \<noteq> 0 \<and> start s i AND 0xFFF = 0 \<and>
     unat (start s i) + 4096 * unat (nbits s i) < 2 ^ 64 \<and>
     (\<forall>j < nat (MemDescNum s). disj (md s j) 48 (bits s i) (nbytes s i)) \<and>
     (\<forall>x. within (start s i) (4096 * unat (nbits s i)) x \<longrightarrow> \<not> meta s x)"

definition regions_disj :: "mm_state \<Rightarrow> bool" where
  "regions_disj s \<longleftrightarrow> (\<forall>i j. avail s i \<and> avail s j \<and> i \<noteq> j \<longrightarrow>
     disj (bits s i) (nbytes s i) (bits s j) (nbytes s j) \<and>
     disj (start s i) (4096 * unat (nbits s i)) (start s j) (4096 * unat (nbits s j)))"

definition pmm_inv :: "mm_state \<Rightarrow> bool" where
  "pmm_inv s \<longleftrightarrow> (\<forall>i. avail s i \<longrightarrow> region_ok s i) \<and> regions_disj s"

definition page_of :: "mm_state \<Rightarrow> nat \<Rightarrow> u32 \<Rightarrow> addr" where
  "page_of s i idx = start s i + 4096 * ucast idx"

definition managed_pages :: "mm_state \<Rightarrow> addr set" where
  "managed_pages s = {page_of s i idx | i idx. avail s i \<and> idx < nbits s i}"

definition free_pages :: "mm_state \<Rightarrow> addr set" where
  "free_pages s = {page_of s i idx | i idx.
     avail s i \<and> idx < nbits s i \<and> \<not> BitmapGetBit (ram s) (bmp s i) idx}"

section \<open>Frame: what the descriptors say\<close>

lemma within_sub: "within (a + off) k x \<Longrightarrow> unat off + k \<le> n \<Longrightarrow> within a n x"
proof -
  assume w: "within (a + off) k x" "unat off + k \<le> n"
  have "unat (x - a) = unat ((x - (a + off)) + off)" by simp
  also have "\<dots> \<le> unat (x - (a + off)) + unat off"
    by (metis unat_plus_if_size le_refl diff_le_self)
  finally show ?thesis using w by (simp add: within_def)
qed

text \<open>A change of memory that leaves the descriptor array alone.\<close>

definition same_desc :: "mm_state \<Rightarrow> mem \<Rightarrow> bool" where
  "same_desc s m' \<longleftrightarrow>
     (\<forall>j < nat (MemDescNum s). \<forall>x. within (md s j) 48 x \<longrightarrow> m' x = ram s x)"

lemma md_upd [simp]: "md (s\<lparr>ram := m'\<rparr>) j = md s j" "bmp (s\<lparr>ram := m'\<rparr>) j = bmp s j"
  by (simp_all add: md_def bmp_def)

lemma desc_frame:
  assumes same: "same_desc s m'" and j: "j < nat (MemDescNum s)"
  shows "md_Type m' (md s j) = md_Type (ram s) (md s j)"
    "md_PageSize m' (md s j) = md_PageSize (ram s) (md s j)"
    "start (s\<lparr>ram := m'\<rparr>) j = start s j" "nbits (s\<lparr>ram := m'\<rparr>) j = nbits s j"
    "bits (s\<lparr>ram := m'\<rparr>) j = bits s j" "nbytes (s\<lparr>ram := m'\<rparr>) j = nbytes s j"
    "bm_ok m' (bmp s j) = bm_ok (ram s) (bmp s j)"
proof -
  have w: "m' x = ram s x" if "within (md s j + off) k x" "unat off + k \<le> 48" for x off k
    using same j within_sub [OF that] by (auto simp: same_desc_def)
  show "md_Type m' (md s j) = md_Type (ram s) (md s j)"
    unfolding md_Type_def using w [of 0 4] by (intro rd32_cong) simp
  show "md_PageSize m' (md s j) = md_PageSize (ram s) (md s j)"
    unfolding md_PageSize_def using w [of 24 8] by (intro rd64_cong) simp
  show "start (s\<lparr>ram := m'\<rparr>) j = start s j"
    unfolding start_def md_PhysicalStart_def md_upd using w [of 8 8] by (auto intro!: rd64_cong)
  have b: "bm_size m' (bmp s j) = bm_size (ram s) (bmp s j)"
    "bm_bits m' (bmp s j) = bm_bits (ram s) (bmp s j)"
    using w [of 32 16] by (auto simp: bmp_def md_bitmap_def intro: bm_frame)
  then show "nbits (s\<lparr>ram := m'\<rparr>) j = nbits s j" "bits (s\<lparr>ram := m'\<rparr>) j = bits s j"
    "nbytes (s\<lparr>ram := m'\<rparr>) j = nbytes s j" "bm_ok m' (bmp s j) = bm_ok (ram s) (bmp s j)"
    by (simp_all add: nbits_def bits_def nbytes_def bm_bytes_def bm_ok_def)
qed

lemma avail_less: "avail s j \<Longrightarrow> j < nat (MemDescNum s)"
  by (simp add: avail_def)

lemma avail_frame: "same_desc s m' \<Longrightarrow> avail (s\<lparr>ram := m'\<rparr>) j = avail s j"
  by (auto simp: avail_def desc_frame)

lemma meta_frame: "same_desc s m' \<Longrightarrow> meta (s\<lparr>ram := m'\<rparr>) x = meta s x"
  by (auto simp: meta_def avail_frame desc_frame avail_less)

lemma region_frame:
  "same_desc s m' \<Longrightarrow> avail s i \<Longrightarrow> region_ok (s\<lparr>ram := m'\<rparr>) i = region_ok s i"
  by (simp add: region_ok_def desc_frame avail_less meta_frame)

lemma pmm_inv_frame: "same_desc s m' \<Longrightarrow> pmm_inv (s\<lparr>ram := m'\<rparr>) = pmm_inv s"
  by (auto simp: pmm_inv_def regions_disj_def avail_frame region_frame desc_frame avail_less)

lemma page_of_frame:
  "same_desc s m' \<Longrightarrow> avail s i \<Longrightarrow> page_of (s\<lparr>ram := m'\<rparr>) i idx = page_of s i idx"
  by (simp add: page_of_def desc_frame avail_less)

lemma managed_frame: "same_desc s m' \<Longrightarrow> managed_pages (s\<lparr>ram := m'\<rparr>) = managed_pages s"
  unfolding managed_pages_def
  by (intro Collect_cong ex_cong1) (auto simp: avail_frame page_of_frame desc_frame avail_less)

text \<open>Only memory and the descriptor array matter.\<close>

lemma pmm_same:
  assumes "ram s' = ram s" "MemDescAddr s' = MemDescAddr s" "MemDescNum s' = MemDescNum s"
  shows "pmm_inv s' = pmm_inv s" "free_pages s' = free_pages s" "meta s' = meta s"
    "managed_pages s' = managed_pages s"
proof -
  have m: "md s' = md s" using assms by (simp add: md_def fun_eq_iff)
  then have f: "bmp s' = bmp s" by (simp add: bmp_def fun_eq_iff)
  have g: "start s' = start s" "nbits s' = nbits s" "bits s' = bits s" "nbytes s' = nbytes s"
    "avail s' = avail s"
    by (simp_all add: start_def nbits_def bits_def nbytes_def avail_def f m assms fun_eq_iff)
  show me: "meta s' = meta s" by (simp add: meta_def m g assms fun_eq_iff)
  show "pmm_inv s' = pmm_inv s"
    by (simp add: pmm_inv_def regions_disj_def region_ok_def m f g me assms)
  show "free_pages s' = free_pages s" "managed_pages s' = managed_pages s"
    by (simp_all add: free_pages_def managed_pages_def page_of_def m f g assms)
qed

section \<open>Pages of a region\<close>

lemma page_range:
  assumes "region_ok s i" "idx < nbits s i" "off < 4096"
  shows "unat (page_of s i idx + off) = unat (start s i) + 4096 * unat idx + unat off"
    "unat (page_of s i idx + off - start s i) = 4096 * unat idx + unat off"
    "4096 * unat idx + unat off < 4096 * unat (nbits s i)"
proof -
  have lt: "unat off < 4096" "unat idx < unat (nbits s i)"
    using assms by (simp_all add: word_less_nat_alt)
  then show b: "4096 * unat idx + unat off < 4096 * unat (nbits s i)" by linarith
  have lim: "unat (start s i) + 4096 * unat (nbits s i) < 2 ^ 64"
    using assms by (simp add: region_ok_def)
  have m: "unat (4096 * ucast idx :: addr) = 4096 * unat idx"
    using b lim by (simp add: unat_word_ariths)
  have o: "unat (4096 * ucast idx + off :: addr) = 4096 * unat idx + unat off"
    using b lim m by (simp add: unat_word_ariths)
  then show "unat (page_of s i idx + off - start s i) = 4096 * unat idx + unat off"
    by (simp add: page_of_def)
  have "unat (start s i + (4096 * ucast idx + off)) = unat (start s i) + (4096 * unat idx + unat off)"
    using b lim o by (simp add: unat_word_ariths)
  then show "unat (page_of s i idx + off) = unat (start s i) + 4096 * unat idx + unat off"
    by (simp add: page_of_def add.assoc)
qed

lemma page_byte:
  assumes "within (page_of s i idx) 4096 x"
  obtains off where "x = page_of s i idx + off" "off < 4096"
proof
  show "x = page_of s i idx + (x - page_of s i idx)" by simp
  show "x - page_of s i idx < 4096" using assms by (simp add: within_def word_less_nat_alt)
qed

lemma page_within:
  assumes "region_ok s i" "idx < nbits s i" "within (page_of s i idx) 4096 x"
  shows "within (start s i) (4096 * unat (nbits s i)) x"
  using page_byte [OF assms(3)] page_range [OF assms(1,2)] by (metis within_def)

lemma page_not_meta:
  "region_ok s i \<Longrightarrow> idx < nbits s i \<Longrightarrow> within (page_of s i idx) 4096 x \<Longrightarrow> \<not> meta s x"
  using page_within by (auto simp: region_ok_def)

lemma page_nonzero: "region_ok s i \<Longrightarrow> idx < nbits s i \<Longrightarrow> page_of s i idx \<noteq> 0"
  using page_range(1) [of s i idx 0] by (auto simp: region_ok_def unat_eq_0)

text \<open>Distinct pages do not overlap.\<close>

lemma pages_disj:
  assumes inv: "pmm_inv s" and a: "avail s i" "avail s j" "idx < nbits s i" "jdx < nbits s j"
    and x: "within (page_of s i idx) 4096 x" "within (page_of s j jdx) 4096 x"
  shows "i = j \<and> idx = jdx"
proof -
  have ok: "region_ok s i" "region_ok s j" using inv a by (auto simp: pmm_inv_def)
  have "within (start s i) (4096 * unat (nbits s i)) x" "within (start s j) (4096 * unat (nbits s j)) x"
    using page_within ok a x by auto
  then have e: "i = j" using inv a unfolding pmm_inv_def regions_disj_def disj_def by blast
  obtain o1 o2 where o: "x = page_of s i idx + o1" "o1 < 4096" "x = page_of s j jdx + o2" "o2 < 4096"
    using page_byte x by metis
  then have "4096 * unat idx + unat o1 = 4096 * unat jdx + unat o2"
    using page_range(2) [OF ok(1) a(3) o(2)] page_range(2) [OF ok(2) a(4) o(4)] e by simp
  then have "unat idx = unat jdx" using o by (simp add: word_less_nat_alt)
  then show ?thesis using e by (auto intro: unat_eqI)
qed

lemma page_of_inj:
  "pmm_inv s \<Longrightarrow> avail s i \<Longrightarrow> avail s j \<Longrightarrow> idx < nbits s i \<Longrightarrow> jdx < nbits s j \<Longrightarrow>
   page_of s i idx = page_of s j jdx \<Longrightarrow> i = j \<and> idx = jdx"
  using pages_disj [of s i j idx jdx "page_of s i idx"] by (simp add: within_self)

section \<open>Marking one page\<close>

definition mark :: "mm_state \<Rightarrow> nat \<Rightarrow> u32 \<Rightarrow> bool \<Rightarrow> mem" where
  "mark s i idx v = BitmapSetBits (ram s) (bmp s i) idx 1 v"

lemma mark_frame:
  assumes "pmm_inv s" "avail s i"
  shows "same_desc s (mark s i idx v)" "\<not> meta s x \<Longrightarrow> mark s i idx v x = ram s x"
proof -
  have ok: "region_ok s i" using assms by (simp add: pmm_inv_def)
  then have o: "mark s i idx v x = ram s x" if "\<not> within (bits s i) (nbytes s i) x" for x
    using that BitmapSetBits_other by (auto simp: mark_def region_ok_def bits_def nbytes_def)
  show "\<not> meta s x \<Longrightarrow> mark s i idx v x = ram s x" using o assms by (auto simp: meta_def)
  show "same_desc s (mark s i idx v)"
    using ok o by (fastforce simp: same_desc_def region_ok_def disj_def)
qed

lemma mark_get:
  assumes inv: "pmm_inv s" "avail s i" "avail s j" "jdx < nbits s j"
  shows "BitmapGetBit (mark s i idx v) (bmp s j) jdx =
    (if j = i \<and> jdx = idx then v else BitmapGetBit (ram s) (bmp s j) jdx)"
proof (cases "j = i")
  case True
  have "idx \<le> jdx \<and> unat jdx < unat idx + 1 \<longleftrightarrow> jdx = idx"
    by (auto simp: word_le_nat_alt intro: unat_eqI)
  then show ?thesis
    using assms True by (simp add: mark_def BitmapSetBits_get pmm_inv_def region_ok_def nbits_def)
next
  case False
  have ok: "region_ok s i" "region_ok s j" using inv by (auto simp: pmm_inv_def)
  let ?a = "bits s j + ucast (jdx div 8)"
  have "within (bits s j) (nbytes s j) ?a"
    using bm_byte_in ok inv(4) by (simp add: bits_def nbytes_def region_ok_def nbits_def)
  then have "\<not> within (bits s i) (nbytes s i) ?a"
    using inv False unfolding pmm_inv_def regions_disj_def disj_def by blast
  then have "mark s i idx v ?a = ram s ?a"
    using ok BitmapSetBits_other by (auto simp: mark_def region_ok_def bits_def nbytes_def)
  moreover have "bm_bits (mark s i idx v) (bmp s j) = bits s j"
    using desc_frame(5) [OF mark_frame(1) [OF inv(1,2)] avail_less [OF inv(3)]]
    by (simp add: bits_def)
  ultimately show ?thesis using False by (simp add: BitmapGetBit_bit bits_def)
qed

lemma mark_step:
  assumes inv: "pmm_inv s" "avail s i" "idx < nbits s i" and s': "s' = s\<lparr>ram := mark s i idx v\<rparr>"
  shows "pmm_inv s'" "meta s' x = meta s x" "managed_pages s' = managed_pages s"
    "free_pages s' = (if v then free_pages s - {page_of s i idx} else insert (page_of s i idx) (free_pages s))"
proof -
  note f = mark_frame(1) [OF inv(1,2), of idx v]
  show "pmm_inv s'" "meta s' x = meta s x" "managed_pages s' = managed_pages s"
    using inv(1) by (simp_all add: s' pmm_inv_frame f meta_frame managed_frame)
  have "p \<in> free_pages s' \<longleftrightarrow> (\<exists>j jdx. p = page_of s j jdx \<and> avail s j \<and> jdx < nbits s j \<and>
      \<not> (if j = i \<and> jdx = idx then v else BitmapGetBit (ram s) (bmp s j) jdx))" for p
    unfolding free_pages_def s' mem_Collect_eq
    by (intro ex_cong1)
      (auto simp: avail_frame [OF f] page_of_frame [OF f] desc_frame(4) [OF f avail_less] mark_get inv)
  then show "free_pages s' =
      (if v then free_pages s - {page_of s i idx} else insert (page_of s i idx) (free_pages s))"
    using page_of_inj [OF inv(1) _ inv(2) _ inv(3)] inv(2,3)
    by (auto simp: free_pages_def set_eq_iff split: if_splits) metis+
qed

section \<open>Allocation and release of one page\<close>

definition same_rest :: "mm_state \<Rightarrow> mm_state \<Rightarrow> bool" where
  "same_rest s s' \<longleftrightarrow> s' = s\<lparr>ram := ram s'\<rparr>"

lemma page_addr_page_of:
  "region_ok s i \<Longrightarrow> idx < nbits s i \<Longrightarrow> page_addr (start s i) idx = page_of s i idx"
  using scast_shift [of idx] by (auto simp: page_addr_def page_of_def region_ok_def)

lemma pmm_malloc_loop_one:
  assumes "pmm_inv s" "set is \<subseteq> {0..<nat (MemDescNum s)}"
  shows "(\<forall>i \<in> set is. avail s i \<longrightarrow> (\<forall>k < nbits s i. BitmapGetBit (ram s) (bmp s i) k)) \<and>
      pmm_malloc_loop s is 1 = (0, s) \<or>
    (\<exists>i k. avail s i \<and> k < nbits s i \<and> \<not> BitmapGetBit (ram s) (bmp s i) k \<and>
      pmm_malloc_loop s is 1 = (page_of s i k, s\<lparr>ram := mark s i k True\<rparr>))"
  using assms(2)
proof (induction "is")
  case (Cons i "is")
  show ?case
  proof (cases "avail s i")
    case True
    then have ok: "region_ok s i" using assms(1) by (simp add: pmm_inv_def)
    have ty: "md_Type (ram s) (md s i) = OS_AVAILABLE_MEMORY" using True by (simp add: avail_def)
    show ?thesis
    proof (cases rule: BitmapAllocBits_one_cases [of "ram s" "bmp s i" False])
      case (found k)
      have k: "k < nbits s i" using found by (simp add: nbits_def)
      then have "k < 0x80000" using ok by (auto simp: region_ok_def)
      then have "k \<noteq> int_m1" by auto
      moreover have "md_PhysicalStart (mark s i k True) (md s i) = start s i"
        using desc_frame(3) [OF mark_frame(1) [OF assms(1) True] avail_less [OF True], of k True]
        by (simp add: start_def)
      ultimately have "pmm_malloc_loop s (i # is) 1 =
          (page_of s i k, s\<lparr>ram := mark s i k True\<rparr>)"
        using found(4) ty page_addr_page_of [OF ok k]
        by (simp add: bmp_def mark_def)
      then show ?thesis using found k True by auto
    next
      case full
      then show ?thesis using Cons ty by (simp add: bmp_def nbits_def)
    qed
  next
    case False
    then show ?thesis using Cons by (auto simp: avail_def)
  qed
qed simp

lemma Pmm_Malloc_cases:
  assumes "pmm_inv s"
  obtains (full) "Pmm_Malloc s 1 = (0, s)" "free_pages s = {}"
    | (page) i k where "avail s i" "k < nbits s i" "page_of s i k \<in> free_pages s"
      "Pmm_Malloc s 1 = (page_of s i k, s\<lparr>ram := mark s i k True\<rparr>)"
  using pmm_malloc_loop_one [OF assms, of "[0..<nat (MemDescNum s)]"]
  by (fastforce simp: Pmm_Malloc_def free_pages_def avail_def)

lemma Pmm_Free_page:
  assumes inv: "pmm_inv s" "avail s i" "k < nbits s i"
  shows "Pmm_Free s (page_of s i k) 1 = s\<lparr>ram := mark s i k False\<rparr>"
proof -
  have reg: "in_region (ram s) (md s j) x = within (start s j) (4096 * unat (nbits s j)) x"
    if "avail s j" for j x
  proof -
    have ok: "region_ok s j" using inv(1) that by (simp add: pmm_inv_def)
    have "unat (push_bit 12 (md_PageSize (ram s) (md s j))) = 4096 * unat (nbits s j)"
      using ok by (simp add: region_ok_def push_bit_eq_mult unat_word_ariths mult.commute)
    then have "unat (start s j + push_bit 12 (md_PageSize (ram s) (md s j))) =
        unat (start s j) + 4096 * unat (nbits s j)"
      using ok by (simp add: region_ok_def unat_word_ariths)
    then show ?thesis
      unfolding in_region_def start_def [symmetric] within_def
      using ok by (auto simp: word_less_nat_alt word_le_nat_alt unat_sub_if_size word_size region_ok_def)
  qed
  have ok: "region_ok s i" using inv by (simp add: pmm_inv_def)
  have here: "within (start s i) (4096 * unat (nbits s i)) (page_of s i k)"
    using page_within [OF ok inv(3)] by (simp add: within_self)
  have other: "\<not> within (start s j) (4096 * unat (nbits s j)) (page_of s i k)"
    if "avail s j" "j \<noteq> i" for j
    using here that inv unfolding pmm_inv_def regions_disj_def disj_def by blast
  have "unat k < 2 ^ LENGTH(32)" by (rule unsigned_less)
  then have idx: "ucast (drop_bit 12 (page_of s i k - start s i)) = k"
    using page_range(2) [OF ok inv(3), of 0]
    by (intro unat_eqI) (simp add: unsigned_ucast_eq unat_div drop_bit_eq_div take_bit_nat_eq_self)
  have "pmm_free_loop s is (page_of s i k) 1 = s\<lparr>ram := mark s i k False\<rparr>"
    if "i \<in> set is" "set is \<subseteq> {0..<nat (MemDescNum s)}" for "is"
    using that
  proof (induction "is")
    case (Cons j "is")
    show ?case
    proof (cases "avail s j \<and> j = i")
      case True
      then show ?thesis using reg here idx
        by (auto simp: avail_def start_def mark_def bmp_def Let_def)
    next
      case False
      then have "\<not> (md_Type (ram s) (md s j) = OS_AVAILABLE_MEMORY \<and>
          in_region (ram s) (md s j) (page_of s i k))"
        using Cons.prems other [of j] reg [of j] inv(2) by (auto simp: avail_def)
      then show ?thesis using Cons False inv(2) by auto
    qed
  qed simp
  then show ?thesis using avail_less [OF inv(2)] by (simp add: Pmm_Free_def)
qed

section \<open>The contract of a page allocator\<close>

text \<open>
  What the page tables and the virtual memory manager rely on: \<open>managed\<close> is fixed, an allocation
  takes a page out of \<open>free\<close> and fails only when \<open>free\<close> is empty, a release puts it back, and
  neither changes a byte that is not the allocator's own (\<open>own\<close>).  Clients may write any byte
  that is not the allocator's.
\<close>

locale page_allocator =
  fixes inv :: "'s \<Rightarrow> bool"
    and free :: "'s \<Rightarrow> addr set"
    and managed :: "'s \<Rightarrow> addr set"
    and own :: "'s \<Rightarrow> addr \<Rightarrow> bool"
    and bytes :: "'s \<Rightarrow> mem"
    and upd :: "mem \<Rightarrow> 's \<Rightarrow> 's"
    and alloc :: "'s \<Rightarrow> addr \<times> 's"
    and release :: "'s \<Rightarrow> addr \<Rightarrow> 's"
  assumes free_managed: "inv s \<Longrightarrow> free s \<subseteq> managed s"
    and page_ok: "inv s \<Longrightarrow> p \<in> managed s \<Longrightarrow> p \<noteq> 0 \<and> p AND 0xFFF = 0"
    and page_own: "inv s \<Longrightarrow> p \<in> managed s \<Longrightarrow> within p 4096 x \<Longrightarrow> \<not> own s x"
    and page_disj: "inv s \<Longrightarrow> p \<in> managed s \<Longrightarrow> q \<in> managed s \<Longrightarrow> p \<noteq> q \<Longrightarrow> disj p 4096 q 4096"
    and alloc_none: "inv s \<Longrightarrow> alloc s = (0, s') \<Longrightarrow> s' = s \<and> free s = {}"
    and alloc_some: "inv s \<Longrightarrow> alloc s = (p, s') \<Longrightarrow> p \<noteq> 0 \<Longrightarrow>
      p \<in> free s \<and> free s' = free s - {p} \<and> inv s' \<and> managed s' = managed s \<and> own s' = own s \<and>
      s' = upd (bytes s') s \<and> (\<forall>x. \<not> own s x \<longrightarrow> bytes s' x = bytes s x)"
    and release: "inv s \<Longrightarrow> p \<in> managed s \<Longrightarrow> s' = release s p \<Longrightarrow>
      free s' = insert p (free s) \<and> inv s' \<and> managed s' = managed s \<and> own s' = own s \<and>
      s' = upd (bytes s') s \<and> (\<forall>x. \<not> own s x \<longrightarrow> bytes s' x = bytes s x)"
    and client_write: "inv s \<Longrightarrow> (\<And>x. own s x \<Longrightarrow> m x = bytes s x) \<Longrightarrow> s' = upd m s \<Longrightarrow>
      inv s' \<and> free s' = free s \<and> managed s' = managed s \<and> own s' = own s \<and> bytes s' = m"
    and upd_upd: "upd m (upd m' s) = upd m s"

lemma free_pages_client:
  assumes "\<And>x. meta s x \<Longrightarrow> m x = ram s x" "pmm_inv s"
  shows "same_desc s m \<and> free_pages (s\<lparr>ram := m\<rparr>) = free_pages s"
proof -
  have f: "same_desc s m" using assms(1) by (auto simp: same_desc_def meta_def)
  have "BitmapGetBit m (bmp s i) k = BitmapGetBit (ram s) (bmp s i) k"
    if "avail s i" "k < nbits s i" for i k
  proof -
    have ok: "region_ok s i" using assms(2) that by (simp add: pmm_inv_def)
    have "meta s (bits s i + ucast (k div 8))"
      using that bm_byte_in [of "ram s" "bmp s i" k] ok
      by (auto simp: meta_def bits_def nbytes_def region_ok_def nbits_def)
    moreover have "bm_bits m (bmp s i) = bits s i"
      using desc_frame(5) [OF f avail_less [OF that(1)]] by (simp add: bits_def)
    ultimately show ?thesis using assms(1) by (simp add: BitmapGetBit_bit bits_def)
  qed
  then have "free_pages (s\<lparr>ram := m\<rparr>) = free_pages s"
    unfolding free_pages_def
    by (intro Collect_cong ex_cong1)
      (auto simp: avail_frame [OF f] page_of_frame [OF f] desc_frame(4) [OF f avail_less])
  with f show ?thesis by simp
qed

lemma page_aligned: "region_ok s i \<Longrightarrow> k < nbits s i \<Longrightarrow> page_of s i k AND 0xFFF = 0"
proof -
  assume a: "region_ok s i" "k < nbits s i"
  then have "unat (start s i mod 4096) = 0" by (simp add: region_ok_def and_FFF)
  then have "unat (page_of s i k mod 4096) = 0"
    using page_range(1) [OF a, of 0] by (simp add: unat_mod mod_add_eq [symmetric])
  then show ?thesis by (simp add: and_FFF unat_eq_0)
qed

lemma managed_pagesE:
  assumes "pmm_inv s" "p \<in> managed_pages s"
  obtains i k where "avail s i" "region_ok s i" "k < nbits s i" "p = page_of s i k"
  using assms by (auto simp: managed_pages_def pmm_inv_def)

lemma mark_own:
  assumes "pmm_inv s" "avail s i" "k < nbits s i" "s' = s\<lparr>ram := mark s i k v\<rparr>"
  shows "pmm_inv s' \<and> managed_pages s' = managed_pages s \<and> meta s' = meta s \<and>
    s' = s\<lparr>ram := ram s'\<rparr> \<and> (\<forall>x. \<not> meta s x \<longrightarrow> ram s' x = ram s x)"
  using mark_step(1-3) [OF assms] mark_frame(2) [OF assms(1,2)] assms(4) by (simp add: fun_eq_iff)

lemma Pmm_Malloc_some:
  assumes "pmm_inv s" "Pmm_Malloc s 1 = (p, s')" "p \<noteq> 0"
  shows "p \<in> free_pages s \<and> free_pages s' = free_pages s - {p} \<and> pmm_inv s' \<and>
    managed_pages s' = managed_pages s \<and> meta s' = meta s \<and> s' = s\<lparr>ram := ram s'\<rparr> \<and>
    (\<forall>x. \<not> meta s x \<longrightarrow> ram s' x = ram s x)"
using assms(1)
proof (cases rule: Pmm_Malloc_cases)
  case (page i k)
  then have e: "p = page_of s i k" "s' = s\<lparr>ram := mark s i k True\<rparr>" using assms(2) by simp_all
  then show ?thesis
    using page(3) mark_step(4) [OF assms(1) page(1,2) e(2)] mark_own [OF assms(1) page(1,2) e(2)] by simp
qed (use assms in simp)

lemma Pmm_Malloc_none:
  assumes "pmm_inv s" "Pmm_Malloc s 1 = (0, s')"
  shows "s' = s \<and> free_pages s = {}"
using assms(1)
proof (cases rule: Pmm_Malloc_cases)
  case (page i k)
  then show ?thesis using assms page_nonzero [of s i k] by (simp add: pmm_inv_def)
qed (use assms in simp)

lemma Pmm_Free_managed:
  assumes "pmm_inv s" "p \<in> managed_pages s" "s' = Pmm_Free s p 1"
  shows "free_pages s' = insert p (free_pages s) \<and> pmm_inv s' \<and>
    managed_pages s' = managed_pages s \<and> meta s' = meta s \<and> s' = s\<lparr>ram := ram s'\<rparr> \<and>
    (\<forall>x. \<not> meta s x \<longrightarrow> ram s' x = ram s x)"
proof (rule managed_pagesE [OF assms(1,2)])
  fix i k assume a: "avail s i" "k < nbits s i" "p = page_of s i k"
  then have e: "s' = s\<lparr>ram := mark s i k False\<rparr>"
    using Pmm_Free_page [OF assms(1) a(1,2)] assms(3) by simp
  show ?thesis
    using mark_step(4) [OF assms(1) a(1,2) e] mark_own [OF assms(1) a(1,2) e] a(3) by simp
qed

interpretation pmm: page_allocator pmm_inv free_pages managed_pages meta ram
  "\<lambda>m s. s\<lparr>ram := m\<rparr>" "\<lambda>s. Pmm_Malloc s 1" "\<lambda>s p. Pmm_Free s p 1"
proof
  fix s s' :: mm_state and p q x m
  assume inv: "pmm_inv s"
  show "free_pages s \<subseteq> managed_pages s" by (auto simp: free_pages_def managed_pages_def)
  show "p \<in> managed_pages s \<Longrightarrow> p \<noteq> 0 \<and> p AND 0xFFF = 0"
    using page_nonzero page_aligned by (metis managed_pagesE [OF inv])
  show "p \<in> managed_pages s \<Longrightarrow> within p 4096 x \<Longrightarrow> \<not> meta s x"
    using page_not_meta by (metis managed_pagesE [OF inv])
  show "p \<in> managed_pages s \<Longrightarrow> q \<in> managed_pages s \<Longrightarrow> p \<noteq> q \<Longrightarrow> disj p 4096 q 4096"
    unfolding disj_def using pages_disj [OF inv] by (metis managed_pagesE [OF inv])
  show "(\<And>x. meta s x \<Longrightarrow> m x = ram s x) \<Longrightarrow> s' = s\<lparr>ram := m\<rparr> \<Longrightarrow>
      pmm_inv s' \<and> free_pages s' = free_pages s \<and> managed_pages s' = managed_pages s \<and>
      meta s' = meta s \<and> ram s' = m"
    using free_pages_client [of s m] inv
    by (simp add: pmm_inv_frame managed_frame meta_frame fun_eq_iff)
qed ((rule Pmm_Malloc_none Pmm_Malloc_some Pmm_Free_managed, assumption+)+, simp)

section \<open>Initialisation\<close>

lemma within_offD: "within (a + off) k x \<Longrightarrow> unat off + k \<le> n \<Longrightarrow> \<not> within a n x \<Longrightarrow> False"
  using within_sub by blast

lemma write_desc_other: "\<not> within d 32 x \<Longrightarrow> write_desc m d edc ty x = m x"
proof -
  assume w: "\<not> within d 32 x"
  have "\<not> within d 4 x" "\<not> within (d + 8) 8 x" "\<not> within (d + 16) 8 x" "\<not> within (d + 24) 8 x"
    using w within_sub [of d 0 4 x 32] within_sub [of d 8 8 x 32] within_sub [of d 16 8 x 32]
      within_sub [of d 24 8 x 32] by auto
  then show ?thesis by (simp add: write_desc_def Let_def wr32_other wr64_other)
qed

lemma write_desc_fields:
  assumes d: "disj d 32 edc 40"
  shows "md_Type (write_desc m d edc ty) d = ty"
    "md_PhysicalStart (write_desc m d edc ty) d = ud_PhysicalStart m edc"
    "md_PageSize (write_desc m d edc ty) d = ud_NumberOfPages m edc"
    "ud_NumberOfPages (write_desc m d edc ty) edc = ud_NumberOfPages m edc"
proof -
  have s: "disj (d + off) 8 (edc + eoff) 8" if "unat off + 8 \<le> 32" "unat eoff + 8 \<le> 40" for off eoff
    using disj_sub [OF disj_sym [OF disj_sub [OF d, of "d + off" 8]], of "edc + eoff" 8] that
    by (simp add: disj_sym)
  have f: "disj d 4 (d + 8) 8" "disj d 4 (d + 24) 8" "disj (d + 8) 8 (d + 16) 8"
    "disj (d + 8) 8 (d + 24) 8" "disj (d + 16) 8 (d + 24) 8" "disj (d + 24) 8 (d + 8) 8"
    "disj (d + 16) 8 (d + 8) 8"
    by (simp_all add: disj_iff within_def)
  show "md_Type (write_desc m d edc ty) d = ty" by (simp add: md_Type_def write_desc_def Let_def mem_simps)
  show "md_PhysicalStart (write_desc m d edc ty) d = ud_PhysicalStart m edc"
    using f by (simp add: md_PhysicalStart_def write_desc_def Let_def mem_simps)
  have n: "rd64 (wr64 (wr64 m (d + 8) u) (d + 16) v) (edc + 24) = rd64 m (edc + 24)" for u v
    using s [of 8 24] s [of 16 24] by (simp add: mem_simps)
  then show "md_PageSize (write_desc m d edc ty) d = ud_NumberOfPages m edc"
    using f by (simp add: md_PageSize_def write_desc_def Let_def mem_simps ud_NumberOfPages_def)
  have "\<not> within d 32 x" if "within (edc + 24) 8 x" for x
    using that d within_sub [OF that, of 40] by (auto simp: disj_def)
  then show "ud_NumberOfPages (write_desc m d edc ty) edc = ud_NumberOfPages m edc"
    unfolding ud_NumberOfPages_def by (intro rd64_cong write_desc_other)
qed

text \<open>A descriptor for a new available region: its bitmap is clear, and the bit array starts where
  the next descriptor of the array will be written.\<close>

lemma init_step_new:
  fixes s :: mm_state and a :: u32
  defines "edc \<equiv> AnalysisMemoryMap (SYSTEM_MemoryMap s) a" and "n \<equiv> nat (MemDescNum s)"
  assumes new: "ud_PhysicalStart (ram s) edc \<noteq> 0" "IsMemoryAvailable (SYSTEM_MemoryMap s) (ram s) edc"
      "starts_new s edc OS_AVAILABLE_MEMORY" "0 \<le> MemDescNum s"
    and d: "disj (md s n) 32 edc 40"
    and pages: "ud_NumberOfPages (ram s) edc < 0x80000"
  shows "let s' = init_step s a in
    MemDescNum s' = MemDescNum s + 1 \<and> MemDescAddr s' = MemDescAddr s \<and> avail s' n \<and>
    bits s' n = md s' (Suc n) \<and> bm_ok (ram s') (bmp s' n) \<and>
    start s' n = ud_PhysicalStart (ram s) edc \<and>
    nbits s' n = ucast (ud_NumberOfPages (ram s) edc) \<and>
    md_PageSize (ram s') (md s' n) = ud_NumberOfPages (ram s) edc \<and>
    (\<forall>k < nbits s' n. \<not> BitmapGetBit (ram s') (bmp s' n) k)"
proof -
  let ?d = "md s n" and ?N = "ud_NumberOfPages (ram s) edc"
  let ?m1 = "write_desc (ram s) ?d edc OS_AVAILABLE_MEMORY"
  let ?m2 = "BitmapInit ?m1 (?d + 32) (?d + 48) (ucast ?N) False"
  have e: "init_step s a = s\<lparr>ram := ?m2, MemDescNum := MemDescNum s + 1\<rparr>"
    using new write_desc_fields(4) [OF d]
    by (simp add: init_step_def Let_def edc_def [symmetric] n_def [symmetric] md_bitmap_def
        sizeof_OS_MEMORY_DESCRIPTOR_def)
  have N: "unat ?N < 524288" using pages by (simp add: word_less_nat_alt)
  have uN: "unat (ucast ?N :: u32) = unat ?N"
    using N by (simp add: unsigned_ucast_eq take_bit_nat_eq_self)
  have bs: "unat (BitmapBitSize (ucast ?N)) = (unat ?N + 7) div 8"
    using N uN unat_BitmapBitSize [of "ucast ?N"] by (simp add: word_le_nat_alt)
  have sz: "(ucast ?N :: u32) \<le> 0xFFFFFFF8" using N uN by (simp add: word_le_nat_alt)
  have far: "unat (?d - (?d + 48)) = 2 ^ 64 - 48" "unat (?d + 32 - (?d + 48)) = 2 ^ 64 - 16"
    by simp_all
  have bd: "disj (?d + 32) 16 (?d + 48) (unat (BitmapBitSize (ucast ?N)))"
  proof (cases "unat (BitmapBitSize (ucast ?N)) = 0")
    case False
    then show ?thesis using bs N by (subst disj_iff) (auto simp: within_def)
  qed (simp add: disj_def within_def)
  note B = BitmapInit_spec [OF sz bd, of ?m1 False]
  have keep: "?m2 x = ?m1 x" if "within ?d 32 x" for x
  proof -
    have w: "unat (x - ?d) < 32" using that by (simp add: within_def)
    have "\<not> within (?d + 32) 16 x"
      using w disj_iff [of 32 16 ?d "?d + 32"] that by (auto simp: within_def disj_def)
    moreover have "\<not> within (?d + 48) (unat (BitmapBitSize (ucast ?N))) x"
    proof
      assume h: "within (?d + 48) (unat (BitmapBitSize (ucast ?N))) x"
      then have "\<not> disj ?d 32 (?d + 48) 65536"
        using that bs N by (auto simp: disj_def within_def)
      moreover have "disj ?d 32 (?d + 48) 65536" by (simp add: disj_iff within_def)
      ultimately show False by contradiction
    qed
    ultimately show ?thesis using B by blast
  qed
  have sub: "within ?d 32 x" if "within (?d + off) k x" "unat off + k \<le> 32" for off k x
    using that by (rule within_sub)
  have "rd32 ?m2 ?d = rd32 ?m1 ?d" by (rule rd32_cong) (use sub [of 0 4] keep in simp)
  then have ty: "md_Type ?m2 ?d = OS_AVAILABLE_MEMORY"
    using write_desc_fields(1) [OF d] by (simp add: md_Type_def)
  have "rd64 ?m2 (?d + 8) = rd64 ?m1 (?d + 8)" by (rule rd64_cong) (use sub [of 8 8] keep in simp)
  then have ps: "md_PhysicalStart ?m2 ?d = ud_PhysicalStart (ram s) edc"
    using write_desc_fields(2) [OF d] by (simp add: md_PhysicalStart_def)
  have "rd64 ?m2 (?d + 24) = rd64 ?m1 (?d + 24)" by (rule rd64_cong) (use sub [of 24 8] keep in simp)
  then have pg: "md_PageSize ?m2 ?d = ?N"
    using write_desc_fields(3) [OF d] by (simp add: md_PageSize_def)
  have md': "md (init_step s a) j = md s j" for j by (simp add: e md_def)
  have next_md: "md s (Suc n) = ?d + 48"
    by (simp add: md_def sizeof_OS_MEMORY_DESCRIPTOR_def algebra_simps)
  have "n < nat (MemDescNum s + 1)" using new(4) by (simp add: n_def)
  then show ?thesis
    unfolding Let_def avail_def bits_def bmp_def start_def nbits_def md' next_md md_bitmap_def
    using B ty ps pg by (simp add: e md_def)
qed

text \<open>A single available region satisfies the allocator's invariant.\<close>

lemma pmm_inv_single:
  assumes one: "MemDescNum s = 1" and a: "avail s 0" and ok: "bm_ok (ram s) (bmp s 0)"
    and b: "bits s 0 = md s (Suc 0)" and n: "nbits s 0 < 0x80000"
    and ps: "md_PageSize (ram s) (md s 0) = ucast (nbits s 0)"
    and st: "start s 0 \<noteq> 0" "start s 0 AND 0xFFF = 0"
      "unat (start s 0) + 4096 * unat (nbits s 0) < 2 ^ 64"
    and out: "disj (md s 0) (48 + nbytes s 0) (start s 0) (4096 * unat (nbits s 0))"
  shows "pmm_inv s"
proof -
  have only: "avail s i \<longleftrightarrow> i = 0" for i using one a by (auto simp: avail_def)
  have md1: "md s (Suc 0) = md s 0 + 48" by (simp add: md_def sizeof_OS_MEMORY_DESCRIPTOR_def)
  have nb: "nbytes s 0 \<le> 65536"
    using ok n unat_BitmapBitSize [of "nbits s 0"]
    by (simp add: bm_ok_def nbytes_def bm_bytes_def nbits_def word_less_nat_alt)
  have "disj (md s 0) 48 (md s 0 + 48) 65536" by (simp add: disj_iff within_def)
  then have "disj (md s 0) 48 (bits s 0) (nbytes s 0)"
    using nb within_mono unfolding b md1 disj_def by blast
  moreover have "\<not> meta s x" if "within (start s 0) (4096 * unat (nbits s 0)) x" for x
  proof -
    have w: "\<not> within (md s 0) (48 + nbytes s 0) x" using out that by (auto simp: disj_def)
    then have "\<not> within (md s 0) 48 x" using within_mono by fastforce
    moreover have "\<not> within (bits s 0) (nbytes s 0) x"
      using w within_sub [of "md s 0" 48 "nbytes s 0" x "48 + nbytes s 0"] by (auto simp: b md1)
    ultimately show ?thesis using one by (auto simp: meta_def only)
  qed
  ultimately have "region_ok s 0"
    using assms by (simp add: region_ok_def)
  then show ?thesis by (simp add: pmm_inv_def regions_disj_def only)
qed

lemma init_single:
  fixes s :: mm_state
  defines "mp \<equiv> SYSTEM_MemoryMap s" and "edc \<equiv> Buffer (SYSTEM_MemoryMap s)"
  assumes map_ok: "CheckMemoryMap mp = 0" "OsDescAddr mp \<noteq> 0" "maxDescriptors mp = 1"
    and block: "IsMemoryAvailable mp (ram s) edc" "ud_PhysicalStart (ram s) edc \<noteq> 0"
      "ud_PhysicalStart (ram s) edc AND 0xFFF = 0" "ud_NumberOfPages (ram s) edc < 0x80000"
      "unat (ud_PhysicalStart (ram s) edc) + 4096 * unat (ud_NumberOfPages (ram s) edc) < 2 ^ 64"
    and place: "disj (OsDescAddr mp) 32 edc 40"
      "disj (OsDescAddr mp) (48 + (unat (ud_NumberOfPages (ram s) edc) + 7) div 8)
         (ud_PhysicalStart (ram s) edc) (4096 * unat (ud_NumberOfPages (ram s) edc))"
  shows "\<exists>s'. Init_Physical_Memory_Manager s = (0, s') \<and> pmm_inv s' \<and>
    free_pages s' = {ud_PhysicalStart (ram s) edc + 4096 * ucast k | k :: u32.
      unat k < unat (ud_NumberOfPages (ram s) edc)} \<and> managed_pages s' = free_pages s'"
proof -
  let ?s0 = "s\<lparr>MemDescAddr := OsDescAddr mp, MemDescNum := 0\<rparr>" and ?N = "ud_NumberOfPages (ram s) edc"
  let ?s' = "init_step ?s0 0"
  have an: "AnalysisMemoryMap (SYSTEM_MemoryMap ?s0) 0 = edc"
    using map_ok by (simp add: AnalysisMemoryMap_def descriptor_at_def mp_def edc_def)
  have init: "Init_Physical_Memory_Manager s = (0, ?s')"
    using map_ok by (simp add: Init_Physical_Memory_Manager_def mp_def)
  have D: "md ?s0 0 = OsDescAddr mp" by (simp add: md_def)
  have N: "unat ?N < 524288" using block by (simp add: word_less_nat_alt)
  then have uN: "unat (ucast ?N :: u32) = unat ?N"
    by (simp add: unsigned_ucast_eq take_bit_nat_eq_self)
  have r: "MemDescNum ?s' = 1 \<and> MemDescAddr ?s' = OsDescAddr mp \<and> avail ?s' 0 \<and>
    bits ?s' 0 = md ?s' 1 \<and> bm_ok (ram ?s') (bmp ?s' 0) \<and>
    start ?s' 0 = ud_PhysicalStart (ram s) edc \<and> nbits ?s' 0 = ucast ?N \<and>
    md_PageSize (ram ?s') (md ?s' 0) = ?N \<and>
    (\<forall>k < nbits ?s' 0. \<not> BitmapGetBit (ram ?s') (bmp ?s' 0) k)"
    using init_step_new [of ?s0 0] an block place D
    by (simp add: starts_new_def mp_def Let_def)
  have md0: "md ?s' 0 = OsDescAddr mp" using r by (simp add: md_def)
  have nb: "nbytes ?s' 0 = (unat ?N + 7) div 8"
    using r N uN unat_BitmapBitSize [of "ucast ?N"]
    by (simp add: nbytes_def bm_bytes_def nbits_def word_le_nat_alt)
  have lt: "(ucast ?N :: u32) < 0x80000" using uN N by (simp add: word_less_nat_alt)
  have up: "ucast (ucast ?N :: u32) = ?N" using uN by (intro unat_eqI) simp
  have inv: "pmm_inv ?s'"
    by (rule pmm_inv_single) (use r lt up block place md0 nb uN in simp_all)
  have "free_pages ?s' = {page_of ?s' 0 k | k. unat k < unat ?N}" "managed_pages ?s' = free_pages ?s'"
    using r uN by (auto simp: free_pages_def managed_pages_def avail_def word_less_nat_alt)
  then show ?thesis using init inv r by (simp add: page_of_def)
qed

text \<open>A firmware map with one block of 16 pages at 1 MiB, its descriptor at \<open>0x500\<close>.\<close>

definition demo_map :: UEFI_MEMORY_MAP where
  "demo_map = \<lparr>MapSize = 48, DescriptorSize = 48, DescriptorVersion = 1, StackAddr = 0x9000,
     Buffer = 0x500, OsDescAddr = 0x10000\<rparr>"

definition demo_boot :: mm_state where
  "demo_boot =
     \<lparr>ram = wr64 (wr64 (wr32 (\<lambda>_. 0) 0x500 7) 0x508 0x100000) 0x518 16,
      MemDescAddr = 0, MemDescNum = 0, SYSTEM_MemoryMap = demo_map, cr3 = 0x8000,
      UEFI_PML4 = 0x8000, Current_VMM_Desc = 0, VMM_ERRORCODE = 0\<rparr>"

lemma demo_boot_fields:
  "ud_Type (ram demo_boot) 0x500 = 7" "ud_PhysicalStart (ram demo_boot) 0x500 = 0x100000"
  "ud_NumberOfPages (ram demo_boot) 0x500 = 16" "SYSTEM_MemoryMap demo_boot = demo_map"
proof -
  have f: "disj (0x508 :: addr) 8 0x500 4" "disj (0x518 :: addr) 8 0x500 4"
    "disj (0x518 :: addr) 8 0x508 8"
    by (simp_all add: disj_iff within_def)
  then show "ud_Type (ram demo_boot) 0x500 = 7" "ud_PhysicalStart (ram demo_boot) 0x500 = 0x100000"
    "ud_NumberOfPages (ram demo_boot) 0x500 = 16" "SYSTEM_MemoryMap demo_boot = demo_map"
    by (simp_all add: demo_boot_def ud_Type_def ud_PhysicalStart_def ud_NumberOfPages_def mem_simps)
qed

lemma demo_map_ok:
  "maxDescriptors demo_map = 1" "CheckMemoryMap demo_map = 0" "Buffer demo_map = 0x500"
  "OsDescAddr demo_map = 0x10000" "StackAddr demo_map = 0x9000"
  by (simp_all add: maxDescriptors_def demo_map_def CheckMemoryMap_zero)

lemmas demo_block = demo_boot_fields demo_map_ok IsMemoryAvailable_def CONVENTIONAL_MEMORY_def

lemma demo_pmm:
  obtains s where "pmm_inv s" "free_pages s = {0x100000 + 4096 * ucast k | k :: u32. unat k < 16}"
    "managed_pages s = free_pages s" "0x100000 \<in> free_pages s"
proof -
  have "\<exists>s. pmm_inv s \<and> free_pages s = {0x100000 + 4096 * ucast k | k :: u32. unat k < 16} \<and>
      managed_pages s = free_pages s"
    using init_single [of demo_boot] by (simp add: demo_block disj_iff within_def) blast
  then obtain s where s: "pmm_inv s" "free_pages s = {0x100000 + 4096 * ucast k | k :: u32. unat k < 16}"
    "managed_pages s = free_pages s" by blast
  moreover have "0x100000 \<in> free_pages s" unfolding s(2) by (auto intro!: exI [of _ 0])
  ultimately show thesis by (rule that)
qed

section \<open>Properties\<close>

text \<open>On a memory map with one available block, initialisation succeeds and establishes the
  allocator's invariant, with every page of the block free.  The block must not reach into the
  descriptor and bitmap it is described by, and must lie below the 31-bit limit of the
  allocator's \<^verbatim>\<open>int\<close> page offsets.\<close>

theorem Init_Physical_Memory_Manager_single:
  fixes s :: mm_state
  defines "mp \<equiv> SYSTEM_MemoryMap s" and "edc \<equiv> Buffer (SYSTEM_MemoryMap s)"
  assumes map_ok: "CheckMemoryMap mp = 0" "OsDescAddr mp \<noteq> 0" "maxDescriptors mp = 1"
    and block: "IsMemoryAvailable mp (ram s) edc" "ud_PhysicalStart (ram s) edc \<noteq> 0"
      "ud_PhysicalStart (ram s) edc AND 0xFFF = 0" "ud_NumberOfPages (ram s) edc < 0x80000"
      "unat (ud_PhysicalStart (ram s) edc) + 4096 * unat (ud_NumberOfPages (ram s) edc) < 2 ^ 64"
    and place: "disj (OsDescAddr mp) 32 edc 40"
      "disj (OsDescAddr mp) (48 + (unat (ud_NumberOfPages (ram s) edc) + 7) div 8)
         (ud_PhysicalStart (ram s) edc) (4096 * unat (ud_NumberOfPages (ram s) edc))"
  shows "\<exists>s'. Init_Physical_Memory_Manager s = (0, s') \<and> pmm_inv s' \<and>
    free_pages s' = {ud_PhysicalStart (ram s) edc + 4096 * ucast k | k :: u32.
      unat k < unat (ud_NumberOfPages (ram s) edc)} \<and> managed_pages s' = free_pages s'"
  using assms(3-) unfolding mp_def edc_def by (rule init_single)

lemma Init_Physical_Memory_Manager_single_witness:
  "\<exists>s'. Init_Physical_Memory_Manager demo_boot = (0, s') \<and> pmm_inv s' \<and>
    free_pages s' = {0x100000 + 4096 * ucast k | k :: u32. unat k < 16} \<and>
    managed_pages s' = free_pages s'"
  using Init_Physical_Memory_Manager_single [of demo_boot] by (simp add: demo_block disj_iff within_def)

text \<open>With two regions laid out the way \<open>init_step\<close> lays them out (the bit array of
  region 0 starts at the second descriptor), the first page allocation takes the second region out
  of service: its \<^verbatim>\<open>Type\<close> field becomes 3.\<close>

theorem Pmm_Malloc_corrupts_next_descriptor:
  assumes "2 \<le> MemDescNum s" "avail s 0" "avail s 1" "bits s 0 = md s 1"
    "bm_ok (ram s) (bmp s 0)" "2 \<le> nbits s 0"
  shows "\<exists>p s'. Pmm_Malloc s 1 = (p, s') \<and> md_Type (ram s') (md s' 1) = 3 \<and> \<not> avail s' 1"
proof -
  let ?m = "ram s" and ?b = "bmp s 0" and ?a = "md s 1"
  have two: "1 < bm_size ?m ?b" "0 < bm_size ?m ?b"
    using assms(6) by (auto simp: nbits_def word_less_nat_alt word_le_nat_alt)
  have "rd32 ?m ?a = 1" using assms(3) by (simp add: avail_def md_Type_def OS_AVAILABLE_MEMORY_def)
  then have byte: "?m ?a = 1" "?m (?a + 1) = 0" "?m (?a + 2) = 0" "?m (?a + 3) = 0"
    using byte_at_le32 [of "?m ?a" "?m (?a + 1)" "?m (?a + 2)" "?m (?a + 3)"]
    by (simp_all add: rd32_def byte_at_def)
  have bit: "BitmapGetBit ?m ?b 0" "\<not> BitmapGetBit ?m ?b 1"
    using byte(1) assms(4) by (simp_all add: BitmapGetBit_bit bits_def)
  have "BitmapAllocBits ?m ?b False 1 = (1, BitmapSetBits ?m ?b 1 1 True)"
  proof (cases rule: BitmapAllocBits_one_cases [of ?m ?b False])
    case (found k)
    have "k \<noteq> 0" using found(2) bit(1) by auto
    moreover have "\<not> 1 < k" using found(3) [of 1] bit(2) by auto
    ultimately have "unat k = 1" by (simp add: word_less_nat_alt unat_eq_0 flip: unat_eq_0)
    then have "k = 1" by (intro unat_eqI) simp
    then show ?thesis using found(4) by simp
  next
    case full
    then show ?thesis using two bit(2) by auto
  qed
  moreover have m': "BitmapSetBits ?m ?b 1 1 True = ?m(?a := 3)"
    using two byte(1) assms(4) by (simp add: BitmapSetBits_def set_one_def bits_def)
  moreover have "[0..<nat (MemDescNum s)] = 0 # [1..<nat (MemDescNum s)]"
    using assms(1) by (simp add: upt_conv_Cons)
  ultimately obtain p where p: "Pmm_Malloc s 1 = (p, s\<lparr>ram := ?m(?a := 3)\<rparr>)"
    using assms(2) by (simp add: Pmm_Malloc_def avail_def bmp_def)
  have "rd32 (?m(?a := 3)) ?a = 3" using byte by (simp add: rd32_def le32_def)
  then have "md_Type (?m(?a := 3)) ?a = 3" by (simp add: md_Type_def)
  with p show ?thesis by (auto simp: avail_def OS_AVAILABLE_MEMORY_def)
qed

text \<open>Two available regions of 16 pages; the bit array of the first lies on the second descriptor.\<close>

definition demo_two :: mm_state where
  "demo_two = demo_boot\<lparr>MemDescAddr := 0x10000, MemDescNum := 2,
     ram := wr32 (wr32 (BitmapInit (\<lambda>_. 0) 0x10020 0x10030 16 False) 0x10000 1) 0x10030 1\<rparr>"

lemma Pmm_Malloc_corrupts_next_descriptor_witness:
  "\<exists>p s'. Pmm_Malloc demo_two 1 = (p, s') \<and> md_Type (ram s') (md s' 1) = 3 \<and> \<not> avail s' 1"
proof (rule Pmm_Malloc_corrupts_next_descriptor)
  let ?B = "BitmapInit (\<lambda>_. 0) 0x10020 0x10030 16 False"
  have d: "disj (0x10020 :: addr) 16 0x10030 (unat (BitmapBitSize 16))"
    by (simp add: disj_iff within_def BitmapBitSize_def)
  have dd: "disj (0x10000 :: addr) 4 0x10020 16" "disj (0x10030 :: addr) 4 0x10020 16"
    by (simp_all add: disj_iff within_def)
  have "ram demo_two x = ?B x" if "within 0x10020 16 x" for x
  proof -
    have "\<not> within 0x10000 4 x" "\<not> within 0x10030 4 x" using dd that by (auto simp: disj_def)
    then show ?thesis by (simp add: demo_two_def wr32_other)
  qed
  note f = bm_frame [of "0x10020" "ram demo_two" ?B, OF this]
  have B: "bm_ok ?B 0x10020" "bm_size ?B 0x10020 = 16" "bm_bits ?B 0x10020 = 0x10030"
    using BitmapInit_spec [of 16 _ _ "\<lambda>_. 0" False, OF _ d] by simp_all
  show "bm_ok (ram demo_two) (bmp demo_two 0)" "2 \<le> nbits demo_two 0" "bits demo_two 0 = md demo_two 1"
    using f B by (simp_all add: bm_ok_def bm_bytes_def nbits_def bits_def bmp_def md_bitmap_def md_def
        demo_two_def sizeof_OS_MEMORY_DESCRIPTOR_def)
  have "disj (0x10030 :: addr) 4 0x10000 4" by (simp add: disj_iff within_def)
  then show "avail demo_two 0" "avail demo_two 1" "2 \<le> MemDescNum demo_two"
    by (simp_all add: avail_def demo_two_def md_def md_Type_def sizeof_OS_MEMORY_DESCRIPTOR_def
        OS_AVAILABLE_MEMORY_def mem_simps)
qed



text \<open>Releasing a page that was just handed out restores the set of free pages.\<close>

theorem Pmm_Free_Malloc_roundtrip:
  "pmm_inv s \<Longrightarrow> Pmm_Malloc s 1 = (p, s') \<Longrightarrow> p \<noteq> 0 \<Longrightarrow>
   pmm_inv (Pmm_Free s' p 1) \<and> free_pages (Pmm_Free s' p 1) = free_pages s"
proof -
  assume a: "pmm_inv s" "Pmm_Malloc s 1 = (p, s')" "p \<noteq> 0"
  note n = pmm.alloc_some [OF a]
  then have "p \<in> managed_pages s'" using pmm.free_managed [OF a(1)] by auto
  then show ?thesis using n pmm.release [of s' p, OF _ _ refl] by auto
qed

lemma Pmm_Free_Malloc_roundtrip_witness:
  "\<exists>s p s'. Pmm_Malloc s 1 = (p, s') \<and> p \<noteq> 0 \<and> free_pages (Pmm_Free s' p 1) = free_pages s"
proof (rule demo_pmm)
  fix s assume s: "pmm_inv s" "0x100000 \<in> free_pages s"
  obtain p s' where r: "Pmm_Malloc s 1 = (p, s')" by fastforce
  moreover have "p \<noteq> 0" using pmm.alloc_none [OF s(1)] r s(2) by blast
  ultimately show ?thesis using Pmm_Free_Malloc_roundtrip [OF s(1) r] by blast
qed

end
