(* ===== verification/Paging.thy ===== *)
theory Paging
  imports Pmm
begin

text \<open>
  Four-level x86-64 page tables, \<^verbatim>\<open>Kernel/mm/paging.c\<close>: walking and building the tables,
  mapping, unmapping and translating addresses, and the copies of whole tables.  A table is a
  4 KiB page of memory; \<^verbatim>\<open>get_cr3\<close> is the field \<open>cr3\<close> of the state.  The flushes of
  the TLB (\<^verbatim>\<open>invlpg\<close>) have no counterpart: translation reads the tables.
\<close>

unbundle bit_operations_syntax

section \<open>Entries and indices\<close>

definition PAGE_MASK :: u64 where "PAGE_MASK = NOT 0xFFF"
definition PTE_PRESENT :: u64 where "PTE_PRESENT = 1"
definition PTE_WRITABLE :: u64 where "PTE_WRITABLE = 2"
definition PTE_USER :: u64 where "PTE_USER = 4"
definition PTE_ACCESSED :: u64 where "PTE_ACCESSED = 0x20"
definition PTE_HUGE :: u64 where "PTE_HUGE = 0x80"

definition is_present :: "u64 \<Rightarrow> bool" where "is_present e \<longleftrightarrow> e AND PTE_PRESENT \<noteq> 0"
definition is_huge :: "u64 \<Rightarrow> bool" where "is_huge e \<longleftrightarrow> e AND PTE_HUGE \<noteq> 0"

text \<open>\<^verbatim>\<open>PT_INDEX\<close>, \<^verbatim>\<open>PD_INDEX\<close>, \<^verbatim>\<open>PDPT_INDEX\<close>, \<^verbatim>\<open>PML4_INDEX\<close> are
  \<open>level_index\<close> 0, 1, 2, 3.\<close>

definition level_index :: "nat \<Rightarrow> u64 \<Rightarrow> u64" where
  "level_index n vaddr = drop_bit (12 + 9 * n) vaddr AND 0x1FF"

text \<open>The address of an entry, and the entry.\<close>

definition slot :: "addr \<Rightarrow> u64 \<Rightarrow> addr" where "slot table i = table + 8 * i"

definition pte :: "mem \<Rightarrow> addr \<Rightarrow> u64 \<Rightarrow> u64" where "pte m table i = rd64 m (slot table i)"

definition set_pte :: "mem \<Rightarrow> addr \<Rightarrow> u64 \<Rightarrow> u64 \<Rightarrow> mem" where
  "set_pte m table i v = wr64 m (slot table i) v"

section \<open>Building tables\<close>

definition malloc_page :: "mm_state \<Rightarrow> addr \<times> mm_state" where
  "malloc_page s =
     (let (p, s) = Pmm_Malloc s 1 in (p, s\<lparr>ram := memset (ram s) p 0 (unat PAGE_SIZE)\<rparr>))"

text \<open>\<^verbatim>\<open>(*dest)[i] = (*src)[i]\<close> over a list of indices.\<close>

definition copy_entries :: "mem \<Rightarrow> addr \<Rightarrow> addr \<Rightarrow> nat list \<Rightarrow> mem" where
  "copy_entries m dest src is =
     fold (\<lambda>i m. set_pte m dest (of_nat i) (pte m src (of_nat i))) is m"

definition copy_pml4_entries :: "mm_state \<Rightarrow> addr \<Rightarrow> nat \<Rightarrow> mm_state" where
  "copy_pml4_entries s dest n = s\<lparr>ram := copy_entries (ram s) dest (UEFI_PML4 s) [0..<n]\<rparr>"

text \<open>\<^verbatim>\<open>VMM_T\<close>: \<^verbatim>\<open>flag\<close> at 0, \<^verbatim>\<open>Descriptor\<close> at 8, \<^verbatim>\<open>Pml4\<close> at 16,
  \<^verbatim>\<open>AllocRecord\<close> at 24, \<^verbatim>\<open>AllocRecordNum\<close> at 32, \<^verbatim>\<open>isUser\<close> at 36.\<close>

definition vmm_Pml4 :: "mem \<Rightarrow> addr \<Rightarrow> addr" where "vmm_Pml4 m v = rd64 m (v + 16)"

definition copy_kernel_pml4_entries :: "mm_state \<Rightarrow> addr \<Rightarrow> mm_state" where
  "copy_kernel_pml4_entries s dest =
     (let src = (if Current_VMM_Desc s \<noteq> 0 \<and> vmm_Pml4 (ram s) (Current_VMM_Desc s) \<noteq> 0
                 then vmm_Pml4 (ram s) (Current_VMM_Desc s) else UEFI_PML4 s);
          m = set_pte (ram s) dest 0 (pte (ram s) src 0 OR PTE_USER OR PTE_WRITABLE)
      in s\<lparr>ram := copy_entries m dest src [256..<512]\<rparr>)"

definition split_fill :: "mem \<Rightarrow> addr \<Rightarrow> nat \<Rightarrow> u64 \<Rightarrow> u64 \<Rightarrow> u64 \<Rightarrow> mem" where
  "split_fill m sub_table level phys_base base_flags sub_page_size =
     fold (\<lambda>i m.
         let v = (phys_base + of_nat i * sub_page_size) OR base_flags;
             m = set_pte m sub_table (of_nat i) v
         in if level = 1 then set_pte m sub_table (of_nat i) (pte m sub_table (of_nat i) OR PTE_HUGE) else m)
       [0..<512] m"

definition split_huge_page :: "mm_state \<Rightarrow> addr \<Rightarrow> nat \<Rightarrow> u64 \<Rightarrow> u64 \<times> mm_state" where
  "split_huge_page s table level idx =
     (let huge_entry = pte (ram s) table idx;
          phys_base = huge_entry AND PAGE_MASK;
          base_flags = huge_entry AND NOT PAGE_MASK AND NOT PTE_HUGE
      in if level \<noteq> 2 \<and> level \<noteq> 1 then (0, s)
         else let sub_page_size = (if level = 2 then PAGE_SIZE else 0x200000);
                  (new_page, s) = malloc_page s
              in if new_page = 0 then (0, s)
                 else let m = split_fill (ram s) new_page level phys_base base_flags sub_page_size;
                          m = set_pte m table idx (new_page OR PTE_PRESENT OR PTE_WRITABLE OR PTE_USER)
                      in (new_page, s\<lparr>ram := m\<rparr>))"

text \<open>The two identical stretches of \<^verbatim>\<open>walk_page_table\<close> that put a new table into an entry;
  the flag says whether the allocation succeeded.\<close>

definition new_table :: "mm_state \<Rightarrow> addr \<Rightarrow> u64 \<Rightarrow> bool \<times> mm_state" where
  "new_table s table idx =
     (let (new_page, s) = malloc_page s
      in if new_page = 0 then (False, s)
         else (True, s\<lparr>ram := set_pte (ram s) table idx
                 (new_page OR PTE_PRESENT OR PTE_WRITABLE OR PTE_USER)\<rparr>))"

text \<open>\<^verbatim>\<open>walk_page_table\<close>, with \<open>n = 3 - level\<close>: the address of the last-level entry, or 0
  for \<^verbatim>\<open>NULL\<close>.\<close>

fun walk_level :: "nat \<Rightarrow> mm_state \<Rightarrow> addr \<Rightarrow> u64 \<Rightarrow> bool \<Rightarrow> addr \<times> mm_state" where
  "walk_level n s table vaddr create =
     (let idx = level_index n vaddr;
          (ok, s) = (if is_present (pte (ram s) table idx) then (True, s)
                     else if create then new_table s table idx else (False, s))
      in if \<not> ok then (0, s)
         else let (ok, s) = (if 0 < n \<and> is_huge (pte (ram s) table idx)
                             then if create then new_table s table idx else (False, s)
                             else (True, s))
              in if \<not> ok then (0, s)
                 else (case n of
                         0 \<Rightarrow> (slot table idx, s)
                       | Suc k \<Rightarrow> walk_level k s (pte (ram s) table idx AND PAGE_MASK) vaddr create))"

declare walk_level.simps [simp del]

definition walk_page_table :: "mm_state \<Rightarrow> addr \<Rightarrow> u64 \<Rightarrow> bool \<Rightarrow> addr \<times> mm_state" where
  "walk_page_table s pml4 virt create = walk_level 3 s pml4 virt create"

definition unmap_page :: "mm_state \<Rightarrow> addr \<Rightarrow> mm_state" where
  "unmap_page s virt =
     (let (e, s) = walk_page_table s (cr3 s) virt False
      in if e = 0 then s
         else if is_present (rd64 (ram s) e) then s\<lparr>ram := wr64 (ram s) e 0\<rparr> else s)"

definition map_page :: "mm_state \<Rightarrow> addr \<Rightarrow> addr \<Rightarrow> u64 \<Rightarrow> mm_state" where
  "map_page s virt phys flags =
     (let (e, s) = walk_page_table s (cr3 s) virt True
      in if e = 0 then s
         else s\<lparr>ram := wr64 (ram s) e (phys OR flags OR PTE_PRESENT)\<rparr>)"

definition init_paging :: "mm_state \<Rightarrow> mm_state" where
  "init_paging s =
     (let (new_pml4, s) = malloc_page s
      in if new_pml4 = 0 then s
         else (copy_pml4_entries s new_pml4 512)\<lparr>cr3 := new_pml4\<rparr>)"

section \<open>Translation\<close>

text \<open>\<^verbatim>\<open>virt_to_phys_on\<close>: \<open>n\<close> is the level left, a huge entry at level \<open>n\<close> covers
  \<open>12 + 9 n\<close> address bits.\<close>

fun translate_level :: "nat \<Rightarrow> mem \<Rightarrow> addr \<Rightarrow> u64 \<Rightarrow> u64" where
  "translate_level n m table vaddr =
     (let e = pte m table (level_index n vaddr)
      in if \<not> is_present e then 0
         else case n of
           0 \<Rightarrow> (e AND PAGE_MASK) + (vaddr AND (PAGE_SIZE - 1))
         | Suc k \<Rightarrow>
             if is_huge e then (e AND PAGE_MASK) + (vaddr AND (push_bit (12 + 9 * n) 1 - 1))
             else translate_level k m (e AND PAGE_MASK) vaddr)"

declare translate_level.simps [simp del]

definition virt_to_phys_on :: "mem \<Rightarrow> addr \<Rightarrow> u64 \<Rightarrow> u64" where
  "virt_to_phys_on m pml4 vaddr = translate_level 3 m pml4 vaddr"

definition virt_to_phys :: "mm_state \<Rightarrow> u64 \<Rightarrow> u64" where
  "virt_to_phys s virt = virt_to_phys_on (ram s) (cr3 s) virt"

section \<open>Identity mapping\<close>

text \<open>\<^verbatim>\<open>make_phys_writable\<close>: at the upper levels the bit is added when missing, and a huge
  entry or the last level ends the walk.\<close>

fun make_writable_level :: "nat \<Rightarrow> mem \<Rightarrow> addr \<Rightarrow> u64 \<Rightarrow> mem" where
  "make_writable_level n m table vaddr =
     (let idx = level_index n vaddr; e = pte m table idx;
          rw = set_pte m table idx (pte m table idx OR PTE_WRITABLE)
      in if \<not> is_present e then m
         else case n of
           0 \<Rightarrow> rw
         | Suc k \<Rightarrow>
             if n < 3 \<and> is_huge e then rw
             else make_writable_level k (if e AND PTE_WRITABLE = 0 then rw else m) (e AND PAGE_MASK) vaddr)"

declare make_writable_level.simps [simp del]

definition make_phys_writable :: "mm_state \<Rightarrow> addr \<Rightarrow> mm_state" where
  "make_phys_writable s phys = s\<lparr>ram := make_writable_level 3 (ram s) (cr3 s) phys\<rparr>"

definition identity_step :: "addr \<Rightarrow> addr \<Rightarrow> nat \<Rightarrow> mem \<Rightarrow> mem" where
  "identity_step old_pdpt new_pdpt i m =
     (let e = pte m old_pdpt (of_nat i)
      in if is_present e
         then set_pte m new_pdpt (of_nat i)
                (if is_huge e then e OR PTE_WRITABLE
                 else push_bit 30 (of_nat i) OR PTE_PRESENT OR PTE_WRITABLE OR PTE_HUGE OR PTE_ACCESSED)
         else m)"

definition replace_identity_pdpt :: "mm_state \<Rightarrow> addr \<Rightarrow> mm_state" where
  "replace_identity_pdpt s pml4 =
     (let pml4e = pte (ram s) pml4 0
      in if \<not> is_present pml4e then s
         else let old_pdpt = pml4e AND PAGE_MASK;
                  (new_pdpt, s) = malloc_page s;
                  m = fold (identity_step old_pdpt new_pdpt) [0..<512] (ram s);
                  m = set_pte m pml4 0 (new_pdpt OR (pml4e AND NOT PAGE_MASK) OR PTE_WRITABLE)
              in s\<lparr>ram := m\<rparr>)"

section \<open>Slots of a table\<close>

lemma level_index_less: "level_index n v < 512"
proof -
  have "(0x1FF :: u64) = mask 9" by (simp add: mask_eq_exp_minus_1)
  then have "level_index n v = take_bit 9 (drop_bit (12 + 9 * n) v)"
    by (simp add: level_index_def take_bit_eq_mask)
  then have "unat (level_index n v) < 2 ^ 9"
    using take_bit_nat_less_exp [of 9 "unat (drop_bit (12 + 9 * n) v)"] by (simp add: unsigned_take_bit_eq)
  then show ?thesis by (simp add: word_less_nat_alt)
qed

lemma slot_off: "i < 512 \<Longrightarrow> unat (slot t i - t) = 8 * unat i"
proof -
  assume "i < 512"
  then have "unat i < 512" by (simp add: word_less_nat_alt)
  then show ?thesis by (simp add: slot_def unat_word_ariths)
qed

lemma slot_within: "i < 512 \<Longrightarrow> within (slot t i) 8 x \<Longrightarrow> within t 4096 x"
proof -
  assume a: "i < 512" "within (slot t i) 8 x"
  then have "unat i < 512" by (simp add: word_less_nat_alt)
  then show ?thesis
    using within_sub [of t "slot t i - t" 8 x 4096] slot_off [OF a(1), of t] a(2) by simp
qed

lemma slot_disj: "i < 512 \<Longrightarrow> j < 512 \<Longrightarrow> i \<noteq> j \<Longrightarrow> disj (slot t i) 8 (slot t j) 8"
proof -
  assume a: "i < 512" "j < 512" "i \<noteq> j"
  then have u: "unat i < 512" "unat j < 512" "unat i \<noteq> unat j"
    by (auto simp: word_less_nat_alt intro: unat_eqI)
  have e: "slot t j - slot t i = 8 * j - 8 * i" "slot t i - slot t j = 8 * i - 8 * j"
    by (simp_all add: slot_def)
  have "unat (8 * i) = 8 * unat i" "unat (8 * j) = 8 * unat j"
    using u by (simp_all add: unat_word_ariths)
  then have "unat (slot t j - slot t i) \<ge> 8" "unat (slot t i - slot t j) \<ge> 8"
    unfolding e using u by (auto simp: unat_sub_if_size word_size)
  then show ?thesis by (simp add: disj_iff within_def)
qed

lemma pte_cong:
  "i < 512 \<Longrightarrow> (\<And>x. within t 4096 x \<Longrightarrow> m' x = m x) \<Longrightarrow> pte m' t i = pte m t i"
  unfolding pte_def by (rule rd64_cong) (simp add: slot_within)

lemma set_pte_other: "i < 512 \<Longrightarrow> \<not> within t 4096 x \<Longrightarrow> set_pte m t i v x = m x"
  unfolding set_pte_def using slot_within [of i t x] wr64_other by blast

lemma pte_set_pte:
  "i < 512 \<Longrightarrow> j < 512 \<Longrightarrow> pte (set_pte m t i v) t j = (if j = i then v else pte m t j)"
  by (simp add: pte_def set_pte_def mem_simps slot_disj)

lemma pte_set_pte_disj:
  "i < 512 \<Longrightarrow> j < 512 \<Longrightarrow> disj t 4096 u 4096 \<Longrightarrow> pte (set_pte m t i v) u j = pte m u j"
  by (rule pte_cong) (auto intro: set_pte_other simp: disj_def)

section \<open>Walking\<close>

text \<open>The tables on the path to an address, as far as it goes, and the address of the last-level
  entry when it goes all the way.\<close>

fun path_tables :: "nat \<Rightarrow> mem \<Rightarrow> addr \<Rightarrow> u64 \<Rightarrow> addr list" where
  "path_tables n m table v =
     table # (case n of
        0 \<Rightarrow> []
      | Suc k \<Rightarrow> let e = pte m table (level_index n v)
                in if is_present e \<and> \<not> is_huge e then path_tables k m (e AND PAGE_MASK) v else [])"

fun resolve :: "nat \<Rightarrow> mem \<Rightarrow> addr \<Rightarrow> u64 \<Rightarrow> addr option" where
  "resolve n m table v =
     (let e = pte m table (level_index n v)
      in if \<not> is_present e then None
         else case n of
           0 \<Rightarrow> Some (slot table (level_index 0 v))
         | Suc k \<Rightarrow> if is_huge e then None else resolve k m (e AND PAGE_MASK) v)"

declare path_tables.simps [simp del] resolve.simps [simp del]

definition apart :: "addr list \<Rightarrow> bool" where
  "apart ts \<longleftrightarrow> distinct ts \<and> (\<forall>t \<in> set ts. \<forall>u \<in> set ts. t \<noteq> u \<longrightarrow> disj t 4096 u 4096)"

text \<open>The tables of the path are aligned pages that do not overlap one another, the allocator's
  data or a free page.\<close>

definition path_ok :: "nat \<Rightarrow> mm_state \<Rightarrow> addr \<Rightarrow> u64 \<Rightarrow> bool" where
  "path_ok n s table v \<longleftrightarrow>
     apart (path_tables n (ram s) table v) \<and>
     (\<forall>t \<in> set (path_tables n (ram s) table v).
        t \<noteq> 0 \<and> t AND 0xFFF = 0 \<and>
        (\<forall>x. within t 4096 x \<longrightarrow> \<not> meta s x) \<and> (\<forall>p \<in> free_pages s. disj t 4096 p 4096))"

lemma resolve_walk:
  "resolve n (ram s) t v = Some e \<Longrightarrow> walk_level n s t v create = (e, s)"
proof (induction n arbitrary: t)
  case 0
  then show ?case by (auto simp: resolve.simps [of 0] walk_level.simps [of 0] Let_def split: if_splits)
next
  case (Suc k)
  then show ?case
    by (auto simp: resolve.simps [of "Suc k"] walk_level.simps [of "Suc k"] Let_def split: if_splits)
qed

lemma resolve_translate:
  "resolve n m t v = Some e \<Longrightarrow>
   translate_level n m t v =
     (if is_present (rd64 m e) then (rd64 m e AND PAGE_MASK) + (v AND 0xFFF) else 0)"
proof (induction n arbitrary: t)
  case 0
  then show ?case
    by (auto simp: resolve.simps [of 0] translate_level.simps [of 0] Let_def pte_def PAGE_SIZE_def
        split: if_splits)
next
  case (Suc k)
  then show ?case
    by (auto simp: resolve.simps [of "Suc k"] translate_level.simps [of "Suc k"] Let_def split: if_splits)
qed

lemma resolve_in_path:
  "resolve n m t v = Some e \<Longrightarrow>
   \<exists>u. e = slot u (level_index 0 v) \<and> last (path_tables n m t v) = u \<and>
       length (path_tables n m t v) = Suc n"
proof (induction n arbitrary: t)
  case 0
  then show ?case by (auto simp: resolve.simps [of 0] path_tables.simps [of 0] Let_def split: if_splits)
next
  case (Suc k)
  let ?e = "pte m t (level_index (Suc k) v)"
  have "resolve k m (?e AND PAGE_MASK) v = Some e" "is_present ?e" "\<not> is_huge ?e"
    using Suc.prems by (auto simp: resolve.simps [of "Suc k"] Let_def split: if_splits)
  then show ?case
    using Suc.IH [of "?e AND PAGE_MASK"] by (auto simp: path_tables.simps [of "Suc k"] Let_def)
qed

lemma path_hd: "t \<in> set (path_tables n m t v)"
  by (simp add: path_tables.simps [of n])

text \<open>Only the entries of the path decide the path: a change elsewhere leaves it alone.\<close>

lemma path_cong:
  assumes "\<And>t x. t \<in> set (path_tables n m table v) \<Longrightarrow> within t 4096 x \<Longrightarrow> m' x = m x"
  shows "path_tables n m' table v = path_tables n m table v \<and> resolve n m' table v = resolve n m table v"
  using assms
proof (induction n arbitrary: table)
  case 0
  then have "pte m' table (level_index 0 v) = pte m table (level_index 0 v)"
    by (intro pte_cong level_index_less) (simp add: path_tables.simps [of 0])
  then show ?case by (simp add: path_tables.simps [of 0] resolve.simps [of 0] Let_def)
next
  case (Suc k)
  let ?e = "pte m table (level_index (Suc k) v)"
  have e: "pte m' table (level_index (Suc k) v) = ?e"
    by (intro pte_cong level_index_less) (use Suc.prems path_hd in blast)
  show ?case
  proof (cases "is_present ?e \<and> \<not> is_huge ?e")
    case True
    then have "path_tables k m' (?e AND PAGE_MASK) v = path_tables k m (?e AND PAGE_MASK) v \<and>
        resolve k m' (?e AND PAGE_MASK) v = resolve k m (?e AND PAGE_MASK) v"
      by (intro Suc.IH) (rule Suc.prems, auto simp: path_tables.simps [of "Suc k"] Let_def)
    with True e show ?thesis
      by (simp add: path_tables.simps [of "Suc k"] resolve.simps [of "Suc k"] Let_def)
  next
    case False
    with e show ?thesis
      by (auto simp: path_tables.simps [of "Suc k"] resolve.simps [of "Suc k"] Let_def)
  qed
qed

section \<open>Entries for new tables\<close>

lemma page_mask_split: "p AND 0xFFF = 0 \<Longrightarrow> p AND PAGE_MASK = p"
proof -
  assume "p AND 0xFFF = 0"
  moreover have "p = (p AND 0xFFF) OR (p AND NOT 0xFFF)"
    by (simp flip: bit.conj_disj_distrib)
  ultimately show ?thesis by (simp add: PAGE_MASK_def)
qed

lemma mask_or_flags:
  "p AND 0xFFF = 0 \<Longrightarrow> f AND PAGE_MASK = 0 \<Longrightarrow> (p OR f) AND PAGE_MASK = p"
  by (simp add: bit.conj_disj_distrib2 page_mask_split)

lemma aligned_and: "p AND 0xFFF = 0 \<Longrightarrow> 0xFFF AND c = c \<Longrightarrow> p AND c = 0" for p c :: u64
proof -
  assume a: "p AND 0xFFF = 0" "0xFFF AND c = c"
  have "p AND c = p AND (0xFFF AND c)" by (simp only: a(2))
  also have "\<dots> = (p AND 0xFFF) AND c" by (simp only: and.assoc)
  finally show ?thesis by (simp only: a(1)) simp
qed

definition table_entry :: "addr \<Rightarrow> u64" where
  "table_entry p = p OR PTE_PRESENT OR PTE_WRITABLE OR PTE_USER"

lemma table_entry:
  assumes "p AND 0xFFF = 0"
  shows "is_present (table_entry p)" "\<not> is_huge (table_entry p)" "table_entry p AND PAGE_MASK = p"
proof -
  have e: "table_entry p = p OR 7"
    by (simp add: table_entry_def PTE_PRESENT_def PTE_WRITABLE_def PTE_USER_def or.assoc)
  show "table_entry p AND PAGE_MASK = p"
    unfolding e by (rule mask_or_flags [OF assms]) (simp add: PAGE_MASK_def)
  show "is_present (table_entry p)" "\<not> is_huge (table_entry p)"
    using aligned_and [OF assms, of 1] aligned_and [OF assms, of "0x80"]
    by (simp_all add: e is_present_def is_huge_def PTE_PRESENT_def PTE_HUGE_def bit.conj_disj_distrib2)
qed

text \<open>What a step of the walk leaves alone: everything outside the allocator's data, the tables of
  the path and the free pages.\<close>

definition keeps :: "mm_state \<Rightarrow> mm_state \<Rightarrow> (addr \<Rightarrow> bool) \<Rightarrow> bool" where
  "keeps s s' W \<longleftrightarrow>
     pmm_inv s' \<and> free_pages s' \<subseteq> free_pages s \<and> managed_pages s' = managed_pages s \<and>
     meta s' = meta s \<and> s' = s\<lparr>ram := ram s'\<rparr> \<and>
     (\<forall>x. \<not> meta s x \<and> \<not> W x \<and> (\<forall>p \<in> free_pages s. \<not> within p 4096 x) \<longrightarrow> ram s' x = ram s x)"

lemma keeps_trans:
  "keeps s s1 W \<Longrightarrow> keeps s1 s2 W' \<Longrightarrow>
   (\<And>x. W' x \<Longrightarrow> W x \<or> (\<exists>p \<in> free_pages s. within p 4096 x)) \<Longrightarrow> keeps s s2 W"
proof -
  assume k: "keeps s s1 W" "keeps s1 s2 W'"
    and w: "\<And>x. W' x \<Longrightarrow> W x \<or> (\<exists>p \<in> free_pages s. within p 4096 x)"
  have "s2 = s\<lparr>ram := ram s2\<rparr>"
    using k unfolding keeps_def by (metis mm_state.surjective mm_state.update_convs(1))
  moreover have "ram s2 x = ram s x"
    if "\<not> meta s x" "\<not> W x" "\<forall>p \<in> free_pages s. \<not> within p 4096 x" for x
  proof -
    have "ram s2 x = ram s1 x" using k w [of x] that unfolding keeps_def by (metis subsetD)
    also have "\<dots> = ram s x" using k(1) that unfolding keeps_def by blast
    finally show ?thesis .
  qed
  moreover have "pmm_inv s2" "free_pages s2 \<subseteq> free_pages s" using k unfolding keeps_def by (meson order_trans)+
  moreover have "managed_pages s2 = managed_pages s" "meta s2 = meta s" using k unfolding keeps_def by metis+
  ultimately show ?thesis unfolding keeps_def by blast
qed

lemma keeps_rest:
  assumes "keeps s s' W"
  shows "cr3 s' = cr3 s" "Current_VMM_Desc s' = Current_VMM_Desc s"
proof -
  have e: "s' = s\<lparr>ram := ram s'\<rparr>" using assms by (simp add: keeps_def)
  show "cr3 s' = cr3 s" by (subst e) simp
  show "Current_VMM_Desc s' = Current_VMM_Desc s" by (subst e) simp
qed

lemma keeps_refl: "pmm_inv s \<Longrightarrow> keeps s s W"
  by (simp add: keeps_def)

lemma malloc_page_some:
  assumes inv: "pmm_inv s" and m: "malloc_page s = (p, s1)" "p \<noteq> 0"
  shows "p \<in> free_pages s" "free_pages s1 = free_pages s - {p}" "keeps s s1 (\<lambda>_. False)"
    "within p 4096 x \<Longrightarrow> ram s1 x = 0" "p AND 0xFFF = 0"
    "\<not> meta s x \<Longrightarrow> \<not> within p 4096 x \<Longrightarrow> ram s1 x = ram s x"
proof -
  obtain s0 where a: "Pmm_Malloc s 1 = (p, s0)" and s1: "s1 = s0\<lparr>ram := memset (ram s0) p 0 4096\<rparr>"
    using m(1) by (auto simp: malloc_page_def PAGE_SIZE_def split: prod.splits)
  note n = pmm.alloc_some [OF inv a m(2)]
  have pm: "p \<in> managed_pages s0" using n pmm.free_managed [OF inv] by auto
  have "memset (ram s0) p 0 4096 x = ram s0 x" if "meta s0 x" for x
    using pmm.page_own [of s0 p x] n pm that by (auto simp: memset_apply)
  then have c: "pmm_inv s1 \<and> free_pages s1 = free_pages s0 \<and> managed_pages s1 = managed_pages s0 \<and>
      meta s1 = meta s0 \<and> ram s1 = memset (ram s0) p 0 4096"
    using n s1 by (intro pmm.client_write) auto
  show "p \<in> free_pages s" "free_pages s1 = free_pages s - {p}" using n c by auto
  show "within p 4096 x \<Longrightarrow> ram s1 x = 0" using c by (simp add: memset_apply)
  show o: "\<not> meta s x \<Longrightarrow> \<not> within p 4096 x \<Longrightarrow> ram s1 x = ram s x" for x
    using c n by (simp add: memset_apply)
  show "p AND 0xFFF = 0" using pmm.page_ok [of s0 p] n pm by simp
  have "s1 = s\<lparr>ram := ram s1\<rparr>" using s1 n by (metis mm_state.update_convs(1) mm_state.surjective)
  then show "keeps s s1 (\<lambda>_. False)"
    using n c o unfolding keeps_def by auto
qed

lemma malloc_page_total: "pmm_inv s \<Longrightarrow> free_pages s \<noteq> {} \<Longrightarrow> fst (malloc_page s) \<noteq> 0"
  using pmm.alloc_none by (force simp: malloc_page_def split: prod.splits)

text \<open>Putting a fresh table into an entry of a table that is not the allocator's.\<close>

lemma new_table_spec:
  assumes inv: "pmm_inv s" and i: "i < 512" and n: "new_table s t i = (True, s')"
    and own: "\<And>x. within t 4096 x \<Longrightarrow> \<not> meta s x" and fr: "\<And>p. p \<in> free_pages s \<Longrightarrow> disj t 4096 p 4096"
  obtains p where "p \<in> free_pages s" "free_pages s' = free_pages s - {p}" "p \<noteq> 0"
    "pte (ram s') t i = table_entry p" "keeps s s' (within t 4096)" "p AND 0xFFF = 0" "\<And>x. within p 4096 x \<Longrightarrow> ram s' x = 0"
    "\<And>q. q \<in> free_pages s' \<Longrightarrow> disj p 4096 q 4096" "\<And>x. within p 4096 x \<Longrightarrow> \<not> meta s' x"
proof -
  obtain p s1 where m: "malloc_page s = (p, s1)" "p \<noteq> 0"
    and s': "s' = s1\<lparr>ram := set_pte (ram s1) t i (table_entry p)\<rparr>"
    using n by (auto simp: new_table_def table_entry_def split: prod.splits if_splits)
  note mp = malloc_page_some [OF inv m]
  have k1: "pmm_inv s1" "meta s1 = meta s" "managed_pages s1 = managed_pages s"
    using mp(3) by (auto simp: keeps_def)
  have "set_pte (ram s1) t i (table_entry p) x = ram s1 x" if "meta s1 x" for x
    using set_pte_other [OF i, of t x] own [of x] that k1 by auto
  then have c: "pmm_inv s' \<and> free_pages s' = free_pages s1 \<and> managed_pages s' = managed_pages s1 \<and>
      meta s' = meta s1 \<and> ram s' = set_pte (ram s1) t i (table_entry p)"
    using k1 s' by (intro pmm.client_write) auto
  have "keeps s1 s' (within t 4096)"
    unfolding keeps_def using c by (auto simp: s' set_pte_other i)
  moreover have "keeps s s1 (within t 4096)" using mp(3) unfolding keeps_def by blast
  ultimately have k: "keeps s s' (within t 4096)" using keeps_trans by blast
  have dp: "disj t 4096 p 4096" using fr mp(1) by blast
  have z: "ram s' x = 0" if "within p 4096 x" for x
  proof -
    have "\<not> within t 4096 x" using dp that by (auto simp: disj_def)
    then show ?thesis using c mp(4) [OF that] by (simp add: set_pte_other [OF i])
  qed
  have pm: "p \<in> managed_pages s'" using mp(1) c k1 pmm.free_managed [OF inv] by auto
  show ?thesis
  proof (rule that [of p])
    show "p \<in> free_pages s" "p AND 0xFFF = 0" "keeps s s' (within t 4096)" by (fact mp k)+
    show "free_pages s' = free_pages s - {p}" "p \<noteq> 0" using c mp(2) m by simp_all
    show "pte (ram s') t i = table_entry p" using c i by (simp add: pte_set_pte)
    show "within p 4096 x \<Longrightarrow> ram s' x = 0" for x by (fact z)
    show "within p 4096 x \<Longrightarrow> \<not> meta s' x" for x using pmm.page_own [of s' p x] c pm by simp
    show "q \<in> free_pages s' \<Longrightarrow> disj p 4096 q 4096" for q
      using pmm.page_disj [of s' p q] pmm.free_managed [of s'] c pm mp(2) by auto
  qed
qed

lemma zero_page: "(\<And>x. within p 4096 x \<Longrightarrow> m x = 0) \<Longrightarrow> i < 512 \<Longrightarrow> pte m p i = 0"
proof -
  assume "\<And>x. within p 4096 x \<Longrightarrow> m x = 0" "i < 512"
  then have "pte m p i = pte (\<lambda>_. 0) p i" by (intro pte_cong) auto
  also have "\<dots> = 0" by (simp add: pte_def rd64_def rd32_def le64_def le32_def)
  finally show ?thesis .
qed

lemma path_fresh:
  assumes "\<And>x. within p 4096 x \<Longrightarrow> ram s x = 0" "\<And>q. q \<in> free_pages s \<Longrightarrow> disj p 4096 q 4096"
    "\<And>x. within p 4096 x \<Longrightarrow> \<not> meta s x" "p \<noteq> 0" "p AND 0xFFF = 0"
  shows "path_tables n (ram s) p v = [p]" "path_ok n s p v"
proof -
  have "pte (ram s) p (level_index n v) = 0" by (rule zero_page [OF assms(1) level_index_less])
  then show "path_tables n (ram s) p v = [p]"
    by (auto simp: path_tables.simps [of n] Let_def is_present_def split: nat.splits)
  then show "path_ok n s p v" using assms by (simp add: path_ok_def apart_def)
qed

lemma path_tail:
  assumes "is_present (pte (ram s) t (level_index (Suc k) v))" "\<not> is_huge (pte (ram s) t (level_index (Suc k) v))"
  defines "u \<equiv> pte (ram s) t (level_index (Suc k) v) AND PAGE_MASK"
  shows "path_tables (Suc k) (ram s) t v = t # path_tables k (ram s) u v"
    "resolve (Suc k) (ram s) t v = resolve k (ram s) u v"
  using assms by (simp_all add: path_tables.simps [of "Suc k"] resolve.simps [of "Suc k"] Let_def)

lemma path_ok_hd:
  assumes "path_ok n s t v"
  shows "within t 4096 x \<Longrightarrow> \<not> meta s x" "p \<in> free_pages s \<Longrightarrow> disj t 4096 p 4096" "t \<noteq> 0" "t AND 0xFFF = 0"
  using assms path_hd [of t n "ram s" v] by (auto simp: path_ok_def)

lemma slot_nonzero: "t \<noteq> 0 \<Longrightarrow> t AND 0xFFF = 0 \<Longrightarrow> i < 512 \<Longrightarrow> slot t i \<noteq> 0"
proof
  assume t: "t \<noteq> 0" "t AND 0xFFF = 0" and i: "i < 512" and z: "slot t i = 0"
  have u: "unat (8 * i) = 8 * unat i" "unat i < 512"
    using i by (simp_all add: word_less_nat_alt unat_word_ariths)
  have tm: "unat t mod 4096 = 0" using t(2) by (simp add: and_FFF unat_mod flip: unat_eq_0)
  have m: "(unat t + 8 * unat i) mod 2 ^ 64 = 0"
    using z u(1) by (simp add: slot_def unat_word_ariths flip: unat_eq_0)
  have "unat t < 2 ^ LENGTH(64)" by (rule unsigned_less)
  then have lt: "unat t < 2 ^ 64" by simp
  have "0 < unat t" using t(1) by (simp add: unat_gt_0)
  obtain k where k: "unat t + 8 * unat i = 2 ^ 64 * k" using m by (auto elim!: dvdE)
  have "k \<noteq> 0" using k \<open>0 < unat t\<close> by (intro notI) simp
  moreover have "k < 2"
  proof (rule ccontr)
    assume "\<not> k < 2"
    then have "2 ^ 64 * 2 \<le> 2 ^ 64 * k" by (intro mult_left_mono) simp_all
    then show False using k lt u(2) by simp
  qed
  ultimately have e: "unat t + 8 * unat i = 2 ^ 64" using k by (cases "k = 1") auto
  have "4096 dvd unat t" using tm by (simp add: mod_0_imp_dvd)
  moreover have "4096 dvd unat t + 8 * unat i" unfolding e by simp
  ultimately have "4096 dvd 8 * unat i" by (simp add: dvd_add_right_iff)
  then have "8 * unat i = 0" using u(2) dvd_imp_le [of 4096 "8 * unat i"] by linarith
  then show False using e lt by simp
qed

abbreviation on_path :: "nat \<Rightarrow> mm_state \<Rightarrow> addr \<Rightarrow> u64 \<Rightarrow> addr \<Rightarrow> bool" where
  "on_path n s t v \<equiv> \<lambda>x. \<exists>u \<in> set (path_tables n (ram s) t v). within u 4096 x"

text \<open>One level of the walk leaves a present entry that leads on, in a state \<open>s1\<close> with the same
  guarantees.\<close>

lemma card_remove_le: "card A \<le> Suc (card (A - {p}))"
  by (cases "card A") (auto simp: card_Diff_singleton_if)

lemma walk_step:
  assumes inv: "pmm_inv s" and ok: "path_ok n s t v" and fr: "free_pages s \<noteq> {}"
  obtains s1 where "keeps s s1 (within t 4096)" "path_ok n s1 t v"
    "is_present (pte (ram s1) t (level_index n v))" "0 < n \<Longrightarrow> \<not> is_huge (pte (ram s1) t (level_index n v))"
    "set (path_tables n (ram s1) t v) \<subseteq> set (path_tables n (ram s) t v) \<union> free_pages s"
    "card (free_pages s) \<le> Suc (card (free_pages s1))"
    "walk_level n s t v True = (case n of 0 \<Rightarrow> (slot t (level_index n v), s1)
       | Suc k \<Rightarrow> walk_level k s1 (pte (ram s1) t (level_index n v) AND PAGE_MASK) v True)"
proof -
  let ?i = "level_index n v" and ?e = "pte (ram s) t (level_index n v)"
  show thesis
  proof (cases "is_present ?e \<and> (0 < n \<longrightarrow> \<not> is_huge ?e)")
    case True
    then have "walk_level n s t v True =
        (case n of 0 \<Rightarrow> (slot t ?i, s) | Suc k \<Rightarrow> walk_level k s (?e AND PAGE_MASK) v True)"
      by (subst walk_level.simps) (auto simp: Let_def)
    then show thesis using that [of s] True ok by (simp add: keeps_refl inv)
  next
    case False
    obtain s1 where n: "new_table s t ?i = (True, s1)"
      using malloc_page_total [OF inv fr] by (cases "malloc_page s") (auto simp: new_table_def)
    obtain p where p: "p \<in> free_pages s" "pte (ram s1) t ?i = table_entry p" "p AND 0xFFF = 0" "p \<noteq> 0"
      "keeps s s1 (within t 4096)" "\<And>x. within p 4096 x \<Longrightarrow> ram s1 x = 0"
      "\<And>q. q \<in> free_pages s1 \<Longrightarrow> disj p 4096 q 4096" "\<And>x. within p 4096 x \<Longrightarrow> \<not> meta s1 x"
      "free_pages s1 = free_pages s - {p}"
      using new_table_spec [OF inv level_index_less n] path_ok_hd [OF ok] by metis
    note te = table_entry [OF p(3)]
    have "walk_level n s t v True = (case n of 0 \<Rightarrow> (slot t ?i, s1)
       | Suc k \<Rightarrow> walk_level k s1 (pte (ram s1) t ?i AND PAGE_MASK) v True)"
      using False n p(2) te
      by (subst walk_level.simps, cases "is_present ?e") (auto simp: Let_def)
    moreover have "card (free_pages s) \<le> Suc (card (free_pages s1))"
      unfolding p(9) by (rule card_remove_le)
    moreover have pt: "path_tables n (ram s1) t v = (case n of 0 \<Rightarrow> [t] | Suc k \<Rightarrow> [t, p])"
      using path_fresh(1) [of p s1] p te by (auto simp: path_tables.simps [of n] Let_def split: nat.splits)
    moreover have "disj t 4096 p 4096" "\<And>q. q \<in> free_pages s1 \<Longrightarrow> disj t 4096 q 4096"
      "\<And>x. within t 4096 x \<Longrightarrow> \<not> meta s1 x"
      using p path_ok_hd [OF ok] by (auto simp: keeps_def)
    moreover from this have "path_ok n s1 t v"
      unfolding path_ok_def pt using p(3,4,7,8) within_self [of 4096 t] path_ok_hd(3,4) [OF ok]
      by (auto simp: apart_def disj_sym split: nat.splits) (auto simp: disj_def)
    ultimately show thesis
      using that [of s1] p te path_hd [of t n "ram s" v] by (auto split: nat.splits)
  qed
qed

lemma path_ok_cons:
  assumes "path_ok k s u v" "\<And>x. within t 4096 x \<Longrightarrow> \<not> meta s x" "\<And>p. p \<in> free_pages s \<Longrightarrow> disj t 4096 p 4096"
    "\<And>q. q \<in> set (path_tables k (ram s) u v) \<Longrightarrow> disj t 4096 q 4096" "t \<noteq> 0" "t AND 0xFFF = 0"
    "path_tables (Suc k) (ram s) t v = t # path_tables k (ram s) u v"
  shows "path_ok (Suc k) s t v"
proof -
  have "t \<notin> set (path_tables k (ram s) u v)"
    using assms(4) [of t] within_self [of 4096 t] by (auto simp: disj_def)
  then show ?thesis using assms by (auto simp: path_ok_def apart_def disj_sym)
qed

lemma walk_spec:
  "pmm_inv s \<Longrightarrow> path_ok n s t v \<Longrightarrow> n < card (free_pages s) \<Longrightarrow>
   \<exists>e s'. walk_level n s t v True = (e, s') \<and> e \<noteq> 0 \<and>
     resolve n (ram s') t v = Some e \<and> path_ok n s' t v \<and> keeps s s' (on_path n s t v) \<and>
     set (path_tables n (ram s') t v) \<subseteq> set (path_tables n (ram s) t v) \<union> free_pages s"
proof (induction n arbitrary: s t)
  case 0
  then have fr: "free_pages s \<noteq> {}" by auto
  obtain s1 where "keeps s s1 (within t 4096)" "path_ok 0 s1 t v"
    "is_present (pte (ram s1) t (level_index 0 v))" "walk_level 0 s t v True = (slot t (level_index 0 v), s1)"
    by (rule walk_step [OF 0(1,2) fr]) (rule that; simp)
  then show ?case
    using path_ok_hd(3,4) [OF 0(2)] by (simp add: resolve.simps [of 0] path_tables.simps [of 0] Let_def
        slot_nonzero level_index_less)
next
  case (Suc k)
  then have fr: "free_pages s \<noteq> {}" by auto
  obtain s1 where s1: "keeps s s1 (within t 4096)" "path_ok (Suc k) s1 t v"
    "is_present (pte (ram s1) t (level_index (Suc k) v))" "\<not> is_huge (pte (ram s1) t (level_index (Suc k) v))"
    "set (path_tables (Suc k) (ram s1) t v) \<subseteq> set (path_tables (Suc k) (ram s) t v) \<union> free_pages s"
    "card (free_pages s) \<le> Suc (card (free_pages s1))"
    "walk_level (Suc k) s t v True =
       walk_level k s1 (pte (ram s1) t (level_index (Suc k) v) AND PAGE_MASK) v True"
    by (rule walk_step [OF Suc.prems(1,2) fr]) (rule that; simp)
  let ?i = "level_index (Suc k) v"
  let ?u = "pte (ram s1) t ?i AND PAGE_MASK"
  note pt1 = path_tail [OF s1(3,4)]
  have inv1: "pmm_inv s1" using s1(1) by (simp add: keeps_def)
  have ok1: "path_ok k s1 ?u v" using s1(2) by (auto simp: path_ok_def pt1 apart_def)
  have "k < card (free_pages s1)" using Suc.prems(3) s1(6) by simp
  then obtain e s' where IH: "walk_level k s1 ?u v True = (e, s')" "e \<noteq> 0"
    "resolve k (ram s') ?u v = Some e" "path_ok k s' ?u v" "keeps s1 s' (on_path k s1 ?u v)"
    "set (path_tables k (ram s') ?u v) \<subseteq> set (path_tables k (ram s1) ?u v) \<union> free_pages s1"
    using Suc.IH [OF inv1 ok1] by auto
  have ap: "disj t 4096 q 4096" if "q \<in> set (path_tables k (ram s1) ?u v) \<union> free_pages s1" for q
    using s1(2) that path_ok_hd(2) [OF s1(2)] by (auto simp: path_ok_def pt1 apart_def)
  have same: "pte (ram s') t ?i = pte (ram s1) t ?i"
  proof (rule pte_cong [OF level_index_less])
    fix x assume x: "within t 4096 x"
    then have "\<not> meta s1 x" "\<not> on_path k s1 ?u v x" "\<forall>p \<in> free_pages s1. \<not> within p 4096 x"
      using path_ok_hd(1) [OF s1(2)] ap by (auto simp: disj_def)
    then show "ram s' x = ram s1 x" using IH(5) unfolding keeps_def by blast
  qed
  have pt': "path_tables (Suc k) (ram s') t v = t # path_tables k (ram s') ?u v"
    "resolve (Suc k) (ram s') t v = resolve k (ram s') ?u v"
    using path_tail [of s' t k v] s1(3,4) by (simp_all add: same)
  have "path_ok (Suc k) s' t v"
    by (rule path_ok_cons [OF IH(4) _ _ _ _ _ pt'(1)])
      (use IH(5,6) ap path_ok_hd [OF s1(2)] in \<open>auto simp: keeps_def\<close>)
  moreover have "keeps s s' (on_path (Suc k) s t v)"
  proof (rule keeps_trans [OF _ IH(5)])
    show "keeps s s1 (on_path (Suc k) s t v)"
      using s1(1) path_hd [of t "Suc k" "ram s" v] unfolding keeps_def by blast
    show "on_path (Suc k) s t v x \<or> (\<exists>p \<in> free_pages s. within p 4096 x)" if "on_path k s1 ?u v x" for x
      using that s1(5) by (auto simp: pt1)
  qed
  moreover have "set (path_tables (Suc k) (ram s') t v) \<subseteq> set (path_tables (Suc k) (ram s) t v) \<union> free_pages s"
    using IH(6) s1(1,5) by (auto simp: pt' pt1 keeps_def)
  ultimately show ?case using IH(1-3) s1(7) pt' by auto
qed

section \<open>Writing the last-level entry\<close>

text \<open>Writing the entry a walk ends in changes the translation and not the walk.\<close>

lemma translate_set_leaf:
  assumes "resolve n m t v = Some e" "apart (path_tables n m t v)"
  shows "translate_level n (wr64 m e val) t v =
    (if is_present val then (val AND PAGE_MASK) + (v AND 0xFFF) else 0)"
  using assms
proof (induction n arbitrary: t)
  case 0
  then have e: "e = slot t (level_index 0 v)"
    by (auto simp: resolve.simps [of 0] Let_def split: if_splits)
  then have "pte (wr64 m e val) t (level_index 0 v) = val"
    using pte_set_pte [OF level_index_less level_index_less] by (simp add: set_pte_def)
  then show ?case by (simp add: translate_level.simps [of 0] PAGE_SIZE_def)
next
  case (Suc k)
  let ?i = "level_index (Suc k) v"
  let ?u = "pte m t ?i AND PAGE_MASK"
  have p: "is_present (pte m t ?i)" "\<not> is_huge (pte m t ?i)" and r: "resolve k m ?u v = Some e"
    using Suc.prems(1) by (auto simp: resolve.simps [of "Suc k"] Let_def split: if_splits)
  have pt: "path_tables (Suc k) m t v = t # path_tables k m ?u v"
    using p by (simp add: path_tables.simps [of "Suc k"] Let_def)
  obtain q where q: "e = slot q (level_index 0 v)" "q \<in> set (path_tables k m ?u v)"
    using resolve_in_path [OF r] by (metis last_in_set list.size(3) nat.distinct(1))
  have "disj q 4096 t 4096" using Suc.prems(2) q(2) by (auto simp: apart_def pt)
  then have "pte (wr64 m e val) t ?i = pte m t ?i"
    using pte_set_pte_disj [OF level_index_less level_index_less] by (simp add: set_pte_def q(1))
  moreover have "apart (path_tables k m ?u v)" using Suc.prems(2) by (auto simp: apart_def pt)
  ultimately show ?case
    using Suc.IH [OF r] p by (simp add: translate_level.simps [of "Suc k"])
qed

lemma leaf_in_path:
  assumes "resolve n m t v = Some e"
  obtains q where "q \<in> set (path_tables n m t v)" "\<And>x. within e 8 x \<Longrightarrow> within q 4096 x"
  using resolve_in_path [OF assms] slot_within [OF level_index_less]
  by (metis last_in_set list.size(3) nat.distinct(1))

lemma leaf_present: "resolve n m t v = Some e \<Longrightarrow> is_present (rd64 m e)"
proof (induction n arbitrary: t)
  case 0
  then show ?case by (auto simp: resolve.simps [of 0] Let_def pte_def split: if_splits)
next
  case (Suc k)
  then show ?case by (auto simp: resolve.simps [of "Suc k"] Let_def split: if_splits)
qed

lemma leaf_nonzero: "resolve n (ram s) t v = Some e \<Longrightarrow> path_ok n s t v \<Longrightarrow> e \<noteq> 0"
  using resolve_in_path [of n "ram s" t v e] slot_nonzero [OF _ _ level_index_less]
  by (metis last_in_set list.size(3) nat.distinct(1) path_ok_def)

lemma leaf_write:
  assumes inv: "pmm_inv s" and ok: "path_ok n s t v" and r: "resolve n (ram s) t v = Some e"
    and s': "s' = s\<lparr>ram := wr64 (ram s) e val\<rparr>"
  shows "keeps s s' (on_path n s t v)"
proof -
  obtain q where q: "q \<in> set (path_tables n (ram s) t v)" "\<And>x. within e 8 x \<Longrightarrow> within q 4096 x"
    using leaf_in_path [OF r] by blast
  have o: "wr64 (ram s) e val x = ram s x" if "\<not> within q 4096 x" for x
    using q(2) that by (intro wr64_other) blast
  then have "wr64 (ram s) e val x = ram s x" if "meta s x" for x
    using that ok q(1) unfolding path_ok_def by blast
  then have "pmm_inv s' \<and> free_pages s' = free_pages s \<and> managed_pages s' = managed_pages s \<and>
      meta s' = meta s \<and> ram s' = wr64 (ram s) e val"
    using inv s' by (intro pmm.client_write) auto
  then show ?thesis unfolding keeps_def using o q(1) by (auto simp: s')
qed

lemma map_page_ok:
  assumes "pmm_inv s" "path_ok 3 s (cr3 s) virt" "3 < card (free_pages s)"
    "phys AND 0xFFF = 0" "flags AND PAGE_MASK = 0"
  shows "virt_to_phys (map_page s virt phys flags) virt = phys + (virt AND 0xFFF) \<and>
    keeps s (map_page s virt phys flags) (on_path 3 s (cr3 s) virt)"
proof -
  obtain e s1 where w: "walk_level 3 s (cr3 s) virt True = (e, s1)" "e \<noteq> 0"
    "resolve 3 (ram s1) (cr3 s) virt = Some e" "path_ok 3 s1 (cr3 s) virt"
    "keeps s s1 (on_path 3 s (cr3 s) virt)"
    "set (path_tables 3 (ram s1) (cr3 s) virt) \<subseteq> set (path_tables 3 (ram s) (cr3 s) virt) \<union> free_pages s"
    using walk_spec [OF assms(1-3)] by auto
  let ?v = "phys OR flags OR PTE_PRESENT"
  have m: "map_page s virt phys flags = s1\<lparr>ram := wr64 (ram s1) e ?v\<rparr>"
    using w by (simp add: map_page_def walk_page_table_def)
  have c: "cr3 (map_page s virt phys flags) = cr3 s"
    using keeps_rest(1) [OF w(5)] by (simp add: m)
  have "is_present ?v" by (simp add: is_present_def PTE_PRESENT_def bit.conj_disj_distrib2)
  moreover have "(flags OR PTE_PRESENT) AND PAGE_MASK = 0"
    using assms(5) by (simp add: bit.conj_disj_distrib2 PTE_PRESENT_def PAGE_MASK_def)
  then have "?v AND PAGE_MASK = phys" using mask_or_flags [OF assms(4)] by simp
  ultimately have "virt_to_phys (map_page s virt phys flags) virt = phys + (virt AND 0xFFF)"
    using translate_set_leaf [OF w(3)] w(4)
    by (simp add: virt_to_phys_def virt_to_phys_on_def c) (simp add: m path_ok_def)
  moreover have "keeps s1 (map_page s virt phys flags) (on_path 3 s1 (cr3 s) virt)"
    using w(4,5) m by (intro leaf_write [OF _ _ w(3)]) (auto simp: keeps_def)
  then have "keeps s (map_page s virt phys flags) (on_path 3 s (cr3 s) virt)"
    using keeps_trans [OF w(5)] w(6) by blast
  ultimately show ?thesis by simp
qed

section \<open>The identity map\<close>

definition identity_entry :: "u64 \<Rightarrow> nat \<Rightarrow> u64" where
  "identity_entry e i =
     (if is_huge e then e OR PTE_WRITABLE
      else push_bit 30 (of_nat i) OR PTE_PRESENT OR PTE_WRITABLE OR PTE_HUGE OR PTE_ACCESSED)"

lemma of_nat_512: "i < 512 \<Longrightarrow> (of_nat i :: u64) < 512" "i < 512 \<Longrightarrow> unat (of_nat i :: u64) = i"
proof -
  show u: "i < 512 \<Longrightarrow> unat (of_nat i :: u64) = i" by (simp add: unat_of_nat)
  show "i < 512 \<Longrightarrow> (of_nat i :: u64) < 512" using u by (simp add: word_less_nat_alt)
qed

lemma identity_fold:
  assumes "disj new 4096 old 4096" "n \<le> 512"
  shows "(\<forall>x. \<not> within new 4096 x \<longrightarrow> fold (identity_step old new) [0..<n] m x = m x) \<and>
    (\<forall>j < 512. pte (fold (identity_step old new) [0..<n] m) new (of_nat j) =
       (if j < n \<and> is_present (pte m old (of_nat j)) then identity_entry (pte m old (of_nat j)) j
        else pte m new (of_nat j)))"
  using assms(2)
proof (induction n)
  case (Suc n)
  let ?m = "fold (identity_step old new) [0..<n] m"
  have IH: "\<forall>x. \<not> within new 4096 x \<longrightarrow> ?m x = m x"
    "\<forall>j < 512. pte ?m new (of_nat j) =
       (if j < n \<and> is_present (pte m old (of_nat j)) then identity_entry (pte m old (of_nat j)) j
        else pte m new (of_nat j))"
    using Suc by auto
  have old: "pte ?m old (of_nat n) = pte m old (of_nat n)"
    using assms(1) IH(1) Suc.prems by (intro pte_cong of_nat_512) (auto simp: disj_def)
  have st: "fold (identity_step old new) [0..<Suc n] m =
      (if is_present (pte m old (of_nat n))
       then set_pte ?m new (of_nat n) (identity_entry (pte m old (of_nat n)) n) else ?m)"
    by (simp add: identity_step_def old Let_def identity_entry_def)
  have inj: "(of_nat j :: u64) = of_nat n \<longleftrightarrow> j = n" if "j < 512" for j
    using that Suc.prems by (metis of_nat_512(2) Suc_le_lessD)
  show ?case
  proof (cases "is_present (pte m old (of_nat n))")
    case True
    have n: "(of_nat n :: u64) < 512" using Suc.prems by (intro of_nat_512) simp
    show ?thesis
      unfolding st if_P [OF True] using IH True inj n
      by (simp add: set_pte_other [OF n] pte_set_pte [OF n] of_nat_512(1) less_Suc_eq)
  next
    case False
    show ?thesis unfolding st if_not_P [OF False] using IH False by (auto simp: less_Suc_eq)
  qed
qed simp

lemma bit_mask_word: "(2 ^ k - 1 :: u64) = mask k"
  by (simp add: mask_eq_exp_minus_1)

text \<open>A 1 GiB entry at its own index maps an address below 512 GiB to itself.\<close>

lemma identity_1g:
  assumes v: "v < 2 ^ 39" and i: "level_index 2 v = of_nat i" "i < 512"
  defines "e \<equiv> push_bit 30 (of_nat i) OR PTE_PRESENT OR PTE_WRITABLE OR PTE_HUGE OR PTE_ACCESSED"
  shows "is_present e" "is_huge e" "(e AND PAGE_MASK) + (v AND (2 ^ 30 - 1)) = v"
proof -
  have e: "e = push_bit 30 (of_nat i) OR 0xA3"
    by (simp add: e_def PTE_PRESENT_def PTE_WRITABLE_def PTE_HUGE_def PTE_ACCESSED_def or.assoc)
  have low: "push_bit 30 (of_nat i :: u64) AND 0xFFF = 0"
  proof -
    have "(0xFFF :: u64) = mask 12" by (simp add: mask_eq_exp_minus_1)
    then show ?thesis unfolding \<open>0xFFF = mask 12\<close> take_bit_eq_mask [symmetric] by (simp add: take_bit_push_bit)
  qed
  show "is_present e" "is_huge e"
    by (simp_all add: e is_present_def is_huge_def PTE_PRESENT_def PTE_HUGE_def bit.conj_disj_distrib2
        aligned_and [OF low, of 1] aligned_and [OF low, of "0x80"])
  have m: "e AND PAGE_MASK = push_bit 30 (of_nat i)"
    unfolding e by (rule mask_or_flags [OF low]) (simp add: PAGE_MASK_def)
  have idx: "of_nat i = take_bit 9 (drop_bit 30 v)"
  proof -
    have "(0x1FF :: u64) = mask 9" by (simp add: mask_eq_exp_minus_1)
    then show ?thesis using i by (simp add: level_index_def take_bit_eq_mask)
  qed
  have "take_bit 39 v = v"
    using v by (intro unat_eqI) (simp add: unsigned_take_bit_eq word_less_nat_alt take_bit_nat_eq_self)
  then have "take_bit 9 (drop_bit 30 v) = drop_bit 30 v"
    using take_bit_drop_bit [of 9 30 v] by simp
  moreover have "v AND (2 ^ 30 - 1) = take_bit 30 v"
    by (simp add: take_bit_eq_mask mask_eq_exp_minus_1)
  ultimately show "(e AND PAGE_MASK) + (v AND (2 ^ 30 - 1)) = v"
    unfolding m idx using bits_ident [of 30 v] by simp
qed

lemma level3_low: "v < 2 ^ 39 \<Longrightarrow> level_index 3 v = 0"
proof -
  assume "v < 2 ^ 39"
  then have "unat v < 2 ^ 39" by (simp add: word_less_nat_alt)
  then have "drop_bit 39 v = 0" by (intro unat_eqI) (simp add: unat_div drop_bit_eq_div)
  then show ?thesis by (simp add: level_index_def)
qed

lemma translate_1g:
  assumes "v < 2 ^ 39" "is_present (pte m pml4 0)" "\<not> is_huge (pte m pml4 0)"
  defines "e \<equiv> pte m (pte m pml4 0 AND PAGE_MASK) (level_index 2 v)"
  shows "\<not> is_present e \<Longrightarrow> virt_to_phys_on m pml4 v = 0"
    "is_present e \<Longrightarrow> is_huge e \<Longrightarrow> virt_to_phys_on m pml4 v = (e AND PAGE_MASK) + (v AND (2 ^ 30 - 1))"
proof -
  have t: "virt_to_phys_on m pml4 v = translate_level (Suc (Suc 0)) m (pte m pml4 0 AND PAGE_MASK) v"
    using assms by (simp add: virt_to_phys_on_def numeral_3_eq_3 translate_level.simps [of "Suc (Suc (Suc 0))"]
        level3_low [unfolded numeral_3_eq_3])
  have e: "e = pte m (pte m pml4 0 AND PAGE_MASK) (level_index (Suc (Suc 0)) v)"
    by (simp add: e_def numeral_2_eq_2)
  show "\<not> is_present e \<Longrightarrow> virt_to_phys_on m pml4 v = 0"
    "is_present e \<Longrightarrow> is_huge e \<Longrightarrow> virt_to_phys_on m pml4 v = (e AND PAGE_MASK) + (v AND (2 ^ 30 - 1))"
    unfolding t by (simp_all add: translate_level.simps [of "Suc (Suc 0)"] e)
qed

section \<open>Concrete page tables\<close>

lemma pmm_cr3:
  "pmm_inv (s\<lparr>cr3 := c\<rparr>) = pmm_inv s" "free_pages (s\<lparr>cr3 := c\<rparr>) = free_pages s"
  "meta (s\<lparr>cr3 := c\<rparr>) = meta s"
  by (rule pmm_same; simp)+

text \<open>An empty top-level table taken from the allocator.\<close>

lemma demo_pml4:
  obtains s where "pmm_inv s" "path_ok 3 s (cr3 s) v" "4 < card (free_pages s)"
    "finite (free_pages s)" "card (free_pages s) \<le> 16"
proof (rule demo_pmm)
  fix s0 assume s0: "pmm_inv s0" "free_pages s0 = {0x100000 + 4096 * ucast k | k :: u32. unat k < 16}"
    "0x100000 \<in> free_pages s0"
  have im: "free_pages s0 = (\<lambda>k :: u32. 0x100000 + 4096 * ucast k) ` {k. unat k < 16}"
    unfolding s0(2) by blast
  have "card {k :: u32. unat k < 16} \<le> card {..<16 :: nat}"
    by (rule card_inj_on_le [of unat]) (auto intro: inj_onI unat_eqI)
  then have fin: "finite (free_pages s0)" "card (free_pages s0) \<le> 16"
    unfolding im using card_image_le [of "{k :: u32. unat k < 16}" "\<lambda>k. 0x100000 + 4096 * ucast k :: addr"]
    by simp_all
  have "0x100000 + 4096 * ucast k \<in> free_pages s0" if "unat k < 16" for k :: u32
    using that s0(2) by auto
  from this [of 0] this [of 1] this [of 2] this [of 3] this [of 4] this [of 5]
  have "{0x100000, 0x101000, 0x102000, 0x103000, 0x104000, 0x105000} \<subseteq> free_pages s0" by simp
  with fin(1) have "card {0x100000 :: addr, 0x101000, 0x102000, 0x103000, 0x104000, 0x105000} \<le> card (free_pages s0)"
    by (intro card_mono)
  then have c: "6 \<le> card (free_pages s0)" by simp
  obtain p s1 where m: "malloc_page s0 = (p, s1)" "p \<noteq> 0"
    using malloc_page_total [of s0] s0 by (cases "malloc_page s0") auto
  note mp = malloc_page_some [OF s0(1) m]
  let ?s = "s1\<lparr>cr3 := p\<rparr>"
  have k: "pmm_inv s1" "managed_pages s1 = managed_pages s0" "meta s1 = meta s0"
    using mp(3) by (auto simp: keeps_def)
  have pm: "p \<in> managed_pages s1" using mp(1) k pmm.free_managed [OF s0(1)] by auto
  have "path_ok 3 ?s p v"
  proof (rule path_fresh(2))
    show "within p 4096 x \<Longrightarrow> ram ?s x = 0" for x using mp(4) by simp
    show "within p 4096 x \<Longrightarrow> \<not> meta ?s x" for x using pmm.page_own [OF k(1) pm] by (simp add: pmm_cr3)
    show "q \<in> free_pages ?s \<Longrightarrow> disj p 4096 q 4096" for q
      using pmm.page_disj [OF k(1) pm, of q] pmm.free_managed [OF k(1)] mp(2) by (auto simp: pmm_cr3)
  qed (use m mp in auto)
  moreover have "4 < card (free_pages ?s)"
    using c card_remove_le [of "free_pages s0" p] mp(2) by (simp add: pmm_cr3)
  moreover have "finite (free_pages ?s)" "card (free_pages ?s) \<le> 16"
    using fin mp(2) card_Diff1_le [of "free_pages s0" p] by (simp_all add: pmm_cr3)
  ultimately show thesis using that [of ?s] k(1) by (simp add: pmm_cr3)
qed

lemma demo_mapped:
  obtains s e where "pmm_inv s" "path_ok 3 s (cr3 s) v" "resolve 3 (ram s) (cr3 s) v = Some e"
proof (rule demo_pml4 [of v])
  fix s assume s: "pmm_inv s" "path_ok 3 s (cr3 s) v" "4 < card (free_pages s)"
  then obtain e s' where w: "resolve 3 (ram s') (cr3 s) v = Some e" "path_ok 3 s' (cr3 s) v"
    "keeps s s' (on_path 3 s (cr3 s) v)"
    using walk_spec [of s 3 "cr3 s" v] by auto
  then have "cr3 s' = cr3 s" by (intro keeps_rest(1))
  then show thesis using that [of s' e] w by (simp add: keeps_def)
qed

section \<open>Properties\<close>

text \<open>C11: after \<^verbatim>\<open>map_page(virt, phys, flags)\<close> the address \<open>virt\<close> translates to \<open>phys\<close> plus
  its page offset, whatever the tables mapped before, as long as the path to \<open>virt\<close> is made of
  separate pages outside the allocator's free pool and four pages are free for missing tables.
  The allocator stays consistent and memory other than the path, the free pages and the
  allocator's own data is untouched.\<close>

theorem map_page_translates:
  assumes "pmm_inv s" "path_ok 3 s (cr3 s) virt" "3 < card (free_pages s)"
    "phys AND 0xFFF = 0" "flags AND PAGE_MASK = 0"
  shows "virt_to_phys (map_page s virt phys flags) virt = phys + (virt AND 0xFFF) \<and>
    keeps s (map_page s virt phys flags) (on_path 3 s (cr3 s) virt)"
  using assms by (rule map_page_ok)

lemma map_page_translates_witness:
  "\<exists>s. virt_to_phys (map_page s 0x5678 0xABC000 3) 0x5678 = 0xABC678"
proof (rule demo_pml4 [of "0x5678"])
  fix s assume "pmm_inv s" "path_ok 3 s (cr3 s) 0x5678" "4 < card (free_pages s)"
  then have "virt_to_phys (map_page s 0x5678 0xABC000 3) 0x5678 = 0xABC000 + (0x5678 AND 0xFFF)"
    using map_page_translates [of s "0x5678" "0xABC000" 3] by (simp add: PAGE_MASK_def)
  then show ?thesis by auto
qed

text \<open>\<^verbatim>\<open>unmap_page\<close> makes an address that a page-table entry maps untranslatable.\<close>

theorem unmap_page_translates:
  assumes "pmm_inv s" "path_ok 3 s (cr3 s) virt" "resolve 3 (ram s) (cr3 s) virt = Some e"
  shows "virt_to_phys (unmap_page s virt) virt = 0 \<and>
    keeps s (unmap_page s virt) (on_path 3 s (cr3 s) virt)"
proof -
  have "walk_level 3 s (cr3 s) virt False = (e, s)" by (rule resolve_walk [OF assms(3)])
  then have m: "unmap_page s virt = s\<lparr>ram := wr64 (ram s) e 0\<rparr>"
    using leaf_nonzero [OF assms(3,2)] leaf_present [OF assms(3)]
    by (simp add: unmap_page_def walk_page_table_def)
  then have "virt_to_phys (unmap_page s virt) virt = 0"
    using translate_set_leaf [OF assms(3), of 0] assms(2)
    by (simp add: virt_to_phys_def virt_to_phys_on_def path_ok_def is_present_def)
  with leaf_write [OF assms m] show ?thesis by simp
qed


lemma unmap_page_translates_witness:
  "\<exists>s e. resolve 3 (ram s) (cr3 s) 0x5678 = Some e \<and> virt_to_phys (unmap_page s 0x5678) 0x5678 = 0"
  by (rule demo_mapped [of "0x5678"]) (use unmap_page_translates in blast)

text \<open>After \<^verbatim>\<open>replace_identity_pdpt\<close> every address below 512 GiB whose PDPT entry
  was present and pointed to finer tables translates to itself; addresses under a 1 GiB entry keep
  their translation, and absent entries stay absent.\<close>

theorem replace_identity_pdpt_identity:
  fixes s :: mm_state and pml4 v :: addr
  defines "te \<equiv> pte (ram s) pml4 0"
  defines "old \<equiv> te AND PAGE_MASK"
  defines "e \<equiv> pte (ram s) old (level_index 2 v)"
  assumes inv: "pmm_inv s" "free_pages s \<noteq> {}" and te: "is_present te" "\<not> is_huge te"
    and own: "\<And>x. within pml4 4096 x \<or> within old 4096 x \<Longrightarrow> \<not> meta s x"
    and fr: "\<And>p. p \<in> free_pages s \<Longrightarrow> disj pml4 4096 p 4096 \<and> disj old 4096 p 4096"
    and v: "v < 2 ^ 39"
  shows "virt_to_phys_on (ram (replace_identity_pdpt s pml4)) pml4 v =
    (if \<not> is_present e then 0 else if is_huge e then virt_to_phys_on (ram s) pml4 v else v)"
proof -
  obtain p s1 where m: "malloc_page s = (p, s1)" "p \<noteq> 0"
    using malloc_page_total [OF inv] by (cases "malloc_page s") auto
  note mp = malloc_page_some [OF inv(1) m]
  have d: "disj pml4 4096 p 4096" "disj p 4096 old 4096" using fr mp(1) by (auto intro: disj_sym)
  have same: "ram s1 x = ram s x" if "within pml4 4096 x \<or> within old 4096 x" for x
    using mp(6) own that d by (auto simp: disj_def)
  let ?m1 = "fold (identity_step old p) [0..<512] (ram s1)"
  let ?E = "p OR (te AND NOT PAGE_MASK) OR PTE_WRITABLE"
  have r: "ram (replace_identity_pdpt s pml4) = set_pte ?m1 pml4 0 ?E"
    using te m by (simp add: replace_identity_pdpt_def te_def [symmetric] old_def [symmetric])
  let ?i = "level_index 2 v" and ?n = "unat (level_index 2 v)"
  have n: "?n < 512" "of_nat ?n = ?i" using level_index_less [of 2 v] by (simp_all add: word_less_nat_alt)
  have "pte ?m1 p ?i = (if is_present (pte (ram s1) old ?i) then identity_entry (pte (ram s1) old ?i) ?n
      else pte (ram s1) p ?i)"
    using identity_fold [OF d(2), of 512 "ram s1"] n by (metis order_refl)
  moreover have "pte (ram s1) old ?i = e"
    unfolding e_def by (rule pte_cong [OF level_index_less]) (use same in auto)
  moreover have "pte (ram s1) p ?i = 0" by (rule zero_page [OF _ level_index_less]) (use mp(4) in auto)
  ultimately have new: "pte (set_pte ?m1 pml4 0 ?E) p ?i = (if is_present e then identity_entry e ?n else 0)"
    using pte_set_pte_disj [OF _ level_index_less d(1)] by simp
  have E: "pte (set_pte ?m1 pml4 0 ?E) pml4 0 = ?E" by (simp add: pte_set_pte)
  have fl: "((te AND NOT PAGE_MASK) OR PTE_WRITABLE) AND PAGE_MASK = 0"
    by (simp add: bit.conj_disj_distrib2 and.assoc PTE_WRITABLE_def PAGE_MASK_def)
  have Em: "?E AND PAGE_MASK = p" by (rule mask_or_flags [OF mp(5) fl])
  have "?E AND c = (te AND c) OR (2 AND c)" if "0xFFF AND c = c" for c
    using aligned_and [OF mp(5) that] that
    by (simp add: bit.conj_disj_distrib2 PTE_WRITABLE_def PAGE_MASK_def and.assoc)
  from this [of 1] this [of "0x80"] have Ef: "is_present ?E" "\<not> is_huge ?E"
    using te by (simp_all add: is_present_def is_huge_def PTE_PRESENT_def PTE_HUGE_def)
  note tr = translate_1g [OF v, of "set_pte ?m1 pml4 0 ?E" pml4, unfolded E Em new, OF Ef]
  have old_tr: "virt_to_phys_on (ram s) pml4 v = (e AND PAGE_MASK) + (v AND (2 ^ 30 - 1))"
    if "is_present e" "is_huge e"
    using translate_1g(2) [OF v, of "ram s" pml4] te that by (simp add: te_def old_def e_def)
  have wr: "is_present (e OR PTE_WRITABLE) = is_present e" "is_huge (e OR PTE_WRITABLE) = is_huge e"
    "(e OR PTE_WRITABLE) AND PAGE_MASK = e AND PAGE_MASK"
    by (simp_all add: is_present_def is_huge_def PTE_WRITABLE_def PTE_PRESENT_def PTE_HUGE_def
        PAGE_MASK_def bit.conj_disj_distrib2)
  note id = identity_1g [OF v n(2) [symmetric] n(1)]
  show ?thesis
    using tr id old_tr wr unfolding r
    by (cases "is_present e"; cases "is_huge e") (simp_all add: identity_entry_def is_present_def)
qed

lemma replace_identity_pdpt_identity_witness:
  "\<exists>s pml4. virt_to_phys_on (ram (replace_identity_pdpt s pml4)) pml4 0x5678 = 0x5678"
proof (rule demo_pml4 [of "0x5678"])
  fix s0 assume s0: "pmm_inv s0" "path_ok 3 s0 (cr3 s0) 0x5678" "4 < card (free_pages s0)"
  let ?t = "cr3 s0" and ?v = "0x5678 :: u64"
  have l3: "level_index 3 ?v = 0" by (rule level3_low) simp
  have "free_pages s0 \<noteq> {}" using s0(3) by auto
  then obtain s1 where s1: "keeps s0 s1 (within ?t 4096)" "path_ok 3 s1 ?t ?v" "is_present (pte (ram s1) ?t 0)"
    "\<not> is_huge (pte (ram s1) ?t 0)" "card (free_pages s0) \<le> Suc (card (free_pages s1))"
    by (rule walk_step [OF s0(1,2)]) (rule that; simp add: l3)
  let ?u = "pte (ram s1) ?t 0 AND PAGE_MASK"
  have pt: "path_tables 3 (ram s1) ?t ?v = ?t # path_tables 2 (ram s1) ?u ?v"
    using path_tail(1) [of s1 ?t 2 ?v] s1(3,4) by (simp add: l3)
  have ok2: "path_ok 2 s1 ?u ?v" using s1(2) by (auto simp: path_ok_def pt apart_def)
  have fr1: "free_pages s1 \<noteq> {}" using s0(3) s1(5) by auto
  have inv1: "pmm_inv s1" using s1(1) by (simp add: keeps_def)
  obtain s2 where s2: "keeps s1 s2 (within ?u 4096)" "path_ok 2 s2 ?u ?v"
    "is_present (pte (ram s2) ?u (level_index 2 ?v))" "\<not> is_huge (pte (ram s2) ?u (level_index 2 ?v))"
    "card (free_pages s1) \<le> Suc (card (free_pages s2))"
    by (rule walk_step [OF inv1 ok2 fr1]) (rule that; simp)
  have tu: "disj ?t 4096 ?u 4096" using s1(2) path_hd [of ?u 2 "ram s1" ?v] by (auto simp: path_ok_def pt apart_def)
  have t2: "pte (ram s2) ?t 0 = pte (ram s1) ?t 0"
  proof (rule pte_cong)
    fix x assume "within ?t 4096 x"
    then have "\<not> meta s1 x \<and> \<not> within ?u 4096 x \<and> (\<forall>p \<in> free_pages s1. \<not> within p 4096 x)"
      using tu path_ok_hd(1,2) [OF s1(2)] by (auto simp: disj_def)
    then show "ram s2 x = ram s1 x" using s2(1) unfolding keeps_def by blast
  qed simp
  have k: "meta s2 = meta s1" "free_pages s2 \<subseteq> free_pages s1" "pmm_inv s2" "free_pages s2 \<noteq> {}"
    using s2(1,5) s1(5) s0(3) by (auto simp: keeps_def)
  have own: "\<not> meta s2 x" if "within ?t 4096 x \<or> within ?u 4096 x" for x
    using that k(1) path_ok_hd(1) [OF s1(2)] path_ok_hd(1) [OF ok2] by auto
  have fr: "disj ?t 4096 p 4096 \<and> disj ?u 4096 p 4096" if "p \<in> free_pages s2" for p
    using that k(2) path_ok_hd(2) [OF s1(2)] path_ok_hd(2) [OF ok2] by auto
  have "virt_to_phys_on (ram (replace_identity_pdpt s2 ?t)) ?t ?v = ?v"
    using replace_identity_pdpt_identity [OF k(3,4), of ?t ?v] s1(3,4) s2(3,4) own fr
    by (simp add: t2)
  then show ?thesis by blast
qed

end
