(* ===== verification/Vmm.thy ===== *)
theory Vmm
  imports Paging
begin

text \<open>
  The virtual memory manager, \<^verbatim>\<open>Kernel/mm/vmm.c\<close>.  A \<^verbatim>\<open>VMM_T\<close> and the page tables are
  reached through the identity map and are read at their physical address; the
  \<^verbatim>\<open>VMM_DESCRIPTOR\<close> of an address space and the allocation records are reached through the
  current page tables, and an access to an address that is not mapped is a page fault: the
  operations return \<open>None\<close> for it.
\<close>

unbundle bit_operations_syntax

section \<open>Structures\<close>

definition KernelVirtualMemoryStart :: u64 where "KernelVirtualMemoryStart = 0xFFFF800000000000"
definition KernelVirtualMemoryEnd :: u64 where "KernelVirtualMemoryEnd = 0xFFFFFFFFFFFF0000"
definition UserVirtualMemoryStart :: u64 where "UserVirtualMemoryStart = 0x0000000100000000"
definition UserVirtualMemoryEnd :: u64 where "UserVirtualMemoryEnd = 0x00007FFFFFFFFFFF"

text \<open>Fields of \<^verbatim>\<open>VMM_T\<close>.\<close>

definition vmm_flag :: "mem \<Rightarrow> addr \<Rightarrow> u64" where "vmm_flag m v = rd64 m v"
definition vmm_Descriptor :: "mem \<Rightarrow> addr \<Rightarrow> addr" where "vmm_Descriptor m v = rd64 m (v + 8)"
definition vmm_AllocRecord :: "mem \<Rightarrow> addr \<Rightarrow> addr" where "vmm_AllocRecord m v = rd64 m (v + 24)"
definition vmm_AllocRecordNum :: "mem \<Rightarrow> addr \<Rightarrow> u32" where "vmm_AllocRecordNum m v = rd32 m (v + 32)"
definition vmm_isUser :: "mem \<Rightarrow> addr \<Rightarrow> bool" where "vmm_isUser m v = (m (v + 36) \<noteq> 0)"

text \<open>The translation the processor makes: \<open>None\<close> is a page fault.\<close>

fun mmu_level :: "nat \<Rightarrow> mem \<Rightarrow> addr \<Rightarrow> u64 \<Rightarrow> addr option" where
  "mmu_level n m table vaddr =
     (let e = pte m table (level_index n vaddr)
      in if \<not> is_present e then None
         else case n of
           0 \<Rightarrow> Some ((e AND PAGE_MASK) + (vaddr AND (PAGE_SIZE - 1)))
         | Suc k \<Rightarrow>
             if is_huge e then Some ((e AND PAGE_MASK) + (vaddr AND (push_bit (12 + 9 * n) 1 - 1)))
             else mmu_level k m (e AND PAGE_MASK) vaddr)"

declare mmu_level.simps [simp del]

definition load64 :: "mm_state \<Rightarrow> addr \<Rightarrow> u64 option" where
  "load64 s a = map_option (rd64 (ram s)) (mmu_level 3 (ram s) (cr3 s) a)"

definition store64 :: "mm_state \<Rightarrow> addr \<Rightarrow> u64 \<Rightarrow> mm_state option" where
  "store64 s a v = map_option (\<lambda>p. s\<lparr>ram := wr64 (ram s) p v\<rparr>) (mmu_level 3 (ram s) (cr3 s) a)"

text \<open>\<^verbatim>\<open>VMM_DESCRIPTOR\<close> is packed: \<^verbatim>\<open>Address\<close> at 0, \<^verbatim>\<open>PageSize\<close> at 8,
  \<^verbatim>\<open>Bytes\<close> at 16.\<close>

definition desc_init :: "mm_state \<Rightarrow> addr \<Rightarrow> mm_state option" where
  "desc_init s d =
     Option.bind (store64 s d (d + PAGE_SIZE)) (\<lambda>s.
     Option.bind (store64 s (d + 16) 0) (\<lambda>s. store64 s (d + 8) 0))"

section \<open>Creating and switching address spaces\<close>

definition fail_vmm :: "mm_state \<Rightarrow> int \<Rightarrow> (addr \<times> mm_state) option" where
  "fail_vmm s code = Some (0, s\<lparr>VMM_ERRORCODE := code\<rparr>)"

text \<open>The part the two constructors share: the descriptor page, mapped at \<open>vstart\<close> in the new
  address space, and the fields of the \<^verbatim>\<open>VMM_T\<close>.\<close>

definition finish_vmm :: "mm_state \<Rightarrow> addr \<Rightarrow> addr \<Rightarrow> addr \<Rightarrow> u64 \<Rightarrow> (addr \<times> mm_state) option" where
  "finish_vmm s vmm new_pml4 vstart flag =
     (let (desc_phys, s) = Pmm_Malloc s 1
      in if desc_phys = 0 then fail_vmm (Pmm_Free (Pmm_Free s vmm 1) new_pml4 1) 3
         else let s = s\<lparr>ram := memset (ram s) desc_phys 0 (unat PAGE_SIZE)\<rparr>;
                  saved_cr3 = cr3 s;
                  s = map_page (s\<lparr>cr3 := new_pml4\<rparr>) vstart desc_phys flag;
                  s = s\<lparr>ram := wr64 (ram s) (vmm + 8) vstart\<rparr>
              in Option.bind (desc_init s vstart) (\<lambda>s.
                 let m = wr64 (ram s) vmm flag;
                     m = wr64 m (vmm + 16) new_pml4;
                     m = wr32 m (vmm + 32) 0
                 in Some (vmm, s\<lparr>ram := m, cr3 := saved_cr3, VMM_ERRORCODE := 0\<rparr>)))"

definition Init_Virtual_Memory_Manager :: "mm_state \<Rightarrow> u64 \<Rightarrow> (addr \<times> mm_state) option" where
  "Init_Virtual_Memory_Manager s flag =
     (let (vmm, s) = Pmm_Malloc s 1
      in if vmm = 0 then fail_vmm s 1
         else let s = s\<lparr>ram := wr64 (memset (ram s) vmm 0 (unat PAGE_SIZE)) vmm flag\<rparr>;
                  (new_pml4, s) = Pmm_Malloc s 1
              in if new_pml4 = 0 then fail_vmm (Pmm_Free s vmm 1) 2
                 else let s = s\<lparr>ram := memset (ram s) new_pml4 0 (unat PAGE_SIZE)\<rparr>;
                          s = copy_pml4_entries s new_pml4 512;
                          s = replace_identity_pdpt s new_pml4
                      in finish_vmm s vmm new_pml4 KernelVirtualMemoryStart flag)"

definition Init_User_Virtual_Memory_Manager :: "mm_state \<Rightarrow> u64 \<Rightarrow> (addr \<times> mm_state) option" where
  "Init_User_Virtual_Memory_Manager s flag =
     (let (vmm, s) = Pmm_Malloc s 1
      in if vmm = 0 then fail_vmm s 1
         else let m = (memset (ram s) vmm 0 (unat PAGE_SIZE))(vmm + 36 := 1);
                  s = s\<lparr>ram := wr64 m vmm flag\<rparr>;
                  (new_pml4, s) = Pmm_Malloc s 1
              in if new_pml4 = 0 then fail_vmm (Pmm_Free s vmm 1) 2
                 else let s = s\<lparr>ram := memset (ram s) new_pml4 0 (unat PAGE_SIZE)\<rparr>;
                          s = copy_kernel_pml4_entries s new_pml4;
                          s = replace_identity_pdpt s new_pml4
                      in finish_vmm s vmm new_pml4 UserVirtualMemoryStart flag)"

definition Switch_Virtual_Mamanager :: "mm_state \<Rightarrow> addr \<Rightarrow> addr \<times> mm_state" where
  "Switch_Virtual_Mamanager s vmm =
     (if vmm = 0 then (0, s\<lparr>VMM_ERRORCODE := 10\<rparr>)
      else let old_vmm = (if Current_VMM_Desc s \<noteq> 0 then Current_VMM_Desc s else cr3 s)
           in (old_vmm, s\<lparr>Current_VMM_Desc := vmm, cr3 := vmm_Pml4 (ram s) vmm, VMM_ERRORCODE := 0\<rparr>))"

definition Get_Current_VMM_CR3 :: "mm_state \<Rightarrow> addr" where
  "Get_Current_VMM_CR3 s =
     (if Current_VMM_Desc s \<noteq> 0 then vmm_Pml4 (ram s) (Current_VMM_Desc s) else cr3 s)"

section \<open>Allocation\<close>

text \<open>The loop that fills \<^verbatim>\<open>phys_pages\<close>, over any page allocator: the pages obtained and
  whether there were enough.\<close>

fun alloc_pages :: "('s \<Rightarrow> addr \<times> 's) \<Rightarrow> nat \<Rightarrow> 's \<Rightarrow> addr list \<Rightarrow> addr list \<times> bool \<times> 's" where
  "alloc_pages alloc 0 s phys_pages = (phys_pages, True, s)"
| "alloc_pages alloc (Suc n) s phys_pages =
     (let (p, s) = alloc s
      in if p = 0 then (phys_pages, False, s) else alloc_pages alloc n s (phys_pages @ [p]))"

definition free_pages_all :: "('s \<Rightarrow> addr \<Rightarrow> 's) \<Rightarrow> addr list \<Rightarrow> 's \<Rightarrow> 's" where
  "free_pages_all release phys_pages s = fold (\<lambda>p s. release s p) phys_pages s"

fun vmm_map_range :: "mm_state \<Rightarrow> addr \<Rightarrow> addr list \<Rightarrow> u64 \<Rightarrow> bool \<times> mm_state" where
  "vmm_map_range s virt_start [] flags = (True, s)"
| "vmm_map_range s virt_start (phys # ps) flags =
     (if phys = 0 then (False, s)
      else vmm_map_range (map_page s virt_start phys flags) (virt_start + PAGE_SIZE) ps flags)"

text \<open>\<^verbatim>\<open>(size + PAGE_SIZE - 1) / PAGE_SIZE\<close>.\<close>

definition pages_for :: "u64 \<Rightarrow> u64" where
  "pages_for sz = (sz + PAGE_SIZE - 1) div PAGE_SIZE"

text \<open>The bookkeeping after the pages are mapped; the record is written through
  \<^verbatim>\<open>AllocRecord\<close>, which nothing ever sets.\<close>

definition record_alloc :: "mm_state \<Rightarrow> addr \<Rightarrow> addr \<Rightarrow> u64 \<Rightarrow> u64 \<Rightarrow> (addr \<times> mm_state) option" where
  "record_alloc s d virt_start alloc_bytes pages =
     (let cur = Current_VMM_Desc s
      in Option.bind (load64 s d) (\<lambda>a.
         Option.bind (store64 s d (a + alloc_bytes)) (\<lambda>s.
         Option.bind (load64 s (d + 16)) (\<lambda>b.
         Option.bind (store64 s (d + 16) (b + alloc_bytes)) (\<lambda>s.
         Option.bind (load64 s (d + 8)) (\<lambda>n.
         Option.bind (store64 s (d + 8) (n + pages)) (\<lambda>s.
         let r = vmm_AllocRecord (ram s) cur + 16 * ucast (vmm_AllocRecordNum (ram s) cur)
         in Option.bind (store64 s r virt_start) (\<lambda>s.
            let r = vmm_AllocRecord (ram s) cur + 16 * ucast (vmm_AllocRecordNum (ram s) cur)
            in Option.bind (store64 s (r + 8) alloc_bytes) (\<lambda>s.
               let m = wr32 (ram s) (cur + 32) (vmm_AllocRecordNum (ram s) cur + 1)
               in Some (virt_start, s\<lparr>ram := m, VMM_ERRORCODE := 0\<rparr>))))))))))"

definition Vmm_Malloc :: "mm_state \<Rightarrow> u64 \<Rightarrow> (addr \<times> mm_state) option" where
  "Vmm_Malloc s sz =
     (let cur = Current_VMM_Desc s; d = vmm_Descriptor (ram s) cur
      in if sz = 0 then Some (0, s)
         else if d = 0 then fail_vmm s 1
         else let pages = pages_for sz; alloc_bytes = pages * PAGE_SIZE;
                  vmm_end = (if vmm_isUser (ram s) cur then UserVirtualMemoryEnd else KernelVirtualMemoryEnd)
              in Option.bind (load64 s d) (\<lambda>virt_start.
                 if vmm_end < virt_start + alloc_bytes then fail_vmm s 2
                 else let (phys_pages, ok, s) = alloc_pages (\<lambda>s. Pmm_Malloc s 1) (unat pages) s []
                      in if \<not> ok then fail_vmm (free_pages_all (\<lambda>s p. Pmm_Free s p 1) phys_pages s) 3
                         else let (mapped, s) = vmm_map_range s virt_start phys_pages (vmm_flag (ram s) cur)
                              in if \<not> mapped
                                 then Some (0, free_pages_all (\<lambda>s p. Pmm_Free s p 1) phys_pages s)
                                 else record_alloc s d virt_start alloc_bytes pages))"

fun vmm_free_loop :: "mm_state \<Rightarrow> nat \<Rightarrow> addr \<Rightarrow> mm_state" where
  "vmm_free_loop s 0 vaddr = s"
| "vmm_free_loop s (Suc n) vaddr =
     (let phys = virt_to_phys s vaddr;
          s = (if phys \<noteq> 0 then Pmm_Free (unmap_page s vaddr) phys 1 else s)
      in vmm_free_loop s n (vaddr + PAGE_SIZE))"

definition Vmm_Free :: "mm_state \<Rightarrow> addr \<Rightarrow> u64 \<Rightarrow> mm_state option" where
  "Vmm_Free s virt sz =
     (let cur = Current_VMM_Desc s
      in if cur = 0 \<or> virt = 0 \<or> sz = 0 then Some s
         else let pages = pages_for sz; d = vmm_Descriptor (ram s) cur;
                  virt_start = (if vmm_isUser (ram s) cur then UserVirtualMemoryStart else KernelVirtualMemoryStart)
              in Option.bind (load64 s d) (\<lambda>limit.
                 if virt < virt_start + PAGE_SIZE \<or> limit < virt
                 then Some (s\<lparr>VMM_ERRORCODE := 1\<rparr>)
                 else let s = vmm_free_loop s (unat pages) virt
                      in Option.bind (load64 s (d + 16)) (\<lambda>b.
                         Option.bind (store64 s (d + 16) (b - pages * PAGE_SIZE)) (\<lambda>s.
                         Option.bind (load64 s (d + 8)) (\<lambda>n.
                         Option.bind (store64 s (d + 8) (n - pages)) (\<lambda>s.
                         let m = wr32 (ram s) (cur + 32) (vmm_AllocRecordNum (ram s) cur - 1)
                         in Some (s\<lparr>ram := m, VMM_ERRORCODE := 0\<rparr>)))))))"

section \<open>Taking and returning pages\<close>

context page_allocator
begin

lemma alloc_pages_spec:
  "inv s \<Longrightarrow> alloc_pages alloc n s acc = (ps, ok, s') \<Longrightarrow>
   inv s' \<and> managed s' = managed s \<and>
   (\<exists>new. ps = acc @ new \<and> distinct new \<and> set new \<subseteq> free s \<and> free s' = free s - set new \<and>
      (if ok then length new = n else length new < n \<and> free s' = {}))"
proof (induction n arbitrary: s acc)
  case 0
  then show ?case by auto
next
  case (Suc n)
  obtain p s1 where a: "alloc s = (p, s1)" by fastforce
  show ?case
  proof (cases "p = 0")
    case True
    then show ?thesis using Suc.prems a alloc_none [OF Suc.prems(1)] by auto
  next
    case False
    note n = alloc_some [OF Suc.prems(1) a False]
    then have "inv s' \<and> managed s' = managed s1 \<and>
        (\<exists>new. ps = (acc @ [p]) @ new \<and> distinct new \<and> set new \<subseteq> free s1 \<and> free s' = free s1 - set new \<and>
          (if ok then length new = n else length new < n \<and> free s' = {}))"
      using Suc.prems a False by (intro Suc.IH) simp_all
    then obtain new where new: "inv s'" "managed s' = managed s1" "ps = acc @ (p # new)" "distinct new"
      "set new \<subseteq> free s1" "free s' = free s1 - set new"
      "if ok then length new = n else length new < n \<and> free s' = {}" by auto
    then show ?thesis
      using n by (intro conjI exI [of _ "p # new"]) (auto split: if_splits)
  qed
qed

lemma free_pages_all_spec:
  "inv s \<Longrightarrow> set ps \<subseteq> managed s \<Longrightarrow>
   inv (free_pages_all release ps s) \<and> managed (free_pages_all release ps s) = managed s \<and>
   free (free_pages_all release ps s) = free s \<union> set ps"
proof (induction ps arbitrary: s)
  case (Cons p ps)
  have "p \<in> managed s" using Cons.prems by simp
  note r = release [OF Cons.prems(1) this refl]
  then have "inv (free_pages_all release ps (release s p)) \<and>
      managed (free_pages_all release ps (release s p)) = managed (release s p) \<and>
      free (free_pages_all release ps (release s p)) = free (release s p) \<union> set ps"
    using Cons.prems by (intro Cons.IH) simp_all
  then show ?case using r by (auto simp: free_pages_all_def)
qed (simp add: free_pages_all_def)

text \<open>A request that cannot be met gives every page back.\<close>

lemma rollback:
  assumes "inv s" "alloc_pages alloc n s [] = (ps, False, s')"
  shows "inv (free_pages_all release ps s') \<and> free (free_pages_all release ps s') = free s"
proof -
  have "inv s' \<and> managed s' = managed s \<and> (\<exists>new. ps = [] @ new \<and> distinct new \<and> set new \<subseteq> free s \<and>
      free s' = free s - set new \<and> (if False then length new = n else length new < n \<and> free s' = {}))"
    by (rule alloc_pages_spec [OF assms])
  then show ?thesis
    using free_pages_all_spec [of s' ps] free_managed [OF assms(1)] by auto
qed

lemma alloc_pages_fails:
  assumes "inv s" "finite (free s)" "card (free s) < n"
  shows "\<exists>ps s'. alloc_pages alloc n s [] = (ps, False, s')"
proof -
  obtain ps ok s' where a: "alloc_pages alloc n s [] = (ps, ok, s')" by (metis prod_cases3)
  have ok: "\<not> ok"
  proof
    assume "ok"
    then have "distinct ps" "set ps \<subseteq> free s" "length ps = n"
      using alloc_pages_spec [OF assms(1) a] by auto
    then have "n \<le> card (free s)" using assms(2) by (metis card_mono distinct_card)
    then show False using assms(3) by simp
  qed
  then show ?thesis using a by auto
qed

end

lemma translate_mmu:
  "translate_level n m t v \<noteq> 0 \<Longrightarrow> mmu_level n m t v = Some (translate_level n m t v)"
proof (induction n arbitrary: t)
  case 0
  then show ?case
    by (auto simp: translate_level.simps [of 0] mmu_level.simps [of 0] Let_def split: if_splits)
next
  case (Suc k)
  then show ?case
    by (auto simp: translate_level.simps [of "Suc k"] mmu_level.simps [of "Suc k"] Let_def split: if_splits)
qed

text \<open>A state with an address space whose descriptor page is mapped.\<close>

lemma demo_vmm:
  obtains s d where "pmm_inv s" "finite (free_pages s)" "card (free_pages s) \<le> 16"
    "Current_VMM_Desc s \<noteq> 0" "vmm_Descriptor (ram s) (Current_VMM_Desc s) = d" "d \<noteq> 0"
    "load64 s d = Some 0" "\<not> vmm_isUser (ram s) (Current_VMM_Desc s)"
proof (rule demo_pml4 [of "0x5000"])
  fix s0 assume s0: "pmm_inv s0" "path_ok 3 s0 (cr3 s0) 0x5000" "4 < card (free_pages s0)"
    "finite (free_pages s0)" "card (free_pages s0) \<le> 16"
  have "free_pages s0 \<noteq> {}" using s0(3) by auto
  then obtain q s1 where m: "malloc_page s0 = (q, s1)" "q \<noteq> 0"
    using malloc_page_total [OF s0(1)] by (cases "malloc_page s0") auto
  note mp = malloc_page_some [OF s0(1) m]
  let ?t = "cr3 s0" and ?v = "0x5000 :: addr"
  have k: "pmm_inv s1" "managed_pages s1 = managed_pages s0" "meta s1 = meta s0"
    using mp(3) by (auto simp: keeps_def)
  have qm: "q \<in> managed_pages s1" using mp(1) k pmm.free_managed [OF s0(1)] by auto
  let ?m = "wr64 (ram s1) (q + 8) ?v"
  define s2 where "s2 = s1\<lparr>ram := ?m, Current_VMM_Desc := q\<rparr>"
  have wq: "within q 4096 x" if "within (q + 8) 8 x" for x using within_sub [OF that, of 4096] by simp
  have "?m x = ram s1 x" if "meta s1 x" for x
    using pmm.page_own [OF k(1) qm] wq that by (intro wr64_other) blast
  then have c: "pmm_inv (s1\<lparr>ram := ?m\<rparr>) \<and> free_pages (s1\<lparr>ram := ?m\<rparr>) = free_pages s1 \<and>
      managed_pages (s1\<lparr>ram := ?m\<rparr>) = managed_pages s1 \<and> meta (s1\<lparr>ram := ?m\<rparr>) = meta s1 \<and>
      ram (s1\<lparr>ram := ?m\<rparr>) = ?m"
    by (intro pmm.client_write [OF k(1)]) auto
  have st: "pmm_inv s2" "free_pages s2 = free_pages s0 - {q}" "meta s2 = meta s0"
    "managed_pages s2 = managed_pages s0" "cr3 s2 = ?t" "Current_VMM_Desc s2 = q" "ram s2 = ?m"
    using c k mp(2) keeps_rest(1) [OF mp(3)]
    by (simp_all add: s2_def pmm_same [of "s1\<lparr>ram := ?m, Current_VMM_Desc := q\<rparr>" "s1\<lparr>ram := ?m\<rparr>"])
  have near: "disj p 4096 q 4096" if "p \<in> set (path_tables 3 (ram s0) ?t ?v)" for p
    using that s0(2) mp(1) by (simp add: path_ok_def)
  have eq: "ram s2 x = ram s0 x" if "p \<in> set (path_tables 3 (ram s0) ?t ?v)" "within p 4096 x" for p x
  proof -
    have "\<not> within q 4096 x" using near [OF that(1)] that(2) by (auto simp: disj_def)
    moreover have "\<not> meta s0 x" using that s0(2) by (simp add: path_ok_def)
    ultimately show ?thesis using mp(6) [of x] wq wr64_other [of "q + 8" x] st(7) by metis
  qed
  have "path_tables 3 (ram s2) ?t ?v = path_tables 3 (ram s0) ?t ?v"
    using path_cong [of 3 "ram s0" ?t ?v "ram s2"] eq by blast
  then have ok: "path_ok 3 s2 (cr3 s2) ?v"
    using s0(2) st by (simp add: path_ok_def)
  have "3 < card (free_pages s2)" using s0(3) card_remove_le [of "free_pages s0" q] st by simp
  moreover have qa: "q AND 0xFFF = 0" by (rule mp(5))
  ultimately have map: "virt_to_phys (map_page s2 ?v q 3) ?v = q"
    "keeps s2 (map_page s2 ?v q 3) (on_path 3 s2 (cr3 s2) ?v)"
    using map_page_ok [OF st(1) ok, of q 3] by (simp_all add: PAGE_MASK_def)
  let ?s = "map_page s2 ?v q 3"
  have qx: "ram ?s x = ram s2 x" if "within q 4096 x" for x
  proof -
    have "q \<in> managed_pages s2" using qm st k by simp
    then have "\<not> meta s2 x" "\<And>p. p \<in> free_pages s2 \<Longrightarrow> \<not> within p 4096 x"
      using that pmm.page_own [OF st(1)] pmm.page_disj [OF st(1), of q] pmm.free_managed [OF st(1)] st(2)
      by (auto simp: disj_def)
    moreover have "\<not> on_path 3 s2 (cr3 s2) ?v x"
      using that near \<open>path_tables 3 (ram s2) ?t ?v = path_tables 3 (ram s0) ?t ?v\<close> st(5)
      by (auto simp: disj_def)
    ultimately show ?thesis using map(2) unfolding keeps_def by blast
  qed
  have zero: "ram s1 x = 0" if "within q 4096 x" for x using mp(4) that .
  have "rd64 (ram ?s) q = rd64 (ram s1) q"
  proof (rule rd64_cong)
    fix x assume x: "within q 8 x"
    then have "\<not> within (q + 8) 8 x" using disj_iff [of 8 8 q "q + 8"] by (auto simp: within_def disj_def)
    then show "ram ?s x = ram s1 x" using qx within_mono [OF x, of 4096] st(7) by (simp add: wr64_other)
  qed
  also have "\<dots> = rd64 (\<lambda>_. 0) q"
    by (rule rd64_cong) (use zero within_mono in force)
  finally have a: "rd64 (ram ?s) q = 0" by (simp add: rd64_def rd32_def le64_def le32_def)
  have "rd64 (ram ?s) (q + 8) = rd64 ?m (q + 8)"
    by (rule rd64_cong) (use qx wq st(7) in simp)
  then have d: "vmm_Descriptor (ram ?s) q = ?v" by (simp add: vmm_Descriptor_def mem_simps)
  have w36: "within q 4096 (q + 36)" "\<not> within (q + 8) 8 (q + 36)" by (simp_all add: within_def)
  have u: "\<not> vmm_isUser (ram ?s) q"
    using qx [OF w36(1)] zero [OF w36(1)] st(7) wr64_other [OF w36(2)] by (simp add: vmm_isUser_def)
  have l: "load64 ?s ?v = Some 0"
    using translate_mmu [of 3 "ram ?s" "cr3 ?s" ?v] map(1) m(2) a
    by (simp add: load64_def virt_to_phys_def virt_to_phys_on_def)
  have f: "finite (free_pages ?s)" "card (free_pages ?s) \<le> 16"
  proof -
    have sub: "free_pages ?s \<subseteq> free_pages s0" using map(2) st(2) by (auto simp: keeps_def)
    then show "finite (free_pages ?s)" using s0(4) by (rule finite_subset)
    show "card (free_pages ?s) \<le> 16" using card_mono [OF s0(4) sub] s0(5) by simp
  qed
  have cur: "Current_VMM_Desc ?s = q" using keeps_rest(2) [OF map(2)] st(6) by simp
  show thesis
    by (rule that [of ?s ?v]) (use map(2) f cur d l u m(2) in \<open>simp_all add: keeps_def\<close>)
qed

section \<open>Properties\<close>

text \<open>A \<^verbatim>\<open>Vmm_Malloc\<close> request for more pages than are free returns \<^verbatim>\<open>NULL\<close> with error
  code 3, gives back every page it took, and leaves the allocator consistent.\<close>

theorem Vmm_Malloc_rollback:
  assumes "pmm_inv s" "finite (free_pages s)" "card (free_pages s) < unat (pages_for sz)" "sz \<noteq> 0"
    and "vmm_Descriptor (ram s) (Current_VMM_Desc s) \<noteq> 0"
    and "load64 s (vmm_Descriptor (ram s) (Current_VMM_Desc s)) = Some a"
    and "a + pages_for sz * PAGE_SIZE \<le>
      (if vmm_isUser (ram s) (Current_VMM_Desc s) then UserVirtualMemoryEnd else KernelVirtualMemoryEnd)"
  shows "\<exists>s'. Vmm_Malloc s sz = Some (0, s') \<and> VMM_ERRORCODE s' = 3 \<and> free_pages s' = free_pages s"
proof -
  obtain ps s1 where a: "alloc_pages (\<lambda>s. Pmm_Malloc s 1) (unat (pages_for sz)) s [] = (ps, False, s1)"
    using pmm.alloc_pages_fails [OF assms(1-3)] by blast
  let ?s = "free_pages_all (\<lambda>s p. Pmm_Free s p 1) ps s1"
  have "free_pages ?s = free_pages s" using pmm.rollback [OF assms(1) a] by simp
  moreover have "Vmm_Malloc s sz = Some (0, ?s\<lparr>VMM_ERRORCODE := 3\<rparr>)"
    using assms(4-7) a by (simp add: Vmm_Malloc_def fail_vmm_def Let_def not_less leD)
  moreover have "free_pages (?s\<lparr>VMM_ERRORCODE := 3\<rparr>) = free_pages ?s"
    by (rule pmm_same) simp_all
  ultimately show ?thesis by simp
qed

lemma Vmm_Malloc_rollback_witness:
  "\<exists>s s'. Vmm_Malloc s 0x64000 = Some (0, s') \<and> VMM_ERRORCODE s' = 3 \<and> free_pages s' = free_pages s"
proof (rule demo_vmm)
  fix s d assume s: "pmm_inv s" "finite (free_pages s)" "card (free_pages s) \<le> 16"
    "Current_VMM_Desc s \<noteq> 0" "vmm_Descriptor (ram s) (Current_VMM_Desc s) = d" "d \<noteq> 0"
    "load64 s d = Some 0" "\<not> vmm_isUser (ram s) (Current_VMM_Desc s)"
  have "pages_for 0x64000 = 100" by (simp add: pages_for_def PAGE_SIZE_def)
  then show ?thesis
    using Vmm_Malloc_rollback [OF s(1,2), of "0x64000" 0] s
    by (auto simp: PAGE_SIZE_def KernelVirtualMemoryEnd_def)
qed

end
