(* ===== verification/Thread.thy ===== *)
theory Thread
  imports Queue Vmm
begin

text \<open>
  Threads and the scheduler, \<^verbatim>\<open>Kernel/kernel/Thread.c\<close>.  Thread control blocks are a map
  from their address to a record; the queues run through its \<open>nxt\<close> field.  Interrupts are off
  inside every operation, so each is one step.  A loop that follows \<^verbatim>\<open>next\<close> pointers is a
  \<open>partial_function\<close>: \<open>None\<close> is a walk that never ends, and also a page fault or a write past
  the end of an array in the operations that can cause one.
\<close>

unbundle bit_operations_syntax

section \<open>State\<close>

datatype thread_state = THREAD_READY | THREAD_RUNNING | THREAD_BLOCKED | THREAD_TERMINATED

record thread =
  context_rsp :: u64
  tid :: u64
  t_state :: thread_state
  kernel_stack :: addr
  stack_size :: u64
  nxt :: addr
  PositionInTable :: nat
  wakeup_time :: u64
  use_vmm :: bool
  t_vmm :: addr
  user_entry :: addr
  user_rsp :: addr
  stack :: addr

definition zero_thread :: thread where
  "zero_thread = \<lparr>context_rsp = 0, tid = 0, t_state = THREAD_READY, kernel_stack = 0, stack_size = 0,
     nxt = 0, PositionInTable = 0, wakeup_time = 0, use_vmm = False, t_vmm = 0, user_entry = 0,
     user_rsp = 0, stack = 0\<rparr>"

definition FREE_TCB_LIST_SIZE :: nat where "FREE_TCB_LIST_SIZE = 4"
definition TORT_SIZE :: nat where "TORT_SIZE = 16"
definition PIT_CLOCK_FREQ :: u64 where "PIT_CLOCK_FREQ = 1000"

record sched =
  tcb :: "addr \<Rightarrow> thread"
  current_thread :: addr
  next_thread_id :: u64
  next_TORT_Position :: nat
  free_tcb_list :: "addr list"
  num_of_FreeTCB :: nat
  TORT :: "addr list"
  sleep_queue_head :: addr
  sleep_queue_tail :: addr
  ready_queue_head :: addr
  ready_queue_tail :: addr
  schedule_prev_thread :: addr
  SYSTEM_KernelThread :: addr
  SYSTEM_TimerTicks :: u64
  KernelPML4 :: addr
  tss_rsp0 :: u64
  syscall_kernel_rsp :: u64
  interrupts :: bool
  mm :: mm_state

definition upd_thread :: "addr \<Rightarrow> (thread \<Rightarrow> thread) \<Rightarrow> sched \<Rightarrow> sched" where
  "upd_thread t f s = s\<lparr>tcb := (tcb s)(t := f (tcb s t))\<rparr>"

abbreviation set_next :: "addr \<Rightarrow> addr \<Rightarrow> sched \<Rightarrow> sched" where
  "set_next t n \<equiv> upd_thread t (\<lambda>r. r\<lparr>nxt := n\<rparr>)"

abbreviation set_state :: "addr \<Rightarrow> thread_state \<Rightarrow> sched \<Rightarrow> sched" where
  "set_state t st \<equiv> upd_thread t (\<lambda>r. r\<lparr>t_state := st\<rparr>)"

abbreviation next_of :: "sched \<Rightarrow> addr \<Rightarrow> addr" where
  "next_of s t \<equiv> nxt (tcb s t)"

section \<open>The queues\<close>

definition thread_enqueue :: "sched \<Rightarrow> addr \<Rightarrow> sched" where
  "thread_enqueue s t =
     (let s = set_next t 0 s;
          s = (if ready_queue_head s = 0
               then s\<lparr>ready_queue_head := t, ready_queue_tail := t\<rparr>
               else (set_next (ready_queue_tail s) t s)\<lparr>ready_queue_tail := t\<rparr>)
      in set_state t THREAD_READY s)"

definition thread_dequeue :: "sched \<Rightarrow> addr \<times> sched" where
  "thread_dequeue s =
     (if ready_queue_head s = 0 then (0, s)
      else let t = ready_queue_head s;
               s = s\<lparr>ready_queue_head := next_of s t\<rparr>;
               s = (if ready_queue_head s = 0 then s\<lparr>ready_queue_tail := 0\<rparr> else s)
           in (t, set_next t 0 s))"

definition sleep_enqueue :: "sched \<Rightarrow> addr \<Rightarrow> sched" where
  "sleep_enqueue s t =
     (let s = set_next t 0 s
      in if sleep_queue_head s = 0
         then s\<lparr>sleep_queue_head := t, sleep_queue_tail := t\<rparr>
         else (set_next (sleep_queue_tail s) t s)\<lparr>sleep_queue_tail := t\<rparr>)"

definition sleep_dequeue :: "sched \<Rightarrow> addr \<times> sched" where
  "sleep_dequeue s =
     (if sleep_queue_head s = 0 then (0, s)
      else let t = sleep_queue_head s;
               s = s\<lparr>sleep_queue_head := next_of s t\<rparr>;
               s = (if sleep_queue_head s = 0 then s\<lparr>sleep_queue_tail := 0\<rparr> else s)
           in (t, set_next t 0 s))"

text \<open>\<^verbatim>\<open>while (curr && curr->next != target) curr = curr->next;\<close>\<close>

partial_function (option) find_before :: "(addr \<Rightarrow> addr) \<Rightarrow> addr \<Rightarrow> addr \<Rightarrow> addr option" where
  "find_before nx target cur =
     (if cur \<noteq> 0 \<and> nx cur \<noteq> target then find_before nx target (nx cur) else Some cur)"

definition remove_from_sleep_queue :: "sched \<Rightarrow> addr \<Rightarrow> (addr \<times> sched) option" where
  "remove_from_sleep_queue s target =
     (if sleep_queue_head s = 0 then Some (0, s)
      else if sleep_queue_head s = target then Some (sleep_dequeue s)
      else Option.bind (find_before (next_of s) target (sleep_queue_head s)) (\<lambda>cur.
        if cur \<noteq> 0 \<and> next_of s cur = target
        then let s = set_next cur (next_of s target) s;
                 s = (if target = sleep_queue_tail s then s\<lparr>sleep_queue_tail := cur\<rparr> else s)
             in Some (target, set_next target 0 s)
        else Some (0, s)))"

text \<open>The loop of \<^verbatim>\<open>wake_sleeping_threads\<close>.\<close>

partial_function (option) wake_loop :: "sched \<Rightarrow> addr \<Rightarrow> addr \<Rightarrow> sched option" where
  "wake_loop s prev current =
     (if current = 0 then Some s
      else if wakeup_time (tcb s current) \<le> SYSTEM_TimerTicks s
      then let to_wake = current;
               s = (if prev \<noteq> 0 then set_next prev (next_of s current) s
                    else s\<lparr>sleep_queue_head := next_of s current\<rparr>);
               s = (if current = sleep_queue_tail s then s\<lparr>sleep_queue_tail := prev\<rparr> else s);
               current = next_of s current;
               s = set_state to_wake THREAD_READY (set_next to_wake 0 s)
           in wake_loop (thread_enqueue s to_wake) prev current
      else wake_loop s current (next_of s current))"

definition wake_sleeping_threads :: "sched \<Rightarrow> sched option" where
  "wake_sleeping_threads s =
     (let flags = interrupts s
      in map_option (\<lambda>s. if flags then s\<lparr>interrupts := True\<rparr> else s)
           (wake_loop (s\<lparr>interrupts := False\<rparr>) 0 (sleep_queue_head s)))"

section \<open>Scheduling\<close>

text \<open>
  \<^verbatim>\<open>schedule\<close> up to and including \<^verbatim>\<open>switch_to\<close>.  The result is the local
  \<^verbatim>\<open>target_cr3\<close>, which stays on the stack of the thread that is switched away from, or
  \<open>None\<close> inside when there is no switch.
\<close>

definition schedule_put_back :: "sched \<Rightarrow> sched" where
  "schedule_put_back s =
     (if current_thread s \<noteq> 0 \<and> t_state (tcb s (current_thread s)) = THREAD_RUNNING
      then thread_enqueue (set_state (current_thread s) THREAD_READY s) (current_thread s)
      else s)"

definition target_cr3_for :: "sched \<Rightarrow> addr \<Rightarrow> addr \<Rightarrow> addr" where
  "target_cr3_for s prev next =
     (if use_vmm (tcb s next) then vmm_Pml4 (ram (mm s)) (t_vmm (tcb s next))
      else if use_vmm (tcb s prev) then KernelPML4 s else 0)"

definition schedule_switch :: "sched \<Rightarrow> addr \<Rightarrow> u64 option \<times> sched" where
  "schedule_switch s next =
     (let prev = current_thread s;
          s = set_state next THREAD_RUNNING (s\<lparr>schedule_prev_thread := prev, current_thread := next\<rparr>)
      in if prev = next then (None, s)
         else let target_cr3 = target_cr3_for s prev next;
                  top = kernel_stack (tcb s next) + stack_size (tcb s next)
              in (Some target_cr3,
                  s\<lparr>tss_rsp0 := top, syscall_kernel_rsp := top,
                    mm := (mm s)\<lparr>cr3 := if target_cr3 = 0 then cr3 (mm s) else target_cr3\<rparr>\<rparr>))"

definition schedule_select :: "sched \<Rightarrow> (u64 option \<times> sched) option" where
  "schedule_select s =
     Option.bind (wake_sleeping_threads (schedule_put_back s)) (\<lambda>s.
       let (next, s) = thread_dequeue s
       in if next = 0
          then let next = SYSTEM_KernelThread s
               in if next = 0 then Some (None, s)
                  else Some (schedule_switch (set_state next THREAD_RUNNING s) next)
          else Some (schedule_switch s next))"

section \<open>Ending threads\<close>

text \<open>\<^verbatim>\<open>num_of_FreeTCB++; free_tcb_list[num_of_FreeTCB] = thread;\<close> under the guard
  \<^verbatim>\<open>num_of_FreeTCB < FREE_TCB_LIST_SIZE\<close>; \<open>None\<close> is the write past the array.\<close>

definition put_free_tcb :: "sched \<Rightarrow> addr \<Rightarrow> sched option" where
  "put_free_tcb s t =
     (if num_of_FreeTCB s < FREE_TCB_LIST_SIZE
      then let n = num_of_FreeTCB s + 1
           in if n < length (free_tcb_list s)
              then Some (s\<lparr>num_of_FreeTCB := n, free_tcb_list := (free_tcb_list s)[n := t]\<rparr>)
              else None
      else Some s)"

definition clear_TORT :: "sched \<Rightarrow> addr \<Rightarrow> sched" where
  "clear_TORT s t = s\<lparr>TORT := (TORT s)[PositionInTable (tcb s t) := 0]\<rparr>"

text \<open>Freeing the recorded allocations of an address space; the bound and the records are read
  again in every iteration.\<close>

partial_function (option) free_records :: "mm_state \<Rightarrow> addr \<Rightarrow> u32 \<Rightarrow> mm_state option" where
  "free_records m vmm i =
     (if i < vmm_AllocRecordNum (ram m) vmm
      then let r = vmm_AllocRecord (ram m) vmm + 16 * ucast i
           in Option.bind (load64 m r) (\<lambda>a.
              Option.bind (load64 m (r + 8)) (\<lambda>sz.
              Option.bind (Vmm_Free m a sz) (\<lambda>m. free_records m vmm (i + 1))))
      else Some m)"

definition kill_reclaim :: "sched \<Rightarrow> addr \<Rightarrow> sched option" where
  "kill_reclaim s t =
     (let r = tcb s t
      in if use_vmm r
         then let (old_vmm, m) = Switch_Virtual_Mamanager (mm s) (t_vmm r)
              in Option.bind (free_records m (t_vmm r) 0) (\<lambda>m.
                 Option.bind
                   (if vmm_isUser (ram m) (t_vmm r)
                    then Some (Pmm_Free m (kernel_stack r) (ucast (stack_size r)))
                    else if KernelVirtualMemoryStart \<le> kernel_stack r
                    then Vmm_Free m (kernel_stack r) (stack_size r)
                    else Some (Pmm_Free m (kernel_stack r) (ucast (stack_size r div PAGE_SIZE))))
                   (\<lambda>m. Some (upd_thread t (\<lambda>r. r\<lparr>kernel_stack := 0\<rparr>)
                              (s\<lparr>mm := snd (Switch_Virtual_Mamanager m old_vmm)\<rparr>))))
         else if kernel_stack r \<noteq> 0
         then Some (upd_thread t (\<lambda>r. r\<lparr>kernel_stack := 0\<rparr>)
                (s\<lparr>mm := Pmm_Free (mm s) (kernel_stack r) (ucast (stack_size r div PAGE_SIZE))\<rparr>))
         else Some s)"

text \<open>Taking a thread out of the ready queue.\<close>

definition ready_unlink :: "sched \<Rightarrow> addr \<Rightarrow> sched option" where
  "ready_unlink s t =
     (if ready_queue_head s = t
      then let s = s\<lparr>ready_queue_head := next_of s t\<rparr>
           in Some (if ready_queue_head s = 0 then s\<lparr>ready_queue_tail := 0\<rparr> else s)
      else Option.bind (find_before (next_of s) t (ready_queue_head s)) (\<lambda>cur.
        if cur \<noteq> 0
        then let s = set_next cur (next_of s t) s
             in Some (if t = ready_queue_tail s then s\<lparr>ready_queue_tail := cur\<rparr> else s)
        else Some s))"

definition KillThread :: "sched \<Rightarrow> addr \<Rightarrow> sched option" where
  "KillThread s t =
     (if t = 0 then Some s
      else let s = set_state t THREAD_TERMINATED (s\<lparr>interrupts := False\<rparr>)
           in Option.bind (remove_from_sleep_queue s t) (\<lambda>(_, s).
              Option.bind (kill_reclaim s t) (\<lambda>s.
              if t = current_thread s
              then Option.bind (put_free_tcb s t) (\<lambda>s.
                   map_option snd (schedule_select ((clear_TORT s t)\<lparr>interrupts := True\<rparr>)))
              else Option.bind (ready_unlink s t) (\<lambda>s.
                   Option.bind (put_free_tcb s t) (\<lambda>s.
                   Some ((clear_TORT s t)\<lparr>interrupts := True\<rparr>))))))"

text \<open>The rest of \<^verbatim>\<open>schedule\<close>, run by a thread that is switched back to.  \<open>target\<close> is that
  thread's own \<^verbatim>\<open>target_cr3\<close>, computed when it was switched away from.  A thread that runs for
  the first time starts at its entry point instead.\<close>

definition schedule_resume :: "sched \<Rightarrow> u64 option \<Rightarrow> sched option" where
  "schedule_resume s target =
     (let s = (case target of
                 None \<Rightarrow> s
               | Some c \<Rightarrow> if c \<noteq> 0
                   then s\<lparr>mm := (mm s)\<lparr>Current_VMM_Desc := t_vmm (tcb s (current_thread s))\<rparr>\<rparr> else s)
      in map_option (\<lambda>s. s\<lparr>schedule_prev_thread := 0\<rparr>)
           (if t_state (tcb s (schedule_prev_thread s)) = THREAD_TERMINATED
            then KillThread s (schedule_prev_thread s) else Some s))"

definition thread_exit :: "sched \<Rightarrow> (u64 option \<times> sched) option" where
  "thread_exit s =
     (let s = set_state (current_thread s) THREAD_TERMINATED (s\<lparr>interrupts := False\<rparr>)
      in Option.bind (remove_from_sleep_queue s (current_thread s)) (\<lambda>(_, s). schedule_select s))"

section \<open>Sleeping\<close>

definition sleep_until :: "sched \<Rightarrow> u64 \<Rightarrow> sched" where
  "sleep_until s wake =
     (let t = current_thread s;
          s = upd_thread t (\<lambda>r. r\<lparr>wakeup_time := wake, t_state := THREAD_BLOCKED\<rparr>) (s\<lparr>interrupts := False\<rparr>)
      in sleep_enqueue s t)"

definition ThreadSleepMS :: "sched \<Rightarrow> u64 \<Rightarrow> (u64 option \<times> sched) option" where
  "ThreadSleepMS s ms =
     (if ms = 0 then Some (None, s)
      else schedule_select (sleep_until s (SYSTEM_TimerTicks s + (ms * PIT_CLOCK_FREQ) div 1000)))"

definition ThreadSleepSecond :: "sched \<Rightarrow> u64 \<Rightarrow> (u64 option \<times> sched) option" where
  "ThreadSleepSecond s sec =
     (if sec = 0 then Some (None, s)
      else schedule_select (sleep_until s (SYSTEM_TimerTicks s + sec * PIT_CLOCK_FREQ)))"

section \<open>Creating threads\<close>

text \<open>Stores of consecutive words and a byte copy, both through the current page tables.\<close>

fun put_words :: "mm_state \<Rightarrow> addr \<Rightarrow> u64 list \<Rightarrow> mm_state option" where
  "put_words m a [] = Some m"
| "put_words m a (w # ws) = Option.bind (store64 m a w) (\<lambda>m. put_words m (a + 8) ws)"

fun copy_bytes :: "mm_state \<Rightarrow> addr \<Rightarrow> addr \<Rightarrow> nat \<Rightarrow> mm_state option" where
  "copy_bytes m d src 0 = Some m"
| "copy_bytes m d src (Suc n) =
     Option.bind (mmu_level 3 (ram m) (cr3 m) src) (\<lambda>ps.
     Option.bind (mmu_level 3 (ram m) (cr3 m) d) (\<lambda>pd.
       copy_bytes (m\<lparr>ram := (ram m)(pd := ram m ps)\<rparr>) (d + 1) (src + 1) n))"

text \<open>The initial frame: 18 words, 16-byte aligned, below \<^verbatim>\<open>stack_bottom\<close>.\<close>

definition frame_addr :: "u64 \<Rightarrow> u64" where
  "frame_addr stack_bottom = (stack_bottom - 18 * 8) AND NOT 15"

definition init_frame :: "mm_state \<Rightarrow> addr \<Rightarrow> addr \<Rightarrow> addr \<Rightarrow> mm_state option" where
  "init_frame m frame entry exit_addr =
     Option.bind (put_words m frame (replicate 18 0)) (\<lambda>m.
     put_words m (frame + 15 * 8) [0x202, entry, exit_addr])"

definition enter_TORT :: "sched \<Rightarrow> addr \<Rightarrow> sched" where
  "enter_TORT s t =
     (if next_TORT_Position s < TORT_SIZE
      then (upd_thread t (\<lambda>r. r\<lparr>PositionInTable := next_TORT_Position s\<rparr>) s)
             \<lparr>TORT := (TORT s)[next_TORT_Position s := t], next_TORT_Position := next_TORT_Position s + 1\<rparr>
      else s)"

text \<open>Taking a control block: from the free list, or a new page.\<close>

definition take_tcb :: "sched \<Rightarrow> (addr \<times> sched) option" where
  "take_tcb s =
     (let n = num_of_FreeTCB s
      in if \<not> n < length (free_tcb_list s) then None
         else if free_tcb_list s ! n \<noteq> 0
         then let t = free_tcb_list s ! n
              in Some (t, upd_thread t (\<lambda>_. zero_thread)
                   (s\<lparr>free_tcb_list := (free_tcb_list s)[n := 0],
                      num_of_FreeTCB := (if n = 0 then 2 ^ 32 - 1 else n - 1)\<rparr>))
         else let (t, m) = Pmm_Malloc (mm s) 1 in Some (t, s\<lparr>mm := m\<rparr>))"

definition create_thread ::
  "addr \<Rightarrow> sched \<Rightarrow> addr \<Rightarrow> addr \<Rightarrow> u64 \<Rightarrow> bool \<Rightarrow> addr \<Rightarrow> (addr \<times> sched) option" where
  "create_thread exit_addr s entry stk stk_size UseVMM vmm =
     Option.bind (take_tcb (s\<lparr>interrupts := False\<rparr>)) (\<lambda>(t, s).
       if t = 0 then Some (0, s)
       else if stk = 0 then Some (0, s\<lparr>mm := Pmm_Free (mm s) t 1\<rparr>)
       else let s = upd_thread t (\<lambda>_. zero_thread\<lparr>tid := next_thread_id s, t_state := THREAD_READY,
                      stack_size := stk_size, kernel_stack := stk, stack := stk, use_vmm := UseVMM,
                      t_vmm := vmm\<rparr>) (s\<lparr>next_thread_id := next_thread_id s + 1\<rparr>);
                s = enter_TORT s t;
                (old_vmm, m) = (if UseVMM then Switch_Virtual_Mamanager (mm s) vmm else (0, mm s));
                frame = frame_addr (stk + stk_size)
            in Option.bind (init_frame m frame entry exit_addr) (\<lambda>m.
                 let s = upd_thread t (\<lambda>r. r\<lparr>context_rsp := frame\<rparr>) s;
                     m = (if UseVMM then snd (Switch_Virtual_Mamanager m old_vmm) else m)
                 in Some (t, (thread_enqueue (s\<lparr>mm := m\<rparr>) t)\<lparr>interrupts := True\<rparr>)))"

definition round_up_page :: "u64 \<Rightarrow> u64" where
  "round_up_page sz = (sz + PAGE_SIZE - 1) AND NOT (PAGE_SIZE - 1)"

definition CreateKernelThread :: "addr \<Rightarrow> sched \<Rightarrow> addr \<Rightarrow> u64 \<Rightarrow> (addr \<times> sched) option" where
  "CreateKernelThread exit_addr s entry sz =
     (let sz = round_up_page sz;
          (stk, m) = Pmm_Malloc (mm s) (ucast (sz div PAGE_SIZE))
      in create_thread exit_addr (s\<lparr>mm := m\<rparr>) entry stk sz False (Current_VMM_Desc m))"

definition create_user_thread ::
  "addr \<Rightarrow> addr \<Rightarrow> sched \<Rightarrow> addr \<Rightarrow> addr \<Rightarrow> u64 \<Rightarrow> addr \<Rightarrow> (addr \<times> sched) option" where
  "create_user_thread exit_addr bootstrap_addr s entry stk stk_size vmm =
     (let s = s\<lparr>interrupts := False\<rparr>; (t, m) = Pmm_Malloc (mm s) 1; s = s\<lparr>mm := m\<rparr>
      in if t = 0 then Some (0, s)
         else let (ks, m) = Pmm_Malloc (mm s) 1; s = s\<lparr>mm := m\<rparr>
              in if ks = 0 then Some (0, s\<lparr>mm := Pmm_Free (mm s) t 1\<rparr>)
                 else let s = upd_thread t (\<lambda>_. zero_thread\<lparr>tid := next_thread_id s,
                            t_state := THREAD_READY, stack_size := stk_size, kernel_stack := ks,
                            stack := stk, use_vmm := True, t_vmm := vmm, user_entry := entry,
                            user_rsp := stk + stk_size\<rparr>) (s\<lparr>next_thread_id := next_thread_id s + 1\<rparr>);
                          s = enter_TORT s t;
                          (old_vmm, m) = Switch_Virtual_Mamanager (mm s) vmm;
                          frame = frame_addr (ks + stk_size)
                      in Option.bind (init_frame m frame bootstrap_addr exit_addr) (\<lambda>m.
                           let s = upd_thread t (\<lambda>r. r\<lparr>context_rsp := frame\<rparr>) s;
                               m = snd (Switch_Virtual_Mamanager m old_vmm)
                           in Some (t, (thread_enqueue (s\<lparr>mm := m\<rparr>) t)\<lparr>interrupts := True\<rparr>)))"

text \<open>\<^verbatim>\<open>CreateUserThread\<close>: a fresh address space, a copy of the entry point's page with the
  exit trampoline \<^verbatim>\<open>int $0x80\<close> in its last 8 bytes, and a stack.\<close>

definition CreateUserThread ::
  "addr \<Rightarrow> addr \<Rightarrow> sched \<Rightarrow> addr \<Rightarrow> u64 \<Rightarrow> (addr \<times> sched) option" where
  "CreateUserThread exit_addr bootstrap_addr s entry sz =
     (let sz = round_up_page sz
      in Option.bind (Init_User_Virtual_Memory_Manager (mm s) 7) (\<lambda>(vmm, m).
           if vmm = 0 then Some (0, s\<lparr>mm := m\<rparr>)
           else let (old_vmm, m) = Switch_Virtual_Mamanager m vmm;
                    back = (\<lambda>m. snd (Switch_Virtual_Mamanager m old_vmm));
                    entry_page = entry AND PAGE_MASK; entry_off = entry AND 0xFFF
                in Option.bind (Vmm_Malloc m PAGE_SIZE) (\<lambda>(code_copy, m).
                   if code_copy = 0 then Some (0, s\<lparr>mm := back m\<rparr>)
                   else Option.bind (copy_bytes m code_copy entry_page (unat PAGE_SIZE)) (\<lambda>m.
                        let tramp = code_copy + PAGE_SIZE - 8
                        in Option.bind (mmu_level 3 (ram m) (cr3 m) tramp) (\<lambda>p.
                           let m = m\<lparr>ram := (ram m)(p := 0xCD, p + 1 := 0x80)\<rparr>
                           in Option.bind (Vmm_Malloc m sz) (\<lambda>(user_stack, m).
                              let s = s\<lparr>mm := back m\<rparr>
                              in if user_stack = 0 then Some (0, s)
                                 else create_user_thread exit_addr bootstrap_addr s
                                        (code_copy OR entry_off) user_stack sz vmm))))))"

text \<open>\<^verbatim>\<open>init_multitasking\<close>, given the stack address from the boot structure and the entry
  point of the idle thread.\<close>

definition init_multitasking :: "addr \<Rightarrow> sched \<Rightarrow> addr \<Rightarrow> (addr \<times> sched) option" where
  "init_multitasking exit_addr s idle_addr =
     (let s = s\<lparr>TORT := replicate TORT_SIZE 0, free_tcb_list := replicate FREE_TCB_LIST_SIZE 0,
                ready_queue_head := 0, ready_queue_tail := 0, sleep_queue_head := 0, sleep_queue_tail := 0\<rparr>;
          (t, m) = Pmm_Malloc (mm s) 1;
          ks = StackAddr (SYSTEM_MemoryMap m);
          s = upd_thread t (\<lambda>_. zero_thread\<lparr>t_state := THREAD_RUNNING, kernel_stack := ks,
                  use_vmm := False, t_vmm := Current_VMM_Desc m\<rparr>)
                (s\<lparr>mm := m, current_thread := t, SYSTEM_KernelThread := t, tss_rsp0 := ks + 4096\<rparr>)
      in CreateKernelThread exit_addr s idle_addr 4096)"

section \<open>Queue abstraction\<close>

definition is_ready :: "sched \<Rightarrow> addr list \<Rightarrow> bool" where
  "is_ready s xs \<longleftrightarrow> queue_ok (next_of s) (ready_queue_head s) (ready_queue_tail s) xs"

definition is_sleep :: "sched \<Rightarrow> addr list \<Rightarrow> bool" where
  "is_sleep s xs \<longleftrightarrow> queue_ok (next_of s) (sleep_queue_head s) (sleep_queue_tail s) xs"

lemma is_ready_frame:
  "is_ready s xs \<Longrightarrow> (\<And>y. y \<in> set xs \<Longrightarrow> next_of s' y = next_of s y) \<Longrightarrow>
   ready_queue_head s' = ready_queue_head s \<Longrightarrow> ready_queue_tail s' = ready_queue_tail s \<Longrightarrow> is_ready s' xs"
  using queue_ok_cong [of xs "next_of s'" "next_of s"] by (simp add: is_ready_def)

lemma is_sleep_frame:
  "is_sleep s xs \<Longrightarrow> (\<And>y. y \<in> set xs \<Longrightarrow> next_of s' y = next_of s y) \<Longrightarrow>
   sleep_queue_head s' = sleep_queue_head s \<Longrightarrow> sleep_queue_tail s' = sleep_queue_tail s \<Longrightarrow> is_sleep s' xs"
  using queue_ok_cong [of xs "next_of s'" "next_of s"] by (simp add: is_sleep_def)

lemma is_sleepI:
  "queue_ok nx h e xs \<Longrightarrow> (\<And>y. y \<in> set xs \<Longrightarrow> next_of s' y = nx y) \<Longrightarrow>
   sleep_queue_head s' = h \<Longrightarrow> sleep_queue_tail s' = e \<Longrightarrow> is_sleep s' xs"
  using queue_ok_cong [of xs "next_of s'" nx] by (simp add: is_sleep_def)

lemma upd_thread_simps [simp]:
  "tcb (upd_thread t f s) = (tcb s)(t := f (tcb s t))"
  "current_thread (upd_thread t f s) = current_thread s"
  "ready_queue_head (upd_thread t f s) = ready_queue_head s"
  "ready_queue_tail (upd_thread t f s) = ready_queue_tail s"
  "sleep_queue_head (upd_thread t f s) = sleep_queue_head s"
  "sleep_queue_tail (upd_thread t f s) = sleep_queue_tail s"
  "SYSTEM_TimerTicks (upd_thread t f s) = SYSTEM_TimerTicks s"
  "SYSTEM_KernelThread (upd_thread t f s) = SYSTEM_KernelThread s"
  "schedule_prev_thread (upd_thread t f s) = schedule_prev_thread s"
  "interrupts (upd_thread t f s) = interrupts s"
  "mm (upd_thread t f s) = mm s" "KernelPML4 (upd_thread t f s) = KernelPML4 s"
  by (simp_all add: upd_thread_def)

text \<open>What an operation on the queues leaves alone: the links and the states of threads aside,
  everything the scheduler decides on.\<close>

definition static :: "thread \<Rightarrow> thread" where
  "static r = r\<lparr>nxt := 0, t_state := THREAD_READY\<rparr>"

definition same_sched :: "sched \<Rightarrow> sched \<Rightarrow> bool" where
  "same_sched s s' \<longleftrightarrow>
     current_thread s' = current_thread s \<and> SYSTEM_TimerTicks s' = SYSTEM_TimerTicks s \<and>
     SYSTEM_KernelThread s' = SYSTEM_KernelThread s \<and> mm s' = mm s \<and> KernelPML4 s' = KernelPML4 s \<and>
     schedule_prev_thread s' = schedule_prev_thread s \<and> (\<forall>u. static (tcb s' u) = static (tcb s u))"

lemma same_sched_refl [simp]: "same_sched s s"
  by (simp add: same_sched_def)

lemma same_sched_trans: "same_sched s s1 \<Longrightarrow> same_sched s1 s2 \<Longrightarrow> same_sched s s2"
  by (simp add: same_sched_def)

lemma static_fields:
  "static r = static r' \<Longrightarrow> wakeup_time r = wakeup_time r' \<and> use_vmm r = use_vmm r' \<and> t_vmm r = t_vmm r' \<and>
   tid r = tid r' \<and> kernel_stack r = kernel_stack r' \<and> stack_size r = stack_size r'"
  by (cases r; cases r') (simp add: static_def)

lemma thread_enqueue_next:
  "next_of (thread_enqueue s t) =
     (if ready_queue_head s = 0 then (next_of s)(t := 0) else (next_of s)(t := 0, ready_queue_tail s := t))"
  by (auto simp: thread_enqueue_def Let_def fun_eq_iff)

lemma thread_enqueue_fields:
  "ready_queue_head (thread_enqueue s t) = (if ready_queue_head s = 0 then t else ready_queue_head s)"
  "ready_queue_tail (thread_enqueue s t) = t"
  "sleep_queue_head (thread_enqueue s t) = sleep_queue_head s"
  "sleep_queue_tail (thread_enqueue s t) = sleep_queue_tail s"
  "same_sched s (thread_enqueue s t)"
  "interrupts (thread_enqueue s t) = interrupts s"
  "t_state (tcb (thread_enqueue s t) u) = (if u = t then THREAD_READY else t_state (tcb s u))"
  by (simp_all add: thread_enqueue_def Let_def same_sched_def static_def)

lemma thread_enqueue_ready:
  "is_ready s xs \<Longrightarrow> t \<notin> set xs \<Longrightarrow> t \<noteq> 0 \<Longrightarrow> is_ready (thread_enqueue s t) (xs @ [t])"
  unfolding is_ready_def thread_enqueue_next thread_enqueue_fields by (rule queue_ok_snoc)

lemma ready_tail_in: "is_ready s xs \<Longrightarrow> ready_queue_head s \<noteq> 0 \<Longrightarrow> ready_queue_tail s \<in> set xs"
  unfolding is_ready_def using queue_ok_empty queue_ok_tail by blast

lemma thread_enqueue_frame:
  assumes "is_ready s xs" "u \<notin> set xs" "u \<noteq> t"
  shows "next_of (thread_enqueue s t) u = next_of s u"
proof -
  have "ready_queue_head s = 0 \<or> ready_queue_tail s \<noteq> u"
    using ready_tail_in [OF assms(1)] assms(2) by blast
  then show ?thesis using fun_cong [OF thread_enqueue_next, of s t u] assms(3) by auto
qed

lemma thread_enqueue_sleep:
  assumes "is_ready s xs" "is_sleep s ys" "t \<notin> set ys" "set xs \<inter> set ys = {}"
  shows "is_sleep (thread_enqueue s t) ys"
proof -
  have "next_of (thread_enqueue s t) x = next_of s x" if "x \<in> set ys" for x
    using that assms(3,4) by (intro thread_enqueue_frame [OF assms(1)]) auto
  then show ?thesis
    by (intro is_sleep_frame [OF assms(2)]) (simp_all add: thread_enqueue_fields)
qed

lemma thread_dequeue_ready:
  "is_ready s [] \<Longrightarrow> thread_dequeue s = (0, s)"
  "is_ready s (x # xs) \<Longrightarrow> fst (thread_dequeue s) = x \<and> is_ready (snd (thread_dequeue s)) xs"
proof -
  show "is_ready s [] \<Longrightarrow> thread_dequeue s = (0, s)"
    using queue_ok_empty [of "next_of s" _ _ "[]"] by (auto simp: is_ready_def thread_dequeue_def)
  assume q: "is_ready s (x # xs)"
  have n: "next_of (snd (thread_dequeue s)) = (next_of s)(x := 0)" and h: "ready_queue_head s = x" "x \<noteq> 0"
    using queue_ok_pop [of "next_of s" "ready_queue_head s" "ready_queue_tail s" x xs] q
    by (auto simp: is_ready_def thread_dequeue_def Let_def fun_eq_iff)
  then show "fst (thread_dequeue s) = x \<and> is_ready (snd (thread_dequeue s)) xs"
    using queue_ok_pop [of "next_of s" "ready_queue_head s" "ready_queue_tail s" x xs] q
    unfolding is_ready_def n by (auto simp: thread_dequeue_def Let_def)
qed

lemma sleep_enqueue_next:
  "next_of (sleep_enqueue s t) =
     (if sleep_queue_head s = 0 then (next_of s)(t := 0) else (next_of s)(t := 0, sleep_queue_tail s := t))"
  by (auto simp: sleep_enqueue_def Let_def fun_eq_iff)

lemma sleep_enqueue_fields:
  "sleep_queue_head (sleep_enqueue s t) = (if sleep_queue_head s = 0 then t else sleep_queue_head s)"
  "sleep_queue_tail (sleep_enqueue s t) = t"
  "ready_queue_head (sleep_enqueue s t) = ready_queue_head s"
  "ready_queue_tail (sleep_enqueue s t) = ready_queue_tail s"
  by (simp_all add: sleep_enqueue_def Let_def)

lemma sleep_enqueue_sleep:
  "is_sleep s xs \<Longrightarrow> t \<notin> set xs \<Longrightarrow> t \<noteq> 0 \<Longrightarrow> is_sleep (sleep_enqueue s t) (xs @ [t])"
  unfolding is_sleep_def sleep_enqueue_next sleep_enqueue_fields by (rule queue_ok_snoc)

lemma sleep_dequeue_sleep:
  "is_sleep s [] \<Longrightarrow> sleep_dequeue s = (0, s)"
  "is_sleep s (x # xs) \<Longrightarrow> fst (sleep_dequeue s) = x \<and> is_sleep (snd (sleep_dequeue s)) xs"
proof -
  show "is_sleep s [] \<Longrightarrow> sleep_dequeue s = (0, s)"
    using queue_ok_empty [of "next_of s" _ _ "[]"] by (auto simp: is_sleep_def sleep_dequeue_def)
  assume q: "is_sleep s (x # xs)"
  have n: "next_of (snd (sleep_dequeue s)) = (next_of s)(x := 0)" and h: "sleep_queue_head s = x" "x \<noteq> 0"
    using queue_ok_pop [of "next_of s" "sleep_queue_head s" "sleep_queue_tail s" x xs] q
    by (auto simp: is_sleep_def sleep_dequeue_def Let_def fun_eq_iff)
  then show "fst (sleep_dequeue s) = x \<and> is_sleep (snd (sleep_dequeue s)) xs"
    using queue_ok_pop [of "next_of s" "sleep_queue_head s" "sleep_queue_tail s" x xs] q
    unfolding is_sleep_def n by (auto simp: sleep_dequeue_def Let_def)
qed

interpretation ready_queue: fifo_queue is_ready "\<lambda>s t. t \<noteq> 0" thread_enqueue thread_dequeue
proof
  show "is_ready s xs \<Longrightarrow> is_ready s ys \<Longrightarrow> xs = ys" for s xs ys
    using linked_fun by (auto simp: is_ready_def queue_ok_def)
  show "is_ready s xs \<Longrightarrow> 0 \<notin> set xs" for s xs
    unfolding is_ready_def by (rule queue_ok_zero)
qed (simp_all add: thread_enqueue_ready thread_dequeue_ready)

interpretation sleep_queue: fifo_queue is_sleep "\<lambda>s t. t \<noteq> 0" sleep_enqueue sleep_dequeue
proof
  show "is_sleep s xs \<Longrightarrow> is_sleep s ys \<Longrightarrow> xs = ys" for s xs ys
    using linked_fun by (auto simp: is_sleep_def queue_ok_def)
  show "is_sleep s xs \<Longrightarrow> 0 \<notin> set xs" for s xs
    unfolding is_sleep_def by (rule queue_ok_zero)
qed (simp_all add: sleep_enqueue_sleep sleep_dequeue_sleep)

section \<open>Waking sleeping threads\<close>

definition due :: "sched \<Rightarrow> addr \<Rightarrow> bool" where
  "due s t \<longleftrightarrow> wakeup_time (tcb s t) \<le> SYSTEM_TimerTicks s"

text \<open>The body of the loop for a thread that is due, up to the call of \<open>thread_enqueue\<close>.\<close>

definition unlink_due :: "sched \<Rightarrow> addr \<Rightarrow> addr \<Rightarrow> sched" where
  "unlink_due s prev x =
     (let s = (if prev \<noteq> 0 then set_next prev (next_of s x) s
               else s\<lparr>sleep_queue_head := next_of s x\<rparr>);
          s = (if x = sleep_queue_tail s then s\<lparr>sleep_queue_tail := prev\<rparr> else s)
      in set_state x THREAD_READY (set_next x 0 s))"

lemma wake_loop_due:
  "x \<noteq> 0 \<Longrightarrow> due s x \<Longrightarrow> prev \<noteq> x \<Longrightarrow>
   wake_loop s prev x = wake_loop (thread_enqueue (unlink_due s prev x) x) prev (next_of s x)"
  by (subst wake_loop.simps) (simp add: due_def unlink_due_def Let_def)

lemma wake_loop_not_due:
  "x \<noteq> 0 \<Longrightarrow> \<not> due s x \<Longrightarrow> wake_loop s prev x = wake_loop s x (next_of s x)"
  by (subst wake_loop.simps) (simp add: due_def)

lemma unlink_due_fields:
  "ready_queue_head (unlink_due s prev x) = ready_queue_head s"
  "ready_queue_tail (unlink_due s prev x) = ready_queue_tail s"
  "same_sched s (unlink_due s prev x)"
  "t_state (tcb (unlink_due s prev x) u) = (if u = x then THREAD_READY else t_state (tcb s u))"
  "interrupts (unlink_due s prev x) = interrupts s"
  by (auto simp: unlink_due_def Let_def same_sched_def static_def)

lemma same_sched_due: "same_sched s s' \<Longrightarrow> due s' u = due s u"
  using static_fields [of "tcb s' u" "tcb s u"] by (auto simp: due_def same_sched_def)

lemma unlink_due_next:
  "prev \<noteq> x \<Longrightarrow> next_of (unlink_due s prev x) =
     (if prev = 0 then next_of s else (next_of s)(prev := next_of s x))(x := 0)"
  by (auto simp: unlink_due_def Let_def fun_eq_iff)

lemma unlink_due_queues:
  assumes "is_ready s rq" "is_sleep s (pre @ x # post)" "set rq \<inter> set (pre @ x # post) = {}"
  shows "is_ready (unlink_due s (tail_of pre) x) rq" "is_sleep (unlink_due s (tail_of pre) x) (pre @ post)"
proof -
  let ?p = "tail_of pre"
  have q: "linked (next_of s) (sleep_queue_head s) (pre @ x # post)" "distinct (pre @ x # post)"
    using assms(2) by (auto simp: is_sleep_def queue_ok_def)
  have px: "?p \<noteq> x" using linked_next [OF q(1)] q(2) by (auto simp: tail_of_def)
  have z: "?p = 0 \<longleftrightarrow> pre = []" using linked_zero [OF q(1)] by (auto simp: tail_of_def) (metis last_in_set)
  note n = unlink_due_next [OF px, of s]
  have "next_of (unlink_due s ?p x) y = next_of s y" if "y \<in> set rq" for y
  proof -
    have "y \<noteq> x" "pre \<noteq> [] \<longrightarrow> y \<noteq> ?p" using that assms(3) by (auto simp: tail_of_def)
    then show ?thesis using fun_cong [OF n, of y] z by auto
  qed
  then show "is_ready (unlink_due s ?p x) rq"
    by (intro is_ready_frame [OF assms(1)]) (simp_all add: unlink_due_fields)
  let ?nx = "if pre = [] then next_of s else (next_of s)(last pre := next_of s x)"
  have "queue_ok ?nx (if pre = [] then next_of s x else sleep_queue_head s)
      (if x = sleep_queue_tail s then ?p else sleep_queue_tail s) (pre @ post)"
    using assms(2) unfolding is_sleep_def by (rule queue_ok_remove)
  moreover have "next_of (unlink_due s ?p x) y = ?nx y" if "y \<in> set (pre @ post)" for y
  proof -
    have "y \<noteq> x" using that q(2) by auto
    then show ?thesis using fun_cong [OF n, of y] z by (auto simp: tail_of_def)
  qed
  moreover have "sleep_queue_head (unlink_due s ?p x) = (if pre = [] then next_of s x else sleep_queue_head s)"
    "sleep_queue_tail (unlink_due s ?p x) = (if x = sleep_queue_tail s then ?p else sleep_queue_tail s)"
    using z by (auto simp: unlink_due_def Let_def)
  ultimately show "is_sleep (unlink_due s ?p x) (pre @ post)"
    using queue_ok_cong [of "pre @ post" "next_of (unlink_due s ?p x)" ?nx] by (simp add: is_sleep_def)
qed

lemma wake_loop_spec:
  "is_ready s rq \<Longrightarrow> is_sleep s (pre @ rest) \<Longrightarrow> set rq \<inter> set (pre @ rest) = {} \<Longrightarrow>
   \<exists>s'. wake_loop s (tail_of pre) (if rest = [] then 0 else hd rest) = Some s' \<and>
     is_ready s' (rq @ filter (due s) rest) \<and> is_sleep s' (pre @ filter (\<lambda>t. \<not> due s t) rest) \<and>
     same_sched s s' \<and> interrupts s' = interrupts s \<and>
     (\<forall>u. t_state (tcb s' u) = (if u \<in> set rest \<and> due s u then THREAD_READY else t_state (tcb s u))) \<and>
     (\<forall>u. u \<notin> set rq \<union> set (pre @ rest) \<longrightarrow> next_of s' u = next_of s u)"
proof (induction rest arbitrary: s rq pre)
  case Nil
  then show ?case by (simp add: wake_loop.simps [of s _ 0])
next
  case (Cons x rest)
  have q: "linked (next_of s) (sleep_queue_head s) (pre @ x # rest)" "distinct (pre @ x # rest)"
    using Cons.prems(2) by (auto simp: is_sleep_def queue_ok_def)
  have n: "next_of s x = (if rest = [] then 0 else hd rest)" "x \<noteq> 0" using linked_next [OF q(1)] by auto
  show ?case
  proof (cases "due s x")
    case True
    let ?p = "tail_of pre"
    let ?s1 = "unlink_due s ?p x"
    let ?s2 = "thread_enqueue ?s1 x"
    have px: "?p \<noteq> x" using n(2) q(2) by (auto simp: tail_of_def)
    note u = unlink_due_queues [OF Cons.prems]
    have r2: "is_ready ?s2 (rq @ [x])"
      using u(1) Cons.prems(3) n(2) by (intro thread_enqueue_ready) auto
    have s2: "is_sleep ?s2 (pre @ rest)"
      using u Cons.prems(3) q(2) by (intro thread_enqueue_sleep [of _ rq]) auto
    have ss: "same_sched s ?s2"
      using unlink_due_fields(3) thread_enqueue_fields(5) by (rule same_sched_trans)
    have "set (rq @ [x]) \<inter> set (pre @ rest) = {}" using Cons.prems(3) q(2) by auto
    then obtain s' where s': "wake_loop ?s2 ?p (if rest = [] then 0 else hd rest) = Some s'"
      "is_ready s' ((rq @ [x]) @ filter (due ?s2) rest)" "is_sleep s' (pre @ filter (\<lambda>t. \<not> due ?s2 t) rest)"
      "same_sched ?s2 s'" "interrupts s' = interrupts ?s2"
      "\<forall>u. t_state (tcb s' u) = (if u \<in> set rest \<and> due ?s2 u then THREAD_READY else t_state (tcb ?s2 u))"
      "\<forall>u. u \<notin> set (rq @ [x]) \<union> set (pre @ rest) \<longrightarrow> next_of s' u = next_of ?s2 u"
      using Cons.IH [OF r2 s2] by blast
    have d: "due ?s2 = due s" using same_sched_due [OF ss] by (simp add: fun_eq_iff)
    have fr: "next_of ?s2 u = next_of s u" if "u \<notin> set rq \<union> set (pre @ x # rest)" for u
    proof -
      have "u \<noteq> x" "pre \<noteq> [] \<longrightarrow> u \<noteq> ?p" using that by (auto simp: tail_of_def)
      moreover have "?p = 0 \<longleftrightarrow> pre = []"
        using linked_zero [OF q(1)] by (auto simp: tail_of_def) (metis last_in_set)
      ultimately have "next_of ?s1 u = next_of s u" using fun_cong [OF unlink_due_next [OF px, of s], of u] by auto
      then show ?thesis using thread_enqueue_frame [OF u(1), of u x] that by auto
    qed
    show ?thesis
      using s' fr True n wake_loop_due [OF n(2) True px] same_sched_trans [OF ss s'(4)]
      by (simp add: d thread_enqueue_fields unlink_due_fields)
  next
    case False
    have "wake_loop s (tail_of pre) x = wake_loop s (tail_of (pre @ [x])) (next_of s x)"
      using wake_loop_not_due [OF n(2) False] by simp
    moreover obtain s' where "wake_loop s (tail_of (pre @ [x])) (if rest = [] then 0 else hd rest) = Some s'"
      "is_ready s' (rq @ filter (due s) rest)" "is_sleep s' ((pre @ [x]) @ filter (\<lambda>t. \<not> due s t) rest)"
      "same_sched s s'" "interrupts s' = interrupts s"
      "\<forall>u. t_state (tcb s' u) = (if u \<in> set rest \<and> due s u then THREAD_READY else t_state (tcb s u))"
      "\<forall>u. u \<notin> set rq \<union> set ((pre @ [x]) @ rest) \<longrightarrow> next_of s' u = next_of s u"
      using Cons.IH [of s rq "pre @ [x]"] Cons.prems by auto
    ultimately show ?thesis using False n by auto
  qed
qed

text \<open>\<open>wake_sleeping_threads\<close> in terms of the two lists.\<close>

lemma wake_spec:
  assumes "is_ready s rq" "is_sleep s sq" "set rq \<inter> set sq = {}"
  obtains s' where "wake_sleeping_threads s = Some s'" "is_ready s' (rq @ filter (due s) sq)"
    "is_sleep s' (filter (\<lambda>t. \<not> due s t) sq)" "same_sched s s'" "interrupts s' = interrupts s"
    "\<And>u. t_state (tcb s' u) = (if u \<in> set sq \<and> due s u then THREAD_READY else t_state (tcb s u))"
    "\<And>u. u \<notin> set rq \<union> set sq \<Longrightarrow> next_of s' u = next_of s u"
proof -
  let ?s0 = "s\<lparr>interrupts := False\<rparr>"
  have h: "sleep_queue_head s = (if sq = [] then 0 else hd sq)"
  proof (rule linked_hd)
    show "linked (next_of s) (sleep_queue_head s) sq" using assms(2) by (simp add: is_sleep_def queue_ok_def)
  qed
  have d: "due ?s0 = due s" by (simp add: due_def fun_eq_iff)
  have "is_ready ?s0 rq" "is_sleep ?s0 ([] @ sq)" "set rq \<inter> set ([] @ sq) = {}"
    using assms by (simp_all add: is_ready_def is_sleep_def)
  from wake_loop_spec [OF this] obtain s' where s': "wake_loop ?s0 0 (sleep_queue_head s) = Some s'"
    "is_ready s' (rq @ filter (due s) sq)" "is_sleep s' (filter (\<lambda>t. \<not> due s t) sq)" "same_sched ?s0 s'"
    "interrupts s' = False"
    "\<forall>u. t_state (tcb s' u) = (if u \<in> set sq \<and> due s u then THREAD_READY else t_state (tcb s u))"
    "\<forall>u. u \<notin> set rq \<union> set sq \<longrightarrow> next_of s' u = next_of s u"
    by (auto simp: d h)
  let ?s1 = "if interrupts s then s'\<lparr>interrupts := True\<rparr> else s'"
  show thesis
    by (rule that [of ?s1])
      (use s' in \<open>auto simp: wake_sleeping_threads_def Let_def is_ready_def is_sleep_def same_sched_def\<close>)
qed

section \<open>Removing a thread from the sleep queue\<close>

lemma find_before_in:
  "linked nx h (pre @ x # post) \<Longrightarrow> distinct (pre @ x # post) \<Longrightarrow> pre \<noteq> [] \<Longrightarrow>
   find_before nx x h = Some (last pre)"
proof (induction pre arbitrary: h)
  case (Cons y pre)
  show ?case
  proof (cases "pre = []")
    case True
    then show ?thesis using Cons.prems by (subst find_before.simps) simp
  next
    case False
    then have l: "h = y" "y \<noteq> 0" "linked nx (nx y) (pre @ x # post)" using Cons.prems by auto
    have "nx y \<noteq> x" using linked_hd [OF l(3)] Cons.prems(2) False by auto
    then show ?thesis using l Cons.IH [OF l(3)] Cons.prems False by (subst find_before.simps) simp
  qed
qed simp

lemma find_before_out:
  "linked nx h xs \<Longrightarrow> target \<notin> set xs \<Longrightarrow> target \<noteq> 0 \<Longrightarrow> find_before nx target h = Some 0"
proof (induction xs arbitrary: h)
  case Nil
  then show ?case by (subst find_before.simps) simp
next
  case (Cons x xs)
  then have l: "h = x" "x \<noteq> 0" "linked nx (nx x) xs" by auto
  have "nx x \<noteq> target" using linked_hd [OF l(3)] Cons.prems by (cases xs) auto
  then show ?case using l Cons.IH [OF l(3)] Cons.prems by (subst find_before.simps) simp
qed

text \<open>The two ways a member is unlinked, in one form.\<close>

lemma remove_sleep_member:
  assumes "is_ready s rq" "is_sleep s (pre @ x # post)" "set rq \<inter> set (pre @ x # post) = {}"
  obtains s' where "remove_from_sleep_queue s x = Some (x, s')" "is_sleep s' (pre @ post)" "is_ready s' rq"
    "same_sched s s'" "\<And>u. t_state (tcb s' u) = t_state (tcb s u)"
proof -
  have q: "linked (next_of s) (sleep_queue_head s) (pre @ x # post)" "distinct (pre @ x # post)"
    "sleep_queue_tail s = tail_of (pre @ x # post)"
    using assms(2) by (auto simp: is_sleep_def queue_ok_def)
  have nz: "x \<noteq> 0" "sleep_queue_head s \<noteq> 0" using linked_next [OF q(1)] linked_hd [OF q(1)] linked_zero [OF q(1)] by (cases pre; auto)+
  show thesis
  proof (cases "pre = []")
    case True
    then have r: "remove_from_sleep_queue s x = Some (sleep_dequeue s)"
      using q(1) nz by (simp add: remove_from_sleep_queue_def)
    have sl: "is_sleep s (x # post)" using assms(2) True by simp
    note d = sleep_dequeue_sleep(2) [OF sl]
    have h: "sleep_queue_head s = x" using q(1) True by simp
    have fr: "next_of (snd (sleep_dequeue s)) y = next_of s y" if "y \<noteq> x" for y
      using that h nz by (simp add: sleep_dequeue_def Let_def)
    have "is_ready (snd (sleep_dequeue s)) rq"
    proof (rule is_ready_frame [OF assms(1)])
      show "next_of (snd (sleep_dequeue s)) y = next_of s y" if "y \<in> set rq" for y
        using that assms(3) by (intro fr) auto
    qed (simp_all add: sleep_dequeue_def Let_def)
    moreover have "same_sched s (snd (sleep_dequeue s))"
      "\<And>u. t_state (tcb (snd (sleep_dequeue s)) u) = t_state (tcb s u)"
      by (auto simp: sleep_dequeue_def Let_def same_sched_def static_def)
    ultimately show thesis
      using that [of "snd (sleep_dequeue s)"] r d True by (metis append_Nil prod.collapse)
  next
    case False
    let ?p = "last pre"
    have px: "?p \<noteq> x" "?p \<noteq> 0" using q(2) False linked_zero [OF q(1)] by (auto simp: in_set_conv_decomp) (metis append_butlast_last_id)+
    have hx: "sleep_queue_head s \<noteq> x" using linked_hd [OF q(1)] q(2) False by (cases pre) auto
    have fb: "find_before (next_of s) x (sleep_queue_head s) = Some ?p"
      by (rule find_before_in [OF q(1,2) False])
    have np: "next_of s ?p = x"
    proof -
      have "linked (next_of s) (sleep_queue_head s) (butlast pre @ ?p # x # post)"
        using q(1) False by (metis append.assoc append_Cons append_Nil append_butlast_last_id)
      from linked_next [OF this] show ?thesis by simp
    qed
    let ?s1 = "set_next ?p (next_of s x) s"
    let ?s2 = "if x = sleep_queue_tail s then ?s1\<lparr>sleep_queue_tail := ?p\<rparr> else ?s1"
    let ?s3 = "set_next x 0 ?s2"
    have r: "remove_from_sleep_queue s x = Some (x, ?s3)"
      using nz hx fb np px by (simp add: remove_from_sleep_queue_def Let_def)
    have nx: "next_of ?s3 y = (if y = x then 0 else if y = ?p then next_of s x else next_of s y)" for y
      using px by simp
    have "is_ready ?s3 rq"
    proof (rule is_ready_frame [OF assms(1)])
      show "next_of ?s3 y = next_of s y" if "y \<in> set rq" for y
        unfolding nx using that assms(3) False by (auto simp: disjoint_iff)
    qed simp_all
    moreover have "is_sleep ?s3 (pre @ post)"
    proof -
      let ?nx = "(next_of s)(?p := next_of s x)"
      have tp: "tail_of pre = ?p" using False by (simp add: tail_of_def)
      have "queue_ok ?nx (sleep_queue_head s) (if x = sleep_queue_tail s then ?p else sleep_queue_tail s) (pre @ post)"
        using queue_ok_remove [OF assms(2) [unfolded is_sleep_def]] unfolding if_not_P [OF False] tp .
      then show ?thesis
      proof (rule is_sleepI)
        show "next_of ?s3 y = ?nx y" if "y \<in> set (pre @ post)" for y
          unfolding nx using that q(2) by auto
      qed simp_all
    qed
    moreover have "same_sched s ?s3" "\<And>u. t_state (tcb ?s3 u) = t_state (tcb s u)"
      by (auto simp: same_sched_def static_def)
    ultimately show thesis using that [OF r] by blast
  qed
qed

lemma remove_sleep_absent:
  assumes "is_sleep s sq" "x \<notin> set sq" "x \<noteq> 0"
  shows "remove_from_sleep_queue s x = Some (0, s)"
proof -
  have l: "linked (next_of s) (sleep_queue_head s) sq" using assms(1) by (simp add: is_sleep_def queue_ok_def)
  have "sleep_queue_head s \<noteq> x" using linked_hd [OF l] assms(2,3) by (auto split: if_splits)
  then show ?thesis
    using find_before_out [OF l assms(2,3)] by (simp add: remove_from_sleep_queue_def)
qed

section \<open>Choosing the next thread\<close>

text \<open>The queues after \<open>schedule_put_back\<close>.\<close>

lemma put_back_spec:
  assumes "is_ready s rq" "is_sleep s sq" "set rq \<inter> set sq = {}" "current_thread s \<noteq> 0"
    and "t_state (tcb s (current_thread s)) = THREAD_RUNNING \<longrightarrow> current_thread s \<notin> set rq \<union> set sq"
  defines "c \<equiv> current_thread s" and "s' \<equiv> schedule_put_back s"
  defines "bk \<equiv> if t_state (tcb s c) = THREAD_RUNNING then [c] else []"
  shows "is_ready s' (rq @ bk)" "is_sleep s' sq" "same_sched s s'" "set (rq @ bk) \<inter> set sq = {}"
    "u \<notin> set (rq @ bk) \<Longrightarrow> next_of s' u = next_of s u"
    "t_state (tcb s' u) = (if u \<in> set bk then THREAD_READY else t_state (tcb s u))"
proof -
  let ?s1 = "set_state c THREAD_READY s"
  have r1: "is_ready ?s1 rq" "is_sleep ?s1 sq"
    using assms(1,2) by (auto intro: is_ready_frame is_sleep_frame)
  have ss: "same_sched s ?s1" by (simp add: same_sched_def static_def)
  show "is_ready s' (rq @ bk)" "is_sleep s' sq" "same_sched s s'"
    using assms r1 ss thread_enqueue_ready [OF r1(1), of c] thread_enqueue_sleep [OF r1, of c]
      same_sched_trans [OF ss thread_enqueue_fields(5), of c]
    by (auto simp: schedule_put_back_def)
  show "set (rq @ bk) \<inter> set sq = {}" using assms by auto
  show "u \<notin> set (rq @ bk) \<Longrightarrow> next_of s' u = next_of s u"
    using assms(4) thread_enqueue_frame [OF r1(1), of u c]
    by (auto simp: s'_def bk_def schedule_put_back_def c_def)
  show "t_state (tcb s' u) = (if u \<in> set bk then THREAD_READY else t_state (tcb s u))"
    using assms(4) by (auto simp: s'_def bk_def schedule_put_back_def thread_enqueue_fields c_def)
qed

text \<open>The queue the next thread is taken from.\<close>

definition candidates :: "sched \<Rightarrow> addr list \<Rightarrow> addr list \<Rightarrow> addr list" where
  "candidates s rq sq =
     rq @ (if t_state (tcb s (current_thread s)) = THREAD_RUNNING then [current_thread s] else []) @
     filter (due s) sq"

lemma schedule_switch_fields:
  "current_thread (snd (schedule_switch s n)) = n"
  "schedule_prev_thread (snd (schedule_switch s n)) = current_thread s"
  "t_state (tcb (snd (schedule_switch s n)) u) = (if u = n then THREAD_RUNNING else t_state (tcb s u))"
  "next_of (snd (schedule_switch s n)) u = next_of s u"
  "ready_queue_head (snd (schedule_switch s n)) = ready_queue_head s"
  "ready_queue_tail (snd (schedule_switch s n)) = ready_queue_tail s"
  "sleep_queue_head (snd (schedule_switch s n)) = sleep_queue_head s"
  "sleep_queue_tail (snd (schedule_switch s n)) = sleep_queue_tail s"
  "static (tcb (snd (schedule_switch s n)) u) = static (tcb s u)"
  "SYSTEM_TimerTicks (snd (schedule_switch s n)) = SYSTEM_TimerTicks s"
  "SYSTEM_KernelThread (snd (schedule_switch s n)) = SYSTEM_KernelThread s"
  by (auto simp: schedule_switch_def Let_def static_def)

lemma target_upd:
  "target_cr3_for (set_state n st (s\<lparr>schedule_prev_thread := p, current_thread := c\<rparr>)) a b = target_cr3_for s a b"
  by (simp add: target_cr3_for_def)

lemma thread_dequeue_fields:
  "same_sched s (snd (thread_dequeue s))" "t_state (tcb (snd (thread_dequeue s)) u) = t_state (tcb s u)"
  "sleep_queue_head (snd (thread_dequeue s)) = sleep_queue_head s"
  "sleep_queue_tail (snd (thread_dequeue s)) = sleep_queue_tail s"
  "is_ready s (x # xs) \<Longrightarrow> u \<noteq> x \<Longrightarrow> next_of (snd (thread_dequeue s)) u = next_of s u"
  by (auto simp: thread_dequeue_def Let_def same_sched_def static_def is_ready_def queue_ok_def)

lemma schedule_spec:
  assumes q: "is_ready s rq" "is_sleep s sq" "set rq \<inter> set sq = {}" "current_thread s \<noteq> 0"
    and c: "t_state (tcb s (current_thread s)) = THREAD_RUNNING \<longrightarrow> current_thread s \<notin> set rq \<union> set sq"
    and ne: "candidates s rq sq = x # xs"
  obtains tgt s' where "schedule_select s = Some (tgt, s')" "current_thread s' = x"
    "schedule_prev_thread s' = current_thread s" "is_ready s' xs" "is_sleep s' (filter (\<lambda>t. \<not> due s t) sq)"
    "\<And>u. static (tcb s' u) = static (tcb s u)" "SYSTEM_TimerTicks s' = SYSTEM_TimerTicks s"
    "SYSTEM_KernelThread s' = SYSTEM_KernelThread s"
    "\<And>u. t_state (tcb s' u) = (if u = x then THREAD_RUNNING
        else if u \<in> set (candidates s rq sq) - set rq then THREAD_READY else t_state (tcb s u))"
    "tgt = (if current_thread s = x then None else Some (target_cr3_for s (current_thread s) x))"
    "mm s' = (if current_thread s = x \<or> target_cr3_for s (current_thread s) x = 0 then mm s
       else (mm s)\<lparr>cr3 := target_cr3_for s (current_thread s) x\<rparr>)"
    "\<And>u. u \<notin> set (candidates s rq sq) \<union> set sq \<Longrightarrow> next_of s' u = next_of s u"
proof -
  let ?bk = "if t_state (tcb s (current_thread s)) = THREAD_RUNNING then [current_thread s] else []"
  let ?s1 = "schedule_put_back s"
  note pb = put_back_spec [OF q c]
  obtain s2 where s2: "wake_sleeping_threads ?s1 = Some s2" "is_ready s2 ((rq @ ?bk) @ filter (due ?s1) sq)"
    "is_sleep s2 (filter (\<lambda>t. \<not> due ?s1 t) sq)" "same_sched ?s1 s2"
    "\<And>u. t_state (tcb s2 u) = (if u \<in> set sq \<and> due ?s1 u then THREAD_READY else t_state (tcb ?s1 u))"
    "\<And>u. u \<notin> set (rq @ ?bk) \<union> set sq \<Longrightarrow> next_of s2 u = next_of ?s1 u"
    using wake_spec [OF pb(1,2,4)] by metis
  have d: "due ?s1 = due s" using same_sched_due [OF pb(3)] by (simp add: fun_eq_iff)
  have r2: "is_ready s2 (x # xs)" using s2(2) ne by (simp add: candidates_def d)
  obtain s3 where dq: "thread_dequeue s2 = (x, s3)" "is_ready s3 xs"
    using thread_dequeue_ready(2) [OF r2] by (metis prod.collapse)
  have s3: "s3 = snd (thread_dequeue s2)" by (simp add: dq)
  have x0: "x \<noteq> 0" using ready_queue.no_null [OF r2] by auto
  let ?s4 = "snd (schedule_switch s3 x)"
  have r: "schedule_select s = Some (fst (schedule_switch s3 x), ?s4)"
    using s2(1) dq x0 by (simp add: schedule_select_def Let_def)
  have ss: "same_sched s s3"
    unfolding s3 using same_sched_trans [OF same_sched_trans [OF pb(3) s2(4)] thread_dequeue_fields(1)] .
  have cand: "set (candidates s rq sq) - set rq = set ?bk \<union> {u \<in> set sq. due s u}"
    "x \<in> set (candidates s rq sq)"
  proof -
    show "set (candidates s rq sq) - set rq = set ?bk \<union> {u \<in> set sq. due s u}"
      using q(3) c by (auto simp: candidates_def)
  qed (simp add: ne)
  show thesis
  proof (rule that [OF r])
    show "current_thread ?s4 = x" by (simp add: schedule_switch_fields)
    show "schedule_prev_thread ?s4 = current_thread s" "SYSTEM_TimerTicks ?s4 = SYSTEM_TimerTicks s"
      "SYSTEM_KernelThread ?s4 = SYSTEM_KernelThread s" "static (tcb ?s4 u) = static (tcb s u)" for u
      using ss by (simp_all add: schedule_switch_fields same_sched_def)
    show "is_ready ?s4 xs" by (rule is_ready_frame [OF dq(2)]) (simp_all add: schedule_switch_fields)
    show "is_sleep ?s4 (filter (\<lambda>t. \<not> due s t) sq)"
    proof (rule is_sleep_frame [OF s2(3) [unfolded d]])
      fix y assume "y \<in> set (filter (\<lambda>t. \<not> due s t) sq)"
      then have "y \<noteq> x" using cand(2) q(3) c by (auto simp: candidates_def split: if_splits)
      then show "next_of ?s4 y = next_of s2 y"
        using thread_dequeue_fields(5) [OF r2, of y] by (simp add: schedule_switch_fields s3)
    qed (simp_all add: schedule_switch_fields s3 thread_dequeue_fields)
    show "t_state (tcb ?s4 u) = (if u = x then THREAD_RUNNING
        else if u \<in> set (candidates s rq sq) - set rq then THREAD_READY else t_state (tcb s u))" for u
      using pb(6) [of u] unfolding cand(1) schedule_switch_fields s3 thread_dequeue_fields s2(5) d by auto
    have st: "static (tcb s3 u) = static (tcb s u)" "mm s3 = mm s" "KernelPML4 s3 = KernelPML4 s"
      "current_thread s3 = current_thread s" for u
      using ss by (simp_all add: same_sched_def)
    have tc: "target_cr3_for s3 p x = target_cr3_for s p x" for p
      using static_fields [OF st(1) [of x]] static_fields [OF st(1) [of p]] st(2,3)
      by (simp add: target_cr3_for_def)
    show "fst (schedule_switch s3 x) =
        (if current_thread s = x then None else Some (target_cr3_for s (current_thread s) x))"
      "mm ?s4 = (if current_thread s = x \<or> target_cr3_for s (current_thread s) x = 0 then mm s
         else (mm s)\<lparr>cr3 := target_cr3_for s (current_thread s) x\<rparr>)"
      using tc by (simp_all add: schedule_switch_def Let_def st(2,4) target_upd)
    show "next_of ?s4 u = next_of s u" if "u \<notin> set (candidates s rq sq) \<union> set sq" for u
    proof -
      have n: "u \<notin> set (rq @ ?bk)" "u \<notin> set sq" "u \<noteq> x"
        using that cand(2) by (auto simp: candidates_def)
      then show ?thesis
        using thread_dequeue_fields(5) [OF r2 n(3)] s2(6) [of u] pb(5) [of u]
        by (simp add: schedule_switch_fields s3)
    qed
  qed
qed

lemma unat_and_not_15: "unat (y AND NOT 15 :: u64) = 16 * (unat y div 16)"
proof -
  have "(15 :: u64) = mask 4" by (simp add: mask_eq_exp_minus_1)
  then have "y AND NOT 15 = push_bit 4 (drop_bit 4 y)"
    by (simp add: bit_eq_iff bit_simps) auto
  moreover have "unat y < 2 ^ LENGTH(64)" by (rule unsigned_less)
  then have "16 * (unat y div 16) < 2 ^ 64" by simp
  ultimately show ?thesis by (simp add: push_bit_eq_mult drop_bit_eq_div unat_word_ariths unat_div)
qed

section \<open>A concrete system\<close>

text \<open>The running thread 0x1000, two ready threads and two sleepers, the first of them due.\<close>

definition demo_sched :: sched where
  "demo_sched = \<lparr>tcb = (\<lambda>_. zero_thread)
       (0x1000 := zero_thread\<lparr>tid := 0, t_state := THREAD_RUNNING\<rparr>,
        0x2000 := zero_thread\<lparr>tid := 1, nxt := 0x3000\<rparr>,
        0x3000 := zero_thread\<lparr>tid := 2, use_vmm := True, t_vmm := 0x7000\<rparr>,
        0x4000 := zero_thread\<lparr>tid := 3, t_state := THREAD_BLOCKED, wakeup_time := 5, nxt := 0x5000\<rparr>,
        0x5000 := zero_thread\<lparr>tid := 4, t_state := THREAD_BLOCKED, wakeup_time := 50\<rparr>),
     current_thread = 0x1000, next_thread_id = 5, next_TORT_Position = 0,
     free_tcb_list = replicate FREE_TCB_LIST_SIZE 0, num_of_FreeTCB = 0, TORT = replicate TORT_SIZE 0,
     sleep_queue_head = 0x4000, sleep_queue_tail = 0x5000, ready_queue_head = 0x2000,
     ready_queue_tail = 0x3000, schedule_prev_thread = 0, SYSTEM_KernelThread = 0x1000,
     SYSTEM_TimerTicks = 10, KernelPML4 = 0x8000, tss_rsp0 = 0, syscall_kernel_rsp = 0,
     interrupts = True, mm = demo_boot\<rparr>"

lemma demo_sched:
  "is_ready demo_sched [0x2000, 0x3000]" "is_sleep demo_sched [0x4000, 0x5000]"
  "current_thread demo_sched = 0x1000" "t_state (tcb demo_sched 0x1000) = THREAD_RUNNING"
  "filter (due demo_sched) [0x4000, 0x5000] = [0x4000]"
  "filter (\<lambda>t. \<not> due demo_sched t) [0x4000, 0x5000] = [0x5000]"
  by (simp_all add: is_ready_def is_sleep_def queue_ok_def tail_of_def demo_sched_def zero_thread_def due_def)

section \<open>Properties\<close>

text \<open>The ready queue is first in, first out: threads enqueued behind those already waiting
  come out after them, in the order they were put in.\<close>

theorem ready_queue_fifo:
  "is_ready s xs \<Longrightarrow> distinct (xs @ ts) \<Longrightarrow> 0 \<notin> set ts \<Longrightarrow>
   ready_queue.drain (length (xs @ ts)) (fold (\<lambda>t s. thread_enqueue s t) ts s) = xs @ ts"
proof -
  assume a: "is_ready s xs" "distinct (xs @ ts)" "0 \<notin> set ts"
  have "ready_queue.fill ts s = fold (\<lambda>t s. thread_enqueue s t) ts s" for s
    by (induction ts arbitrary: s) auto
  then show ?thesis
    using ready_queue.drain [OF ready_queue.fill [OF a(1,2)]] a(3) by auto
qed

lemma ready_queue_fifo_witness:
  "ready_queue.drain 3 (fold (\<lambda>t s. thread_enqueue s t) [0x6000] demo_sched) = [0x2000, 0x3000, 0x6000]"
  using ready_queue_fifo [OF demo_sched(1), of "[0x6000]"] by (simp add: numeral_3_eq_3)

text \<open>\<^verbatim>\<open>wake_sleeping_threads\<close> ends, moves exactly the sleepers whose time has come
  to the end of the ready queue, in their order and in the state READY, keeps the others asleep in
  their order, and changes nothing else the scheduler looks at.\<close>

theorem wake_sleeping_threads_exact:
  "is_ready s rq \<Longrightarrow> is_sleep s sq \<Longrightarrow> set rq \<inter> set sq = {} \<Longrightarrow>
   \<exists>s'. wake_sleeping_threads s = Some s' \<and> is_ready s' (rq @ filter (due s) sq) \<and>
     is_sleep s' (filter (\<lambda>t. \<not> due s t) sq) \<and> same_sched s s' \<and> interrupts s' = interrupts s \<and>
     (\<forall>u. t_state (tcb s' u) = (if u \<in> set sq \<and> due s u then THREAD_READY else t_state (tcb s u)))"
  by (rule wake_spec) blast+

lemma wake_sleeping_threads_exact_witness:
  "\<exists>s'. wake_sleeping_threads demo_sched = Some s' \<and> is_ready s' [0x2000, 0x3000, 0x4000] \<and> is_sleep s' [0x5000]"
  using wake_sleeping_threads_exact [OF demo_sched(1,2)] unfolding demo_sched(5,6) by auto

text \<open>C3: \<^verbatim>\<open>schedule\<close> is round robin: the running thread goes to the end of the ready
  queue, threads whose sleep is over follow it, the first of the queue becomes the current one, and
  every other thread keeps its place; no thread is lost or duplicated.\<close>

theorem schedule_round_robin:
  "is_ready s rq \<Longrightarrow> is_sleep s sq \<Longrightarrow> set rq \<inter> set sq = {} \<Longrightarrow> current_thread s \<noteq> 0 \<Longrightarrow>
   t_state (tcb s (current_thread s)) = THREAD_RUNNING \<Longrightarrow> current_thread s \<notin> set rq \<union> set sq \<Longrightarrow>
   \<exists>tgt s'. schedule_select s = Some (tgt, s') \<and>
     (let queue = rq @ [current_thread s] @ filter (due s) sq in
      current_thread s' = hd queue \<and> is_ready s' (tl queue) \<and>
      t_state (tcb s' (hd queue)) = THREAD_RUNNING \<and>
      (\<forall>u \<in> set queue - set rq. u \<noteq> hd queue \<longrightarrow> t_state (tcb s' u) = THREAD_READY)) \<and>
     is_sleep s' (filter (\<lambda>t. \<not> due s t) sq) \<and> schedule_prev_thread s' = current_thread s"
proof -
  assume a: "is_ready s rq" "is_sleep s sq" "set rq \<inter> set sq = {}" "current_thread s \<noteq> 0"
    "t_state (tcb s (current_thread s)) = THREAD_RUNNING" "current_thread s \<notin> set rq \<union> set sq"
  let ?q = "rq @ [current_thread s] @ filter (due s) sq"
  have cand: "candidates s rq sq = ?q" using a(5) by (simp add: candidates_def)
  then have ne: "candidates s rq sq = hd ?q # tl ?q" by simp
  have c: "t_state (tcb s (current_thread s)) = THREAD_RUNNING \<longrightarrow> current_thread s \<notin> set rq \<union> set sq"
    using a(6) by simp
  show ?thesis
  proof (rule schedule_spec [OF a(1-4) c ne])
    fix tgt s' assume r: "schedule_select s = Some (tgt, s')" "current_thread s' = hd ?q"
      "schedule_prev_thread s' = current_thread s" "is_ready s' (tl ?q)"
      "is_sleep s' (filter (\<lambda>t. \<not> due s t) sq)"
    assume st: "\<And>u. t_state (tcb s' u) = (if u = hd ?q then THREAD_RUNNING
        else if u \<in> set (candidates s rq sq) - set rq then THREAD_READY else t_state (tcb s u))"
    have "t_state (tcb s' (hd ?q)) = THREAD_RUNNING" using st [of "hd ?q"] by (simp only: if_True simp_thms)
    moreover have "t_state (tcb s' u) = THREAD_READY" if "u \<in> set ?q - set rq" "u \<noteq> hd ?q" for u
      using st [of u] that unfolding cand by (simp only: if_True if_False simp_thms)
    ultimately show ?thesis
      unfolding Let_def using r by blast
  qed
qed

lemma schedule_round_robin_witness:
  "\<exists>tgt s'. schedule_select demo_sched = Some (tgt, s') \<and> current_thread s' = 0x2000 \<and>
     is_ready s' [0x3000, 0x1000, 0x4000] \<and> is_sleep s' [0x5000]"
  using schedule_round_robin [OF demo_sched(1,2)] unfolding demo_sched(5,6)
  by (auto simp: demo_sched(3,4) Let_def)

text \<open>\<^verbatim>\<open>remove_from_sleep_queue\<close> takes exactly the given thread out of the sleep
  queue and returns it, or returns \<^verbatim>\<open>NULL\<close> and changes nothing when it is not there.\<close>

theorem remove_from_sleep_queue_correct:
  "is_ready s rq \<Longrightarrow> is_sleep s sq \<Longrightarrow> set rq \<inter> set sq = {} \<Longrightarrow> t \<noteq> 0 \<Longrightarrow>
   (if t \<in> set sq
    then \<exists>s'. remove_from_sleep_queue s t = Some (t, s') \<and> is_sleep s' (remove1 t sq) \<and>
           is_ready s' rq \<and> same_sched s s'
    else remove_from_sleep_queue s t = Some (0, s))"
proof -
  assume a: "is_ready s rq" "is_sleep s sq" "set rq \<inter> set sq = {}" "t \<noteq> 0"
  show ?thesis
  proof (cases "t \<in> set sq")
    case True
    then obtain pre post where e: "sq = pre @ t # post" "t \<notin> set pre" by (meson split_list_first)
    then have "remove1 t sq = pre @ post" by (simp add: remove1_append)
    then show ?thesis using True remove_sleep_member [of s rq pre t post] a e(1) by (metis (full_types))
  qed (use remove_sleep_absent a in simp)
qed

lemma remove_from_sleep_queue_correct_witness:
  "(\<exists>s'. remove_from_sleep_queue demo_sched 0x5000 = Some (0x5000, s') \<and> is_sleep s' [0x4000]) \<and>
   remove_from_sleep_queue demo_sched 0x2000 = Some (0, demo_sched)"
  using remove_from_sleep_queue_correct [OF demo_sched(1,2), of "0x5000"]
    remove_from_sleep_queue_correct [OF demo_sched(1,2), of "0x2000"] by auto

text \<open>The free list has four slots, but a control block is stored after the counter is
  incremented, so the fourth one is written past the end of the array.\<close>

theorem free_tcb_list_overflow:
  "length (free_tcb_list s) = FREE_TCB_LIST_SIZE \<Longrightarrow> num_of_FreeTCB s = 0 \<Longrightarrow>
   Option.bind (put_free_tcb s a) (\<lambda>s. Option.bind (put_free_tcb s b) (\<lambda>s. put_free_tcb s c)) \<noteq> None \<and>
   Option.bind (put_free_tcb s a) (\<lambda>s. Option.bind (put_free_tcb s b) (\<lambda>s.
     Option.bind (put_free_tcb s c) (\<lambda>s. put_free_tcb s d))) = None"
  by (simp add: put_free_tcb_def FREE_TCB_LIST_SIZE_def)

lemma free_tcb_list_overflow_witness:
  "Option.bind (put_free_tcb demo_sched 1) (\<lambda>s. Option.bind (put_free_tcb s 2) (\<lambda>s.
     Option.bind (put_free_tcb s 3) (\<lambda>s. put_free_tcb s 4))) = None"
  by (rule free_tcb_list_overflow [THEN conjunct2])
    (simp_all add: demo_sched_def FREE_TCB_LIST_SIZE_def)

text \<open>A thread without an address space of its own that is switched to from a user thread
  runs under the kernel's page table, but when its own last switch had no \<^verbatim>\<open>target_cr3\<close> the
  current virtual memory manager stays the user thread's.\<close>

theorem schedule_resume_stale_vmm:
  assumes "is_ready s (k # rq)" "is_sleep s []" "current_thread s = u" "u \<noteq> 0" "u \<notin> set (k # rq)"
    "t_state (tcb s u) = THREAD_RUNNING" "use_vmm (tcb s u)" "\<not> use_vmm (tcb s k)" "KernelPML4 s \<noteq> 0"
  shows "\<exists>tgt s' s''. schedule_select s = Some (tgt, s') \<and> current_thread s' = k \<and>
    cr3 (mm s') = KernelPML4 s \<and> schedule_resume s' (Some 0) = Some s'' \<and>
    Current_VMM_Desc (mm s'') = Current_VMM_Desc (mm s)"
proof -
  have cand: "candidates s (k # rq) [] = k # (rq @ [u])" using assms by (simp add: candidates_def)
  have c: "t_state (tcb s (current_thread s)) = THREAD_RUNNING \<longrightarrow>
      current_thread s \<notin> set (k # rq) \<union> set []" "set (k # rq) \<inter> set [] = {}" "current_thread s \<noteq> 0"
    using assms by simp_all
  have tg: "target_cr3_for s (current_thread s) k = KernelPML4 s" and ku: "current_thread s \<noteq> k"
    using assms by (auto simp: target_cr3_for_def)
  from schedule_spec [OF assms(1,2) c(2,3,1) cand] obtain tgt s' where r:
    "schedule_select s = Some (tgt, s')" "current_thread s' = k" "schedule_prev_thread s' = current_thread s"
    "\<And>x. t_state (tcb s' x) = (if x = k then THREAD_RUNNING
        else if x \<in> set (candidates s (k # rq) []) - set (k # rq) then THREAD_READY else t_state (tcb s x))"
    "mm s' = (mm s)\<lparr>cr3 := KernelPML4 s\<rparr>"
    unfolding tg using ku assms(9) by metis
  have "t_state (tcb s' u) = THREAD_READY" using r(4) [of u] assms(3,5) unfolding cand by simp
  note r = r this
  have "schedule_resume s' (Some 0) = Some (s'\<lparr>schedule_prev_thread := 0\<rparr>)"
    using r(3,6) assms(3) by (simp add: schedule_resume_def)
  then show ?thesis using r(1,2,5) by simp
qed

text \<open>A user thread running, a kernel thread ready.\<close>

definition demo_user :: sched where
  "demo_user = demo_sched\<lparr>current_thread := 0x3000, sleep_queue_head := 0, sleep_queue_tail := 0,
     ready_queue_head := 0x1000, ready_queue_tail := 0x1000,
     tcb := (\<lambda>_. zero_thread)(0x3000 := zero_thread\<lparr>t_state := THREAD_RUNNING, use_vmm := True, t_vmm := 0x7000\<rparr>)\<rparr>"

lemma schedule_resume_stale_vmm_witness:
  "\<exists>tgt s' s''. schedule_select demo_user = Some (tgt, s') \<and> cr3 (mm s') = 0x8000 \<and>
    schedule_resume s' (Some 0) = Some s'' \<and> Current_VMM_Desc (mm s'') = Current_VMM_Desc (mm demo_user)"
proof -
  have "is_ready demo_user [0x1000]" "is_sleep demo_user []" "KernelPML4 demo_user = 0x8000"
    by (simp_all add: is_ready_def is_sleep_def queue_ok_def tail_of_def demo_user_def demo_sched_def zero_thread_def)
  then show ?thesis
    using schedule_resume_stale_vmm [of demo_user "0x1000" "[]" "0x3000"]
    by (auto simp: demo_user_def zero_thread_def)
qed

text \<open>The kernel stack of a user thread is one page, but its initial frame is placed
  \<^verbatim>\<open>stack_size\<close> bytes up: for any stack of more than 4255 bytes the frame lies wholly outside
  that page.\<close>

theorem user_frame_outside_kernel_stack:
  "4255 < sz \<Longrightarrow> sz < 0x10000000 \<Longrightarrow> unat ks + unat sz < 2 ^ 64 \<Longrightarrow>
   within (frame_addr (ks + sz)) (18 * 8) x \<Longrightarrow> \<not> within ks 4096 x"
proof -
  assume sz: "4255 < sz" "sz < 0x10000000" and nw: "unat ks + unat sz < 2 ^ 64"
    and x: "within (frame_addr (ks + sz)) (18 * 8) x"
  let ?y = "ks + sz - 144"
  have s: "4255 < unat sz" using sz(1) by (simp add: word_less_nat_alt)
  have b: "unat (ks + sz) = unat ks + unat sz" using nw by (simp add: unat_word_ariths)
  have y: "unat ?y = unat ks + unat sz - 144"
    using b s by (subst unat_sub) (auto simp: word_le_nat_alt)
  have f: "unat (frame_addr (ks + sz)) = 16 * (unat ?y div 16)"
    using unat_and_not_15 [of ?y] by (simp add: frame_addr_def)
  define F where "F = frame_addr (ks + sz)"
  have F: "unat F + 144 \<le> unat ks + unat sz" "unat ks + 4096 < unat F"
    using f y s unfolding F_def by linarith+
  define d where "d = unat (x - F)"
  have d: "d < 144" using x by (simp add: within_def d_def F_def)
  have "unat x = unat (F + (x - F))" by simp
  also have "\<dots> = (unat F + d) mod 2 ^ 64" unfolding d_def by (subst unat_word_ariths(1)) simp
  finally have ux: "unat x = unat F + d" using d F nw by simp
  then have "ks \<le> x" using F by (simp add: word_le_nat_alt)
  then have "unat (x - ks) = unat x - unat ks" by (rule unat_sub)
  then show ?thesis using ux F by (simp add: within_def)
qed

lemma user_frame_outside_kernel_stack_witness:
  "\<not> within 0x200000 4096 (frame_addr (0x200000 + 0x2000))"
  by (rule user_frame_outside_kernel_stack [of "0x2000"]) (simp_all add: within_def)

end
