(* ===== verification/Sync.thy ===== *)
theory Sync
  imports Thread
begin

text \<open>
  Spin locks, mutexes and semaphores, \<^verbatim>\<open>Kernel/kernel/Thread.c\<close>.  A mutex or semaphore
  operation works on the object and the scheduler state; where it calls \<^verbatim>\<open>schedule\<close> it
  stops (\<open>Switched\<close>), and the thread goes on from there when it is next selected.  The system of
  threads that use one mutex is the step relation \<open>lock_step\<close>, whose invariant gives mutual
  exclusion and that no waiter is forgotten.
\<close>

section \<open>Spin locks\<close>

text \<open>
  The assembly gets the lock byte twice, as the memory operand and, copied, as the register operand
  that is written back to the lock afterwards: \<open>r\<close> and \<open>m\<close> are the two.
\<close>

partial_function (option) spin_loop :: "u8 \<Rightarrow> u8 \<Rightarrow> (u8 \<times> u8) option" where
  "spin_loop r m = (let (r, m) = (m, r) in if r = 0 then Some (r, m) else spin_loop r m)"

definition spinlock_acquire :: "u8 \<Rightarrow> sched \<Rightarrow> (u8 \<times> sched) option" where
  "spinlock_acquire locked s =
     map_option (\<lambda>(r, m). (r, s\<lparr>interrupts := False\<rparr>)) (spin_loop locked locked)"

definition spinlock_release :: "u8 \<Rightarrow> sched \<Rightarrow> u8 \<times> sched" where
  "spinlock_release locked s = (let (r, m) = (locked, locked) in (r, s\<lparr>interrupts := True\<rparr>))"

text \<open>Here the register operand is a variable of its own, with the value 1.\<close>

definition spinlock_try_acquire :: "u8 \<Rightarrow> bool \<times> u8" where
  "spinlock_try_acquire locked = (let (old, m) = (locked, 1) in (old = 0, m))"

lemma spin_loop_free: "spin_loop r 0 = Some (0, r)"
  by (subst spin_loop.simps) simp

lemma spin_loop_stuck: "r \<noteq> 0 \<Longrightarrow> m \<noteq> 0 \<Longrightarrow> spin_loop r m = None"
proof -
  have "r = 0 \<or> m = 0" if "spin_loop r m = Some y" for r m y
    by (rule spin_loop.raw_induct [of "\<lambda>r m y. r = 0 \<or> m = 0" r m y, OF _ that])
      (auto split: if_splits)
  then show "r \<noteq> 0 \<Longrightarrow> m \<noteq> 0 \<Longrightarrow> spin_loop r m = None" by (cases "spin_loop r m") auto
qed

section \<open>Mutexes\<close>

record mutex =
  m_locked :: u8
  owner :: addr
  wait_queue_head :: addr
  wait_queue_tail :: addr
  lock_count :: u32

definition thread_enqueue_wait :: "mutex \<times> sched \<Rightarrow> addr \<Rightarrow> mutex \<times> sched" where
  "thread_enqueue_wait ms t =
     (let (m, s) = ms; s = set_next t 0 s
      in if wait_queue_head m = 0 then (m\<lparr>wait_queue_head := t, wait_queue_tail := t\<rparr>, s)
         else (m\<lparr>wait_queue_tail := t\<rparr>, set_next (wait_queue_tail m) t s))"

definition thread_dequeue_wait :: "mutex \<times> sched \<Rightarrow> addr \<times> mutex \<times> sched" where
  "thread_dequeue_wait ms =
     (let (m, s) = ms
      in if wait_queue_head m = 0 then (0, m, s)
         else let t = wait_queue_head m;
                  m = m\<lparr>wait_queue_head := next_of s t\<rparr>;
                  m = (if wait_queue_head m = 0 then m\<lparr>wait_queue_tail := 0\<rparr> else m)
              in (t, m, set_next t 0 s))"

definition mutex_init :: "mutex \<Rightarrow> mutex" where
  "mutex_init m = m\<lparr>m_locked := 0, owner := 0, wait_queue_head := 0, wait_queue_tail := 0\<rparr>"

datatype lock_result = Acquired | Switched "u64 option"

text \<open>One round of the loop of \<^verbatim>\<open>mutex_lock\<close>.\<close>

definition mutex_lock_loop :: "mutex \<Rightarrow> sched \<Rightarrow> (lock_result \<times> mutex \<times> sched) option" where
  "mutex_lock_loop m s =
     (if m_locked m \<noteq> 0
      then let c = current_thread s;
               (m, s) = thread_enqueue_wait (m, set_state c THREAD_BLOCKED s) c
           in map_option (\<lambda>(t, s). (Switched t, m, s)) (schedule_select s)
      else Some (Acquired, m\<lparr>m_locked := 1, owner := current_thread s\<rparr>, s\<lparr>interrupts := True\<rparr>))"

definition mutex_lock :: "mutex \<Rightarrow> sched \<Rightarrow> (lock_result \<times> mutex \<times> sched) option" where
  "mutex_lock m s =
     (let s = s\<lparr>interrupts := False\<rparr>
      in if owner m = current_thread s then Some (Acquired, m, s\<lparr>interrupts := True\<rparr>)
         else mutex_lock_loop m s)"

text \<open>A thread that blocked in \<^verbatim>\<open>mutex_lock\<close> is selected again: its \<^verbatim>\<open>schedule\<close>
  returns, with its own flags, and the loop condition is tested anew.\<close>

definition mutex_lock_resume :: "u64 option \<Rightarrow> mutex \<Rightarrow> sched \<Rightarrow> (lock_result \<times> mutex \<times> sched) option" where
  "mutex_lock_resume target m s =
     Option.bind (schedule_resume s target) (\<lambda>s. mutex_lock_loop m (s\<lparr>interrupts := False\<rparr>))"

definition mutex_unlock :: "mutex \<Rightarrow> sched \<Rightarrow> mutex \<times> sched" where
  "mutex_unlock m s =
     (let s = s\<lparr>interrupts := False\<rparr>
      in if owner m \<noteq> current_thread s then (m, s\<lparr>interrupts := True\<rparr>)
         else let m = m\<lparr>m_locked := 0, owner := 0\<rparr>;
                  (waiter, m, s) = thread_dequeue_wait (m, s);
                  s = (if waiter \<noteq> 0 then thread_enqueue (set_state waiter THREAD_READY s) waiter else s)
              in (m, s\<lparr>interrupts := True\<rparr>))"

definition mutex_is_owned_by_current :: "mutex \<Rightarrow> sched \<Rightarrow> bool" where
  "mutex_is_owned_by_current m s \<longleftrightarrow> owner m = current_thread s"

section \<open>Semaphores\<close>

record semaphore =
  count :: int
  s_head :: addr
  s_tail :: addr

definition sem_init :: "int \<Rightarrow> semaphore" where
  "sem_init v = \<lparr>count = v, s_head = 0, s_tail = 0\<rparr>"

definition sem_enqueue_wait :: "semaphore \<times> sched \<Rightarrow> addr \<Rightarrow> semaphore \<times> sched" where
  "sem_enqueue_wait ms t =
     (let (m, s) = ms; s = set_next t 0 s
      in if s_head m = 0 then (m\<lparr>s_head := t, s_tail := t\<rparr>, s)
         else (m\<lparr>s_tail := t\<rparr>, set_next (s_tail m) t s))"

definition sem_dequeue_wait :: "semaphore \<times> sched \<Rightarrow> addr \<times> semaphore \<times> sched" where
  "sem_dequeue_wait ms =
     (let (m, s) = ms
      in if s_head m = 0 then (0, m, s)
         else let t = s_head m;
                  m = m\<lparr>s_head := next_of s t\<rparr>;
                  m = (if s_head m = 0 then m\<lparr>s_tail := 0\<rparr> else m)
              in (t, m, set_next t 0 s))"

definition sem_wait_loop :: "semaphore \<Rightarrow> sched \<Rightarrow> (lock_result \<times> semaphore \<times> sched) option" where
  "sem_wait_loop m s =
     (if count m \<le> 0
      then let c = current_thread s;
               (m, s) = sem_enqueue_wait (m, set_state c THREAD_BLOCKED s) c
           in map_option (\<lambda>(t, s). (Switched t, m, s)) (schedule_select s)
      else Some (Acquired, m\<lparr>count := count m - 1\<rparr>, s\<lparr>interrupts := True\<rparr>))"

definition sem_wait :: "semaphore \<Rightarrow> sched \<Rightarrow> (lock_result \<times> semaphore \<times> sched) option" where
  "sem_wait m s = sem_wait_loop m (s\<lparr>interrupts := False\<rparr>)"

definition sem_wait_resume :: "u64 option \<Rightarrow> semaphore \<Rightarrow> sched \<Rightarrow> (lock_result \<times> semaphore \<times> sched) option" where
  "sem_wait_resume target m s =
     Option.bind (schedule_resume s target) (\<lambda>s. sem_wait_loop m (s\<lparr>interrupts := False\<rparr>))"

definition sem_post :: "semaphore \<Rightarrow> sched \<Rightarrow> semaphore \<times> sched" where
  "sem_post m s =
     (let s = s\<lparr>interrupts := False\<rparr>; m = m\<lparr>count := count m + 1\<rparr>;
          (waiter, m, s) = sem_dequeue_wait (m, s);
          s = (if waiter \<noteq> 0 then thread_enqueue (set_state waiter THREAD_READY s) waiter else s)
      in (m, s\<lparr>interrupts := True\<rparr>))"

section \<open>The wait queues\<close>

definition is_wait :: "mutex \<times> sched \<Rightarrow> addr list \<Rightarrow> bool" where
  "is_wait ms xs \<longleftrightarrow> queue_ok (next_of (snd ms)) (wait_queue_head (fst ms)) (wait_queue_tail (fst ms)) xs"

definition is_sem_wait :: "semaphore \<times> sched \<Rightarrow> addr list \<Rightarrow> bool" where
  "is_sem_wait ms xs \<longleftrightarrow> queue_ok (next_of (snd ms)) (s_head (fst ms)) (s_tail (fst ms)) xs"

lemma wait_enqueue:
  "is_wait ms xs \<Longrightarrow> t \<notin> set xs \<Longrightarrow> t \<noteq> 0 \<Longrightarrow> is_wait (thread_enqueue_wait ms t) (xs @ [t])"
proof -
  assume a: "is_wait ms xs" "t \<notin> set xs" "t \<noteq> 0"
  have n: "next_of (snd (thread_enqueue_wait ms t)) =
      (if wait_queue_head (fst ms) = 0 then (next_of (snd ms))(t := 0)
       else (next_of (snd ms))(t := 0, wait_queue_tail (fst ms) := t))"
    by (auto simp: thread_enqueue_wait_def Let_def fun_eq_iff split: prod.splits)
  show ?thesis
    unfolding is_wait_def n
    using queue_ok_snoc [OF a(1) [unfolded is_wait_def] a(2,3)]
    by (cases ms) (auto simp: thread_enqueue_wait_def Let_def)
qed

lemma wait_dequeue:
  "is_wait ms (x # xs) \<Longrightarrow>
   fst (thread_dequeue_wait ms) = x \<and> is_wait (snd (thread_dequeue_wait ms)) xs"
proof -
  assume q: "is_wait ms (x # xs)"
  note p = queue_ok_pop [OF q [unfolded is_wait_def]]
  have n: "next_of (snd (snd (thread_dequeue_wait ms))) = (next_of (snd ms))(x := 0)"
    using p by (cases ms) (auto simp: thread_dequeue_wait_def Let_def fun_eq_iff)
  show ?thesis
    using p unfolding is_wait_def n by (cases ms) (auto simp: thread_dequeue_wait_def Let_def)
qed

lemma wait_dequeue_empty: "is_wait ms [] \<Longrightarrow> thread_dequeue_wait ms = (0, ms)"
  using queue_ok_empty by (cases ms) (fastforce simp: is_wait_def thread_dequeue_wait_def)

interpretation mutex_queue: fifo_queue is_wait "\<lambda>s t. t \<noteq> 0" thread_enqueue_wait thread_dequeue_wait
proof
  show "is_wait s xs \<Longrightarrow> is_wait s ys \<Longrightarrow> xs = ys" for s xs ys
    using linked_fun by (auto simp: is_wait_def queue_ok_def)
  show "is_wait s xs \<Longrightarrow> 0 \<notin> set xs" for s xs
    unfolding is_wait_def by (rule queue_ok_zero)
qed (simp_all add: wait_enqueue wait_dequeue wait_dequeue_empty)

lemma sem_enqueue:
  "is_sem_wait ms xs \<Longrightarrow> t \<notin> set xs \<Longrightarrow> t \<noteq> 0 \<Longrightarrow> is_sem_wait (sem_enqueue_wait ms t) (xs @ [t])"
proof -
  assume a: "is_sem_wait ms xs" "t \<notin> set xs" "t \<noteq> 0"
  have n: "next_of (snd (sem_enqueue_wait ms t)) =
      (if s_head (fst ms) = 0 then (next_of (snd ms))(t := 0)
       else (next_of (snd ms))(t := 0, s_tail (fst ms) := t))"
    by (auto simp: sem_enqueue_wait_def Let_def fun_eq_iff split: prod.splits)
  show ?thesis
    unfolding is_sem_wait_def n
    using queue_ok_snoc [OF a(1) [unfolded is_sem_wait_def] a(2,3)]
    by (cases ms) (auto simp: sem_enqueue_wait_def Let_def)
qed

lemma sem_dequeue:
  "is_sem_wait ms (x # xs) \<Longrightarrow>
   fst (sem_dequeue_wait ms) = x \<and> is_sem_wait (snd (sem_dequeue_wait ms)) xs"
proof -
  assume q: "is_sem_wait ms (x # xs)"
  note p = queue_ok_pop [OF q [unfolded is_sem_wait_def]]
  have n: "next_of (snd (snd (sem_dequeue_wait ms))) = (next_of (snd ms))(x := 0)"
    using p by (cases ms) (auto simp: sem_dequeue_wait_def Let_def fun_eq_iff)
  show ?thesis
    using p unfolding is_sem_wait_def n by (cases ms) (auto simp: sem_dequeue_wait_def Let_def)
qed

lemma sem_dequeue_empty: "is_sem_wait ms [] \<Longrightarrow> sem_dequeue_wait ms = (0, ms)"
  using queue_ok_empty by (cases ms) (fastforce simp: is_sem_wait_def sem_dequeue_wait_def)

interpretation sem_queue: fifo_queue is_sem_wait "\<lambda>s t. t \<noteq> 0" sem_enqueue_wait sem_dequeue_wait
proof
  show "is_sem_wait s xs \<Longrightarrow> is_sem_wait s ys \<Longrightarrow> xs = ys" for s xs ys
    using linked_fun by (auto simp: is_sem_wait_def queue_ok_def)
  show "is_sem_wait s xs \<Longrightarrow> 0 \<notin> set xs" for s xs
    unfolding is_sem_wait_def by (rule queue_ok_zero)
qed (simp_all add: sem_enqueue sem_dequeue sem_dequeue_empty)

section \<open>Threads that use one mutex\<close>

text \<open>
  A thread is outside of the mutex, holds it, or is in the loop of \<^verbatim>\<open>mutex_lock\<close>.
  \<open>saved t\<close> is set while \<open>t\<close> is inside \<^verbatim>\<open>schedule\<close>: its local \<^verbatim>\<open>target_cr3\<close>.
  One processor, and interrupts off inside every operation: an operation up to the next switch is
  one step.
\<close>

datatype phase = Outside | InLoop | Holding

record lock_sys =
  mx :: mutex
  sc :: sched
  phase :: "addr \<Rightarrow> phase"
  saved :: "addr \<Rightarrow> u64 option option"

definition finish_lock :: "(lock_result \<times> mutex \<times> sched) \<Rightarrow> addr \<Rightarrow> lock_sys \<Rightarrow> lock_sys" where
  "finish_lock r c sys =
     (case r of (res, m, s) \<Rightarrow> (case res of
        Acquired \<Rightarrow> sys\<lparr>mx := m, sc := s, phase := (phase sys)(c := Holding), saved := (saved sys)(c := None)\<rparr>
      | Switched t \<Rightarrow> sys\<lparr>mx := m, sc := s, phase := (phase sys)(c := InLoop), saved := (saved sys)(c := Some t)\<rparr>))"

text \<open>The timer interrupt only counts; a preemption is its call of \<^verbatim>\<open>schedule\<close>.  The idle
  thread runs an empty loop: it is preempted, and takes part in nothing else.\<close>

inductive lock_step :: "addr \<Rightarrow> lock_sys \<Rightarrow> lock_sys \<Rightarrow> bool" for idle :: addr where
  lock: "\<lbrakk>c = current_thread (sc sys); saved sys c = None; c \<noteq> idle; mutex_lock (mx sys) (sc sys) = Some r\<rbrakk>
     \<Longrightarrow> lock_step idle sys (finish_lock r c sys)"
| again: "\<lbrakk>c = current_thread (sc sys); saved sys c = Some t; phase sys c = InLoop;
      mutex_lock_resume t (mx sys) (sc sys) = Some r\<rbrakk>
     \<Longrightarrow> lock_step idle sys (finish_lock r c sys)"
| unlock: "\<lbrakk>c = current_thread (sc sys); saved sys c = None; c \<noteq> idle; mutex_unlock (mx sys) (sc sys) = (m, s)\<rbrakk>
     \<Longrightarrow> lock_step idle sys (sys\<lparr>mx := m, sc := s, phase := (phase sys)(c := Outside)\<rparr>)"
| preempt: "\<lbrakk>c = current_thread (sc sys); saved sys c = None; schedule_select (sc sys) = Some (t, s)\<rbrakk>
     \<Longrightarrow> lock_step idle sys (sys\<lparr>sc := s, saved := (saved sys)(c := Some t)\<rparr>)"
| sleep: "\<lbrakk>c = current_thread (sc sys); saved sys c = None; c \<noteq> idle;
      schedule_select (sleep_until (sc sys) w) = Some (t, s)\<rbrakk>
     \<Longrightarrow> lock_step idle sys (sys\<lparr>sc := s, saved := (saved sys)(c := Some t)\<rparr>)"
| resume: "\<lbrakk>c = current_thread (sc sys); saved sys c = Some t; phase sys c \<noteq> InLoop;
      schedule_resume (sc sys) t = Some s\<rbrakk>
     \<Longrightarrow> lock_step idle sys (sys\<lparr>sc := s, saved := (saved sys)(c := None)\<rparr>)"
| tick: "lock_step idle sys (sys\<lparr>sc := (sc sys)\<lparr>SYSTEM_TimerTicks := SYSTEM_TimerTicks (sc sys) + 1\<rparr>\<rparr>)"

text \<open>The threads are divided over the processor, the two queues of the scheduler and the waiters;
  what \<^verbatim>\<open>mutex\<close> says of its state is true; and if there are waiters, somebody will
  wake them: the holder, or a thread that has been woken and not yet run.\<close>

definition live :: "mutex \<Rightarrow> sched \<Rightarrow> addr list \<Rightarrow> addr list \<Rightarrow> addr list \<Rightarrow> bool" where
  "live m s rq sq wq \<longleftrightarrow>
     is_ready s rq \<and> is_sleep s sq \<and> is_wait (m, s) wq \<and> distinct (current_thread s # rq @ sq @ wq) \<and>
     current_thread s \<noteq> 0 \<and> t_state (tcb s (current_thread s)) = THREAD_RUNNING \<and>
     (\<forall>u. t_state (tcb s u) \<noteq> THREAD_TERMINATED)"

definition lock_inv :: "addr \<Rightarrow> lock_sys \<Rightarrow> bool" where
  "lock_inv idle sys \<longleftrightarrow>
     (\<exists>rq sq wq. live (mx sys) (sc sys) rq sq wq \<and> idle \<in> set (current_thread (sc sys) # rq) \<and>
        phase sys idle = Outside \<and>
        (m_locked (mx sys) = 0 \<longleftrightarrow> owner (mx sys) = 0) \<and>
        (\<forall>t. phase sys t = Holding \<longleftrightarrow> t = owner (mx sys) \<and> t \<noteq> 0) \<and>
        (\<forall>t. phase sys t = InLoop \<longrightarrow> saved sys t \<noteq> None \<and> t \<in> set (current_thread (sc sys) # rq @ wq)) \<and>
        (\<forall>t \<in> set wq. phase sys t = InLoop) \<and>
        (wq \<noteq> [] \<longrightarrow> m_locked (mx sys) \<noteq> 0 \<or> (\<exists>t \<in> set (current_thread (sc sys) # rq). phase sys t = InLoop)))"

text \<open>Scheduling keeps a wait queue, as long as the thread that runs is not in it while it runs.\<close>

lemma schedule_live:
  assumes q: "is_ready s rq" "is_sleep s sq" "is_wait (m, s) wq" "distinct (rq @ sq @ wq)"
    and c: "current_thread s \<noteq> 0" "t_state (tcb s (current_thread s)) = THREAD_RUNNING \<longrightarrow>
       current_thread s \<notin> set rq \<union> set sq \<union> set wq"
    and nt: "\<And>u. t_state (tcb s u) \<noteq> THREAD_TERMINATED"
    and ne: "candidates s rq sq = x # xs" and sel: "schedule_select s = Some (t, s')"
  shows "live m s' xs (filter (\<lambda>t. \<not> due s t) sq) wq" "current_thread s' = x"
proof -
  have d: "set rq \<inter> set sq = {}" "t_state (tcb s (current_thread s)) = THREAD_RUNNING \<longrightarrow>
      current_thread s \<notin> set rq \<union> set sq"
    using q(4) c(2) by auto
  have cs: "distinct (candidates s rq sq @ filter (\<lambda>t. \<not> due s t) sq @ wq)"
    "set (candidates s rq sq) \<union> set sq \<subseteq> set rq \<union> set sq \<union>
       (if t_state (tcb s (current_thread s)) = THREAD_RUNNING then {current_thread s} else {})"
    using q(4) c(2) by (auto simp: candidates_def)
  have "current_thread s' = x \<and> is_ready s' xs \<and> is_sleep s' (filter (\<lambda>t. \<not> due s t) sq) \<and>
    (\<forall>u. t_state (tcb s' u) = (if u = x then THREAD_RUNNING
        else if u \<in> set (candidates s rq sq) - set rq then THREAD_READY else t_state (tcb s u))) \<and>
    (\<forall>u. u \<notin> set (candidates s rq sq) \<union> set sq \<longrightarrow> next_of s' u = next_of s u)"
  proof (rule schedule_spec [OF q(1,2) d(1) c(1) d(2) ne])
    fix tgt s1
    assume "schedule_select s = Some (tgt, s1)"
    then have "s1 = s'" using sel by simp
    moreover assume "current_thread s1 = x" "is_ready s1 xs" "is_sleep s1 (filter (\<lambda>t. \<not> due s t) sq)"
      "\<And>u. t_state (tcb s1 u) = (if u = x then THREAD_RUNNING
        else if u \<in> set (candidates s rq sq) - set rq then THREAD_READY else t_state (tcb s u))"
      "\<And>u. u \<notin> set (candidates s rq sq) \<union> set sq \<Longrightarrow> next_of s1 u = next_of s u"
    ultimately show ?thesis by blast
  qed
  then have s1: "current_thread s' = x" "is_ready s' xs" "is_sleep s' (filter (\<lambda>t. \<not> due s t) sq)"
    "\<And>u. t_state (tcb s' u) = (if u = x then THREAD_RUNNING
        else if u \<in> set (candidates s rq sq) - set rq then THREAD_READY else t_state (tcb s u))"
    "\<And>u. u \<notin> set (candidates s rq sq) \<union> set sq \<Longrightarrow> next_of s' u = next_of s u"
    by blast+
  have w: "queue_ok (next_of s') (wait_queue_head m) (wait_queue_tail m) wq"
  proof -
    have "next_of s' y = next_of s y" if "y \<in> set wq" for y
      using that q(4) c(2) cs(2) by (intro s1(5)) (auto split: if_splits)
    then show ?thesis using q(3) queue_ok_cong [of wq "next_of s'" "next_of s"] by (simp add: is_wait_def)
  qed
  have x0: "x \<noteq> 0" using ne q c ready_queue.no_null [OF q(1)] sleep_queue.no_null [OF q(2)]
    by (cases rq) (auto simp: candidates_def filter_eq_Cons_iff split: if_splits)
  show "live m s' xs (filter (\<lambda>t. \<not> due s t) sq) wq"
    using s1 w x0 cs(1) nt unfolding live_def ne by (simp add: is_wait_def)
  show "current_thread s' = x" by (rule s1(1))
qed

lemma live_interrupts [simp]: "live m (s\<lparr>interrupts := b\<rparr>) rq sq wq = live m s rq sq wq"
  by (simp add: live_def is_ready_def is_sleep_def is_wait_def)

lemma live_ticks [simp]: "live m (s\<lparr>SYSTEM_TimerTicks := b\<rparr>) rq sq wq = live m s rq sq wq"
  by (simp add: live_def is_ready_def is_sleep_def is_wait_def)

lemma live_mutex: "live m s rq sq wq \<Longrightarrow> wait_queue_head m' = wait_queue_head m \<Longrightarrow>
   wait_queue_tail m' = wait_queue_tail m \<Longrightarrow> live m' s rq sq wq"
  by (simp add: live_def is_wait_def)

lemma live_no_null: "live m s rq sq wq \<Longrightarrow> 0 \<notin> set rq \<union> set sq \<union> set wq"
  using ready_queue.no_null sleep_queue.no_null mutex_queue.no_null by (auto simp: live_def)

lemma wait_enqueue_sched:
  assumes "is_wait (m, s) wq"
  shows "fst (thread_enqueue_wait (m, s) t) = m\<lparr>wait_queue_head := if wait_queue_head m = 0 then t else wait_queue_head m,
      wait_queue_tail := t\<rparr>"
    "u \<notin> set wq \<Longrightarrow> u \<noteq> t \<Longrightarrow> next_of (snd (thread_enqueue_wait (m, s) t)) u = next_of s u"
    "same_sched s (snd (thread_enqueue_wait (m, s) t))"
    "ready_queue_head (snd (thread_enqueue_wait (m, s) t)) = ready_queue_head s"
    "ready_queue_tail (snd (thread_enqueue_wait (m, s) t)) = ready_queue_tail s"
    "sleep_queue_head (snd (thread_enqueue_wait (m, s) t)) = sleep_queue_head s"
    "sleep_queue_tail (snd (thread_enqueue_wait (m, s) t)) = sleep_queue_tail s"
    "t_state (tcb (snd (thread_enqueue_wait (m, s) t)) u) = t_state (tcb s u)"
proof -
  have "wait_queue_head m \<noteq> 0 \<Longrightarrow> wait_queue_tail m \<in> set wq"
    using assms queue_ok_empty queue_ok_tail unfolding is_wait_def by fastforce
  then show "u \<notin> set wq \<Longrightarrow> u \<noteq> t \<Longrightarrow> next_of (snd (thread_enqueue_wait (m, s) t)) u = next_of s u"
    by (auto simp: thread_enqueue_wait_def Let_def)
qed (auto simp: thread_enqueue_wait_def Let_def same_sched_def static_def)

text \<open>Blocking on a locked mutex.\<close>

lemma lock_blocks:
  assumes l: "live m s rq sq wq" "rq \<noteq> []" and k: "m_locked m \<noteq> 0" and r: "mutex_lock_loop m s = Some r"
  obtains t m' s' rq' sq' where "r = (Switched t, m', s')" "live m' s' rq' sq' (wq @ [current_thread s])"
    "set rq \<subseteq> set (current_thread s' # rq')" "m_locked m' = m_locked m" "owner m' = owner m"
proof -
  let ?c = "current_thread s"
  let ?s1 = "set_state ?c THREAD_BLOCKED s"
  obtain m2 s2 where e: "thread_enqueue_wait (m, ?s1) ?c = (m2, s2)" by fastforce
  have w1: "is_wait (m, ?s1) wq" using l(1) by (auto simp: live_def is_wait_def elim: queue_ok_cong [THEN iffD1, rotated])
  note ef = wait_enqueue_sched [OF w1, where t = ?c, unfolded e]
  have cn: "?c \<notin> set rq \<union> set sq \<union> set wq" "?c \<noteq> 0" using l(1) by (auto simp: live_def)
  have nx: "next_of s2 y = next_of s y" if "y \<in> set rq \<union> set sq" for y
    using ef(2) [of y] that l(1) by (auto simp: live_def)
  have q: "is_ready s2 rq" "is_sleep s2 sq" "is_wait (m2, s2) (wq @ [?c])"
  proof -
    show "is_ready s2 rq" using l(1) nx ef(4,5) by (intro is_ready_frame [of s rq s2]) (auto simp: live_def)
    show "is_sleep s2 sq" using l(1) nx ef(6,7) by (intro is_sleep_frame [of s sq s2]) (auto simp: live_def)
    show "is_wait (m2, s2) (wq @ [?c])" using mutex_queue.enq [OF w1, of ?c] cn e by simp
  qed
  have st: "t_state (tcb s2 u) = (if u = ?c then THREAD_BLOCKED else t_state (tcb s u))" for u
    using ef(8) by simp
  have cur: "current_thread s2 = ?c" using ef(3) by (simp add: same_sched_def)
  obtain x xs where ne: "candidates s2 rq sq = x # xs" using l(2) by (cases rq) (auto simp: candidates_def)
  obtain t s' where sel: "schedule_select s2 = Some (t, s')" and rr: "r = (Switched t, m2, s')"
    using r k e by (auto simp: mutex_lock_loop_def Let_def)
  have "live m2 s' xs (filter (\<lambda>t. \<not> due s2 t) sq) (wq @ [?c])" "current_thread s' = x"
    using schedule_live [OF q _ _ _ _ ne sel] l(1) cn st cur by (auto simp: live_def)
  moreover have "set rq \<subseteq> set (x # xs)" unfolding ne [symmetric] by (simp add: candidates_def)
  moreover have "m_locked m2 = m_locked m" "owner m2 = owner m" using ef(1) by simp_all
  ultimately show thesis using that [OF rr] by auto
qed

lemma lock_takes:
  "m_locked m = 0 \<Longrightarrow> mutex_lock_loop m s = Some r \<Longrightarrow>
   r = (Acquired, m\<lparr>m_locked := 1, owner := current_thread s\<rparr>, s\<lparr>interrupts := True\<rparr>)"
  by (simp add: mutex_lock_loop_def)

lemma preempt_live:
  assumes l: "live m s rq sq wq" and sel: "schedule_select s = Some (t, s')"
  obtains rq' sq' where "live m s' rq' sq' wq" "set (current_thread s # rq) \<subseteq> set (current_thread s' # rq')"
proof -
  obtain x xs where ne: "candidates s rq sq = x # xs"
    using l by (cases "candidates s rq sq") (auto simp: candidates_def live_def)
  have "live m s' xs (filter (\<lambda>t. \<not> due s t) sq) wq" "current_thread s' = x"
    using schedule_live [OF _ _ _ _ _ _ _ ne sel, of m wq] l by (auto simp: live_def)
  moreover have "set (current_thread s # rq) \<subseteq> set (x # xs)"
    unfolding ne [symmetric] using l by (auto simp: candidates_def live_def)
  ultimately show thesis using that by simp
qed

lemma sleep_live:
  assumes l: "live m s rq sq wq" "rq \<noteq> []" and sel: "schedule_select (sleep_until s w) = Some (t, s')"
  obtains rq' sq' where "live m s' rq' sq' wq" "set rq \<subseteq> set (current_thread s' # rq')"
proof -
  let ?c = "current_thread s"
  let ?s1 = "upd_thread ?c (\<lambda>r. r\<lparr>wakeup_time := w, t_state := THREAD_BLOCKED\<rparr>) (s\<lparr>interrupts := False\<rparr>)"
  have su: "sleep_until s w = sleep_enqueue ?s1 ?c" by (simp add: sleep_until_def Let_def)
  have cn: "?c \<notin> set rq \<union> set sq \<union> set wq" "?c \<noteq> 0" using l(1) by (auto simp: live_def)
  have s1: "is_ready ?s1 rq" "is_sleep ?s1 sq"
    using l(1) by (auto simp: live_def intro: is_ready_frame is_sleep_frame)
  have st: "sleep_queue_head ?s1 \<noteq> 0 \<Longrightarrow> sleep_queue_tail ?s1 \<in> set sq"
    using s1(2) queue_ok_empty queue_ok_tail unfolding is_sleep_def by blast
  have nx: "next_of (sleep_until s w) y = next_of s y" if "y \<in> set rq \<union> set wq" for y
  proof -
    have "y \<noteq> ?c" "y \<notin> set sq" using that l(1) by (auto simp: live_def)
    then show ?thesis using fun_cong [OF sleep_enqueue_next, of ?s1 ?c y] st unfolding su by auto
  qed
  have q: "is_ready (sleep_until s w) rq" "is_sleep (sleep_until s w) (sq @ [?c])" "is_wait (m, sleep_until s w) wq"
  proof -
    show "is_ready (sleep_until s w) rq"
    proof (rule is_ready_frame [of s rq])
      show "is_ready s rq" using l(1) by (simp add: live_def)
    qed (simp_all add: nx, simp_all add: su sleep_enqueue_fields)
    show "is_sleep (sleep_until s w) (sq @ [?c])"
      unfolding su using cn s1(2) by (intro sleep_enqueue_sleep) auto
    show "is_wait (m, sleep_until s w) wq"
      using l(1) nx queue_ok_cong [of wq "next_of (sleep_until s w)" "next_of s"] by (simp add: live_def is_wait_def)
  qed
  have cur: "current_thread (sleep_until s w) = ?c"
    and state: "t_state (tcb (sleep_until s w) u) = (if u = ?c then THREAD_BLOCKED else t_state (tcb s u))" for u
    by (simp_all add: su sleep_enqueue_def Let_def)
  obtain x xs where ne: "candidates (sleep_until s w) rq (sq @ [?c]) = x # xs"
    using l(2) by (cases rq) (auto simp: candidates_def)
  have "live m s' xs (filter (\<lambda>t. \<not> due (sleep_until s w) t) (sq @ [?c])) wq" "current_thread s' = x"
    using schedule_live [OF q _ _ _ _ ne sel] l(1) cn state cur by (auto simp: live_def)
  moreover have "set rq \<subseteq> set (x # xs)" unfolding ne [symmetric] by (simp add: candidates_def)
  ultimately show thesis using that by simp
qed

lemma resume_live:
  assumes "live m s rq sq wq" "schedule_resume s t = Some s'"
  shows "live m s' rq sq wq" "current_thread s' = current_thread s"
proof -
  have t: "t_state (tcb s (schedule_prev_thread s)) \<noteq> THREAD_TERMINATED" using assms(1) by (simp add: live_def)
  then show "live m s' rq sq wq" "current_thread s' = current_thread s"
    using assms by (auto simp: schedule_resume_def Let_def live_def is_ready_def is_sleep_def is_wait_def
        split: option.splits if_splits)
qed

lemma unlock_live:
  assumes l: "live m s rq sq wq" and o: "owner m = current_thread s" and u: "mutex_unlock m s = (m', s')"
  shows "live m' s' (rq @ take 1 wq) sq (drop 1 wq)" "current_thread s' = current_thread s"
    "m_locked m' = 0" "owner m' = 0"
proof -
  let ?m = "m\<lparr>m_locked := 0, owner := 0\<rparr>"
  let ?s = "s\<lparr>interrupts := False\<rparr>"
  have w: "is_wait (?m, ?s) wq" using l by (simp add: live_def is_wait_def)
  have "live m' s' (rq @ take 1 wq) sq (drop 1 wq) \<and> current_thread s' = current_thread s \<and>
    m_locked m' = 0 \<and> owner m' = 0"
  proof (cases wq)
    case Nil
    then show ?thesis
      using u o l wait_dequeue_empty [of "(?m, ?s)"] w
      by (auto simp: mutex_unlock_def Let_def live_def is_ready_def is_sleep_def is_wait_def)
  next
    case (Cons x xs)
    obtain m2 s2 where e: "thread_dequeue_wait (?m, ?s) = (x, m2, s2)" "is_wait (m2, s2) xs"
      using mutex_queue.deq [OF w [unfolded Cons]] by (metis prod.collapse)
    have x0: "x \<noteq> 0" using mutex_queue.no_null [OF w] Cons by auto
    have s2: "s2 = set_next x 0 ?s" "m_locked m2 = 0" "owner m2 = 0"
      using e(1) x0 by (auto simp: thread_dequeue_wait_def Let_def split: if_splits)
    let ?s3 = "set_state x THREAD_READY s2"
    have e2: "m' = m2" "s' = (thread_enqueue ?s3 x)\<lparr>interrupts := True\<rparr>"
      using u o e(1) x0 by (auto simp: mutex_unlock_def Let_def)
    have d: "x \<notin> set rq \<union> set sq \<union> set xs" "x \<noteq> current_thread s" using l Cons by (auto simp: live_def)
    have q3: "is_ready ?s3 rq" "is_sleep ?s3 sq"
      using l d unfolding s2 by (auto simp: live_def intro!: is_ready_frame [of s] is_sleep_frame [of s])
    have "next_of (thread_enqueue ?s3 x) y = next_of s2 y" if "y \<in> set xs" for y
    proof -
      have "y \<notin> set rq" "y \<noteq> x" using that l Cons by (auto simp: live_def)
      then show ?thesis using thread_enqueue_frame [OF q3(1), of y x] by simp
    qed
    then have w4: "is_wait (m2, thread_enqueue ?s3 x) xs"
      using e(2) queue_ok_cong [of xs "next_of (thread_enqueue ?s3 x)" "next_of s2"] by (simp add: is_wait_def)
    have r4: "is_ready (thread_enqueue ?s3 x) (rq @ [x])"
      using d x0 q3(1) by (intro thread_enqueue_ready) auto
    have "is_sleep (thread_enqueue ?s3 x) sq"
      using d l by (intro thread_enqueue_sleep [OF q3]) (auto simp: live_def)
    moreover have "t_state (tcb (thread_enqueue ?s3 x) u) = (if u = x then THREAD_READY else t_state (tcb s u))" for u
      by (simp add: thread_enqueue_fields s2)
    moreover have "current_thread (thread_enqueue ?s3 x) = current_thread s"
      using thread_enqueue_fields(5) [of ?s3 x] by (simp add: same_sched_def s2)
    ultimately have "live m2 (thread_enqueue ?s3 x) (rq @ [x]) sq xs"
      using l w4 r4 Cons by (auto simp: live_def)
    then show ?thesis
      using \<open>current_thread (thread_enqueue ?s3 x) = current_thread s\<close> Cons s2 by (simp add: e2)
  qed
  then show "live m' s' (rq @ take 1 wq) sq (drop 1 wq)" "current_thread s' = current_thread s"
    "m_locked m' = 0" "owner m' = 0" by simp_all
qed

section \<open>The invariant\<close>

text \<open>One round of the lock loop, entered by a thread that is not the owner.\<close>

lemma loop_inv:
  assumes l: "live (mx sys) s rq sq wq" "idle \<in> set rq" "phase sys idle = Outside" "c = current_thread s"
    and lo: "m_locked (mx sys) = 0 \<longleftrightarrow> owner (mx sys) = 0"
    and h: "\<And>t. phase sys t = Holding \<longleftrightarrow> t = owner (mx sys) \<and> t \<noteq> 0" "phase sys c \<noteq> Holding"
    and i: "\<And>t. phase sys t = InLoop \<Longrightarrow> t \<noteq> c \<Longrightarrow> saved sys t \<noteq> None \<and> t \<in> set (rq @ wq)"
    and w: "\<And>t. t \<in> set wq \<Longrightarrow> phase sys t = InLoop"
    and r: "mutex_lock_loop (mx sys) s = Some r"
  shows "lock_inv idle (finish_lock r c sys)"
proof -
  have c: "c \<notin> set rq \<union> set wq" "c \<noteq> 0" "rq \<noteq> []" "c \<noteq> idle" using l by (auto simp: live_def)
  then have co: "c \<noteq> owner (mx sys)" using h by auto
  show ?thesis
  proof (cases "m_locked (mx sys) = 0")
    case True
    have r': "r = (Acquired, (mx sys)\<lparr>m_locked := 1, owner := c\<rparr>, s\<lparr>interrupts := True\<rparr>)"
      using lock_takes [OF True r] l(4) by simp
    have "live ((mx sys)\<lparr>m_locked := 1, owner := c\<rparr>) s rq sq wq"
      by (rule live_mutex [OF l(1)]) simp_all
    moreover have "phase sys t \<noteq> Holding" for t using h True lo by auto
    ultimately show ?thesis
      unfolding lock_inv_def r' finish_lock_def using c i w l(2-4)
      by (intro exI [of _ rq] exI [of _ sq] exI [of _ wq]) auto
  next
    case False
    show ?thesis
    proof (rule lock_blocks [OF l(1) c(3) False r])
      fix t m' s' rq' sq'
      assume b: "r = (Switched t, m', s')" "live m' s' rq' sq' (wq @ [current_thread s])"
        "set rq \<subseteq> set (current_thread s' # rq')" "m_locked m' = m_locked (mx sys)" "owner m' = owner (mx sys)"
      show ?thesis
        unfolding lock_inv_def finish_lock_def b(1)
        using b c co i w l(2-4) lo h False
        by (intro exI [of _ rq'] exI [of _ sq'] exI [of _ "wq @ [c]"]) auto
    qed
  qed
qed

lemma lock_invD:
  assumes "lock_inv idle sys"
  obtains rq sq wq where "live (mx sys) (sc sys) rq sq wq" "idle \<in> set (current_thread (sc sys) # rq)"
    "phase sys idle = Outside" "m_locked (mx sys) = 0 \<longleftrightarrow> owner (mx sys) = 0"
    "\<And>t. phase sys t = Holding \<longleftrightarrow> t = owner (mx sys) \<and> t \<noteq> 0"
    "\<And>t. phase sys t = InLoop \<Longrightarrow> saved sys t \<noteq> None \<and> t \<in> set (current_thread (sc sys) # rq @ wq)"
    "\<And>t. t \<in> set wq \<Longrightarrow> phase sys t = InLoop"
    "wq \<noteq> [] \<longrightarrow> m_locked (mx sys) \<noteq> 0 \<or> (\<exists>t \<in> set (current_thread (sc sys) # rq). phase sys t = InLoop)"
  using assms unfolding lock_inv_def by blast

lemma unlock_inv:
  assumes inv: "lock_inv idle sys" and c: "c = current_thread (sc sys)" "saved sys c = None" "c \<noteq> idle"
    and u: "mutex_unlock (mx sys) (sc sys) = (m, s)"
  shows "lock_inv idle (sys\<lparr>mx := m, sc := s, phase := (phase sys)(c := Outside)\<rparr>)"
proof -
  from inv show ?thesis
  proof (rule lock_invD)
    fix rq sq wq
    assume l: "live (mx sys) (sc sys) rq sq wq" "idle \<in> set (current_thread (sc sys) # rq)"
      "phase sys idle = Outside" "m_locked (mx sys) = 0 \<longleftrightarrow> owner (mx sys) = 0"
      and h: "\<And>t. phase sys t = Holding \<longleftrightarrow> t = owner (mx sys) \<and> t \<noteq> 0"
      and i: "\<And>t. phase sys t = InLoop \<Longrightarrow> saved sys t \<noteq> None \<and> t \<in> set (current_thread (sc sys) # rq @ wq)"
      and w: "\<And>t. t \<in> set wq \<Longrightarrow> phase sys t = InLoop"
      and n: "wq \<noteq> [] \<longrightarrow> m_locked (mx sys) \<noteq> 0 \<or> (\<exists>t \<in> set (current_thread (sc sys) # rq). phase sys t = InLoop)"
    have ci: "phase sys c \<noteq> InLoop" using i c(2) by blast
    have c0: "c \<noteq> 0" "c \<notin> set wq" using l(1) c(1) by (auto simp: live_def)
    show ?thesis
    proof (cases "owner (mx sys) = c")
      case False
      then have "phase sys c = Outside" using h ci by (cases "phase sys c") auto
      then have p: "(phase sys)(c := Outside) = phase sys" by auto
      have e: "m = mx sys" "live m s rq sq wq" "current_thread s = c"
        using u False c(1) l(1) by (auto simp: mutex_unlock_def Let_def)
      show ?thesis
        unfolding lock_inv_def using e l h i w n c p
        by (intro exI [of _ rq] exI [of _ sq] exI [of _ wq]) auto
    next
      case True
      note ul = unlock_live [OF l(1) True [unfolded c(1)] u]
      have split: "set (rq @ wq) = set (rq @ take 1 wq) \<union> set (drop 1 wq)" by (cases wq) auto
      have woken: "drop 1 wq \<noteq> [] \<Longrightarrow> \<exists>t \<in> set (take 1 wq). phase sys t = InLoop \<and> t \<noteq> c"
        using w c0 by (cases wq) auto
      show ?thesis
        unfolding lock_inv_def using ul l(2,3) h i w c c0 True split woken
        by (intro exI [of _ "rq @ take 1 wq"] exI [of _ sq] exI [of _ "drop 1 wq"])
          (auto dest: in_set_dropD)
    qed
  qed
qed

text \<open>Steps in which a thread that is not in the lock loop leaves the processor, or the queues stay
  as they are.\<close>

lemma switch_inv:
  assumes inv: "lock_inv idle sys" and c: "c = current_thread (sc sys)" "saved sys c = None"
    and r: "\<And>rq sq wq. live (mx sys) (sc sys) rq sq wq \<Longrightarrow> idle \<in> set (c # rq) \<Longrightarrow> \<exists>rq' sq'. live (mx sys) s rq' sq' wq \<and>
      set rq \<subseteq> set (current_thread s # rq') \<and> idle \<in> set (current_thread s # rq')"
  shows "lock_inv idle (sys\<lparr>sc := s, saved := (saved sys)(c := Some t)\<rparr>)"
proof -
  from inv show ?thesis
  proof (rule lock_invD)
    fix rq sq wq
    assume l: "live (mx sys) (sc sys) rq sq wq" "idle \<in> set (current_thread (sc sys) # rq)"
      "phase sys idle = Outside" "m_locked (mx sys) = 0 \<longleftrightarrow> owner (mx sys) = 0"
      and h: "\<And>t. phase sys t = Holding \<longleftrightarrow> t = owner (mx sys) \<and> t \<noteq> 0"
      and i: "\<And>t. phase sys t = InLoop \<Longrightarrow> saved sys t \<noteq> None \<and> t \<in> set (current_thread (sc sys) # rq @ wq)"
      and w: "\<And>t. t \<in> set wq \<Longrightarrow> phase sys t = InLoop"
      and n: "wq \<noteq> [] \<longrightarrow> m_locked (mx sys) \<noteq> 0 \<or> (\<exists>t \<in> set (current_thread (sc sys) # rq). phase sys t = InLoop)"
    have ci: "phase sys c \<noteq> InLoop" using i c(2) by blast
    from r [OF l(1) l(2) [folded c(1)]] obtain rq' sq' where r': "live (mx sys) s rq' sq' wq"
      "set rq \<subseteq> set (current_thread s # rq')" "idle \<in> set (current_thread s # rq')" by blast
    have ir: "t \<in> set (current_thread s # rq' @ wq)" if "phase sys t = InLoop" for t
      using i [OF that] that ci c(1) r'(2) by auto
    have "\<exists>t \<in> set (current_thread s # rq'). phase sys t = InLoop"
      if "\<exists>t \<in> set (current_thread (sc sys) # rq). phase sys t = InLoop"
      using that ci c(1) r'(2) by auto
    with n have n': "wq \<noteq> [] \<longrightarrow> m_locked (mx sys) \<noteq> 0 \<or> (\<exists>t \<in> set (current_thread s # rq'). phase sys t = InLoop)"
      by blast
    show ?thesis
      unfolding lock_inv_def using r' l(3,4) h i w n' ir
      by (intro exI [of _ rq'] exI [of _ sq'] exI [of _ wq]) simp
  qed
qed

lemma stay_inv:
  assumes inv: "lock_inv idle sys" and "current_thread s = current_thread (sc sys)"
    and "\<And>rq sq wq. live (mx sys) (sc sys) rq sq wq \<Longrightarrow> live (mx sys) s rq sq wq"
    and "\<And>t. phase sys t = InLoop \<Longrightarrow> sv t = saved sys t"
  shows "lock_inv idle (sys\<lparr>sc := s, saved := sv\<rparr>)"
  using inv
proof (rule lock_invD)
  fix rq sq wq
  assume l: "live (mx sys) (sc sys) rq sq wq" "idle \<in> set (current_thread (sc sys) # rq)"
    "phase sys idle = Outside" "m_locked (mx sys) = 0 \<longleftrightarrow> owner (mx sys) = 0"
    and h: "\<And>t. phase sys t = Holding \<longleftrightarrow> t = owner (mx sys) \<and> t \<noteq> 0"
    and i: "\<And>t. phase sys t = InLoop \<Longrightarrow> saved sys t \<noteq> None \<and> t \<in> set (current_thread (sc sys) # rq @ wq)"
    and w: "\<And>t. t \<in> set wq \<Longrightarrow> phase sys t = InLoop"
    and n: "wq \<noteq> [] \<longrightarrow> m_locked (mx sys) \<noteq> 0 \<or> (\<exists>t \<in> set (current_thread (sc sys) # rq). phase sys t = InLoop)"
  show ?thesis
    unfolding lock_inv_def
    using l(2-4) h i w n assms(2) assms(3) [OF l(1)] assms(4)
    by (intro exI [of _ rq] exI [of _ sq] exI [of _ wq]) simp
qed

theorem lock_inv_step: "lock_step idle sys sys' \<Longrightarrow> lock_inv idle sys \<Longrightarrow> lock_inv idle sys'"
proof (induction rule: lock_step.induct)
  case (lock c sys r)
  from lock.prems show ?case
  proof (rule lock_invD)
    fix rq sq wq
    assume l: "live (mx sys) (sc sys) rq sq wq" "idle \<in> set (current_thread (sc sys) # rq)"
      "phase sys idle = Outside" "m_locked (mx sys) = 0 \<longleftrightarrow> owner (mx sys) = 0"
      and h: "\<And>t. phase sys t = Holding \<longleftrightarrow> t = owner (mx sys) \<and> t \<noteq> 0"
      and i: "\<And>t. phase sys t = InLoop \<Longrightarrow> saved sys t \<noteq> None \<and> t \<in> set (current_thread (sc sys) # rq @ wq)"
      and w: "\<And>t. t \<in> set wq \<Longrightarrow> phase sys t = InLoop"
    show ?thesis
    proof (cases "owner (mx sys) = c")
      case True
      have c0: "c \<noteq> 0" using l(1) lock.hyps(1) by (simp add: live_def)
      have hold: "phase sys c = Holding" using True h c0 by blast
      have r: "r = (Acquired, mx sys, (sc sys)\<lparr>interrupts := True\<rparr>)"
        using lock.hyps True by (auto simp: mutex_lock_def)
      have "finish_lock r c sys = sys\<lparr>sc := (sc sys)\<lparr>interrupts := True\<rparr>, saved := saved sys\<rparr>"
        using hold lock.hyps(2) by (simp add: r finish_lock_def fun_upd_idem)
      then show ?thesis using stay_inv [OF lock.prems, of "(sc sys)\<lparr>interrupts := True\<rparr>" "saved sys"] by simp
    next
      case False
      have c: "c \<noteq> idle" "phase sys c \<noteq> Holding" using lock.hyps False h by auto
      show ?thesis
        by (rule loop_inv [of sys "(sc sys)\<lparr>interrupts := False\<rparr>" rq sq wq])
          (use l h i w c lock.hyps False in \<open>auto simp: mutex_lock_def Let_def\<close>)
    qed
  qed
next
  case (again c sys t r)
  from again.prems show ?case
  proof (rule lock_invD)
    fix rq sq wq
    assume l: "live (mx sys) (sc sys) rq sq wq" "idle \<in> set (current_thread (sc sys) # rq)"
      "phase sys idle = Outside" "m_locked (mx sys) = 0 \<longleftrightarrow> owner (mx sys) = 0"
      and h: "\<And>t. phase sys t = Holding \<longleftrightarrow> t = owner (mx sys) \<and> t \<noteq> 0"
      and i: "\<And>t. phase sys t = InLoop \<Longrightarrow> saved sys t \<noteq> None \<and> t \<in> set (current_thread (sc sys) # rq @ wq)"
      and w: "\<And>t. t \<in> set wq \<Longrightarrow> phase sys t = InLoop"
    obtain s where s: "schedule_resume (sc sys) t = Some s" "mutex_lock_loop (mx sys) (s\<lparr>interrupts := False\<rparr>) = Some r"
      using again.hyps(4) by (auto simp: mutex_lock_resume_def bind_eq_Some_conv)
    note rl = resume_live [OF l(1) s(1)]
    show ?thesis
      by (rule loop_inv [of sys "s\<lparr>interrupts := False\<rparr>" rq sq wq])
        (use rl l h i w again.hyps s(2) in auto)
  qed
next
  case (unlock c sys m s)
  then show ?case by (intro unlock_inv)
next
  case (preempt c sys t s)
  show ?case
  proof (rule switch_inv [OF preempt.prems preempt.hyps(1,2)])
    fix rq sq wq assume l: "live (mx sys) (sc sys) rq sq wq" "idle \<in> set (c # rq)"
    show "\<exists>rq' sq'. live (mx sys) s rq' sq' wq \<and> set rq \<subseteq> set (current_thread s # rq') \<and>
        idle \<in> set (current_thread s # rq')"
      by (rule preempt_live [OF l(1) preempt.hyps(3)]) (use l(2) preempt.hyps(1) in auto)
  qed
next
  case (sleep c sys w t s)
  show ?case
  proof (rule switch_inv [OF sleep.prems sleep.hyps(1,2)])
    fix rq sq wq assume l: "live (mx sys) (sc sys) rq sq wq" "idle \<in> set (c # rq)"
    then have i: "idle \<in> set rq" using sleep.hyps(3) by auto
    then have "rq \<noteq> []" by auto
    show "\<exists>rq' sq'. live (mx sys) s rq' sq' wq \<and> set rq \<subseteq> set (current_thread s # rq') \<and>
        idle \<in> set (current_thread s # rq')"
      by (rule sleep_live [OF l(1) \<open>rq \<noteq> []\<close> sleep.hyps(4)]) (use i in auto)
  qed
next
  case (resume c sys t s)
  have ld: "\<exists>rq sq wq. live (mx sys) (sc sys) rq sq wq" using resume.prems unfolding lock_inv_def by blast
  show ?case
    by (rule stay_inv [OF resume.prems]) (use resume ld resume_live in auto)
next
  case (tick sys)
  let ?s = "(sc sys)\<lparr>SYSTEM_TimerTicks := SYSTEM_TimerTicks (sc sys) + 1\<rparr>"
  have "lock_inv idle (sys\<lparr>sc := ?s, saved := saved sys\<rparr>)"
    by (rule stay_inv [OF tick.prems]) simp_all
  moreover have "sys\<lparr>sc := ?s, saved := saved sys\<rparr> = sys\<lparr>sc := ?s\<rparr>" by (cases sys) simp
  ultimately show ?case by (simp only:)
qed

lemma lock_inv_reach: "(lock_step idle)\<^sup>*\<^sup>* sys sys' \<Longrightarrow> lock_inv idle sys \<Longrightarrow> lock_inv idle sys'"
  by (induction rule: rtranclp_induct) (auto intro: lock_inv_step)

text \<open>A fresh mutex that no thread has touched.\<close>

definition lock_start :: "addr \<Rightarrow> lock_sys \<Rightarrow> bool" where
  "lock_start idle sys \<longleftrightarrow>
     (\<exists>m rq sq. mx sys = mutex_init m \<and> live (mx sys) (sc sys) rq sq [] \<and>
        idle \<in> set (current_thread (sc sys) # rq)) \<and> (\<forall>t. phase sys t = Outside)"

lemma lock_start_inv: "lock_start idle sys \<Longrightarrow> lock_inv idle sys"
  unfolding lock_start_def lock_inv_def by (fastforce simp: mutex_init_def)

section \<open>Semaphore histories\<close>

text \<open>What a sequence of operations does to a semaphore: \<open>p\<close> posts and \<open>a\<close> successful waits so
  far.  The scheduler state of each operation is arbitrary.\<close>

inductive sem_run :: "int \<Rightarrow> nat \<Rightarrow> nat \<Rightarrow> semaphore \<Rightarrow> bool" for v :: int where
  init: "sem_run v 0 0 (sem_init v)"
| post: "sem_run v p a m \<Longrightarrow> sem_post m s = (m', s') \<Longrightarrow> sem_run v (Suc p) a m'"
| wait_ok: "sem_run v p a m \<Longrightarrow> sem_wait m s = Some (Acquired, m', s') \<Longrightarrow> sem_run v p (Suc a) m'"
| wait_block: "sem_run v p a m \<Longrightarrow> sem_wait m s = Some (Switched t, m', s') \<Longrightarrow> sem_run v p a m'"
| again_ok: "sem_run v p a m \<Longrightarrow> sem_wait_resume t m s = Some (Acquired, m', s') \<Longrightarrow> sem_run v p (Suc a) m'"
| again_block: "sem_run v p a m \<Longrightarrow> sem_wait_resume t m s = Some (Switched u, m', s') \<Longrightarrow> sem_run v p a m'"

lemma sem_queue_count [simp]:
  "count (fst (sem_enqueue_wait ms t)) = count (fst ms)"
  "count (fst (snd (sem_dequeue_wait ms))) = count (fst ms)"
  by (auto simp: sem_enqueue_wait_def sem_dequeue_wait_def Let_def split: prod.splits)

lemma sem_wait_loop_count:
  "sem_wait_loop m s = Some (res, m', s') \<Longrightarrow>
   (case res of Acquired \<Rightarrow> 0 < count m \<and> count m' = count m - 1 | Switched _ \<Rightarrow> count m \<le> 0 \<and> count m' = count m)"
proof -
  obtain m2 s2 where e: "sem_enqueue_wait (m, set_state (current_thread s) THREAD_BLOCKED s) (current_thread s) = (m2, s2)"
    by fastforce
  then have "count m2 = count m"
    using sem_queue_count(1) [of "(m, set_state (current_thread s) THREAD_BLOCKED s)" "current_thread s"] by simp
  then show "sem_wait_loop m s = Some (res, m', s') \<Longrightarrow>
   (case res of Acquired \<Rightarrow> 0 < count m \<and> count m' = count m - 1 | Switched _ \<Rightarrow> count m \<le> 0 \<and> count m' = count m)"
    using e by (auto simp: sem_wait_loop_def Let_def split: if_splits)
qed

lemma sem_post_count: "count (fst (sem_post m s)) = count m + 1"
proof -
  obtain w m2 s2 where e: "sem_dequeue_wait (m\<lparr>count := count m + 1\<rparr>, s\<lparr>interrupts := False\<rparr>) = (w, m2, s2)"
    by (metis prod.exhaust)
  then have "count m2 = count m + 1"
    using sem_queue_count(2) [of "(m\<lparr>count := count m + 1\<rparr>, s\<lparr>interrupts := False\<rparr>)"] by simp
  then show ?thesis using e by (simp add: sem_post_def Let_def)
qed

lemma sem_run_count: "sem_run v p a m \<Longrightarrow> count m = v + int p - int a \<and> (0 \<le> v \<longrightarrow> 0 \<le> count m)"
proof (induction rule: sem_run.induct)
  case (post p a m s m' s')
  then show ?case using sem_post_count [of m s] by auto
next
  case (wait_ok p a m s m' s')
  then show ?case using sem_wait_loop_count [of m _ Acquired m' s'] by (auto simp: sem_wait_def)
next
  case (wait_block p a m s t m' s')
  then show ?case using sem_wait_loop_count [of m _ "Switched t" m' s'] by (auto simp: sem_wait_def)
next
  case (again_ok p a m t s m' s')
  then show ?case using sem_wait_loop_count [of m _ Acquired m' s']
    by (auto simp: sem_wait_resume_def bind_eq_Some_conv)
next
  case (again_block p a m t s u m' s')
  then show ?case using sem_wait_loop_count [of m _ "Switched u" m' s']
    by (auto simp: sem_wait_resume_def bind_eq_Some_conv)
qed (simp add: sem_init_def)

section \<open>A concrete system\<close>

text \<open>The threads of \<open>demo_sched\<close>; 0x3000 is the idle thread.\<close>

definition demo_mutex :: mutex where
  "demo_mutex = mutex_init \<lparr>m_locked = 7, owner = 9, wait_queue_head = 1, wait_queue_tail = 2, lock_count = 0\<rparr>"

definition demo_locks :: lock_sys where
  "demo_locks = \<lparr>mx = demo_mutex, sc = demo_sched, phase = (\<lambda>_. Outside), saved = (\<lambda>_. None)\<rparr>"

lemma demo_live: "live demo_mutex demo_sched [0x2000, 0x3000] [0x4000, 0x5000] []"
  using demo_sched unfolding live_def
  by (auto simp: is_wait_def queue_ok_def demo_mutex_def mutex_init_def)
    (auto simp: demo_sched_def zero_thread_def split: if_splits)

lemma demo_locks_start: "lock_start 0x3000 demo_locks"
proof -
  have "mx demo_locks = mutex_init \<lparr>m_locked = 7, owner = 9, wait_queue_head = 1, wait_queue_tail = 2, lock_count = 0\<rparr>"
    "live (mx demo_locks) (sc demo_locks) [0x2000, 0x3000] [0x4000, 0x5000] []" "\<forall>t. phase demo_locks t = Outside"
    using demo_live by (simp_all add: demo_locks_def demo_mutex_def)
  moreover have "0x3000 \<in> set (current_thread (sc demo_locks) # [0x2000, 0x3000])" by simp
  ultimately show ?thesis unfolding lock_start_def by blast
qed

lemma demo_locks_step:
  obtains sys where "lock_step 0x3000 demo_locks sys" "phase sys 0x1000 = Holding"
proof (rule that)
  let ?r = "(Acquired, demo_mutex\<lparr>m_locked := 1, owner := 0x1000\<rparr>, demo_sched\<lparr>interrupts := True\<rparr>)"
  show "lock_step 0x3000 demo_locks (finish_lock ?r 0x1000 demo_locks)"
    by (rule lock_step.lock)
      (simp_all add: demo_locks_def demo_sched_def mutex_lock_def mutex_lock_loop_def demo_mutex_def mutex_init_def)
  show "phase (finish_lock ?r 0x1000 demo_locks) 0x1000 = Holding" by (simp add: finish_lock_def)
qed

section \<open>Properties\<close>

text \<open>The assembly of the spin lock exchanges the lock byte with a copy of itself, so taking a
  free lock leaves it free, taking a held lock never ends, and releasing a held lock leaves it held;
  \<^verbatim>\<open>spinlock_try_acquire\<close> alone takes the lock, for ever.\<close>

theorem spinlock_never_excludes:
  "spinlock_acquire 0 s = Some (0, s\<lparr>interrupts := False\<rparr>) \<and> (spinlock_acquire l s = None) = (l \<noteq> 0) \<and>
   fst (spinlock_release l s) = l \<and> spinlock_try_acquire l = (l = 0, 1)"
  by (cases "l = 0") (simp_all add: spinlock_acquire_def spinlock_release_def spinlock_try_acquire_def
      spin_loop_free spin_loop_stuck)

text \<open>C2: mutual exclusion: in every interleaving of lock, unlock, preemption and sleep, starting
  from a fresh mutex, at most one thread holds the mutex, and \<^verbatim>\<open>owner\<close> and
  \<^verbatim>\<open>locked\<close> say so.\<close>

theorem mutex_mutual_exclusion:
  "lock_start idle sys \<Longrightarrow> (lock_step idle)\<^sup>*\<^sup>* sys sys' \<Longrightarrow> phase sys' t = Holding \<Longrightarrow> phase sys' u = Holding \<Longrightarrow>
   t = u \<and> owner (mx sys') = t \<and> m_locked (mx sys') \<noteq> 0"
proof -
  assume a: "lock_start idle sys" "(lock_step idle)\<^sup>*\<^sup>* sys sys'" "phase sys' t = Holding" "phase sys' u = Holding"
  have "lock_inv idle sys'" using lock_inv_reach [OF a(2) lock_start_inv [OF a(1)]] .
  then show ?thesis using a(3,4) unfolding lock_inv_def by auto
qed

lemma mutex_mutual_exclusion_witness:
  "\<exists>sys. lock_step 0x3000 demo_locks sys \<and> owner (mx sys) = 0x1000"
proof (rule demo_locks_step)
  fix sys assume s: "lock_step 0x3000 demo_locks sys" "phase sys 0x1000 = Holding"
  show ?thesis
    using mutex_mutual_exclusion [OF demo_locks_start r_into_rtranclp [of "lock_step 0x3000", OF s(1)] s(2) s(2)] s(1) by blast
qed



text \<open>\<^verbatim>\<open>mutex_unlock\<close> by the owner frees the mutex and moves the thread that has
  waited longest to the end of the ready queue; the other queues are unchanged.\<close>

theorem mutex_unlock_wakes_first:
  "live m s rq sq wq \<Longrightarrow> owner m = current_thread s \<Longrightarrow> mutex_unlock m s = (m', s') \<Longrightarrow>
   m_locked m' = 0 \<and> owner m' = 0 \<and> is_ready s' (rq @ take 1 wq) \<and> is_wait (m', s') (drop 1 wq) \<and> is_sleep s' sq"
  using unlock_live [of m s rq sq wq m' s'] by (simp add: live_def)

lemma mutex_unlock_wakes_first_witness:
  "is_ready (snd (mutex_unlock (demo_mutex\<lparr>m_locked := 1, owner := 0x1000\<rparr>) demo_sched)) [0x2000, 0x3000]"
proof -
  obtain m' s' where e: "mutex_unlock (demo_mutex\<lparr>m_locked := 1, owner := 0x1000\<rparr>) demo_sched = (m', s')" by fastforce
  have "live (demo_mutex\<lparr>m_locked := 1, owner := 0x1000\<rparr>) demo_sched [0x2000, 0x3000] [0x4000, 0x5000] []"
    by (rule live_mutex [OF demo_live]) simp_all
  then show ?thesis
    using mutex_unlock_wakes_first [OF _ _ e] e demo_sched(3) by fastforce
qed

text \<open>C40: a semaphore never gives out more than it has: after any history of posts and waits its
  count is the initial value plus the posts minus the successful waits, and it is never negative.\<close>

theorem semaphore_conservation:
  "sem_run v p a m \<Longrightarrow> 0 \<le> v \<Longrightarrow> count m = v + int p - int a \<and> int a \<le> v + int p"
  using sem_run_count [of v p a m] by simp

lemma semaphore_conservation_witness:
  "count (fst (sem_post (sem_init 1) demo_sched)) = 2"
proof -
  have "sem_run 1 1 0 (fst (sem_post (sem_init 1) demo_sched))"
    using sem_run.post [OF sem_run.init, of 1 demo_sched] by (simp add: prod_eq_iff)
  then show ?thesis using semaphore_conservation [of 1 1 0] by simp
qed

end
