(* ===== verification/KString.thy ===== *)
theory KString
  imports Prelude
begin

text \<open>
  The string and number routines of \<^verbatim>\<open>Kernel/lib/kstring.c\<close>.  A C string is the list of
  its bytes without the terminator, and a routine that reads on stops at the end of the list as the
  code stops at the 0; a buffer is the list of the bytes in it.  The lemmas give the reading of what
  the number routines print, that the comparison routines decide equality, and that the in-place
  reversal is \<open>rev\<close>.
\<close>

definition bytes :: "string \<Rightarrow> u8 list" where
  "bytes s = map of_char s"

section \<open>Random numbers\<close>

text \<open>The state is \<^verbatim>\<open>rand_seed\<close>.\<close>

definition rand :: "u64 \<Rightarrow> u32 \<times> u64" where
  "rand seed = (let seed = seed * 6364136223846793005 + 1442695040888963407
                in (ucast (drop_bit 33 seed), seed))"

definition srand :: "u64 \<Rightarrow> u64" where
  "srand seed = seed"

section \<open>Numbers to text\<close>

text \<open>The digits in reverse, as the conversion loops put them into \<^verbatim>\<open>temp\<close>.\<close>

definition hex_digit :: "u64 \<Rightarrow> u8" where
  "hex_digit d = (if d < 10 then 48 + ucast d else 65 + ucast d - 10)"

function hex_rev :: "u64 \<Rightarrow> u8 list" where
  "hex_rev v = (if v = 0 then [] else hex_digit (v AND 0xF) # hex_rev (drop_bit 4 v))"
  by auto

lemma unat_drop: "unat (drop_bit n v) = unat (v :: u64) div 2 ^ n"
  unfolding unat_drop_bit_eq by (rule drop_bit_eq_div)

lemma unat_drop_less: "0 < n \<Longrightarrow> v \<noteq> 0 \<Longrightarrow> unat (drop_bit n v) < unat (v :: u64)"
proof -
  assume a: "0 < n" "v \<noteq> 0"
  have "1 < (2::nat) ^ n" using a(1) by (intro one_less_power) simp_all
  moreover have "0 < unat v" using a by (simp add: unat_gt_0)
  ultimately show ?thesis unfolding unat_drop by simp
qed

termination hex_rev
  by (relation "measure unat") (auto intro: unat_drop_less)

function dec_rev :: "u64 \<Rightarrow> u8 list" where
  "dec_rev v = (if v = 0 then [] else (48 + ucast (v mod 10)) # dec_rev (v div 10))"
  by auto

lemma unat_div10: "unat (v div 10 :: u64) = unat v div 10" "unat (v mod 10 :: u64) = unat v mod 10"
  by (simp_all add: unat_div unat_mod)

termination dec_rev
  by (relation "measure unat") (auto simp: unat_div10 unat_eq_0 [symmetric] simp del: unat_eq_0)

declare hex_rev.simps [simp del] dec_rev.simps [simp del]

lemma rev_zero [simp]: "hex_rev 0 = []" "dec_rev 0 = []"
  by (simp_all add: hex_rev.simps [of 0] dec_rev.simps [of 0])

text \<open>Each conversion gives the text it leaves in \<^verbatim>\<open>buf\<close>; the result is its length.\<close>

definition itoa_hex :: "u64 \<Rightarrow> u8 list \<times> nat" where
  "itoa_hex v =
     (if v = 0 then ([48, 120, 48], 3)
      else let buf = [48, 120] @ rev (hex_rev v) in (buf, length buf))"

definition utoa_dec :: "u64 \<Rightarrow> u8 list \<times> nat" where
  "utoa_dec v =
     (if v = 0 then ([48], 1) else let buf = rev (dec_rev v) in (buf, length buf))"

definition itoa_dec :: "u64 \<Rightarrow> u8 list \<times> nat" where
  "itoa_dec v =
     (let negative = v <s 0; num = (if negative then - v else v)
      in if num = 0 then ([48], 1)
         else let buf = (if negative then [45] else []) @ rev (dec_rev num) in (buf, length buf))"

section \<open>Strings\<close>

fun strlen :: "u8 list \<Rightarrow> nat" where
  "strlen [] = 0"
| "strlen (c # s) = (if c = 0 then 0 else Suc (strlen s))"

fun strnlen :: "u8 list \<Rightarrow> nat \<Rightarrow> nat" where
  "strnlen s 0 = 0"
| "strnlen [] (Suc n) = 0"
| "strnlen (c # s) (Suc n) = (if c = 0 then 0 else Suc (strnlen s n))"

text \<open>\<open>None\<close>: the byte before the buffer of an empty string.\<close>

definition LastCharOf :: "u8 list \<Rightarrow> u8 option" where
  "LastCharOf s = (if strlen s = 0 then None else Some (s ! (strlen s - 1)))"

fun strcount :: "u8 list \<Rightarrow> u8 \<Rightarrow> nat" where
  "strcount [] ch = 0"
| "strcount (c # s) ch = (if c = 0 then 0 else (if c = ch then 1 else 0) + strcount s ch)"

function reverse_loop :: "'a list \<Rightarrow> int \<Rightarrow> int \<Rightarrow> 'a list" where
  "reverse_loop str st en =
     (if st < en
      then reverse_loop (str[nat st := str ! nat en, nat en := str ! nat st]) (st + 1) (en - 1)
      else str)"
  by auto
termination by (relation "measure (\<lambda>(_, st, en). nat (en - st))") auto

declare reverse_loop.simps [simp del]

definition reverse :: "'a list \<Rightarrow> int \<Rightarrow> 'a list" where
  "reverse str n = reverse_loop str 0 (n - 1)"

text \<open>The difference of the first pair of bytes that differ, or 0.\<close>

fun memcmp :: "u8 list \<Rightarrow> u8 list \<Rightarrow> nat \<Rightarrow> int" where
  "memcmp (a # s1) (b # s2) (Suc n) = (if a \<noteq> b then uint a - uint b else memcmp s1 s2 n)"
| "memcmp _ _ _ = 0"

text \<open>Some \<open>i\<close> below \<open>n\<close> at which the two differ.\<close>

fun differ :: "u8 list \<Rightarrow> u8 list \<Rightarrow> nat \<Rightarrow> bool" where
  "differ s1 s2 0 \<longleftrightarrow> False"
| "differ s1 s2 (Suc n) \<longleftrightarrow> differ s1 s2 n \<or> s1 ! n \<noteq> s2 ! n"

definition strcmp :: "u8 list \<Rightarrow> u8 list \<Rightarrow> int" where
  "strcmp s1 s2 =
     (let len1 = strlen s1; len2 = strlen s2
      in if len1 = 0 \<and> len2 = 0 then 0
         else if len1 = 0 \<or> len2 = 0 then 1
         else if len2 \<le> len1
         then (if differ s1 s2 len2 then 2 else if len1 \<noteq> len2 then 1 else 0)
         else (if differ s1 s2 len1 then 2 else 1))"

text \<open>The byte at a position of a C string; the terminator behind the last.\<close>

definition ch_at :: "u8 list \<Rightarrow> u8" where
  "ch_at s = (case s of [] \<Rightarrow> 0 | c # _ \<Rightarrow> c)"

fun strncmp :: "u8 list \<Rightarrow> u8 list \<Rightarrow> nat \<Rightarrow> int" where
  "strncmp s1 s2 0 = 0"
| "strncmp s1 s2 (Suc n) =
     (if ch_at s1 \<noteq> 0 \<and> ch_at s2 \<noteq> 0 \<and> ch_at s1 = ch_at s2 then strncmp (tl s1) (tl s2) n
      else uint (ch_at s1) - uint (ch_at s2))"

text \<open>The copy into a buffer; \<open>None\<close> when the string and its terminator do not fit.\<close>

fun strcpy :: "u8 list \<Rightarrow> u8 list \<Rightarrow> u8 list option" where
  "strcpy [] src = None"
| "strcpy (d # dest) [] = Some (0 # dest)"
| "strcpy (d # dest) (c # src) =
     (if c = 0 then Some (0 # dest) else map_option ((#) c) (strcpy dest src))"

fun memset16 :: "u16 list \<Rightarrow> u16 \<Rightarrow> nat \<Rightarrow> u16 list" where
  "memset16 xs v 0 = xs"
| "memset16 [] v (Suc n) = []"
| "memset16 (x # xs) v (Suc n) = v # memset16 xs v n"

definition get_bits :: "u16 \<Rightarrow> nat \<Rightarrow> nat \<Rightarrow> u16" where
  "get_bits value start count = drop_bit start value AND ucast (push_bit count (1 :: u32) - 1)"

section \<open>The value of a numeral\<close>

definition dec_value :: "u8 list \<Rightarrow> nat" where
  "dec_value = foldl (\<lambda>a c. 10 * a + unat (c - 48)) 0"

definition hex_value :: "u8 list \<Rightarrow> nat" where
  "hex_value = foldl (\<lambda>a c. 16 * a + (if c < 65 then unat (c - 48) else unat (c - 55))) 0"

lemma foldl_snoc: "foldl f a (xs @ [x]) = f (foldl f a xs) x" by simp

lemma unat_ucast8: "x < 256 \<Longrightarrow> unat (ucast (x :: u64) :: u8) = unat x"
  by (simp add: unsigned_ucast_eq word_less_nat_alt take_bit_nat_eq_self)

lemma dec_rev_value: "dec_value (rev (dec_rev v)) = unat v"
proof (induction v rule: dec_rev.induct)
  case (1 v)
  show ?case
  proof (cases "v = 0")
    case True
    then show ?thesis by (simp add: dec_value_def)
  next
    case False
    have "v mod 10 < 10" by (simp add: word_less_nat_alt unat_div10)
    then have "unat (ucast (v mod 10) :: u8) = unat v mod 10"
      using unat_ucast8 [of "v mod 10"] by (simp add: unat_div10 word_less_nat_alt)
    then show ?thesis
      using 1 False by (simp add: dec_rev.simps [of v] dec_value_def unat_div10)
  qed
qed

lemma digit_range: "k < 10 \<Longrightarrow> 48 \<le> 48 + (k :: u8) \<and> 48 + k \<le> 57"
  by (auto simp: word_le_nat_alt word_less_nat_alt unat_word_ariths)

lemma dec_rev_digits: "c \<in> set (dec_rev v) \<Longrightarrow> 48 \<le> c \<and> c \<le> 57"
proof (induction v rule: dec_rev.induct)
  case (1 v)
  have "v mod 10 < 10" by (simp add: word_less_nat_alt unat_div10)
  then have "(ucast (v mod 10) :: u8) < 10"
    using unat_ucast8 [of "v mod 10"] by (simp add: word_less_nat_alt)
  then show ?case using 1 digit_range
    by (cases "v = 0") (simp, auto simp: dec_rev.simps [of v])
qed

lemma dec_rev_length: "unat v < 10 ^ n \<Longrightarrow> length (dec_rev v) \<le> n"
proof (induction n arbitrary: v)
  case 0
  then have "v = 0" by (simp add: unat_eq_0)
  then show ?case by simp
next
  case (Suc n)
  then have "unat (v div 10) < 10 ^ n" by (simp add: unat_div10 less_mult_imp_div_less mult.commute)
  then show ?case using Suc.IH by (simp add: dec_rev.simps [of v])
qed

lemma dec_rev_temp: "length (dec_rev v) \<le> 20"
proof (rule dec_rev_length)
  have "unat v < 2 ^ 64" using unsigned_less [of v] by simp
  then show "unat v < 10 ^ 20" by simp
qed

lemma unat_and_F: "unat (v AND 0xF :: u64) = unat v mod 16"
proof -
  have m: "(0xF :: u64) = mask 4" by (simp add: mask_eq_exp_minus_1)
  show ?thesis unfolding m take_bit_eq_mask [symmetric] unsigned_take_bit_eq by (simp add: take_bit_eq_mod)
qed

lemma hex_digit_value:
  "d < 16 \<Longrightarrow> (if hex_digit d < 65 then unat (hex_digit d - 48) else unat (hex_digit d - 55)) = unat d"
proof -
  assume d: "d < 16"
  then have u: "unat (ucast d :: u8) = unat d" "unat d < 16"
    using unat_ucast8 [of d] by (auto simp: word_less_nat_alt)
  show ?thesis
  proof (cases "d < 10")
    case True
    then have "unat (48 + ucast d :: u8) = 48 + unat d" "unat d < 10"
      using u by (auto simp: unat_word_ariths word_less_nat_alt)
    then show ?thesis using True u by (simp add: hex_digit_def word_less_nat_alt)
  next
    case False
    have e: "65 + ucast d - 10 = (55 + ucast d :: u8)" by simp
    have n: "unat (55 + ucast d :: u8) = 55 + unat d" "10 \<le> unat d"
      using u False by (auto simp: unat_word_ariths word_less_nat_alt)
    then show ?thesis using False u unfolding hex_digit_def e by (simp add: word_less_nat_alt)
  qed
qed

lemma hex_rev_value: "hex_value (rev (hex_rev v)) = unat v"
proof (induction v rule: hex_rev.induct)
  case (1 v)
  show ?case
  proof (cases "v = 0")
    case True
    then show ?thesis by (simp add: hex_value_def)
  next
    case False
    have d: "v AND 0xF < 16" by (simp add: word_less_nat_alt unat_and_F)
    have "unat (drop_bit 4 v) = unat v div 16" unfolding unat_drop by simp
    then show ?thesis
      using 1 False hex_digit_value [OF d] by (simp add: hex_rev.simps [of v] hex_value_def unat_and_F)
  qed
qed

section \<open>Comparison and reversal\<close>

lemma strlen_no_zero: "0 \<notin> set s \<Longrightarrow> strlen s = length s"
  by (induction s) auto

lemma differ_iff: "differ s1 s2 n \<longleftrightarrow> (\<exists>i<n. s1 ! i \<noteq> s2 ! i)"
  by (induction n) (auto simp: less_Suc_eq)

lemma memcmp_zero:
  "n \<le> length s1 \<Longrightarrow> n \<le> length s2 \<Longrightarrow> memcmp s1 s2 n = 0 \<longleftrightarrow> take n s1 = take n s2"
  by (induction s1 s2 n rule: memcmp.induct) (auto simp: word_uint_eq_iff)

lemma strcmp_zero:
  assumes "0 \<notin> set s1" "0 \<notin> set s2"
  shows "strcmp s1 s2 = 0 \<longleftrightarrow> s1 = s2"
proof -
  have "s1 = s2 \<longleftrightarrow> length s1 = length s2 \<and> \<not> differ s1 s2 (length s2)"
    by (auto simp: differ_iff list_eq_iff_nth_eq)
  moreover have "\<not> differ s1 s2 0" by simp
  ultimately show ?thesis
    using assms by (auto simp: strcmp_def Let_def strlen_no_zero)
qed

lemma reverse_loop_spec:
  "reverse_loop (a @ xs @ b) (int (length a)) (int (length a) + int (length xs) - 1) = a @ rev xs @ b"
proof (induction xs arbitrary: a b rule: length_induct)
  case (1 xs)
  show ?case
  proof (cases "length xs \<le> 1")
    case True
    then have "rev xs = xs" by (cases xs) auto
    then show ?thesis using True by (subst reverse_loop.simps) auto
  next
    case False
    then obtain x ys y where xs: "xs = x # ys @ [y]"
      by (metis One_nat_def append_butlast_last_id le_Suc_eq le_zero_eq length_0_conv length_Cons list.exhaust)
    have e: "nat (int (length a) + int (length xs) - 1) = Suc (length a + length ys)" by (simp add: xs)
    have u: "(a @ xs @ b)[length a := y, Suc (length a + length ys) := x] = (a @ [y]) @ ys @ [x] @ b"
      by (simp add: xs list_update_append nth_append)
    have n: "(a @ xs @ b) ! Suc (length a + length ys) = y" "(a @ xs @ b) ! length a = x"
      by (simp_all add: xs nth_append)
    have "reverse_loop (a @ xs @ b) (int (length a)) (int (length a) + int (length xs) - 1) =
        reverse_loop ((a @ [y]) @ ys @ [x] @ b) (int (length a) + 1) (int (length a) + int (length xs) - 1 - 1)"
      using False n e u by (subst reverse_loop.simps) auto
    also have "\<dots> = (a @ [y]) @ rev ys @ [x] @ b"
      using 1 [rule_format, of ys "a @ [y]" "[x] @ b"] by (simp add: xs add.commute)
    finally show ?thesis by (simp add: xs)
  qed
qed

section \<open>Properties\<close>

text \<open>The decimal and hexadecimal conversions print the value they are given, with the sign of
  a negative one, report the length of the text, and never fill more than 20 of the 32 bytes of
  their temporary buffer.\<close>

theorem number_text_roundtrip:
  "dec_value (fst (utoa_dec v)) = unat v \<and> snd (utoa_dec v) = length (fst (utoa_dec v)) \<and> snd (utoa_dec v) \<le> 20 \<and>
   hex_value (drop 2 (fst (itoa_hex v))) = unat v \<and> snd (itoa_hex v) = length (fst (itoa_hex v)) \<and>
   fst (itoa_dec v) = (if v <s 0 then 45 # fst (utoa_dec (- v)) else fst (utoa_dec v))"
proof -
  have "dec_value (fst (utoa_dec v)) = unat v" "hex_value (drop 2 (fst (itoa_hex v))) = unat v"
    by (simp_all add: utoa_dec_def itoa_hex_def Let_def dec_rev_value hex_rev_value)
      (simp_all add: dec_value_def hex_value_def)
  then show ?thesis
    by (auto simp: utoa_dec_def itoa_hex_def itoa_dec_def Let_def dec_rev_temp)
qed

text \<open>\<^verbatim>\<open>strcmp\<close> returns 0 exactly for equal strings, although its other results
  (1 for a prefix, 2 for a mismatch) are not an order; \<^verbatim>\<open>memcmp\<close> returns 0 exactly when
  the first \<^verbatim>\<open>n\<close> bytes agree.\<close>

theorem comparison_decides_equality:
  "0 \<notin> set s1 \<Longrightarrow> 0 \<notin> set s2 \<Longrightarrow> n \<le> length s1 \<Longrightarrow> n \<le> length s2 \<Longrightarrow>
   (strcmp s1 s2 = 0) = (s1 = s2) \<and> (memcmp s1 s2 n = 0) = (take n s1 = take n s2)"
  using strcmp_zero memcmp_zero by blast

lemma comparison_decides_equality_witness:
  "strcmp (bytes ''abc'') (bytes ''abd'') \<noteq> 0 \<and> memcmp (bytes ''abc'') (bytes ''abd'') 2 = 0"
  using comparison_decides_equality [of "bytes ''abc''" "bytes ''abd''" 2] by (simp add: bytes_def)

text \<open>The in-place reversal by two indices running towards each other is the reversal of the
  list.\<close>

theorem reverse_is_rev: "reverse xs (int (length xs)) = rev xs"
  using reverse_loop_spec [of "[]" xs "[]"] by (simp add: reverse_def)

end
