(* ===== verification/Isr.thy ===== *)
theory Isr
  imports Thread
begin

text \<open>
  The assembly of the kernel: the interrupt and exception entries of \<^verbatim>\<open>idt.c\<close> and
  \<^verbatim>\<open>pic.c\<close>, \<^verbatim>\<open>switch_to\<close> of \<^verbatim>\<open>Thread.c\<close> and
  \<^verbatim>\<open>syscall_entry\<close> of \<^verbatim>\<open>Syscall.c\<close>, as lists of the instructions they consist of,
  and the interpreter \<open>run\<close> of the instructions they use.  Memory is accessed in quadwords at
  addresses that differ by multiples of 8, so a map from the address of a quadword to its value
  stands for it.  A called C function is a parameter; what the code relies on is the calling
  convention: it returns with the stack pointer it was called with and leaves the caller's frame
  alone.
\<close>

section \<open>Processor\<close>

datatype reg = RAX | RCX | RDX | RBX | RSP | RBP | RSI | RDI
  | R8 | R9 | R10 | R11 | R12 | R13 | R14 | R15

record cpu =
  rg :: "reg \<Rightarrow> u64"
  rip :: u64
  flags :: u64
  cs :: u64
  ss :: u64
  cr2 :: u64
  c_cr3 :: u64
  gs_base :: u64
  kernel_gs_base :: u64
  star :: u64
  slot_at :: "addr \<Rightarrow> u64"

text \<open>\<open>MovGs r off\<close> is \<^verbatim>\<open>movq %r, %gs:off\<close>, \<open>GsMov off r\<close> is
  \<^verbatim>\<open>movq %gs:off, %r\<close>; \<open>Cr3IfNonzero r\<close> is \<^verbatim>\<open>test %r, %r; jz 1f; movq %r, %cr3; 1:\<close>,
  \<open>StoreStack r off\<close> is \<^verbatim>\<open>movq %r, off(%rsp)\<close> and \<open>Lea off a b\<close> is \<^verbatim>\<open>leaq off(%a), %b\<close>.
  A jump to a C function ends the list: such a function does not return.\<close>

datatype instr = Cli | Sti | Pushf | Popf | Push reg | Pop reg | SubRsp u64 | AddRsp u64
  | LoadStack u64 reg | Mov reg reg | MovCr2 reg | StoreRsp reg | LoadRsp reg | Cr3IfNonzero reg
  | StoreStack reg u64 | OrImm u64 reg | Lea u64 reg reg
  | Swapgs | MovGs reg u64 | GsMov u64 reg | CallC string | JmpC string | Ret | Iretq | Sysretq

definition IF_mask :: u64 where "IF_mask = 0x200"

abbreviation set_reg :: "reg \<Rightarrow> u64 \<Rightarrow> cpu \<Rightarrow> cpu" where
  "set_reg r v s \<equiv> s\<lparr>rg := (rg s)(r := v)\<rparr>"

definition push :: "u64 \<Rightarrow> cpu \<Rightarrow> cpu" where
  "push v s = s\<lparr>rg := (rg s)(RSP := rg s RSP - 8), slot_at := (slot_at s)(rg s RSP - 8 := v)\<rparr>"

definition sysret_cs :: "u64 \<Rightarrow> u64" where
  "sysret_cs v = (drop_bit 48 v + 16) OR 3"

definition sysret_ss :: "u64 \<Rightarrow> u64" where
  "sysret_ss v = (drop_bit 48 v + 8) OR 3"

fun exec :: "(string \<Rightarrow> cpu \<Rightarrow> cpu) \<Rightarrow> instr \<Rightarrow> cpu \<Rightarrow> cpu" where
  "exec env Cli s = s\<lparr>flags := flags s AND NOT IF_mask\<rparr>"
| "exec env Sti s = s\<lparr>flags := flags s OR IF_mask\<rparr>"
| "exec env Pushf s = push (flags s) s"
| "exec env Popf s = s\<lparr>flags := slot_at s (rg s RSP), rg := (rg s)(RSP := rg s RSP + 8)\<rparr>"
| "exec env (Push r) s = push (rg s r) s"
| "exec env (Pop r) s = s\<lparr>rg := (rg s)(RSP := rg s RSP + 8, r := slot_at s (rg s RSP))\<rparr>"
| "exec env (SubRsp n) s = set_reg RSP (rg s RSP - n) s"
| "exec env (AddRsp n) s = set_reg RSP (rg s RSP + n) s"
| "exec env (LoadStack off r) s = set_reg r (slot_at s (rg s RSP + off)) s"
| "exec env (Mov a b) s = set_reg b (rg s a) s"
| "exec env (MovCr2 r) s = set_reg r (cr2 s) s"
| "exec env (StoreRsp r) s = s\<lparr>slot_at := (slot_at s)(rg s r := rg s RSP)\<rparr>"
| "exec env (LoadRsp r) s = set_reg RSP (slot_at s (rg s r)) s"
| "exec env (Cr3IfNonzero r) s = (if rg s r = 0 then s else s\<lparr>c_cr3 := rg s r\<rparr>)"
| "exec env (StoreStack r off) s = s\<lparr>slot_at := (slot_at s)(rg s RSP + off := rg s r)\<rparr>"
| "exec env (OrImm n r) s = set_reg r (rg s r OR n) s"
| "exec env (Lea off a b) s = set_reg b (rg s a + off) s"
| "exec env Swapgs s = s\<lparr>gs_base := kernel_gs_base s, kernel_gs_base := gs_base s\<rparr>"
| "exec env (MovGs r off) s = s\<lparr>slot_at := (slot_at s)(gs_base s + off := rg s r)\<rparr>"
| "exec env (GsMov off r) s = set_reg r (slot_at s (gs_base s + off)) s"
| "exec env (CallC f) s = env f s"
| "exec env (JmpC f) s = env f s"
| "exec env Ret s = s\<lparr>rip := slot_at s (rg s RSP), rg := (rg s)(RSP := rg s RSP + 8)\<rparr>"
| "exec env Iretq s =
     s\<lparr>rip := slot_at s (rg s RSP), cs := slot_at s (rg s RSP + 8), flags := slot_at s (rg s RSP + 16),
       ss := slot_at s (rg s RSP + 32), rg := (rg s)(RSP := slot_at s (rg s RSP + 24))\<rparr>"
| "exec env Sysretq s =
     s\<lparr>rip := rg s RCX, flags := rg s R11, cs := sysret_cs (star s), ss := sysret_ss (star s)\<rparr>"

fun run :: "(string \<Rightarrow> cpu \<Rightarrow> cpu) \<Rightarrow> instr list \<Rightarrow> cpu \<Rightarrow> cpu" where
  "run env [] s = s"
| "run env (i # is) s = run env is (exec env i s)"

text \<open>What the processor does on an interrupt: the frame is pushed on a stack that ends at \<open>base\<close>,
  the aligned stack pointer or the one of the task state segment; some exceptions add an error
  code.\<close>

definition deliver :: "addr \<Rightarrow> cpu \<Rightarrow> cpu" where
  "deliver base s =
     (let old = s; s = set_reg RSP base s
      in push (rip old) (push (cs old) (push (flags old) (push (rg old RSP) (push (ss old) s)))))"

definition deliver_error :: "addr \<Rightarrow> u64 \<Rightarrow> cpu \<Rightarrow> cpu" where
  "deliver_error base code s = push code (deliver base s)"

section \<open>Entries\<close>

definition saved :: "reg list" where
  "saved = [RAX, RCX, RDX, RBX, RBP, RSI, RDI, R8, R9, R10, R11, R12, R13, R14, R15]"

definition save_all :: "instr list" where "save_all = map Push saved"
definition restore_all :: "instr list" where "restore_all = map Pop (rev saved)"

definition interrupt_handler_default :: "instr list" where
  "interrupt_handler_default =
     [Iretq]"

definition interrupt_handler_0 :: "instr list" where
  "interrupt_handler_0 =
     [Cli] @ save_all @ [SubRsp 8, CallC ''interrupt_DE'', AddRsp 8] @ restore_all @ [Sti, Iretq]"

definition interrupt_handler_1 :: "instr list" where
  "interrupt_handler_1 =
     [Cli] @ save_all @ [SubRsp 8, CallC ''interrupt_DB'', AddRsp 8] @ restore_all @ [Sti, Iretq]"

definition interrupt_handler_2 :: "instr list" where
  "interrupt_handler_2 =
     [Cli] @ save_all @ [SubRsp 8, JmpC ''interrupt_NMI'']"

definition interrupt_handler_3 :: "instr list" where
  "interrupt_handler_3 =
     [Cli] @ save_all @ [SubRsp 8, JmpC ''interrupt_BP'']"

definition interrupt_handler_4 :: "instr list" where
  "interrupt_handler_4 =
     [Cli] @ save_all @ [SubRsp 8, JmpC ''interrupt_OF'']"

definition interrupt_handler_5 :: "instr list" where
  "interrupt_handler_5 =
     [Cli] @ save_all @ [SubRsp 8, JmpC ''interrupt_BR'']"

definition interrupt_handler_6 :: "instr list" where
  "interrupt_handler_6 =
     [Cli] @ save_all @ [SubRsp 8, JmpC ''interrupt_UD'']"

definition interrupt_handler_7 :: "instr list" where
  "interrupt_handler_7 =
     [Cli] @ save_all @ [SubRsp 8, CallC ''interrupt_NM'', AddRsp 8] @ restore_all @ [Sti, Iretq]"

definition interrupt_handler_8 :: "instr list" where
  "interrupt_handler_8 =
     [Cli] @ save_all @ [SubRsp 8, JmpC ''interrupt_DF'']"

definition interrupt_handler_10 :: "instr list" where
  "interrupt_handler_10 =
     [Cli] @ save_all @ [SubRsp 8, JmpC ''interrupt_TS'']"

definition interrupt_handler_11 :: "instr list" where
  "interrupt_handler_11 =
     [Cli] @ save_all @ [SubRsp 8, CallC ''interrupt_NP'', AddRsp 8] @ restore_all @ [Sti, Iretq]"

definition interrupt_handler_12 :: "instr list" where
  "interrupt_handler_12 =
     [Cli] @ save_all @ [SubRsp 8, JmpC ''interrupt_SS'']"

definition interrupt_handler_13 :: "instr list" where
  "interrupt_handler_13 =
     [Cli] @ save_all @ [SubRsp 8, LoadStack 120 RDI, LoadStack 128 RSI, CallC ''interrupt_GP''] @ restore_all @ [Sti, Iretq]"

definition interrupt_handler_14 :: "instr list" where
  "interrupt_handler_14 =
     [Cli] @ save_all @ [SubRsp 8, MovCr2 RDI, LoadStack 128 RSI, CallC ''interrupt_PF'', AddRsp 8] @ restore_all @ [Sti, Iretq]"

definition interrupt_handler_16 :: "instr list" where
  "interrupt_handler_16 =
     [Cli] @ save_all @ [SubRsp 8, CallC ''interrupt_MF'', AddRsp 8] @ restore_all @ [Sti, Iretq]"

definition interrupt_handler_17 :: "instr list" where
  "interrupt_handler_17 =
     [Cli] @ save_all @ [SubRsp 8, CallC ''interrupt_AC'', AddRsp 8] @ restore_all @ [Sti, Iretq]"

definition interrupt_handler_18 :: "instr list" where
  "interrupt_handler_18 =
     [Cli] @ save_all @ [SubRsp 8, JmpC ''interrupt_MC'']"

definition interrupt_handler_19 :: "instr list" where
  "interrupt_handler_19 =
     [Cli] @ save_all @ [SubRsp 8, CallC ''interrupt_XM'', AddRsp 8] @ restore_all @ [Sti, Iretq]"

definition interrupt_handler_20 :: "instr list" where
  "interrupt_handler_20 =
     [Cli] @ save_all @ [SubRsp 8, CallC ''interrupt_VE'', AddRsp 8] @ restore_all @ [Sti, Iretq]"

definition interrupt_handler_0x80 :: "instr list" where
  "interrupt_handler_0x80 =
     [Cli] @ save_all @ [SubRsp 8, CallC ''user_thread_exit_cb'', AddRsp 8] @ restore_all @ [Sti, Iretq]"

definition irq_handler_0 :: "instr list" where
  "irq_handler_0 =
     [Cli] @ save_all @ [SubRsp 8, CallC ''irq_0'', AddRsp 8] @ restore_all @ [Sti, Iretq]"

definition irq_handler_1 :: "instr list" where
  "irq_handler_1 =
     [Cli] @ save_all @ [SubRsp 8, CallC ''irq_1'', AddRsp 8] @ restore_all @ [Sti, Iretq]"

definition irq_handler_8 :: "instr list" where
  "irq_handler_8 =
     [Cli] @ save_all @ [SubRsp 8, CallC ''irq_8'', AddRsp 8] @ restore_all @ [Sti, Iretq]"

text \<open>\<^verbatim>\<open>prev\<close> is in RDI, \<^verbatim>\<open>next\<close> in RSI, \<^verbatim>\<open>new_cr3\<close> in RDX; both point
  to the saved stack pointer of a thread.\<close>

definition switch_to :: "instr list" where
  "switch_to =
     [Pushf] @ save_all @ [StoreRsp RDI, LoadRsp RSI, Mov RDX RDX, Cr3IfNonzero RDX] @ restore_all @ [Popf, Ret]"

definition syscall_enter :: "instr list" where
  "syscall_enter =
     [Swapgs, MovGs RSP 8, GsMov 0 RSP, MovGs RCX 16, MovGs R11 24,
      Push R15, Push R14, Push R13, Push R12, Push RBP, Push RBX, Push R9, SubRsp 8,
      Mov R8 R9, Mov R10 R8, Mov RDX RCX, Mov RSI RDX, Mov RDI RSI, Mov RAX RDI]"

definition syscall_leave :: "instr list" where
  "syscall_leave =
     [AddRsp 8, AddRsp 8, Pop RBX, Pop RBP, Pop R12, Pop R13, Pop R14, Pop R15,
      GsMov 24 R11, GsMov 16 RCX, GsMov 8 RSP, Swapgs, Sysretq]"

definition syscall_entry :: "instr list" where
  "syscall_entry = syscall_enter @ [CallC ''syscall_dispatch''] @ syscall_leave"

text \<open>The first instructions of a user thread, with its entry point, the top of its stack, the two selectors and
  the return address in five registers the compiler chooses.\<close>

definition bootstrap_frame :: "reg \<Rightarrow> reg \<Rightarrow> reg \<Rightarrow> reg \<Rightarrow> reg \<Rightarrow> instr list" where
  "bootstrap_frame r_entry r_sp r_cs r_ss r_ret =
     [Mov r_sp RSP, SubRsp 48, StoreStack r_entry 0, StoreStack r_cs 8,
      Pushf, Pop RAX, OrImm 0x200 RAX, StoreStack RAX 16, Lea (- 8) r_sp RAX, StoreStack RAX 24,
      StoreStack r_ss 32, StoreStack r_ret 40, Iretq]"

section \<open>Saving and restoring\<close>

lemma run_append [simp]: "run env (a @ b) s = run env b (run env a s)"
  by (induction a arbitrary: s) auto

fun pushed :: "u64 list \<Rightarrow> addr \<Rightarrow> (addr \<Rightarrow> u64) \<Rightarrow> addr \<Rightarrow> u64" where
  "pushed [] a m = m"
| "pushed (v # vs) a m = pushed vs (a - 8) (m(a - 8 := v))"

fun popped :: "reg list \<Rightarrow> addr \<Rightarrow> (addr \<Rightarrow> u64) \<Rightarrow> (reg \<Rightarrow> u64) \<Rightarrow> reg \<Rightarrow> u64" where
  "popped [] a m f = f(RSP := a)"
| "popped (r # rs) a m f = popped rs (a + 8) m (f(r := m a))"

lemma run_push:
  "RSP \<notin> set rs \<Longrightarrow> run env (map Push rs) s =
     s\<lparr>rg := (rg s)(RSP := rg s RSP - 8 * of_nat (length rs)),
       slot_at := pushed (map (rg s) rs) (rg s RSP) (slot_at s)\<rparr>"
proof (induction rs arbitrary: s)
  case (Cons r rs)
  let ?s = "push (rg s r) s"
  have m: "map (rg ?s) rs = map (rg s) rs" using Cons.prems by (auto simp: push_def)
  have "run env (map Push (r # rs)) s = run env (map Push rs) ?s" by simp
  also have "\<dots> = ?s\<lparr>rg := (rg ?s)(RSP := rg ?s RSP - 8 * of_nat (length rs)),
       slot_at := pushed (map (rg ?s) rs) (rg ?s RSP) (slot_at ?s)\<rparr>"
    using Cons by (intro Cons.IH) simp
  also have "(rg ?s)(RSP := rg ?s RSP - 8 * of_nat (length rs)) = (rg s)(RSP := rg s RSP - 8 * of_nat (length (r # rs)))"
    by (simp add: push_def fun_eq_iff algebra_simps)
  finally show ?case unfolding m by (simp add: push_def fun_upd_def)
qed simp

lemma popped_rsp: "RSP \<notin> set rs \<Longrightarrow> popped rs a m (g(RSP := b)) = popped rs a m g"
proof (induction rs arbitrary: a g)
  case (Cons q rs)
  then have "(g(RSP := b))(q := m a) = (g(q := m a))(RSP := b)" by auto
  then show ?case using Cons.IH [of "a + 8" "g(q := m a)"] Cons.prems by (simp del: fun_upd_apply)
qed simp

lemma run_pop:
  "RSP \<notin> set rs \<Longrightarrow> run env (map Pop rs) s = s\<lparr>rg := popped rs (rg s RSP) (slot_at s) (rg s)\<rparr>"
proof (induction rs arbitrary: s)
  case (Cons r rs)
  let ?s = "exec env (Pop r) s"
  have q: "r \<noteq> RSP" "RSP \<notin> set rs" using Cons.prems by auto
  have "run env (map Pop (r # rs)) s = run env (map Pop rs) ?s" by simp
  also have "\<dots> = ?s\<lparr>rg := popped rs (rg ?s RSP) (slot_at ?s) (rg ?s)\<rparr>" using q(2) by (rule Cons.IH)
  also have "rg ?s = ((rg s)(r := slot_at s (rg s RSP)))(RSP := rg s RSP + 8)" using q(1) by auto
  finally show ?case unfolding popped_rsp [OF q(2)] by simp
qed simp

lemma eight_ne: "0 < n \<Longrightarrow> n < 2 ^ 60 \<Longrightarrow> 8 * of_nat n \<noteq> (0 :: u64)"
proof
  assume n: "0 < n" "n < (2 :: nat) ^ 60" and "8 * of_nat n = (0 :: u64)"
  then have "unat (of_nat (8 * n) :: u64) = 0" by simp
  then have "8 * n mod 2 ^ 64 = 0" unfolding unat_of_nat by simp
  then show False using n by simp
qed

lemma pushed_other: "(\<And>i. i < length vs \<Longrightarrow> x \<noteq> a - 8 * of_nat (Suc i)) \<Longrightarrow> pushed vs a m x = m x"
proof (induction vs arbitrary: a m)
  case (Cons v vs)
  have "x \<noteq> (a - 8) - 8 * of_nat (Suc i)" if "i < length vs" for i
    using Cons.prems [of "Suc i"] that by (simp add: algebra_simps)
  then show ?case using Cons.IH [of "a - 8"] Cons.prems [of 0] by simp
qed simp

lemma pushed_above: "length vs + k < 2 ^ 60 \<Longrightarrow> pushed vs a m (a + 8 * of_nat k) = m (a + 8 * of_nat k)"
proof (rule pushed_other)
  fix i assume "length vs + k < 2 ^ 60" "i < length vs"
  then have "8 * of_nat (k + Suc i) \<noteq> (0 :: u64)" by (intro eight_ne) auto
  then show "a + 8 * of_nat k \<noteq> a - 8 * of_nat (Suc i)" by (auto simp: algebra_simps)
qed

lemma pushed_at:
  "i < length vs \<Longrightarrow> length vs < 2 ^ 60 \<Longrightarrow> pushed vs a m (a - 8 * of_nat (Suc i)) = vs ! i"
proof (induction vs arbitrary: a m i)
  case (Cons v vs)
  show ?case
  proof (cases i)
    case 0
    have "pushed vs (a - 8) (m(a - 8 := v)) (a - 8 + 8 * of_nat 0) = v"
      using Cons.prems by (subst pushed_above) auto
    then show ?thesis using 0 by simp
  next
    case (Suc j)
    have "pushed vs (a - 8) (m(a - 8 := v)) (a - 8 - 8 * of_nat (Suc j)) = vs ! j"
      using Suc Cons.prems by (intro Cons.IH) simp_all
    moreover have "a - 8 - 8 * of_nat (Suc j) = a - 8 * of_nat (Suc i)" by (simp add: Suc algebra_simps)
    ultimately show ?thesis by (simp only: pushed.simps Suc nth_Cons_Suc)
  qed
qed simp

lemma popped_restores:
  "RSP \<notin> set rs \<Longrightarrow> distinct rs \<Longrightarrow> (\<And>i. i < length rs \<Longrightarrow> m (a + 8 * of_nat i) = g (rs ! i)) \<Longrightarrow>
   popped rs a m f r = (if r = RSP then a + 8 * of_nat (length rs) else if r \<in> set rs then g r else f r)"
proof (induction rs arbitrary: a f)
  case (Cons q rs)
  have m: "m a = g q" using Cons.prems(3) [of 0] by simp
  have "m (a + 8 + 8 * of_nat i) = g (rs ! i)" if "i < length rs" for i
    using Cons.prems(3) [of "Suc i"] that by (simp add: algebra_simps)
  then show ?case using Cons m by (auto simp: algebra_simps)
qed simp

text \<open>The calling convention, as far as a stub relies on it: 32 quadwords from the stack pointer up
  are more than any stub keeps on the stack.\<close>

definition keeps_frame :: "(string \<Rightarrow> cpu \<Rightarrow> cpu) \<Rightarrow> string \<Rightarrow> bool" where
  "keeps_frame env f \<longleftrightarrow>
     (\<forall>s. rg (env f s) RSP = rg s RSP \<and>
       (\<forall>k < 32. slot_at (env f s) (rg s RSP + 8 * of_nat k) = slot_at s (rg s RSP + 8 * of_nat k)))"

definition call_stub :: "string \<Rightarrow> instr list" where
  "call_stub f = [Cli] @ save_all @ [SubRsp 8, CallC f, AddRsp 8] @ restore_all @ [Sti]"

lemma saved_facts: "RSP \<notin> set saved" "distinct saved" "length saved = 15" "set saved = UNIV - {RSP}"
proof -
  show "set saved = UNIV - {RSP}"
  proof (rule set_eqI)
    show "r \<in> set saved \<longleftrightarrow> r \<in> UNIV - {RSP}" for r by (cases r) (simp_all add: saved_def)
  qed
qed (simp_all add: saved_def)

text \<open>Around a well-behaved call the stub gives every register back, and the stack above its own
  frame is as it was.\<close>

lemma call_stub_restores:
  assumes "keeps_frame env f"
  shows "rg (run env (call_stub f) s) = rg s"
    "k < 16 \<Longrightarrow> slot_at (run env (call_stub f) s) (rg s RSP + 8 * of_nat k) = slot_at s (rg s RSP + 8 * of_nat k)"
proof -
  let ?B = "rg s RSP"
  define s1 where "s1 = run env ([Cli] @ save_all @ [SubRsp 8]) s"
  have s1: "rg s1 = (rg s)(RSP := ?B - 128)" "slot_at s1 = pushed (map (rg s) saved) ?B (slot_at s)"
    using saved_facts(1,3) by (auto simp: s1_def save_all_def run_push fun_eq_iff)
  define s2 where "s2 = env f s1"
  have s2: "rg s2 RSP = ?B - 128"
    "k < 32 \<Longrightarrow> slot_at s2 (?B - 128 + 8 * of_nat k) = slot_at s1 (?B - 128 + 8 * of_nat k)" for k
    using assms s1(1) spec [OF assms [unfolded keeps_frame_def], of s1] unfolding s2_def by auto
  have all: "run env (call_stub f) s = run env (restore_all @ [Sti]) (exec env (AddRsp 8) s2)"
    by (simp add: call_stub_def s1_def s2_def)
  have slot: "slot_at s2 (?B - 120 + 8 * of_nat i) = rg s (rev saved ! i)" if "i < 15" for i
  proof -
    have n: "(of_nat (14 - i) :: u64) = 14 - of_nat i" using that by (simp add: of_nat_diff)
    have e: "?B - 120 + 8 * of_nat i = ?B - 8 * of_nat (Suc (14 - i))"
      unfolding of_nat_Suc n by (simp add: algebra_simps)
    have "slot_at s2 (?B - 120 + 8 * of_nat i) = slot_at s1 (?B - 120 + 8 * of_nat i)"
      using s2(2) [of "Suc i"] that by (simp add: algebra_simps)
    also have "\<dots> = map (rg s) saved ! (14 - i)"
      unfolding s1(2) e by (rule pushed_at) (simp_all add: saved_facts)
    also have "\<dots> = rg s (rev saved ! i)" using that by (simp add: rev_nth saved_facts)
    finally show ?thesis .
  qed
  have "popped (rev saved) (?B - 120) (slot_at s2) q r = rg s r" for q r
    using popped_restores [of "rev saved" "slot_at s2" "?B - 120" "rg s" q r] slot saved_facts by auto
  then show "rg (run env (call_stub f) s) = rg s"
    unfolding all restore_all_def
    using run_pop [of "rev saved" env] saved_facts(1) s2(1) by (auto simp: fun_eq_iff)
  show "slot_at (run env (call_stub f) s) (?B + 8 * of_nat k) = slot_at s (?B + 8 * of_nat k)" if "k < 16"
  proof -
    have "slot_at (run env (call_stub f) s) (?B + 8 * of_nat k) = slot_at s2 (?B + 8 * of_nat k)"
      unfolding all restore_all_def using run_pop [of "rev saved" env] saved_facts(1) by auto
    also have "slot_at s2 (?B + 8 * of_nat k) = slot_at s1 (?B + 8 * of_nat k)"
      using s2(2) [of "k + 16"] that by (simp add: algebra_simps)
    also have "\<dots> = slot_at s (?B + 8 * of_nat k)"
      unfolding s1(2) using that by (intro pushed_above) (simp add: saved_facts)
    finally show ?thesis .
  qed
qed

lemma deliver_frame:
  "rg (deliver base s) = (rg s)(RSP := base - 40)"
  "slot_at (deliver base s) (base - 40) = rip s" "slot_at (deliver base s) (base - 32) = cs s"
  "slot_at (deliver base s) (base - 24) = flags s" "slot_at (deliver base s) (base - 16) = rg s RSP"
  "slot_at (deliver base s) (base - 8) = ss s"
  by (auto simp: deliver_def push_def Let_def fun_eq_iff)

lemma iret_frame:
  assumes f: "keeps_frame env f" and h: "h = call_stub f @ [Iretq]"
    and fr: "rg s RSP = a" "slot_at s a = w0" "slot_at s (a + 8) = w1" "slot_at s (a + 16) = w2"
      "slot_at s (a + 24) = w3" "slot_at s (a + 32) = w4"
  shows "run env h s = (run env h s)\<lparr>rip := w0, cs := w1, flags := w2, ss := w4, rg := (rg s)(RSP := w3)\<rparr>"
proof -
  have sl: "slot_at (run env (call_stub f) s) (a + 8 * of_nat k) = slot_at s (a + 8 * of_nat k)" if "k < 16" for k
    using call_stub_restores(2) [OF f that, of s] fr(1) by simp
  show ?thesis
    using call_stub_restores(1) [OF f, of s] sl [of 0] sl [of 1] sl [of 2] sl [of 3] sl [of 4] fr
    by (simp add: h)
qed

text \<open>The entries that come back, with the C function each calls: the ones for vectors without an
  error code, and for vectors with one.\<close>

definition resuming :: "(instr list \<times> string) list" where
  "resuming =
     [(irq_handler_0, ''irq_0''), (irq_handler_1, ''irq_1''), (irq_handler_8, ''irq_8''),
      (interrupt_handler_0, ''interrupt_DE''), (interrupt_handler_1, ''interrupt_DB''),
      (interrupt_handler_7, ''interrupt_NM''), (interrupt_handler_16, ''interrupt_MF''),
      (interrupt_handler_19, ''interrupt_XM''), (interrupt_handler_20, ''interrupt_VE''),
      (interrupt_handler_0x80, ''user_thread_exit_cb'')]"

definition resuming_with_code :: "(instr list \<times> string) list" where
  "resuming_with_code = [(interrupt_handler_11, ''interrupt_NP''), (interrupt_handler_17, ''interrupt_AC'')]"

lemmas stub_defs = irq_handler_0_def irq_handler_1_def irq_handler_8_def interrupt_handler_0_def
  interrupt_handler_1_def interrupt_handler_7_def interrupt_handler_16_def interrupt_handler_19_def
  interrupt_handler_20_def interrupt_handler_0x80_def interrupt_handler_11_def interrupt_handler_17_def

lemma resuming_stub: "(h, f) \<in> set (resuming @ resuming_with_code) \<Longrightarrow> h = call_stub f @ [Iretq]"
  by (auto simp: resuming_def resuming_with_code_def stub_defs call_stub_def)

section \<open>Switching threads\<close>

text \<open>A suspended thread: its saved stack pointer \<open>f\<close>, and from there the registers, the flags and
  the address to go on at.\<close>

definition suspended :: "cpu \<Rightarrow> addr \<Rightarrow> addr \<Rightarrow> (reg \<Rightarrow> u64) \<Rightarrow> u64 \<Rightarrow> u64 \<Rightarrow> bool" where
  "suspended s ctx f g fl ip \<longleftrightarrow> slot_at s ctx = f \<and>
     (\<forall>i < 15. slot_at s (f + 8 * of_nat i) = g (rev saved ! i)) \<and>
     slot_at s (f + 120) = fl \<and> slot_at s (f + 128) = ip"

text \<open>The 16 quadwords \<^verbatim>\<open>switch_to\<close> pushes and the one it stores.\<close>

definition switch_writes :: "cpu \<Rightarrow> addr set" where
  "switch_writes s = set (map (\<lambda>i. rg s RSP - 8 * of_nat (Suc i)) [0..<16]) \<union> {rg s RDI}"

lemma switch_pushes:
  "run env ([Pushf] @ save_all) s =
     s\<lparr>rg := (rg s)(RSP := rg s RSP - 128),
       slot_at := pushed (flags s # map (rg s) saved) (rg s RSP) (slot_at s)\<rparr>"
proof -
  let ?s = "push (flags s) s"
  have m: "map (rg ?s) saved = map (rg s) saved" using saved_facts(1) by (auto simp: push_def)
  have r: "(rg ?s)(RSP := rg ?s RSP - 8 * of_nat (length saved)) = (rg s)(RSP := rg s RSP - 128)"
    by (simp add: push_def fun_eq_iff saved_facts)
  have "run env ([Pushf] @ save_all) s = run env (map Push saved) ?s" by (simp add: save_all_def)
  then show ?thesis unfolding run_push [OF saved_facts(1)] m r by (simp add: push_def)
qed

lemma switch_to_resumes:
  assumes n: "suspended s (rg s RSI) f g fl ip"
    and d: "rg s RSI \<notin> switch_writes s" "\<And>i. i < 17 \<Longrightarrow> f + 8 * of_nat i \<notin> switch_writes s"
    and t0: "t = run env switch_to s"
  shows "rg t r = (if r = RSP then f + 136 else g r)" "flags t = fl" "rip t = ip"
    "c_cr3 t = (if rg s RDX = 0 then c_cr3 s else rg s RDX)"
    "slot_at t = (pushed (flags s # map (rg s) saved) (rg s RSP) (slot_at s))(rg s RDI := rg s RSP - 128)"
proof -
  let ?m = "(pushed (flags s # map (rg s) saved) (rg s RSP) (slot_at s))(rg s RDI := rg s RSP - 128)"
  define s1 where "s1 = run env ([Pushf] @ save_all) s"
  have s1: "rg s1 = (rg s)(RSP := rg s RSP - 128)"
    "slot_at s1 = pushed (flags s # map (rg s) saved) (rg s RSP) (slot_at s)" "c_cr3 s1 = c_cr3 s"
    unfolding s1_def switch_pushes by simp_all
  have keep: "?m x = slot_at s x" if "x \<notin> switch_writes s" for x
  proof -
    have "pushed (flags s # map (rg s) saved) (rg s RSP) (slot_at s) x = slot_at s x"
      using that by (intro pushed_other) (auto simp: switch_writes_def saved_facts)
    then show ?thesis using that by (simp add: switch_writes_def)
  qed
  have sp: "?m (rg s RSI) = f" using keep [OF d(1)] n by (simp add: suspended_def)
  define s2 where "s2 = run env [StoreRsp RDI, LoadRsp RSI, Mov RDX RDX, Cr3IfNonzero RDX] s1"
  have s2: "rg s2 = (rg s)(RSP := f)" "slot_at s2 = ?m"
    "c_cr3 s2 = (if rg s RDX = 0 then c_cr3 s else rg s RDX)"
    using sp by (auto simp: s2_def s1 fun_eq_iff)
  have fr: "?m (f + 8 * of_nat i) = slot_at s (f + 8 * of_nat i)" if "i < 17" for i
    using keep [OF d(2) [OF that]] .
  have pop: "popped (rev saved) f ?m (rg s2) r = (if r = RSP then f + 120 else g r)" for r
    using popped_restores [of "rev saved" ?m f g "rg s2" r] fr n saved_facts by (auto simp: suspended_def)
  define s3 where "s3 = run env restore_all s2"
  have s3: "s3 = s2\<lparr>rg := popped (rev saved) f ?m (rg s2)\<rparr>"
    unfolding s3_def restore_all_def using run_pop [of "rev saved" env s2] saved_facts(1) s2 by simp
  have t: "t = run env [Popf, Ret] s3"
    unfolding t0 switch_to_def s3_def s2_def s1_def by simp
  have w: "?m (f + 120) = fl" "?m (f + 128) = ip"
    using fr [of 15] fr [of 16] n by (simp_all add: suspended_def)
  show "rg t r = (if r = RSP then f + 136 else g r)" "flags t = fl" "rip t = ip"
    "c_cr3 t = (if rg s RDX = 0 then c_cr3 s else rg s RDX)" "slot_at t = ?m"
    using w pop s2 by (simp_all add: t s3 add.commute [of 128])
qed

text \<open>Switching away leaves the thread suspended.\<close>

lemma switch_to_suspends:
  assumes m: "slot_at u (rg s RDI) = rg s RSP - 128" "\<And>i. i < 17 \<Longrightarrow> slot_at u (rg s RSP - 128 + 8 * of_nat i) =
      (pushed (flags s # map (rg s) saved) (rg s RSP) (slot_at s)) (rg s RSP - 128 + 8 * of_nat i)"
  shows "suspended u (rg s RDI) (rg s RSP - 128) (rg s) (flags s) (slot_at s (rg s RSP))"
proof -
  let ?B = "rg s RSP"
  let ?p = "pushed (flags s # map (rg s) saved) ?B (slot_at s)"
  have at: "?p (?B - 128 + 8 * of_nat i) = (flags s # map (rg s) saved) ! (15 - i)" if "i < 16" for i
  proof -
    have n: "(of_nat (15 - i) :: u64) = 15 - of_nat i" using that by (simp add: of_nat_diff)
    have e: "?B - 128 + 8 * of_nat i = ?B - 8 * of_nat (Suc (15 - i))"
      unfolding of_nat_Suc n by (simp add: algebra_simps)
    show ?thesis unfolding e by (rule pushed_at) (simp_all add: saved_facts)
  qed
  have "slot_at u (?B - 128 + 8 * of_nat i) = rg s (rev saved ! i)" if "i < 15" for i
  proof -
    have "(flags s # map (rg s) saved) ! (15 - i) = map (rg s) saved ! (14 - i)"
      using that by (cases "15 - i") (auto simp: Suc_diff_le intro: arg_cong)
    then show ?thesis using m(2) [of i] at [of i] that by (simp add: rev_nth saved_facts)
  qed
  moreover have "slot_at u (?B - 8) = flags s" using m(2) [of 15] at [of 15] by simp
  moreover have "slot_at u ?B = slot_at s ?B"
    using m(2) [of 16] pushed_above [of "flags s # map (rg s) saved" 0 ?B "slot_at s"] by (simp add: saved_facts)
  ultimately show ?thesis using m(1) by (simp add: suspended_def)
qed

section \<open>A concrete machine\<close>

text \<open>Two threads with stacks below 0x1000 and 0x3000 and control blocks at 0x5000 and 0x6000.\<close>

definition demo_cpu :: cpu where
  "demo_cpu = \<lparr>rg = (\<lambda>_. 0)(RSP := 0x1000, RDI := 0x5000, RSI := 0x6000, RBX := 7, RAX := 5), rip = 0x400000,
     flags = 0x202, cs = 8, ss = 16, cr2 = 0, c_cr3 = 0, gs_base = 0, kernel_gs_base = 0x7000, star = 0,
     slot_at = (\<lambda>_. 0)(0x6000 := 0x2000, 0x7000 := 0x9000)\<rparr>"

definition demo_other :: cpu where
  "demo_other = (run (\<lambda>_ s. s) switch_to demo_cpu)
     \<lparr>rg := (\<lambda>_. 9)(RSP := 0x3000, RDI := 0x6000, RSI := 0x5000)\<rparr>"

lemma keeps_frame_demo: "keeps_frame (\<lambda>_ s. set_reg RAX 7 s) f"
  by (simp add: keeps_frame_def)

section \<open>Properties\<close>



text \<open>The entries for the segment and alignment exceptions return without removing the error
  code, so if their handler returned, the processor would go on at the address that is the error
  code, with the old instruction pointer as code segment.\<close>

theorem error_code_becomes_rip:
  "keeps_frame env f \<Longrightarrow> (h, f) \<in> set resuming_with_code \<Longrightarrow>
   rip (run env h (deliver_error base code s)) = code \<and> cs (run env h (deliver_error base code s)) = rip s"
proof -
  assume a: "keeps_frame env f" "(h, f) \<in> set resuming_with_code"
  have h: "h = call_stub f @ [Iretq]" using a(2) by (intro resuming_stub) simp
  let ?s = "deliver_error base code s"
  let ?t = "run env h ?s"
  have fr: "rg ?s RSP = base - 48" "slot_at ?s (base - 48) = code" "slot_at ?s (base - 48 + 8) = rip s"
    by (simp_all add: deliver_error_def push_def deliver_frame)
  have "?t = ?t\<lparr>rip := code, cs := rip s, flags := slot_at ?s (base - 48 + 16),
      ss := slot_at ?s (base - 48 + 32), rg := (rg ?s)(RSP := slot_at ?s (base - 48 + 24))\<rparr>"
    by (rule iret_frame [OF a(1) h fr]) simp_all
  then show ?thesis by (metis (no_types, lifting) cpu.select_convs(2,4) cpu.surjective cpu.update_convs(1-5))
qed

lemma error_code_becomes_rip_witness:
  "rip (run (\<lambda>_ s. set_reg RAX 7 s) interrupt_handler_17 (deliver_error 0x1000 0x18 demo_cpu)) = 0x18"
  using error_code_becomes_rip [OF keeps_frame_demo, of interrupt_handler_17 "''interrupt_AC''"]
  by (simp add: resuming_with_code_def)

text \<open>What the fault handlers are given: the page fault handler gets the fault address and the
  error code; the general protection handler gets the saved RAX as the error code and the error code
  as the instruction pointer.\<close>

theorem fault_handler_arguments:
  "(let t = run env (takeWhile (\<lambda>i. i \<noteq> CallC ''interrupt_PF'') interrupt_handler_14) (deliver_error base code s)
    in rg t RDI = cr2 s \<and> rg t RSI = code) \<and>
   (let t = run env (takeWhile (\<lambda>i. i \<noteq> CallC ''interrupt_GP'') interrupt_handler_13) (deliver_error base code s)
    in rg t RDI = rg s RAX \<and> rg t RSI = code)"
proof -
  let ?s = "deliver_error base code s"
  have tw: "takeWhile (\<lambda>i. i \<noteq> CallC f) save_all = save_all" "CallC f \<notin> set save_all" for f
    by (auto simp: save_all_def saved_def)
  have p: "takeWhile (\<lambda>i. i \<noteq> CallC ''interrupt_PF'') interrupt_handler_14 =
      [Cli] @ save_all @ [SubRsp 8, MovCr2 RDI, LoadStack 128 RSI]"
    "takeWhile (\<lambda>i. i \<noteq> CallC ''interrupt_GP'') interrupt_handler_13 =
      [Cli] @ save_all @ [SubRsp 8, LoadStack 120 RDI, LoadStack 128 RSI]"
    using tw by (auto simp: interrupt_handler_14_def interrupt_handler_13_def takeWhile_append2)
  have r: "rg ?s RSP = base - 48" "slot_at ?s (base - 48) = code"
    by (simp_all add: deliver_error_def push_def deliver_frame)
  then have s: "slot_at ?s (rg ?s RSP) = code" by simp
  have c: "rg ?s RAX = rg s RAX" "cr2 ?s = cr2 s"
    by (simp_all add: deliver_error_def deliver_def push_def Let_def)
  let ?p = "pushed (map (rg ?s) saved) (rg ?s RSP) (slot_at ?s)"
  have m: "?p (rg ?s RSP) = code" "?p (rg ?s RSP - 8) = rg s RAX"
    using pushed_above [of "map (rg ?s) saved" 0 "rg ?s RSP" "slot_at ?s"]
      pushed_at [of 0 "map (rg ?s) saved" "rg ?s RSP" "slot_at ?s"] s c by (simp_all add: saved_def)
  show ?thesis
    unfolding p Let_def using m c
    by (simp add: save_all_def run_push [OF saved_facts(1)] saved_facts)
qed



end
