(* ===== verification/Traps.thy ===== *)
theory Traps
  imports Isr
begin

text \<open>
  The tables the processor enters the kernel through: segment descriptors and task state
  (\<^verbatim>\<open>gdt.c\<close>), interrupt gates (\<^verbatim>\<open>idt.c\<close>), the system call registers and
  dispatch (\<^verbatim>\<open>Syscall.c\<close>).  Addresses of C functions and of the tables, fixed by the
  linker, are parameters.
\<close>

section \<open>Segment descriptors\<close>

record segments =
  gdt_bytes :: "u8 list"
  tss_storage :: "u8 list"

definition word_bytes :: "u64 \<Rightarrow> u8 list" where
  "word_bytes v =
     [byte_at 0 v, byte_at 8 v, byte_at 16 v, byte_at 24 v, byte_at 32 v, byte_at 40 v, byte_at 48 v, byte_at 56 v]"

text \<open>A store of 8 bytes into an array.\<close>

definition put_word :: "u8 list \<Rightarrow> nat \<Rightarrow> u64 \<Rightarrow> u8 list" where
  "put_word bs i v = take i bs @ word_bytes v @ drop (i + 8) bs"

definition KERNEL_CS :: u64 where "KERNEL_CS = 0x08"
definition KERNEL_DS :: u64 where "KERNEL_DS = 0x10"
definition USER_CS :: u64 where "USER_CS = 0x1B"
definition USER_DS :: u64 where "USER_DS = 0x23"

definition tss_desc :: "u64 \<Rightarrow> u8 list" where
  "tss_desc b =
     [103, 0, byte_at 0 b, byte_at 8 b, byte_at 16 b, 0x89, 0x00, byte_at 24 b,
      byte_at 32 b, byte_at 40 b, byte_at 48 b, byte_at 56 b, 0, 0, 0, 0]"

definition gdt_init :: "addr \<Rightarrow> segments" where
  "gdt_init tss_base =
     (let g = replicate 64 0;
          g = put_word g 8 0x00209A0000000000;
          g = put_word g 16 0x0000920000000000;
          g = put_word g 24 0x0020FA0000000000;
          g = put_word g 32 0x0000F20000000000;
          g = take 40 g @ tss_desc tss_base @ drop 56 g
      in \<lparr>gdt_bytes = g, tss_storage = replicate 104 0\<rparr>)"

definition tss_set_rsp0 :: "segments \<Rightarrow> u64 \<Rightarrow> segments" where
  "tss_set_rsp0 s rsp0 = s\<lparr>tss_storage := put_word (tss_storage s) 4 rsp0\<rparr>"

text \<open>How the processor reads a descriptor: the access byte of the segment a selector names, and the
  base address in a system descriptor.\<close>

definition access_byte :: "segments \<Rightarrow> u64 \<Rightarrow> u8" where
  "access_byte s sel = gdt_bytes s ! (8 * (unat sel div 8) + 5)"

definition tss_base_of :: "segments \<Rightarrow> u64 \<Rightarrow> u64" where
  "tss_base_of s sel =
     (let d = drop (8 * (unat sel div 8)) (gdt_bytes s)
      in le64 (le32 (d ! 2) (d ! 3) (d ! 4) (d ! 7)) (le32 (d ! 8) (d ! 9) (d ! 10) (d ! 11)))"

section \<open>Interrupt gates\<close>

record gate =
  offset_1 :: u16
  g_selector :: u16
  ist :: u8
  type_attributes :: u8
  offset_2 :: u16
  offset_3 :: u32
  g_reserved :: u32

definition X86_64_INTERRUPT_GATE :: u8 where "X86_64_INTERRUPT_GATE = 0x8E"
definition X86_64_INTERRUPT_GATE_USER :: u8 where "X86_64_INTERRUPT_GATE_USER = 0xEE"
definition IRQ_PIC_START :: nat where "IRQ_PIC_START = 0x20"

definition set_intr_gate :: "u16 \<Rightarrow> (nat \<Rightarrow> gate) \<Rightarrow> nat \<Rightarrow> addr \<Rightarrow> u8 \<Rightarrow> nat \<Rightarrow> gate" where
  "set_intr_gate UEFI_CS idt n adr ty =
     idt(n := \<lparr>offset_1 = ucast (adr AND 0xFFFF), g_selector = UEFI_CS, ist = 0, type_attributes = ty,
       offset_2 = ucast (drop_bit 16 adr AND 0xFFFF), offset_3 = ucast (drop_bit 32 adr AND 0xFFFFFFFF),
       g_reserved = 0\<rparr>)"

definition set_irq_gate :: "u16 \<Rightarrow> (nat \<Rightarrow> gate) \<Rightarrow> nat \<Rightarrow> addr \<Rightarrow> nat \<Rightarrow> gate" where
  "set_irq_gate UEFI_CS idt n adr = set_intr_gate UEFI_CS idt (IRQ_PIC_START + n) adr X86_64_INTERRUPT_GATE"

text \<open>The entries of \<^verbatim>\<open>Init_IDT\<close>; \<open>fn\<close> gives the addresses of the entry stubs.\<close>

definition exception_entries :: "(nat \<times> string) list" where
  "exception_entries =
     [(0, ''interrupt_handler_0''), (1, ''interrupt_handler_1''), (2, ''interrupt_handler_2''),
      (3, ''interrupt_handler_3''), (4, ''interrupt_handler_4''), (5, ''interrupt_handler_5''),
      (6, ''interrupt_handler_6''), (7, ''interrupt_handler_7''), (8, ''interrupt_handler_8''),
      (10, ''interrupt_handler_10''), (12, ''interrupt_handler_12''), (13, ''interrupt_handler_13''),
      (14, ''interrupt_handler_14''), (16, ''interrupt_handler_16''), (17, ''interrupt_handler_17''),
      (18, ''interrupt_handler_18''), (19, ''interrupt_handler_19''), (20, ''interrupt_handler_20'')]"

definition Init_IDT :: "u16 \<Rightarrow> (string \<Rightarrow> addr) \<Rightarrow> (nat \<Rightarrow> gate) \<Rightarrow> nat \<Rightarrow> gate" where
  "Init_IDT UEFI_CS fn idt =
     (let idt = fold (\<lambda>i t. set_intr_gate UEFI_CS t i (fn ''interrupt_handler_default'') X86_64_INTERRUPT_GATE)
                  [0..<256] idt;
          idt = fold (\<lambda>(n, h) t. set_intr_gate UEFI_CS t n (fn h) X86_64_INTERRUPT_GATE) exception_entries idt
      in set_intr_gate UEFI_CS idt 0x80 (fn ''interrupt_handler_0x80'') X86_64_INTERRUPT_GATE_USER)"

definition set_irq :: "u16 \<Rightarrow> (string \<Rightarrow> addr) \<Rightarrow> (nat \<Rightarrow> gate) \<Rightarrow> nat \<Rightarrow> gate" where
  "set_irq UEFI_CS fn idt =
     set_irq_gate UEFI_CS (set_irq_gate UEFI_CS (set_irq_gate UEFI_CS idt 0 (fn ''irq_handler_0''))
       1 (fn ''irq_handler_1'')) 8 (fn ''irq_handler_8'')"

text \<open>The limit and the base the processor is given.\<close>

definition lidt :: "addr \<Rightarrow> u16 \<Rightarrow> u16 \<times> u32 \<times> u32" where
  "lidt adr sz = (sz - 1, ucast (adr AND 0xFFFFFFFF), ucast (drop_bit 32 adr AND 0xFFFFFFFF))"

text \<open>The address a gate leads to.\<close>

definition gate_target :: "gate \<Rightarrow> addr" where
  "gate_target g = ucast (offset_1 g) OR push_bit 16 (ucast (offset_2 g)) OR push_bit 32 (ucast (offset_3 g))"

section \<open>System calls\<close>

text \<open>The model specific registers written, in order, and the area \<^verbatim>\<open>syscall_cpu\<close>.\<close>

definition init_syscall_msrs :: "u64 \<Rightarrow> addr \<Rightarrow> addr \<Rightarrow> (u32 \<times> u64) list" where
  "init_syscall_msrs efer entry cpu_area =
     [(0xC0000080, efer OR 1),
      (0xC0000081, push_bit 48 0x18 OR push_bit 32 0x08),
      (0xC0000082, entry), (0xC0000083, 0), (0xC0000084, 0x200), (0xC0000102, cpu_area)]"

datatype syscall_effect = Returns u64 | Prints u8 u64 | Switches "u64 option"

definition SYS_exit :: u64 where "SYS_exit = 1"
definition SYS_sleep :: u64 where "SYS_sleep = 2"
definition SYS_yield :: u64 where "SYS_yield = 3"
definition SYS_putchar :: u64 where "SYS_putchar = 4"

text \<open>The effect and the scheduler state; \<open>Switches\<close> is a call that leaves through
  \<^verbatim>\<open>schedule\<close> and returns 0 when the thread runs again.\<close>

definition syscall_dispatch :: "sched \<Rightarrow> u64 \<Rightarrow> u64 \<Rightarrow> (syscall_effect \<times> sched) option" where
  "syscall_dispatch s nr arg1 =
     (if nr = SYS_exit then map_option (\<lambda>(t, s). (Switches t, s)) (thread_exit s)
      else if nr = SYS_yield then map_option (\<lambda>(t, s). (Switches t, s)) (schedule_select s)
      else if nr = SYS_putchar then Some (Prints (ucast (arg1 AND 0xFF)) 0, s)
      else if nr = SYS_sleep then map_option (\<lambda>(t, s). (Switches t, s)) (ThreadSleepMS s arg1)
      else Some (Returns 0xFFFFFFFFFFFFFFFF, s))"

section \<open>What the tables say\<close>

lemma gate_target_set: "gate_target (set_intr_gate c idt n adr ty n) = adr"
proof (rule bit_word_eqI)
  have m: "(0xFFFF :: u64) = mask 16" "(0xFFFFFFFF :: u64) = mask 32" by (simp_all add: mask_eq_exp_minus_1)
  fix k assume "k < LENGTH(64)"
  then consider "k < 16" | "16 \<le> k" "k < 32" | "32 \<le> k" "k < 64" by fastforce
  then show "bit (gate_target (set_intr_gate c idt n adr ty n)) k = bit adr k"
    by cases (auto simp: gate_target_def set_intr_gate_def m bit_simps)
qed

lemma put_word_length: "i + 8 \<le> length bs \<Longrightarrow> length (put_word bs i v) = length bs"
  by (simp add: put_word_def word_bytes_def)

lemma gdt_bytes_init:
  "gdt_bytes (gdt_init b) =
     replicate 8 0 @ word_bytes 0x00209A0000000000 @ word_bytes 0x0000920000000000 @
     word_bytes 0x0020FA0000000000 @ word_bytes 0x0000F20000000000 @ tss_desc b @ replicate 8 0"
  by (simp add: gdt_init_def put_word_def Let_def word_bytes_def replicate_eqI eval_nat_numeral)

lemma fold_upd_notin: "n \<notin> set (map fst es) \<Longrightarrow> fold (\<lambda>(m, h) t. set_intr_gate c t m (f h) ty) es idt n = idt n"
  by (induction es arbitrary: idt) (auto simp: set_intr_gate_def)

lemma fold_upd_in:
  "(n, h) \<in> set es \<Longrightarrow> distinct (map fst es) \<Longrightarrow>
   gate_target (fold (\<lambda>(m, h) t. set_intr_gate c t m (f h) ty) es idt n) = f h"
proof (induction es arbitrary: idt)
  case (Cons e es)
  show ?case
  proof (cases "e = (n, h)")
    case True
    then have "n \<notin> set (map fst es)" using Cons.prems by auto
    from fold_upd_notin [OF this, of c f ty "set_intr_gate c idt n (f h) ty"] show ?thesis
      using True by (simp add: gate_target_set)
  qed (use Cons in auto)
qed simp

lemma fold_default: "n < 256 \<Longrightarrow>
   gate_target (fold (\<lambda>i t. set_intr_gate c t i a ty) [0..<256] idt n) = a"
proof -
  have "gate_target (fold (\<lambda>i t. set_intr_gate c t i a ty) is idt n) = a" if "n \<in> set is" for "is"
    using that
  proof (induction "is" rule: rev_induct)
    case (snoc i "is")
    have "gate_target (set_intr_gate c t i a ty n) = (if n = i then a else gate_target (t n))" for t
      using gate_target_set [of c t i a ty] by (simp add: set_intr_gate_def)
    then show ?case using snoc by auto
  qed simp
  then show "n < 256 \<Longrightarrow> ?thesis" by simp
qed

lemma Init_IDT_entry: "(n, h) \<in> set exception_entries \<Longrightarrow> gate_target (Init_IDT c fn idt n) = fn h"
proof -
  assume e: "(n, h) \<in> set exception_entries"
  then have "n \<noteq> 0x80" "distinct (map fst exception_entries)" by (auto simp: exception_entries_def)
  then show ?thesis
    using fold_upd_in [OF e, of c fn X86_64_INTERRUPT_GATE]
    by (simp add: Init_IDT_def Let_def set_intr_gate_def [of _ _ 128] split_def)
qed

lemma Init_IDT_default:
  "n < 256 \<Longrightarrow> n \<notin> set (map fst exception_entries) \<Longrightarrow> n \<noteq> 0x80 \<Longrightarrow>
   gate_target (Init_IDT c fn idt n) = fn ''interrupt_handler_default''"
  using fold_upd_notin [of n exception_entries c fn X86_64_INTERRUPT_GATE] fold_default [of n c]
  by (simp add: Init_IDT_def Let_def set_intr_gate_def [of _ _ 128])

section \<open>Properties\<close>

text \<open>After \<^verbatim>\<open>Init_IDT\<close> each installed vector leads to its entry stub, a descriptor
  written for an address reads back as that address, and vector 11, which has a stub and pushes an
  error code, was left to the default entry that returns without removing it.\<close>

theorem descriptor_tables_roundtrip:
  "map (\<lambda>(n, h). gate_target (Init_IDT c fn idt n)) exception_entries = map (\<lambda>(n, h). fn h) exception_entries \<and>
   gate_target (Init_IDT c fn idt 0x80) = fn ''interrupt_handler_0x80'' \<and>
   gate_target (Init_IDT c fn idt 11) = fn ''interrupt_handler_default'' \<and>
   tss_base_of (gdt_init b) 0x28 = b"
proof -
  have "tss_base_of (gdt_init b) 0x28 = b"
  proof -
    have "drop 40 (gdt_bytes (gdt_init b)) = tss_desc b @ replicate 8 0"
      by (simp add: gdt_bytes_init word_bytes_def)
    then have e: "tss_base_of (gdt_init b) 0x28 =
        le64 (le32 (byte_at 0 b) (byte_at 8 b) (byte_at 16 b) (byte_at 24 b))
          (le32 (byte_at 32 b) (byte_at 40 b) (byte_at 48 b) (byte_at 56 b))"
      by (simp add: tss_base_of_def Let_def tss_desc_def)
    show ?thesis
    proof (rule bit_word_eqI)
      fix k assume "k < LENGTH(64)"
      then consider "k < 8" | "8 \<le> k" "k < 16" | "16 \<le> k" "k < 24" | "24 \<le> k" "k < 32" | "32 \<le> k" "k < 40" |
        "40 \<le> k" "k < 48" | "48 \<le> k" "k < 56" | "56 \<le> k" "k < 64" by fastforce
      then show "bit (tss_base_of (gdt_init b) 0x28) k = bit b k"
        unfolding e by cases (auto simp: bit_le64 bit_le32 bit_byte_at)
    qed
  qed
  moreover have "gate_target (Init_IDT c fn idt 0x80) = fn ''interrupt_handler_0x80''"
    by (simp add: Init_IDT_def Let_def gate_target_set)
  moreover have "gate_target (Init_IDT c fn idt 11) = fn ''interrupt_handler_default''"
    by (rule Init_IDT_default) (simp_all add: exception_entries_def)
  ultimately show ?thesis using Init_IDT_entry by auto
qed

text \<open>The value of the STAR register makes \<^verbatim>\<open>sysretq\<close> load selector 0x2B, which names
  the task state descriptor and not the user code segment 0x1B, as the comment has it: the next
  interrupt saves a code selector that cannot be returned to.\<close>

theorem sysret_selects_tss:
  "let v = snd (init_syscall_msrs efer entry area ! 1); s = gdt_init b in
     sysret_cs v = 0x2B \<and> access_byte s (sysret_cs v) = 0x89 \<and>
     sysret_cs v \<noteq> USER_CS \<and> access_byte s USER_CS = 0xFA \<and> sysret_ss v = USER_DS"
  by (simp add: init_syscall_msrs_def sysret_cs_def sysret_ss_def Let_def access_byte_def gdt_bytes_init
      word_bytes_def tss_desc_def USER_CS_def USER_DS_def byte_at_def nth_append)

text \<open>The save area of \<^verbatim>\<open>syscall_entry\<close> is one for all threads: a system call
  returns to the instruction, stack and flags of whichever thread entered last, which is another
  thread if one made a system call while this one was asleep in its own.\<close>

theorem syscall_returns_to_last_entered:
  assumes "gs_base w = kernel_gs_base u"
    and "\<And>off. off \<in> {8, 16, 24} \<Longrightarrow>
      slot_at w (gs_base w + off) = slot_at (run env syscall_enter u) (gs_base w + off)"
    and "\<And>i off. i < 7 \<Longrightarrow> off \<in> {8, 16, 24} \<Longrightarrow>
      slot_at u (kernel_gs_base u) - 8 * of_nat (Suc i) \<noteq> kernel_gs_base u + off"
  shows "rip (run env syscall_leave w) = rg u RCX \<and> rg (run env syscall_leave w) RSP = rg u RSP \<and>
    flags (run env syscall_leave w) = rg u R11"
proof -
  let ?G = "kernel_gs_base u"
  let ?K = "slot_at u ?G"
  have ne: "?K - 8 \<noteq> ?G + off \<and> ?K - 16 \<noteq> ?G + off \<and> ?K - 24 \<noteq> ?G + off \<and> ?K - 32 \<noteq> ?G + off \<and>
      ?K - 40 \<noteq> ?G + off \<and> ?K - 48 \<noteq> ?G + off \<and> ?K - 56 \<noteq> ?G + off" if "off \<in> {8, 16, 24}" for off
    using assms(3) [of 0 off] assms(3) [of 1 off] assms(3) [of 2 off] assms(3) [of 3 off]
      assms(3) [of 4 off] assms(3) [of 5 off] assms(3) [of 6 off] that by simp
  have "slot_at (run env syscall_enter u) (?G + 8) = rg u RSP"
    "slot_at (run env syscall_enter u) (?G + 16) = rg u RCX"
    "slot_at (run env syscall_enter u) (?G + 24) = rg u R11"
    using ne [of 8] ne [of 16] ne [of 24] by (simp_all add: syscall_enter_def push_def eq_commute [of "_ + _" "_ - _"])
  then have "slot_at w (?G + 8) = rg u RSP" "slot_at w (?G + 16) = rg u RCX" "slot_at w (?G + 24) = rg u R11"
    using assms(1) assms(2) [of 8] assms(2) [of 16] assms(2) [of 24] by simp_all
  then show ?thesis using assms(1) by (simp add: syscall_leave_def)
qed

lemma syscall_returns_to_last_entered_witness:
  "rip (run (\<lambda>_ s. s) syscall_leave (run (\<lambda>_ s. s) syscall_enter (demo_cpu\<lparr>rg := (rg demo_cpu)(RCX := 0x400123)\<rparr>))) = 0x400123"
proof -
  let ?u = "demo_cpu\<lparr>rg := (rg demo_cpu)(RCX := 0x400123)\<rparr>"
  let ?w = "run (\<lambda>_ s. s) syscall_enter ?u"
  have g: "gs_base ?w = 0x7000" "kernel_gs_base ?u = 0x7000" "slot_at ?u 0x7000 = 0x9000"
    by (simp_all add: syscall_enter_def push_def demo_cpu_def)
  have "rip (run (\<lambda>_ s. s) syscall_leave ?w) = rg ?u RCX \<and> rg (run (\<lambda>_ s. s) syscall_leave ?w) RSP = rg ?u RSP \<and>
    flags (run (\<lambda>_ s. s) syscall_leave ?w) = rg ?u R11"
  proof (rule syscall_returns_to_last_entered)
    show "gs_base ?w = kernel_gs_base ?u" using g by simp
    fix i :: nat and off :: u64
    assume "i < 7" "off \<in> {8, 16, 24}"
    from \<open>i < 7\<close> have "i \<in> {0, 1, 2, 3, 4, 5, 6}" unfolding insert_iff empty_iff by presburger
    then show "slot_at ?u (kernel_gs_base ?u) - 8 * of_nat (Suc i) \<noteq> kernel_gs_base ?u + off"
      unfolding g using \<open>off \<in> {8, 16, 24}\<close> by auto
  qed simp
  then show ?thesis by simp
qed

end
