(* ===== verification/Hw.thy ===== *)
theory Hw
  imports Prelude "HOL-Library.Monad_Syntax"
begin

text \<open>
  The devices on the I/O ports: delays (\<^verbatim>\<open>delay.c\<close>), the serial port (\<^verbatim>\<open>serial.c\<close>),
  the real-time clock (\<^verbatim>\<open>Time.c\<close>), the interrupt controller (\<^verbatim>\<open>pic.c\<close>) and the
  keyboard (\<^verbatim>\<open>Keyboard.c\<close>).  The instructions behind \<^verbatim>\<open>io.c\<close> are hardware: the record
  \<open>hw\<close> says what each does to the state \<open>'d\<close> of the devices.  A loop that polls a port is a
  \<open>partial_function\<close>: \<open>None\<close> is waiting for ever.
\<close>

section \<open>Ports\<close>

record 'd hw =
  inb :: "u16 \<Rightarrow> 'd \<Rightarrow> u8 \<times> 'd"
  inw :: "u16 \<Rightarrow> 'd \<Rightarrow> u16 \<times> 'd"
  inl :: "u16 \<Rightarrow> 'd \<Rightarrow> u32 \<times> 'd"
  outb :: "u16 \<Rightarrow> u8 \<Rightarrow> 'd \<Rightarrow> 'd"
  outw :: "u16 \<Rightarrow> u16 \<Rightarrow> 'd \<Rightarrow> 'd"
  outl :: "u16 \<Rightarrow> u32 \<Rightarrow> 'd \<Rightarrow> 'd"
  rdtsc :: "'d \<Rightarrow> u64 \<times> 'd"
  SYSTEM_CPU_Frequency :: u64

definition io_wait :: "'d hw \<Rightarrow> 'd \<Rightarrow> 'd" where
  "io_wait hw d = outb hw 0x80 0 d"

section \<open>Delays\<close>

partial_function (option) delay_loop :: "'d hw \<Rightarrow> u64 \<Rightarrow> u64 \<Rightarrow> 'd \<Rightarrow> 'd option" where
  "delay_loop hw start_tsc cycles_to_wait d =
     (let (t, d) = rdtsc hw d
      in if t - start_tsc < cycles_to_wait then delay_loop hw start_tsc cycles_to_wait d else Some d)"

definition delay_ms :: "'d hw \<Rightarrow> u32 \<Rightarrow> 'd \<Rightarrow> 'd option" where
  "delay_ms hw ms d =
     (let cycles_to_wait = ucast ms * (SYSTEM_CPU_Frequency hw div 1000);
          (start_tsc, d) = rdtsc hw d
      in delay_loop hw start_tsc cycles_to_wait d)"

definition delay_seconds :: "'d hw \<Rightarrow> u32 \<Rightarrow> 'd \<Rightarrow> 'd option" where
  "delay_seconds hw seconds d = delay_ms hw (seconds * 1000) d"

section \<open>Serial port\<close>

definition serial_init :: "'d hw \<Rightarrow> u16 \<Rightarrow> bool \<Rightarrow> 'd \<Rightarrow> u32 \<times> bool \<times> 'd" where
  "serial_init hw port SerialIsInit d =
     (let d = outb hw (port + 1) 0x00 d; d = outb hw (port + 3) 0x80 d;
          d = outb hw (port + 0) (1843200 div (16 * 115200)) d; d = outb hw (port + 1) 0x00 d;
          d = outb hw (port + 3) 0x03 d; d = outb hw (port + 2) 0xC7 d; d = outb hw (port + 4) 0x0B d;
          d = outb hw (port + 4) 0x1E d; d = outb hw (port + 0) 0xAE d; (b, d) = inb hw (port + 0) d
      in if b \<noteq> 0xAE then (1, SerialIsInit, d) else (0, True, outb hw (port + 4) 0x0F d))"

definition is_transmit_empty :: "'d hw \<Rightarrow> u16 \<Rightarrow> 'd \<Rightarrow> u8 \<times> 'd" where
  "is_transmit_empty hw port d = (let (b, d) = inb hw (port + 5) d in (b AND 0x20, d))"

partial_function (option) transmit_wait :: "'d hw \<Rightarrow> u16 \<Rightarrow> 'd \<Rightarrow> 'd option" where
  "transmit_wait hw port d =
     (let (e, d) = is_transmit_empty hw port d in if e = 0 then transmit_wait hw port d else Some d)"

definition serial_putchar :: "'d hw \<Rightarrow> bool \<Rightarrow> u16 \<Rightarrow> u8 \<Rightarrow> 'd \<Rightarrow> 'd option" where
  "serial_putchar hw SerialIsInit port c d =
     (if SerialIsInit then do { d \<leftarrow> transmit_wait hw port d; Some (outb hw port c d) } else Some d)"

fun serial_putstr :: "'d hw \<Rightarrow> bool \<Rightarrow> u16 \<Rightarrow> u8 list \<Rightarrow> 'd \<Rightarrow> 'd option" where
  "serial_putstr hw ini port [] d = Some d"
| "serial_putstr hw ini port (c # s) d =
     (if c = 0 then Some d
      else do { d \<leftarrow> serial_putchar hw ini port c d; serial_putstr hw ini port s d })"

text \<open>The text \<^verbatim>\<open>serial_puthex\<close> sends: the loop fills \<^verbatim>\<open>buf\<close> from index 17 down,
  then index \<open>i\<close> gets a 0 and index 1 an x; what is sent starts at index \<open>i\<close>.\<close>

fun puthex_loop :: "u8 list \<Rightarrow> nat \<Rightarrow> u64 \<Rightarrow> nat \<Rightarrow> u8 list \<times> nat" where
  "puthex_loop buf i v 0 = (buf, i)"
| "puthex_loop buf i v (Suc n) =
     (if v = 0 then (buf, i)
      else let dig = v AND 0xF
           in puthex_loop (buf[i := (if dig < 10 then 48 + ucast dig else 55 + ucast dig)]) (i - 1) (drop_bit 4 v) n)"

definition serial_hex_text :: "u64 \<Rightarrow> u8 list" where
  "serial_hex_text v =
     (let buf = (replicate 19 0)[18 := 0];
          (buf, i) = (if v = 0 then (buf[17 := 48], 16) else puthex_loop buf 17 v 16);
          buf = buf[i := 48, 1 := 120]
      in takeWhile (\<lambda>c. c \<noteq> 0) (drop i buf))"

definition serial_puthex :: "'d hw \<Rightarrow> bool \<Rightarrow> u16 \<Rightarrow> u64 \<Rightarrow> 'd \<Rightarrow> 'd option" where
  "serial_puthex hw ini port v d = serial_putstr hw ini port (serial_hex_text v) d"

section \<open>Real-time clock\<close>

record rtc_time =
  second :: u8
  minute :: u8
  hour :: u8
  day :: u8
  month :: u8
  year :: u8

definition cmos_read :: "'d hw \<Rightarrow> u8 \<Rightarrow> 'd \<Rightarrow> u8 \<times> 'd" where
  "cmos_read hw a d = inb hw 0x71 (outb hw 0x70 (0x80 OR a) d)"

definition cmos_write :: "'d hw \<Rightarrow> u8 \<Rightarrow> u8 \<Rightarrow> 'd \<Rightarrow> 'd" where
  "cmos_write hw a v d = outb hw 0x71 v (outb hw 0x70 (0x80 OR a) d)"

definition init_rtc :: "'d hw \<Rightarrow> 'd \<Rightarrow> 'd" where
  "init_rtc hw d =
     (let d = cmos_write hw 0x0B 0x42 d; (_, d) = cmos_read hw 0x0C d; (a, d) = inb hw 0x0A d
      in outb hw 0x0A (a AND 0xF OR 0xE) d)"

definition rtc_updating :: "'d hw \<Rightarrow> 'd \<Rightarrow> u8 \<times> 'd" where
  "rtc_updating hw d = (let (b, d) = inb hw 0x71 (outb hw 0x70 0x0A d) in (b AND 0x80, d))"

partial_function (option) rtc_wait :: "'d hw \<Rightarrow> 'd \<Rightarrow> 'd option" where
  "rtc_wait hw d = (let (u, d) = rtc_updating hw d in if u \<noteq> 0 then rtc_wait hw d else Some d)"

definition bcd :: "u8 \<Rightarrow> u8" where
  "bcd v = (v AND 0x0F) + (v div 16) * 10"

text \<open>The conversions of \<^verbatim>\<open>get_rtc_time\<close>, from what the clock holds and its status
  register B.\<close>

definition rtc_fix :: "u8 \<Rightarrow> rtc_time \<Rightarrow> rtc_time" where
  "rtc_fix reg_b t =
     (let t = (if reg_b AND 0x04 = 0
               then t\<lparr>second := bcd (second t), minute := bcd (minute t),
                      hour := ((hour t AND 0x0F) + ((hour t AND 0x70) div 16) * 10) OR (hour t AND 0x80),
                      day := bcd (day t), month := bcd (month t), year := bcd (year t)\<rparr>
               else t);
          t = (if reg_b AND 0x02 = 0 \<and> hour t AND 0x80 \<noteq> 0
               then t\<lparr>hour := ((hour t AND 0x7F) + 12) mod 24\<rparr> else t)
      in if hour t > 24 then t\<lparr>hour := hour t - 24, day := day t + 1\<rparr> else t)"

definition get_rtc_time :: "'d hw \<Rightarrow> 'd \<Rightarrow> (rtc_time \<times> 'd) option" where
  "get_rtc_time hw d = do {
     d \<leftarrow> rtc_wait hw d;
     let (s, d) = cmos_read hw 0x00 d; (m, d) = cmos_read hw 0x02 d; (h, d) = cmos_read hw 0x04 d;
         (dy, d) = cmos_read hw 0x07 d; (mo, d) = cmos_read hw 0x08 d; (y, d) = cmos_read hw 0x09 d;
         (reg_b, d) = cmos_read hw 0x0B d
     in Some (rtc_fix reg_b \<lparr>second = s, minute = m, hour = h, day = dy, month = mo, year = y\<rparr>, d) }"

text \<open>\<^verbatim>\<open>while (s2 != (s1 + 1))\<close>: the seconds are compared as integers.\<close>

partial_function (option) until_second :: "'d hw \<Rightarrow> nat \<Rightarrow> 'd \<Rightarrow> 'd option" where
  "until_second hw target d =
     Option.bind (get_rtc_time hw d) (\<lambda>(t, d). if unat (second t) = target then Some d else until_second hw target d)"

text \<open>Both loops start with the variable at 0, so their condition holds at first.\<close>

definition Get_CPU_Frequency :: "'d hw \<Rightarrow> 'd \<Rightarrow> (u64 \<times> 'd) option" where
  "Get_CPU_Frequency hw d = do {
     (t, d) \<leftarrow> get_rtc_time hw d;
     let s1 = unat (second t);
     d \<leftarrow> until_second hw (s1 + 1) d;
     let (tsc1, d) = rdtsc hw d;
     d \<leftarrow> until_second hw (s1 + 2) d;
     let (tsc2, d) = rdtsc hw d;
     Some (tsc2 - tsc1, d) }"

section \<open>Interrupt controller\<close>

definition PIC0_IMR :: u16 where "PIC0_IMR = 0x21"
definition PIC1_IMR :: u16 where "PIC1_IMR = 0xA1"

definition irq_enable :: "'d hw \<Rightarrow> u8 \<Rightarrow> 'd \<Rightarrow> 'd" where
  "irq_enable hw n d =
     (if n < 8 then let (b, d) = inb hw PIC0_IMR d in outb hw PIC0_IMR (b AND NOT (push_bit (unat n) 1)) d
      else let (b, d) = inb hw PIC1_IMR d in outb hw PIC1_IMR (b AND NOT (push_bit (unat (n - 8)) 1)) d)"

definition irq_disable :: "'d hw \<Rightarrow> u8 \<Rightarrow> 'd \<Rightarrow> 'd" where
  "irq_disable hw n d =
     (if n < 8 then let (b, d) = inb hw PIC0_IMR d in outb hw PIC0_IMR (b OR push_bit (unat n) 1) d
      else let (b, d) = inb hw PIC1_IMR d in outb hw PIC1_IMR (b OR push_bit (unat (n - 8)) 1) d)"

definition PIC_sendEOI :: "'d hw \<Rightarrow> u8 \<Rightarrow> 'd \<Rightarrow> 'd" where
  "PIC_sendEOI hw n d = outb hw 0x20 0x20 (if 8 \<le> n then outb hw 0xA0 0x20 d else d)"

text \<open>Also resets \<^verbatim>\<open>SYSTEM_TimerTicks\<close>, which the result stands for.\<close>

definition InitPIT :: "'d hw \<Rightarrow> nat \<Rightarrow> 'd \<Rightarrow> u64 \<times> 'd" where
  "InitPIT hw f d =
     (let d = outb hw 0x43 0x34 d; divisor = (of_nat (1193180 div f) :: u16); d = io_wait hw d;
          d = io_wait hw (outb hw 0x40 (ucast (divisor AND 0xFF)) d);
          d = io_wait hw (outb hw 0x40 (ucast (drop_bit 8 divisor AND 0xFF)) d)
      in (0, d))"

definition Init_PIC :: "'d hw \<Rightarrow> 'd \<Rightarrow> u64 \<times> 'd" where
  "Init_PIC hw d =
     (let (ticks, d) = InitPIT hw 1000 d;
          d = fold (\<lambda>(p, v). outb hw p v)
                [(0x20, 0x11), (0x21, 0x20), (0x21, 4), (0x21, 1), (0xA0, 0x11), (0xA1, 0x28), (0xA1, 2), (0xA1, 1),
                 (PIC0_IMR, 0xFB), (PIC1_IMR, 0xFF)] d;
          d = irq_enable hw 0 (io_wait hw d);
          d = irq_enable hw 1 (io_wait hw d)
      in (ticks, d))"

text \<open>The counter of timer interrupts; the cursor, the end-of-interrupt signal and
  \<^verbatim>\<open>schedule\<close> follow it in \<^verbatim>\<open>irq_0\<close>.\<close>

definition irq_0_ticks :: "u64 \<Rightarrow> u64" where
  "irq_0_ticks ticks = (if 0xFFFFFFFFFFFFFFFF \<le> ticks then 0 else ticks + 1)"

definition irq_8 :: "'d hw \<Rightarrow> 'd \<Rightarrow> 'd" where
  "irq_8 hw d = PIC_sendEOI hw 8 d"

section \<open>What the conversions do\<close>

text \<open>In 12-hour mode midnight (12 AM) is read as 12 and noon (12 PM) as 0.\<close>

theorem rtc_noon_and_midnight:
  "hour (rtc_fix 0x04 (t\<lparr>hour := 12\<rparr>)) = 12 \<and> hour (rtc_fix 0x04 (t\<lparr>hour := 0x8C\<rparr>)) = 0"
  by (simp add: rtc_fix_def Let_def)

text \<open>Waiting for the second after 59: the clock never shows a second 60.\<close>

lemma until_second_stuck:
  assumes clock: "\<And>d t d'. get_rtc_time hw d = Some (t, d') \<Longrightarrow> unat (second t) < 60"
  shows "until_second hw 60 d = None"
proof -
  have "60 \<noteq> n" if "until_second hw n d = Some r" for n d r
    by (rule until_second.raw_induct [of "\<lambda>hw' n d r. hw' = hw \<longrightarrow> 60 \<noteq> n" hw n d r, OF _ that, rule_format])
      (use clock in \<open>fastforce split: if_splits simp: bind_eq_Some_conv\<close>)+
  then show ?thesis by (cases "until_second hw 60 d") auto
qed

theorem cpu_frequency_hangs:
  "(\<And>d t d'. get_rtc_time hw d = Some (t, d') \<Longrightarrow> unat (second t) < 60) \<Longrightarrow>
   get_rtc_time hw d = Some (t, d') \<Longrightarrow> 58 \<le> unat (second t) \<Longrightarrow> Get_CPU_Frequency hw d = None"
proof -
  assume clock: "\<And>d t d'. get_rtc_time hw d = Some (t, d') \<Longrightarrow> unat (second t) < 60"
    and first: "get_rtc_time hw d = Some (t, d')" and late: "58 \<le> unat (second t)"
  have "unat (second t) = 58 \<or> unat (second t) = 59" using clock [OF first] late by linarith
  moreover have "until_second hw 60 d = None" for d using clock by (rule until_second_stuck)
  ultimately show ?thesis
    by (auto simp: Get_CPU_Frequency_def first Let_def bind_eq_None_conv split: prod.splits)
qed

end
