(* ===== verification/Keyboard.thy ===== *)
theory Keyboard
  imports Hw
begin

text \<open>
  The keyboard driver, \<^verbatim>\<open>Kernel/drives/Keyboard.c\<close>, and the interrupt handler that fills its
  ring buffer, \<^verbatim>\<open>irq_1\<close> of \<^verbatim>\<open>Kernel/kernel/pic.c\<close>.  The locale
  \<open>type_ahead\<close> states what a reader of the keyboard relies on; the ring buffer provides it.
\<close>

section \<open>Scan codes\<close>

definition scan_to_ascii :: "u8 list" where
  "scan_to_ascii =
     ([0, 0, 49, 50, 51, 52, 53, 54, 55, 56, 57, 48, 45, 61, 8, 9,
      113, 119, 101, 114, 116, 121, 117, 105, 111, 112, 91, 93, 10, 0, 97, 115,
      100, 102, 103, 104, 106, 107, 108, 59, 39, 96, 0, 92, 122, 120, 99, 118,
      98, 110, 109, 44, 46, 47, 0, 42, 0, 32, 0, 0, 0, 0, 0, 0] @ replicate 64 0)"

definition scan_to_ascii_1 :: "u8 list" where
  "scan_to_ascii_1 =
     ([0, 0, 33, 64, 35, 36, 37, 94, 38, 42, 40, 41, 95, 43, 8, 9,
      81, 87, 69, 82, 84, 89, 85, 73, 79, 80, 123, 125, 10, 0, 65, 83,
      68, 70, 71, 72, 74, 75, 76, 58, 34, 126, 0, 124, 90, 88, 67, 86,
      66, 78, 77, 60, 62, 63, 0, 42, 0, 32, 0, 0, 0, 0, 0, 0] @ replicate 64 0)"

definition KEY_LeftShift :: u8 where "KEY_LeftShift = 0x2A"
definition KEY_RightShift :: u8 where "KEY_RightShift = 0x36"

text \<open>What one scan code does to \<^verbatim>\<open>shift_pressed\<close>, and the character it stands for;
  \<open>None\<close> for a shift key and for a release.\<close>

definition decode_scan :: "bool \<Rightarrow> u8 \<Rightarrow> u8 option \<times> bool" where
  "decode_scan shift_pressed scancode =
     (if scancode = KEY_LeftShift \<or> scancode = KEY_RightShift then (None, True)
      else if scancode = KEY_LeftShift OR 0x80 \<or> scancode = KEY_RightShift OR 0x80 then (None, False)
      else if scancode AND 0x80 \<noteq> 0 then (None, shift_pressed)
      else (Some ((if shift_pressed then scan_to_ascii_1 else scan_to_ascii) ! unat scancode), shift_pressed))"

definition kbhit :: "'d hw \<Rightarrow> 'd \<Rightarrow> bool \<times> 'd" where
  "kbhit hw d = (let (b, d) = inb hw 0x64 d in (b AND 0x01 \<noteq> 0, d))"

partial_function (option) read_scan_code :: "'d hw \<Rightarrow> 'd \<Rightarrow> (u8 \<times> 'd) option" where
  "read_scan_code hw d =
     (let (hit, d) = kbhit hw d in if hit then Some (inb hw 0x60 d) else read_scan_code hw d)"

text \<open>\<^verbatim>\<open>_getkey\<close> and \<^verbatim>\<open>_getkey_noblock\<close>, with the shift state.\<close>

partial_function (option) poll_key :: "'d hw \<Rightarrow> bool \<Rightarrow> 'd \<Rightarrow> (u8 \<times> bool \<times> 'd) option" where
  "poll_key hw sh d = do {
     (code, d) \<leftarrow> read_scan_code hw d;
     case decode_scan sh code of
       (None, sh) \<Rightarrow> poll_key hw sh d
     | (Some c, sh) \<Rightarrow> Some (c, sh, d) }"

definition poll_key_noblock :: "'d hw \<Rightarrow> bool \<Rightarrow> 'd \<Rightarrow> u8 \<times> bool \<times> 'd" where
  "poll_key_noblock hw sh d =
     (let (code, d) = inb hw 0x60 d; (c, sh) = decode_scan sh code
      in (case c of None \<Rightarrow> 0 | Some c \<Rightarrow> c, sh, d))"

section \<open>Ring buffer\<close>

definition KEYBOARD_BUFFER_SIZE :: nat where "KEYBOARD_BUFFER_SIZE = 256"

record keyboard =
  kb_buffer :: "u8 list"
  write_index :: nat
  read_index :: nat
  kb_count :: nat

definition kb_put :: "keyboard \<Rightarrow> u8 \<Rightarrow> keyboard" where
  "kb_put kb key =
     (if kb_count kb < KEYBOARD_BUFFER_SIZE
      then kb\<lparr>kb_buffer := (kb_buffer kb)[write_index kb := key],
              write_index := (write_index kb + 1) mod KEYBOARD_BUFFER_SIZE, kb_count := kb_count kb + 1\<rparr>
      else kb)"

definition kb_take :: "keyboard \<Rightarrow> u8 \<times> keyboard" where
  "kb_take kb =
     (kb_buffer kb ! read_index kb,
      kb\<lparr>kb_buffer := (kb_buffer kb)[read_index kb := 0],
         read_index := (read_index kb + 1) mod KEYBOARD_BUFFER_SIZE, kb_count := kb_count kb - 1\<rparr>)"

text \<open>\<open>None\<close>: the call waits for the interrupt that brings a key.\<close>

definition GetKey :: "keyboard \<Rightarrow> (u8 \<times> keyboard) option" where
  "GetKey kb = (if kb_count kb = 0 then None else Some (kb_take kb))"

definition GetKey_NoBlock :: "keyboard \<Rightarrow> u8 \<times> keyboard" where
  "GetKey_NoBlock kb = (if kb_count kb \<noteq> 0 then kb_take kb else (0, kb))"

definition irq_1 :: "'d hw \<Rightarrow> bool \<Rightarrow> keyboard \<Rightarrow> 'd \<Rightarrow> bool \<times> keyboard \<times> 'd" where
  "irq_1 hw sh kb d =
     (let (key, sh, d) = poll_key_noblock hw sh d;
          kb = (if key \<noteq> 0 then kb_put kb key else kb)
      in (sh, kb, outb hw 0x20 0x20 d))"

section \<open>The contract\<close>

locale type_ahead =
  fixes holds :: "'s \<Rightarrow> u8 list \<Rightarrow> bool" and cap :: nat
    and put :: "'s \<Rightarrow> u8 \<Rightarrow> 's" and get :: "'s \<Rightarrow> u8 \<times> 's"
  assumes bounded: "holds s ks \<Longrightarrow> length ks \<le> cap"
    and put_room: "holds s ks \<Longrightarrow> length ks < cap \<Longrightarrow> holds (put s k) (ks @ [k])"
    and put_full: "holds s ks \<Longrightarrow> length ks = cap \<Longrightarrow> put s k = s"
    and get_first: "holds s (k # ks) \<Longrightarrow> fst (get s) = k \<and> holds (snd (get s)) ks"
begin

fun read_keys :: "nat \<Rightarrow> 's \<Rightarrow> u8 list" where
  "read_keys 0 s = []"
| "read_keys (Suc n) s = (let (k, s) = get s in k # read_keys n s)"

lemma read_all: "holds s ks \<Longrightarrow> read_keys (length ks) s = ks"
proof (induction ks arbitrary: s)
  case (Cons k ks)
  then show ?case using get_first [OF Cons.prems] by (simp add: case_prod_unfold Let_def)
qed simp

text \<open>Keys beyond the capacity are lost, the others are kept in order.\<close>

lemma typed: "holds s ks \<Longrightarrow> holds (fold (\<lambda>k s. put s k) ts s) (take cap (ks @ ts))"
proof (induction ts arbitrary: s ks)
  case Nil
  then show ?case using bounded [OF Nil] by simp
next
  case (Cons t ts)
  show ?case
  proof (cases "length ks < cap")
    case True
    then show ?thesis using Cons.IH [OF put_room [OF Cons.prems True], of t] by simp
  next
    case False
    then have l: "length ks = cap" using bounded [OF Cons.prems] by simp
    then show ?thesis using Cons.IH [OF Cons.prems] put_full [OF Cons.prems l] by simp
  qed
qed

end

text \<open>The keys in the ring: \<open>kb_count\<close> of them from \<open>read_index\<close> on.\<close>

definition ring_holds :: "keyboard \<Rightarrow> u8 list \<Rightarrow> bool" where
  "ring_holds kb ks \<longleftrightarrow>
     length (kb_buffer kb) = KEYBOARD_BUFFER_SIZE \<and> read_index kb < KEYBOARD_BUFFER_SIZE \<and>
     kb_count kb = length ks \<and> length ks \<le> KEYBOARD_BUFFER_SIZE \<and>
     write_index kb = (read_index kb + length ks) mod KEYBOARD_BUFFER_SIZE \<and>
     (\<forall>i < length ks. kb_buffer kb ! ((read_index kb + i) mod KEYBOARD_BUFFER_SIZE) = ks ! i)"

lemma ring_slots: "r < n \<Longrightarrow> i < n \<Longrightarrow> j < n \<Longrightarrow> i \<noteq> j \<Longrightarrow> (r + i) mod n \<noteq> (r + j) mod (n :: nat)"
proof -
  have m: "(r + i) mod n = (if r + i < n then r + i else r + i - n)" if "r < n" "i < n" for i
    using that by (simp add: le_mod_geq)
  show "r < n \<Longrightarrow> i < n \<Longrightarrow> j < n \<Longrightarrow> i \<noteq> j \<Longrightarrow> (r + i) mod n \<noteq> (r + j) mod n"
    by (auto simp: m)
qed

lemma ring_put:
  assumes "ring_holds kb ks" "length ks < KEYBOARD_BUFFER_SIZE"
  shows "ring_holds (kb_put kb k) (ks @ [k])"
proof -
  let ?n = KEYBOARD_BUFFER_SIZE
  have "(kb_buffer kb)[write_index kb := k] ! ((read_index kb + i) mod ?n) = (ks @ [k]) ! i"
    if "i < Suc (length ks)" for i
  proof (cases "i = length ks")
    case False
    then have "(read_index kb + length ks) mod ?n \<noteq> (read_index kb + i) mod ?n"
      using assms that by (intro ring_slots) (auto simp: ring_holds_def)
    then show ?thesis using assms that False by (auto simp: ring_holds_def nth_append)
  qed (use assms in \<open>auto simp: ring_holds_def KEYBOARD_BUFFER_SIZE_def\<close>)
  then show ?thesis
    using assms by (auto simp: ring_holds_def kb_put_def mod_Suc_eq)
qed

lemma ring_take:
  assumes "ring_holds kb (k # ks)"
  shows "fst (kb_take kb) = k \<and> ring_holds (snd (kb_take kb)) ks"
proof -
  let ?n = KEYBOARD_BUFFER_SIZE
  have h: "(\<forall>i < Suc (length ks). kb_buffer kb ! ((read_index kb + i) mod ?n) = (k # ks) ! i)"
    "length ks < ?n" "read_index kb < ?n" "length (kb_buffer kb) = ?n"
    using assms by (auto simp: ring_holds_def)
  have "(kb_buffer kb)[read_index kb := 0] ! (((read_index kb + 1) mod ?n + i) mod ?n) = ks ! i" if "i < length ks" for i
  proof -
    have "(read_index kb + 0) mod ?n \<noteq> (read_index kb + Suc i) mod ?n"
      using h that by (intro ring_slots) auto
    then show ?thesis using h that by (auto simp: mod_add_left_eq mod_Suc_eq)
  qed
  then show ?thesis
    using assms h(1) [rule_format, of 0] by (auto simp: ring_holds_def kb_take_def mod_add_left_eq KEYBOARD_BUFFER_SIZE_def)
qed

interpretation kb: type_ahead ring_holds KEYBOARD_BUFFER_SIZE kb_put kb_take
proof
  show "ring_holds s ks \<Longrightarrow> length ks \<le> KEYBOARD_BUFFER_SIZE" for s ks by (simp add: ring_holds_def)
  show "ring_holds s ks \<Longrightarrow> length ks = KEYBOARD_BUFFER_SIZE \<Longrightarrow> kb_put s k = s" for s ks k
    by (simp add: ring_holds_def kb_put_def)
qed (rule ring_put ring_take; assumption)+

section \<open>Properties\<close>

definition demo_keyboard :: keyboard where
  "demo_keyboard = \<lparr>kb_buffer = replicate 256 0, write_index = 254, read_index = 254, kb_count = 0\<rparr>"

lemma demo_keyboard: "ring_holds demo_keyboard []"
  by (simp add: ring_holds_def demo_keyboard_def KEYBOARD_BUFFER_SIZE_def)

text \<open>C38: the keyboard buffer is a bounded queue: whatever is typed while \<open>ks\<close> are waiting, the
  keys are read in the order typed, wherever the indices stand, and only those beyond 256 are
  lost.\<close>

theorem keyboard_buffer_fifo:
  "ring_holds kb ks \<Longrightarrow>
   kb.read_keys (length (take KEYBOARD_BUFFER_SIZE (ks @ ts))) (fold (\<lambda>k kb. kb_put kb k) ts kb) =
     take KEYBOARD_BUFFER_SIZE (ks @ ts)"
  by (rule kb.read_all [OF kb.typed])

lemma keyboard_buffer_fifo_witness:
  "kb.read_keys 4 (fold (\<lambda>k kb. kb_put kb k) [104, 105, 33, 10] demo_keyboard) = [104, 105, 33, 10]"
  using keyboard_buffer_fifo [OF demo_keyboard, of "[104, 105, 33, 10]"]
  by (simp add: KEYBOARD_BUFFER_SIZE_def numeral_eq_Suc del: kb.read_keys.simps)

end
