(* ===== verification/Fat.thy ===== *)
theory Fat
  imports KString "HOL-Library.Monad_Syntax"
begin

text \<open>
  The FAT32 file system, \<^verbatim>\<open>Kernel/fs/fat32.c\<close>, part 1: the boot sector, short names, the file
  allocation table and the allocation of clusters.  The disk is a parameter: the record \<open>disk_io\<close>
  holds the three driver calls the code makes, each on a state \<open>'d\<close>; a call that never returns
  is \<open>None\<close>.  The local sector and cluster arrays of the code start as zeros.
\<close>

section \<open>Disk and volume\<close>

text \<open>\<open>read m lba n buf d\<close>: read \<open>n\<close> sectors from \<open>lba\<close> of the master (\<open>m\<close>) or slave drive into
  \<open>buf\<close>; a negative code is an error.\<close>

record 'd disk_io =
  d_read :: "bool \<Rightarrow> u64 \<Rightarrow> u16 \<Rightarrow> u8 list \<Rightarrow> 'd \<Rightarrow> (int \<times> u8 list \<times> 'd) option"
  d_write :: "bool \<Rightarrow> u64 \<Rightarrow> u16 \<Rightarrow> u8 list \<Rightarrow> 'd \<Rightarrow> (int \<times> 'd) option"
  d_flush :: "bool \<Rightarrow> 'd \<Rightarrow> 'd option"

text \<open>The disk and partition descriptors a call gets: \<^verbatim>\<open>Disk->is_master\<close> and
  \<^verbatim>\<open>Partition->starting_lba\<close>.\<close>

record 'd volume = "'d disk_io" +
  v_master :: bool
  v_start :: u64

record fat32_info =
  bytes_per_sector :: u16
  sectors_per_cluster :: u8
  reserved_sectors :: u16
  num_fats :: u8
  sectors_per_fat :: u32
  root_cluster :: u32
  fsinfo_sector :: u16
  backup_boot_sector :: u16
  fat_region_lba :: u32
  data_region_lba :: u32
  fi_total_sectors :: u32
  total_clusters :: u32
  free_clusters :: u32
  next_free_cluster :: u32
  volume_label :: "u8 list"
  volume_id :: u32

definition FAT32_ENTRY_FREE :: u32 where "FAT32_ENTRY_FREE = 0"
definition FAT32_ENTRY_EOF :: u32 where "FAT32_ENTRY_EOF = 0x0FFFFFF8"

section \<open>Little-endian fields\<close>

definition read_le16 :: "u8 list \<Rightarrow> nat \<Rightarrow> u16" where
  "read_le16 buf off = le16 (buf ! off) (buf ! (off + 1))"

definition read_le32 :: "u8 list \<Rightarrow> nat \<Rightarrow> u32" where
  "read_le32 buf off = le32 (buf ! off) (buf ! (off + 1)) (buf ! (off + 2)) (buf ! (off + 3))"

definition write_le16 :: "u8 list \<Rightarrow> nat \<Rightarrow> u16 \<Rightarrow> u8 list" where
  "write_le16 buf off v = buf[off := byte_at 0 v, off + 1 := byte_at 8 v]"

definition write_le32 :: "u8 list \<Rightarrow> nat \<Rightarrow> u32 \<Rightarrow> u8 list" where
  "write_le32 buf off v = buf[off := byte_at 0 v, off + 1 := byte_at 8 v, off + 2 := byte_at 16 v, off + 3 := byte_at 24 v]"

section \<open>Boot sector\<close>

definition check_DBR :: "u8 list \<Rightarrow> bool" where
  "check_DBR b \<longleftrightarrow>
     b ! 0x1FE = 0x55 \<and> b ! 0x1FF = 0xAA \<and> read_le16 b 11 = 512 \<and>
     b ! 13 \<noteq> 0 \<and> b ! 13 AND (b ! 13 - 1) = 0 \<and>
     (ucast (b ! 13) :: u32) * ucast (read_le16 b 11) \<le> 32 * 1024 \<and>
     read_le16 b 14 > 1 \<and> read_le32 b 36 \<noteq> 0"

text \<open>Trailing blanks and zeros of the label, from index \<open>n - 1\<close> down.\<close>

fun trim_label :: "u8 list \<Rightarrow> nat \<Rightarrow> u8 list" where
  "trim_label l 0 = l"
| "trim_label l (Suc n) =
     (if l ! n = 32 then trim_label (l[n := 0]) n else if l ! n \<noteq> 0 then l else trim_label l n)"

definition parse_bpb :: "u8 list \<Rightarrow> fat32_info" where
  "parse_bpb b =
     (let reserved = read_le16 b 14; fats = b ! 16; spf = read_le32 b 36; total = read_le32 b 32;
          region = ucast reserved + ucast fats * spf
      in \<lparr>bytes_per_sector = read_le16 b 11, sectors_per_cluster = b ! 13, reserved_sectors = reserved,
          num_fats = fats, sectors_per_fat = spf, root_cluster = read_le32 b 44,
          fsinfo_sector = read_le16 b 48, backup_boot_sector = read_le16 b 50,
          fat_region_lba = ucast reserved, data_region_lba = region, fi_total_sectors = total,
          total_clusters = (total - region) div ucast (b ! 13),
          free_clusters = 0xFFFFFFFF, next_free_cluster = 0xFFFFFFFF,
          volume_label = trim_label (take 11 (drop 71 b) @ [0]) 11, volume_id = read_le32 b 67\<rparr>)"

text \<open>The status and, when it is 0, the information.  The calls for single sectors pass the
  address of \<^verbatim>\<open>is_master\<close>, which is always true as a \<^verbatim>\<open>_Bool\<close>.\<close>

definition FAT32_GetInfo :: "'d volume \<Rightarrow> 'd \<Rightarrow> (u32 \<times> fat32_info option \<times> 'd) option" where
  "FAT32_GetInfo v d = do {
     (rr, b, d) \<leftarrow> d_read v True (v_start v) 1 (replicate 512 0) d;
     if rr < 0 then Some (1, None, d)
     else if \<not> check_DBR b then Some (1, None, d)
     else do {
       let info = parse_bpb b;
       (rr, b, d) \<leftarrow> d_read v True (v_start v + ucast (fsinfo_sector info)) 1 b d;
       Some (0,
         Some (if 0 \<le> rr \<and> memcmp b (bytes ''RRaA'') 4 = 0 \<and> memcmp (drop 0x1E4 b) (bytes ''rrAa'') 4 = 0
               then info\<lparr>free_clusters := read_le32 b 0x1E8, next_free_cluster := read_le32 b 0x1EC\<rparr>
               else info), d) } }"

section \<open>Short names\<close>

text \<open>The index of the last dot.\<close>

fun last_dot :: "u8 list \<Rightarrow> nat \<Rightarrow> nat option \<Rightarrow> nat option" where
  "last_dot [] i r = r"
| "last_dot (c # s) i r = last_dot s (i + 1) (if c = 46 then Some i else r)"

definition upper :: "u8 \<Rightarrow> u8" where
  "upper c = (if 97 \<le> c \<and> c \<le> 122 then c - 97 + 65 else c)"

definition pad :: "nat \<Rightarrow> u8 list \<Rightarrow> u8 list" where
  "pad n s = take n s @ replicate (n - length s) 32"

definition name_to_83 :: "u8 list \<Rightarrow> u8 list" where
  "name_to_83 name =
     map upper
       (case last_dot name 0 None of
          Some i \<Rightarrow> pad 8 (take i name) @ pad 3 (drop (i + 1) name)
        | None \<Rightarrow> pad 8 name @ replicate 3 32)"

section \<open>Clusters and the allocation table\<close>

definition cluster_size :: "fat32_info \<Rightarrow> nat" where
  "cluster_size info = unat (bytes_per_sector info) * unat (sectors_per_cluster info)"

definition FAT32_ClusterToLBA :: "fat32_info \<Rightarrow> u32 \<Rightarrow> u64" where
  "FAT32_ClusterToLBA info cluster =
     ucast (data_region_lba info) + ucast (cluster - 2) * ucast (sectors_per_cluster info)"

definition fat_sector :: "fat32_info \<Rightarrow> u32 \<Rightarrow> u64" where
  "fat_sector info cluster = (ucast cluster * 4) div ucast (bytes_per_sector info)"

definition sector_offset :: "fat32_info \<Rightarrow> u32 \<Rightarrow> nat" where
  "sector_offset info cluster = unat ((ucast cluster * 4 :: u64) mod ucast (bytes_per_sector info))"

definition FAT32_NextCluster :: "'d volume \<Rightarrow> fat32_info \<Rightarrow> u32 \<Rightarrow> 'd \<Rightarrow> (u32 \<times> u32 \<times> 'd) option" where
  "FAT32_NextCluster v info cluster d = do {
     let abs_lba = v_start v + ucast (fat_region_lba info) + fat_sector info cluster;
     (rr, b, d) \<leftarrow> d_read v True abs_lba 1 (replicate 512 0) d;
     if rr < 0 then Some (1, cluster, d)
     else Some (0, read_le32 b (sector_offset info cluster) AND 0x0FFFFFFF, d) }"

definition FAT32_ReadCluster :: "'d volume \<Rightarrow> fat32_info \<Rightarrow> u32 \<Rightarrow> u8 list \<Rightarrow> 'd \<Rightarrow> (u32 \<times> u8 list \<times> 'd) option" where
  "FAT32_ReadCluster v info cluster buf d = do {
     (rr, b, d) \<leftarrow> d_read v (v_master v) (v_start v + FAT32_ClusterToLBA info cluster)
                     (ucast (sectors_per_cluster info)) buf d;
     Some (if rr < 0 then 1 else 0, b, d) }"

definition FAT32_WriteCluster :: "'d volume \<Rightarrow> fat32_info \<Rightarrow> u32 \<Rightarrow> u8 list \<Rightarrow> 'd \<Rightarrow> (u32 \<times> 'd) option" where
  "FAT32_WriteCluster v info cluster buf d = do {
     (a, d) \<leftarrow> d_write v (v_master v) (v_start v + FAT32_ClusterToLBA info cluster)
                 (ucast (sectors_per_cluster info)) buf d;
     if a < 0 then Some (1, d)
     else do { d \<leftarrow> d_flush v (v_master v) d; Some (0, d) } }"

text \<open>The loop over the copies of the table, the first \<open>i\<close> of them done.\<close>

fun write_fats :: "'d volume \<Rightarrow> fat32_info \<Rightarrow> u32 \<Rightarrow> u32 \<Rightarrow> nat list \<Rightarrow> 'd \<Rightarrow> (u32 \<times> 'd) option" where
  "write_fats v info cluster val [] d = Some (0, d)"
| "write_fats v info cluster val (i # is) d = do {
     let abs_lba = v_start v + ucast (fat_region_lba info) + of_nat i * ucast (sectors_per_fat info) +
                   fat_sector info cluster;
     (rr, b, d) \<leftarrow> d_read v True abs_lba 1 (replicate 512 0) d;
     if rr < 0 then Some (1, d)
     else do {
       (rr, d) \<leftarrow> d_write v True abs_lba 1 (write_le32 b (sector_offset info cluster) val) d;
       if rr < 0 then Some (1, d) else write_fats v info cluster val is d } }"

definition FAT32_WriteFATEntry :: "'d volume \<Rightarrow> fat32_info \<Rightarrow> u32 \<Rightarrow> u32 \<Rightarrow> 'd \<Rightarrow> (u32 \<times> 'd) option" where
  "FAT32_WriteFATEntry v info cluster val d = do {
     (st, d) \<leftarrow> write_fats v info cluster val [0..<unat (num_fats info)] d;
     if st \<noteq> 0 then Some (1, d) else do { d \<leftarrow> d_flush v True d; Some (0, d) } }"

text \<open>The loop of \<^verbatim>\<open>FAT32_AllocCluster\<close>: the cluster, 0 for none, and the updated
  information.\<close>

partial_function (option) alloc_loop ::
  "'d volume \<Rightarrow> fat32_info \<Rightarrow> u32 \<Rightarrow> u32 \<Rightarrow> 'd \<Rightarrow> (u32 \<times> fat32_info \<times> 'd) option" where
  "alloc_loop v info start cluster d =
     Option.bind (d_read v True (v_start v + ucast (fat_region_lba info) + fat_sector info cluster) 1
                    (replicate 512 0) d) (\<lambda>(rr, b, d).
       if rr < 0 then Some (0, info, d)
       else if read_le32 b (sector_offset info cluster) AND 0x0FFFFFFF = FAT32_ENTRY_FREE
       then Option.bind (FAT32_WriteFATEntry v info cluster FAT32_ENTRY_EOF d) (\<lambda>(st, d).
              if st \<noteq> 0 then Some (0, info, d)
              else let info = (if free_clusters info \<noteq> 0xFFFFFFFF \<and> 0 < free_clusters info
                               then info\<lparr>free_clusters := free_clusters info - 1\<rparr> else info)
                   in Some (cluster, info\<lparr>next_free_cluster := cluster + 1\<rparr>, d))
       else let cluster = cluster + 1;
                cluster = (if total_clusters info + 2 \<le> cluster then 2 else cluster)
            in if cluster = start then Some (0, info, d) else alloc_loop v info start cluster d)"

definition FAT32_AllocCluster :: "'d volume \<Rightarrow> fat32_info \<Rightarrow> 'd \<Rightarrow> (u32 \<times> fat32_info \<times> 'd) option" where
  "FAT32_AllocCluster v info d =
     (let start = (if next_free_cluster info \<noteq> 0xFFFFFFFF \<and> 2 \<le> next_free_cluster info
                   then next_free_cluster info else 2)
      in alloc_loop v info start start d)"

partial_function (option) FAT32_FreeClusterChain ::
  "'d volume \<Rightarrow> fat32_info \<Rightarrow> u32 \<Rightarrow> 'd \<Rightarrow> (u32 \<times> fat32_info \<times> 'd) option" where
  "FAT32_FreeClusterChain v info cluster d =
     (if 2 \<le> cluster \<and> cluster < FAT32_ENTRY_EOF
      then Option.bind (FAT32_NextCluster v info cluster d) (\<lambda>(st, nxt, d).
           if st \<noteq> 0 then Some (1, info, d)
           else Option.bind (FAT32_WriteFATEntry v info cluster FAT32_ENTRY_FREE d) (\<lambda>(st, d).
             if st \<noteq> 0 then Some (1, info, d)
             else let info = (if free_clusters info \<noteq> 0xFFFFFFFF
                              then info\<lparr>free_clusters := free_clusters info + 1\<rparr> else info)
                  in if FAT32_ENTRY_EOF \<le> nxt then Some (0, info, d)
                     else FAT32_FreeClusterChain v info nxt d))
      else Some (0, info, d))"

end
