(* ===== verification/Ata.thy ===== *)
theory Ata
  imports Hw Fat
begin

text \<open>
  The ATA driver, \<^verbatim>\<open>Kernel/drives/ata.c\<close>, on the ports of \<open>Hw\<close>.  \<open>None\<close> is a wait that never ends, or
  an access past the end of the caller's buffer.
\<close>

section \<open>Channels\<close>

record ata_channel =
  data_port :: u16
  error_port :: u16
  sector_count :: u16
  lba_lo :: u16
  lba_mid :: u16
  lba_hi :: u16
  drive_port :: u16
  command_port :: u16
  alt_status_port :: u16

definition ATA_Init_Channel :: "bool \<Rightarrow> ata_channel" where
  "ATA_Init_Channel is_primary =
     (if is_primary
      then \<lparr>data_port = 0x1F0, error_port = 0x1F1, sector_count = 0x1F2, lba_lo = 0x1F3, lba_mid = 0x1F4,
            lba_hi = 0x1F5, drive_port = 0x1F6, command_port = 0x1F7, alt_status_port = 0x3F6\<rparr>
      else \<lparr>data_port = 0x170, error_port = 0x171, sector_count = 0x172, lba_lo = 0x173, lba_mid = 0x174,
            lba_hi = 0x175, drive_port = 0x176, command_port = 0x177, alt_status_port = 0x376\<rparr>)"

definition ATA_SR_BSY :: u8 where "ATA_SR_BSY = 0x80"
definition ATA_SR_DRQ :: u8 where "ATA_SR_DRQ = 0x08"
definition ATA_SR_ERR :: u8 where "ATA_SR_ERR = 0x01"

section \<open>Waiting\<close>

definition timeout_cycles :: "'d hw \<Rightarrow> u32 \<Rightarrow> u64" where
  "timeout_cycles hw timeout = ucast timeout * (SYSTEM_CPU_Frequency hw div 1000)"

partial_function (option) busy_loop :: "'d hw \<Rightarrow> ata_channel \<Rightarrow> u64 \<Rightarrow> u64 \<Rightarrow> 'd \<Rightarrow> (int \<times> 'd) option" where
  "busy_loop hw ch cycles start_tsc d =
     (let (st, d) = inb hw (alt_status_port ch) d
      in if st AND ATA_SR_BSY \<noteq> 0
         then let (t, d) = rdtsc hw d
              in if cycles < t - start_tsc then Some (-1, d) else busy_loop hw ch cycles start_tsc d
         else Some (0, d))"

definition ATA_Wait_Busy :: "'d hw \<Rightarrow> ata_channel \<Rightarrow> u32 \<Rightarrow> 'd \<Rightarrow> (int \<times> 'd) option" where
  "ATA_Wait_Busy hw ch timeout d =
     (let (start_tsc, d) = rdtsc hw d in busy_loop hw ch (timeout_cycles hw timeout) start_tsc d)"

partial_function (option) drq_loop :: "'d hw \<Rightarrow> ata_channel \<Rightarrow> u64 \<Rightarrow> u64 \<Rightarrow> 'd \<Rightarrow> (int \<times> 'd) option" where
  "drq_loop hw ch cycles start_tsc d =
     (let (st, d) = inb hw (alt_status_port ch) d
      in if st AND ATA_SR_BSY \<noteq> 0
         then let (t, d) = rdtsc hw d
              in if cycles < t - start_tsc then Some (-1, d) else drq_loop hw ch cycles start_tsc d
         else if st AND ATA_SR_ERR \<noteq> 0 then Some (-2, d)
         else if st AND ATA_SR_DRQ \<noteq> 0 then Some (0, d)
         else let (t, d) = rdtsc hw d
              in if cycles < t - start_tsc then Some (-3, d) else drq_loop hw ch cycles start_tsc d)"

definition ATA_Wait_DRP :: "'d hw \<Rightarrow> ata_channel \<Rightarrow> u32 \<Rightarrow> 'd \<Rightarrow> (int \<times> 'd) option" where
  "ATA_Wait_DRP hw ch timeout d =
     (let (start_tsc, d) = rdtsc hw d in drq_loop hw ch (timeout_cycles hw timeout) start_tsc d)"

section \<open>Commands\<close>

definition drive_lba28 :: "bool \<Rightarrow> u32 \<Rightarrow> u8" where
  "drive_lba28 m lba = ucast ((0xE0 OR (if m then 0 else 0x10) OR (drop_bit 24 lba AND 0x0F)) :: u32)"

definition drive_lba48 :: "bool \<Rightarrow> u8" where
  "drive_lba48 m = 0x40 OR (if m then 0 else 0x10)"

text \<open>Reading and writing send the same registers and differ in the command byte alone; the number
  of sectors is the number after the check for 0.\<close>

definition lba28_cmd ::
  "'d hw \<Rightarrow> ata_channel \<Rightarrow> bool \<Rightarrow> u8 \<Rightarrow> u32 \<Rightarrow> u16 \<Rightarrow> 'd \<Rightarrow> (int \<times> 'd) option" where
  "lba28_cmd hw ch m cmd lba n d =
     (let n = (if n = 0 then 256 else n)
      in if 0x0FFFFFFF < lba then Some (-4, d)
         else do {
           d \<leftarrow> delay_ms hw 1 (outb hw (drive_port ch) (drive_lba28 m lba) d);
           (r, d) \<leftarrow> ATA_Wait_Busy hw ch 5000 d;
           if r \<noteq> 0 then Some (-2, d)
           else let d = outb hw (sector_count ch) (byte_at 0 n) d;
                    d = outb hw (lba_lo ch) (byte_at 0 lba) d;
                    d = outb hw (lba_mid ch) (byte_at 8 lba) d;
                    d = outb hw (lba_hi ch) (byte_at 16 lba) d;
                    d = outb hw (drive_port ch) (drive_lba28 m lba) d
                in Some (0, outb hw (command_port ch) cmd d) })"

definition lba48_cmd ::
  "'d hw \<Rightarrow> ata_channel \<Rightarrow> bool \<Rightarrow> u8 \<Rightarrow> u64 \<Rightarrow> u16 \<Rightarrow> 'd \<Rightarrow> (int \<times> 'd) option" where
  "lba48_cmd hw ch m cmd lba n d =
     (let n = (if n = 0 then of_nat 65536 else n)
      in if 0x0000FFFFFFFFFFFF < lba then Some (-4, d)
         else do {
           d \<leftarrow> delay_ms hw 1 (outb hw (drive_port ch) (drive_lba48 m) d);
           (r, d) \<leftarrow> ATA_Wait_Busy hw ch 5000 d;
           if r \<noteq> 0 then Some (-2, d)
           else let d = outb hw (sector_count ch) (byte_at 8 n) d;
                    d = outb hw (lba_lo ch) (byte_at 24 lba) d;
                    d = outb hw (lba_mid ch) (byte_at 32 lba) d;
                    d = outb hw (lba_hi ch) (byte_at 40 lba) d;
                    d = outb hw (sector_count ch) (byte_at 0 n) d;
                    d = outb hw (lba_lo ch) (byte_at 0 lba) d;
                    d = outb hw (lba_mid ch) (byte_at 8 lba) d;
                    d = outb hw (lba_hi ch) (byte_at 16 lba) d
                in Some (0, outb hw (command_port ch) cmd d) })"

definition ATA_Read_LBA28_cmd where "ATA_Read_LBA28_cmd hw ch m = lba28_cmd hw ch m 0x20"
definition ATA_Read_LBA48_cmd where "ATA_Read_LBA48_cmd hw ch m = lba48_cmd hw ch m 0x24"
definition ATA_Write_LBA28_cmd where "ATA_Write_LBA28_cmd hw ch m = lba28_cmd hw ch m 0x30"
definition ATA_Write_LBA48_cmd where "ATA_Write_LBA48_cmd hw ch m = lba48_cmd hw ch m 0x34"

section \<open>Transfers\<close>

fun in_words :: "'d hw \<Rightarrow> u16 \<Rightarrow> nat \<Rightarrow> 'd \<Rightarrow> u16 list \<times> 'd" where
  "in_words hw port 0 d = ([], d)"
| "in_words hw port (Suc n) d = (let (w, d) = inw hw port d; (ws, d) = in_words hw port n d in (w # ws, d))"

fun out_words :: "'d hw \<Rightarrow> u16 \<Rightarrow> u16 list \<Rightarrow> 'd \<Rightarrow> 'd" where
  "out_words hw port [] d = d"
| "out_words hw port (w # ws) d = out_words hw port ws (outw hw port w d)"

definition words_bytes :: "u16 list \<Rightarrow> u8 list" where
  "words_bytes ws = concat (map (\<lambda>w. [byte_at 0 w, byte_at 8 w]) ws)"

definition bytes_words :: "u8 list \<Rightarrow> u16 list" where
  "bytes_words bs = map (\<lambda>i. read_le16 bs (2 * i)) [0..<length bs div 2]"

text \<open>The loop of \<^verbatim>\<open>Read_Sector\<close> with \<open>k\<close> sectors done and \<open>n\<close> to go.\<close>

fun read_sectors :: "'d hw \<Rightarrow> ata_channel \<Rightarrow> nat \<Rightarrow> nat \<Rightarrow> u8 list \<Rightarrow> 'd \<Rightarrow> (int \<times> u8 list \<times> 'd) option" where
  "read_sectors hw ch k 0 buf d = Some (int k, buf, d)"
| "read_sectors hw ch k (Suc n) buf d = do {
     (r, d) \<leftarrow> ATA_Wait_Busy hw ch 30000 d;
     if r \<noteq> 0 then Some (- (5 + int k), buf, d)
     else do {
       let (st, d) = inb hw (alt_status_port ch) d;
       if st AND ATA_SR_ERR \<noteq> 0 then Some (- (10 + int k), buf, d)
       else do {
         (r, d) \<leftarrow> ATA_Wait_DRP hw ch 30000 d;
         if r \<noteq> 0 then Some (- (20 + int k), buf, d)
         else do {
           let (ws, d) = in_words hw (data_port ch) 256 d;
           buf \<leftarrow> put_bytes buf (512 * k) (words_bytes ws);
           read_sectors hw ch (k + 1) n buf d } } } }"

definition Read_Sector :: "'d hw \<Rightarrow> ata_channel \<Rightarrow> u16 \<Rightarrow> u8 list \<Rightarrow> 'd \<Rightarrow> (int \<times> u8 list \<times> 'd) option" where
  "Read_Sector hw ch n buf d = read_sectors hw ch 0 (unat n) buf d"

definition use_lba28 :: "u64 \<Rightarrow> u16 \<Rightarrow> bool" where
  "use_lba28 lba n \<longleftrightarrow> lba < 0x0FFFFFFF \<and> n \<le> 256 \<and> 0 < n"

definition ATA_Read :: "'d hw \<Rightarrow> ata_channel \<Rightarrow> bool \<Rightarrow> u64 \<Rightarrow> u16 \<Rightarrow> u8 list \<Rightarrow> 'd \<Rightarrow> (int \<times> u8 list \<times> 'd) option" where
  "ATA_Read hw ch m lba n buf d = do {
     (r, d) \<leftarrow> (if use_lba28 lba n then ATA_Read_LBA28_cmd hw ch m (ucast lba) n d
               else ATA_Read_LBA48_cmd hw ch m lba n d);
     if r = 0 then Read_Sector hw ch n buf d else Some (r, buf, d) }"

fun write_sectors :: "'d hw \<Rightarrow> ata_channel \<Rightarrow> nat \<Rightarrow> nat \<Rightarrow> u8 list \<Rightarrow> 'd \<Rightarrow> (int \<times> 'd) option" where
  "write_sectors hw ch k 0 buf d = Some (int k, d)"
| "write_sectors hw ch k (Suc n) buf d = do {
     (r, d) \<leftarrow> ATA_Wait_DRP hw ch 30000 d;
     if r < 0 then Some (- (20 + int k), d)
     else do {
       part \<leftarrow> get_bytes buf (512 * k) 512;
       let d = out_words hw (data_port ch) (bytes_words part) d;
       (r, d) \<leftarrow> ATA_Wait_Busy hw ch 30000 d;
       if r \<noteq> 0 then Some (- (5 + int k), d)
       else do {
         let (st, d) = inb hw (alt_status_port ch) d;
         if st AND ATA_SR_ERR \<noteq> 0 then Some (- (10 + int k), d)
         else write_sectors hw ch (k + 1) n buf d } } }"

definition Write_Sector :: "'d hw \<Rightarrow> ata_channel \<Rightarrow> u16 \<Rightarrow> u8 list \<Rightarrow> 'd \<Rightarrow> (int \<times> 'd) option" where
  "Write_Sector hw ch n buf d = write_sectors hw ch 0 (unat n) buf d"

definition ATA_Write :: "'d hw \<Rightarrow> ata_channel \<Rightarrow> bool \<Rightarrow> u64 \<Rightarrow> u16 \<Rightarrow> u8 list \<Rightarrow> 'd \<Rightarrow> (int \<times> 'd) option" where
  "ATA_Write hw ch m lba n buf d = do {
     (r, d) \<leftarrow> (if use_lba28 lba n then ATA_Write_LBA28_cmd hw ch m (ucast lba) n d
               else ATA_Write_LBA48_cmd hw ch m lba n d);
     if r \<noteq> 0 then Some (r, d) else Write_Sector hw ch n buf d }"

definition ATA_Flush_Cache :: "'d hw \<Rightarrow> ata_channel \<Rightarrow> bool \<Rightarrow> 'd \<Rightarrow> 'd option" where
  "ATA_Flush_Cache hw ch m d = do {
     d \<leftarrow> delay_ms hw 1 (outb hw (drive_port ch) (0xE0 OR (if m then 0 else 0x10)) d);
     (r, d) \<leftarrow> ATA_Wait_Busy hw ch 5000 d;
     if r \<noteq> 0 then Some d
     else do {
       (_, d) \<leftarrow> ATA_Wait_Busy hw ch 30000 (outb hw (command_port ch) 0xE7 d);
       Some d } }"

text \<open>The driver as the file system calls it.\<close>

definition ata_disk_io :: "'d hw \<Rightarrow> ata_channel \<Rightarrow> 'd disk_io" where
  "ata_disk_io hw ch = \<lparr>d_read = ATA_Read hw ch, d_write = ATA_Write hw ch, d_flush = ATA_Flush_Cache hw ch\<rparr>"

section \<open>Detection\<close>

record ata_drive =
  present :: bool
  is_master :: bool
  is_atapi :: bool
  lba48_supported :: bool
  model :: "u8 list"
  serial :: "u8 list"
  total_sectors :: u64
  size_in_mb :: u64

definition no_drive :: ata_drive where
  "no_drive = \<lparr>present = False, is_master = False, is_atapi = False, lba48_supported = False,
     model = replicate 41 0, serial = replicate 21 0, total_sectors = 0, size_in_mb = 0\<rparr>"

definition atapi_drive :: "ata_drive \<Rightarrow> ata_drive" where
  "atapi_drive drive = drive\<lparr>present := True, is_atapi := True,
     model := bytes ''ATAPI Device'' @ drop 12 (model drive)\<rparr>"

text \<open>Strings are stored with the bytes of each word swapped.\<close>

definition ident_text :: "u16 list \<Rightarrow> nat \<Rightarrow> nat \<Rightarrow> u8 list" where
  "ident_text buffer first n = concat (map (\<lambda>w. [byte_at 8 w, byte_at 0 w]) (take n (drop first buffer)))"

definition parse_identify :: "u16 list \<Rightarrow> ata_drive \<Rightarrow> ata_drive" where
  "parse_identify buffer drive =
     (let big = (buffer ! 83 AND push_bit 10 1 \<noteq> 0);
          n = (if big
               then ucast (buffer ! 100) OR push_bit 16 (ucast (buffer ! 101)) OR
                    push_bit 32 (ucast (buffer ! 102)) OR push_bit 48 (ucast (buffer ! 103))
               else ucast ((ucast (buffer ! 60) :: u32) OR push_bit 16 (ucast (buffer ! 61))))
      in drive\<lparr>model := trim_label (ident_text buffer 27 20 @ [0]) 40, serial := ident_text buffer 10 10 @ [0],
           lba48_supported := big, total_sectors := n, size_in_mb := n div 2048, present := True\<rparr>)"

definition ATA_Identify_Drive :: "'d hw \<Rightarrow> ata_channel \<Rightarrow> bool \<Rightarrow> 'd \<Rightarrow> (int \<times> ata_drive \<times> 'd) option" where
  "ATA_Identify_Drive hw ch m d = do {
     let drive = no_drive\<lparr>is_master := m\<rparr>;
     d \<leftarrow> delay_ms hw 10 (outb hw (drive_port ch) (if m then 0xA0 else 0xB0) d);
     (r, d) \<leftarrow> ATA_Wait_Busy hw ch 1000 d;
     if r \<noteq> 0 then Some (-2, drive, d)
     else do {
       let d = outb hw (sector_count ch) 0 d;
       let d = outb hw (lba_lo ch) 0 d;
       let d = outb hw (lba_mid ch) 0 d;
       let d = outb hw (lba_hi ch) 0 d;
       d \<leftarrow> delay_ms hw 10 (outb hw (command_port ch) 0xEC d);
       let (status, d) = inb hw (alt_status_port ch) d;
       if status = 0 then Some (-1, drive, d)
       else do {
         (drq_result, d) \<leftarrow> ATA_Wait_DRP hw ch 5000 d;
         let (sig_mid, d) = inb hw (lba_mid ch) d;
         let (sig_hi, d) = inb hw (lba_hi ch) d;
         if sig_mid = 0xFF \<and> sig_hi = 0xFF then Some (-1, drive, d)
         else if drq_result < 0
         then (if sig_mid = 0x14 \<and> sig_hi = 0xEB then Some (-3, atapi_drive drive, d)
               else Some (drq_result, drive, d))
         else do {
           let (buffer, d) = in_words hw (data_port ch) 256 d;
           if buffer ! 0 AND 0xC000 = 0xC000 then Some (-3, atapi_drive drive, d)
           else Some (0, parse_identify buffer drive, d) } } } }"

record ata_controller_info =
  drives :: "ata_drive list"
  drive_count :: int

text \<open>One of the four slots; slot \<open>i\<close> is on the primary channel below 2, the master for even \<open>i\<close>.\<close>

definition scan_slot :: "'d hw \<Rightarrow> nat \<Rightarrow> ata_controller_info \<times> 'd \<Rightarrow> (ata_controller_info \<times> 'd) option" where
  "scan_slot hw i = (\<lambda>(info, d). do {
     (r, drive, d) \<leftarrow> ATA_Identify_Drive hw (ATA_Init_Channel (i < 2)) (even i) d;
     let info = info\<lparr>drives := (drives info)[i := drive]\<rparr>;
     Some (if r = 0 then info\<lparr>drive_count := drive_count info + 1\<rparr>
           else if r = -3 then info\<lparr>drives := (drives info)[i := drive\<lparr>present := True\<rparr>]\<rparr>
           else info, d) })"

definition ata_scan_all :: "'d hw \<Rightarrow> 'd \<Rightarrow> (ata_controller_info \<times> 'd) option" where
  "ata_scan_all hw d = do {
     s \<leftarrow> scan_slot hw 0 (\<lparr>drives = replicate 4 no_drive, drive_count = 0\<rparr>, d);
     s \<leftarrow> scan_slot hw 1 s;
     s \<leftarrow> scan_slot hw 2 s;
     scan_slot hw 3 s }"

record ata_disk =
  dk_primary :: bool
  dk_master :: bool
  dk_channel :: ata_channel

definition disk_zero :: ata_disk where
  "disk_zero = \<lparr>dk_primary = False, dk_master = False, dk_channel =
     \<lparr>data_port = 0, error_port = 0, sector_count = 0, lba_lo = 0, lba_mid = 0, lba_hi = 0, drive_port = 0,
      command_port = 0, alt_status_port = 0\<rparr>\<rparr>"

definition FindFirstATADisk :: "ata_controller_info \<Rightarrow> ata_disk" where
  "FindFirstATADisk info =
     (let found = (\<lambda>primary master. \<lparr>dk_primary = primary, dk_master = master, dk_channel = ATA_Init_Channel primary\<rparr>)
      in if present (drives info ! 0) then found True True
         else if present (drives info ! 1) then found True False
         else if present (drives info ! 2) then found False True
         else if present (drives info ! 3) then found False False
         else disk_zero)"

end
