(* ===== verification/Gpt.thy ===== *)
theory Gpt
  imports Ata Vmm
begin

text \<open>
  The partition table, \<^verbatim>\<open>Kernel/drives/gpt.c\<close>.  Messages on the screen are left out.  The
  buffer from \<^verbatim>\<open>Vmm_Malloc\<close> is a list of bytes of the size asked for that starts as
  zeros; an access past its end is \<open>None\<close>.
\<close>

definition read_le64 :: "u8 list \<Rightarrow> nat \<Rightarrow> u64" where
  "read_le64 b off = le64 (read_le32 b off) (read_le32 b (off + 4))"

definition ESP_GUID :: "u8 list" where
  "ESP_GUID = [0x28, 0x73, 0x2A, 0xC1, 0x1F, 0xF8, 0xD2, 0x11, 0xBA, 0x4B, 0x00, 0xA0, 0xC9, 0x3E, 0xC9, 0x3B]"

definition Check_MBR :: "u8 list \<Rightarrow> bool" where
  "Check_MBR b \<longleftrightarrow> \<not> (b ! 510 \<noteq> 0x55 \<or> b ! 511 \<noteq> 0xAA \<or> b ! 450 \<noteq> 0xEE)"

definition header_size :: "u8 list \<Rightarrow> u32" where "header_size b = read_le32 b 12"
definition partition_entry_lba :: "u8 list \<Rightarrow> u64" where "partition_entry_lba b = read_le64 b 0x48"
definition num_partition_entries :: "u8 list \<Rightarrow> u32" where "num_partition_entries b = read_le32 b 0x50"
definition size_partition_entry :: "u8 list \<Rightarrow> u32" where "size_partition_entry b = read_le32 b 0x54"

definition Check_GPT_Header :: "u8 list \<Rightarrow> int" where
  "Check_GPT_Header b =
     (if memcmp b (bytes ''EFI PART'') 8 \<noteq> 0 then 1
      else if header_size b < 92 \<or> header_size b > 512 then 2
      else if read_le32 b 8 \<noteq> 0x00010000 then 3
      else 0)"

definition starting_lba :: "u8 list \<Rightarrow> u64" where "starting_lba e = read_le64 e 0x20"

text \<open>The loop over the entries: the first of the type, 128 bytes; \<open>None\<close> is a read past the table.\<close>

fun find_entry :: "u8 list \<Rightarrow> nat \<Rightarrow> u8 list \<Rightarrow> nat list \<Rightarrow> u8 list option option" where
  "find_entry table sz guid [] = Some None"
| "find_entry table sz guid (i # is) = do {
     g \<leftarrow> get_bytes table (i * sz) 16;
     if memcmp g guid 16 = 0 then do { e \<leftarrow> get_bytes table (i * sz) 128; Some (Some e) }
     else find_entry table sz guid is }"

text \<open>The status, the entry found, the disk and the memory.\<close>

definition FindPartition ::
  "'d disk_io \<Rightarrow> bool \<Rightarrow> u8 list \<Rightarrow> 'd \<Rightarrow> mm_state \<Rightarrow> (int \<times> u8 list \<times> 'd \<times> mm_state) option" where
  "FindPartition io m guid d s = do {
     (rr, b, d) \<leftarrow> d_read io m 0 1 (replicate 512 0) d;
     if rr = 0 then Some (-1, [], d, s)
     else if \<not> Check_MBR b then Some (2, [], d, s)
     else do {
       (rr, b, d) \<leftarrow> d_read io m 1 1 b d;
       if rr = 0 then Some (-1, [], d, s)
       else if Check_GPT_Header b \<noteq> 0 then Some (3, [], d, s)
       else do {
         let tot = num_partition_entries b * size_partition_entry b;
         (p, s) \<leftarrow> Vmm_Malloc s (ucast tot);
         if p = 0 then Some (-2, [], d, s)
         else do {
           (rr, table, d) \<leftarrow> d_read io m (partition_entry_lba b) (ucast (tot div 512)) (replicate (unat tot) 0) d;
           if rr = 0 then do { s \<leftarrow> Vmm_Free s p (ucast tot); Some (-1, [], d, s) }
           else do {
             found \<leftarrow> find_entry table (unat (size_partition_entry b)) guid [0..<unat (num_partition_entries b)];
             s \<leftarrow> Vmm_Free s p (ucast tot);
             case found of Some e \<Rightarrow> Some (0, e, d, s) | None \<Rightarrow> Some (4, [], d, s) } } } } }"

section \<open>Errors\<close>

text \<open>A failed read has a negative code; the function looks for 0 alone and goes on with what the buffer
  holds, so that a disk that does not answer is reported as a disk without a partition table.\<close>

theorem FindPartition_read_error:
  assumes "d_read io m 0 1 (replicate 512 0) d = Some (rr, replicate 512 0, d')" "rr < 0"
  shows "FindPartition io m guid d s = Some (2, [], d', s)"
proof -
  have "\<not> Check_MBR (replicate 512 0)" by (simp add: Check_MBR_def)
  then show ?thesis using assms by (simp add: FindPartition_def)
qed

lemma get_bytes_Some: "get_bytes t k n = Some g \<longleftrightarrow> k + n \<le> length t \<and> g = take n (drop k t)"
  by (auto simp: get_bytes_def)

text \<open>The search of the partition table is exact: an entry that is returned has the type asked for, is stored
  in the table at its index, and no entry before it has the type; if none is returned no entry has it.\<close>

theorem find_entry_first:
  assumes "find_entry table sz guid [k..<n] = Some r" "k \<le> n" "length guid = 16"
  shows "case r of
      Some e \<Rightarrow> (\<exists>i. k \<le> i \<and> i < n \<and> e = take 128 (drop (i * sz) table) \<and> take 16 e = guid \<and>
                 (\<forall>j. k \<le> j \<and> j < i \<longrightarrow> take 16 (drop (j * sz) table) \<noteq> guid))
    | None \<Rightarrow> (\<forall>j. k \<le> j \<and> j < n \<longrightarrow> take 16 (drop (j * sz) table) \<noteq> guid)"
  using assms(1,2)
proof (induction "n - k" arbitrary: k)
  case (Suc m)
  then have u: "[k..<n] = k # [k + 1..<n]" by (simp add: upt_conv_Cons)
  let ?g = "take 16 (drop (k * sz) table)"
  obtain g where g: "g = ?g" "length ?g = 16" using Suc.prems(1) unfolding u
    by (auto simp: get_bytes_Some bind_eq_Some_conv)
  have m: "memcmp ?g guid 16 = 0 \<longleftrightarrow> ?g = guid"
    using memcmp_zero [of 16 ?g guid] g(2) assms(3) by simp
  show ?case
  proof (cases "?g = guid")
    case True
    then have "r = Some (take 128 (drop (k * sz) table))"
      using Suc.prems(1) m unfolding u by (auto simp: get_bytes_Some bind_eq_Some_conv)
    then show ?thesis using True Suc.prems(2) Suc.hyps(2) by (auto simp: take_take min_def intro!: exI [of _ k])
  next
    case False
    then have "find_entry table sz guid [k + 1..<n] = Some r"
      using Suc.prems(1) m unfolding u by (auto simp: get_bytes_Some bind_eq_Some_conv)
    note IH = Suc.hyps(1) [OF _ this]
    have "m = n - (k + 1)" "k + 1 \<le> n" using Suc.hyps(2) by simp_all
    note IH = IH [OF this]
    have before: "take 16 (drop (j * sz) table) \<noteq> guid" if "k \<le> j" "k + 1 \<le> j \<Longrightarrow> take 16 (drop (j * sz) table) \<noteq> guid" for j
      using that False by (cases "j = k") auto
    show ?thesis
    proof (cases r)
      case None
      with IH before show ?thesis by auto
    next
      case (Some e)
      with IH obtain i where "k + 1 \<le> i" "i < n" "e = take 128 (drop (i * sz) table)" "take 16 e = guid"
        "\<forall>j. k + 1 \<le> j \<and> j < i \<longrightarrow> take 16 (drop (j * sz) table) \<noteq> guid" by auto
      with Some before show ?thesis by (auto intro!: exI [of _ i])
    qed
  qed
qed auto

theorem find_entry_first_witness:
  "find_entry (replicate 128 0 @ ESP_GUID @ replicate 112 7) 128 ESP_GUID [0..<2] = Some (Some (ESP_GUID @ replicate 112 7)) \<and>
   take 16 (replicate 128 0 :: u8 list) \<noteq> ESP_GUID"
proof -
  have r: "find_entry (replicate 128 0 @ ESP_GUID @ replicate 112 7) 128 ESP_GUID [0..<2] =
      Some (Some (ESP_GUID @ replicate 112 7))" by code_simp
  have "length ESP_GUID = 16" by (simp add: ESP_GUID_def)
  from find_entry_first [OF r _ this] obtain i where i: "i < 2"
    "ESP_GUID @ replicate 112 7 = take 128 (drop (i * 128) (replicate 128 0 @ ESP_GUID @ replicate 112 7))"
    "\<forall>j. 0 \<le> j \<and> j < i \<longrightarrow> take 16 (drop (j * 128) (replicate 128 0 @ ESP_GUID @ replicate 112 7)) \<noteq> ESP_GUID"
    by auto
  have "i \<noteq> 0"
  proof
    assume "i = 0"
    then have "hd (ESP_GUID @ replicate 112 7) = hd (replicate 128 (0 :: u8))" using i(2) by simp
    then show False by (simp add: ESP_GUID_def)
  qed
  with i(3) have "take 16 (drop (0 * 128) (replicate 128 0 @ ESP_GUID @ replicate 112 7)) \<noteq> ESP_GUID" by blast
  then show ?thesis using r by simp
qed

end
