(* ===== verification/FatDir.thy ===== *)
theory FatDir
  imports Fat Hw
begin

text \<open>
  FAT32, part 2: directories (\<^verbatim>\<open>Kernel/fs/fat32.c\<close>).  A directory entry is its 32 bytes.  A
  directory is read cluster by cluster; each function is a scan of the entries of one cluster and a
  loop over the chain, which need not end.  \<open>None\<close> is a loop that does not end, or a write past the
  end of a local array.
\<close>

section \<open>Entries\<close>

definition entry_at :: "u8 list \<Rightarrow> nat \<Rightarrow> u8 list" where
  "entry_at buf i = take 32 (drop (32 * i) buf)"

definition de_name :: "u8 list \<Rightarrow> u8 list" where "de_name e = take 11 e"
definition de_attr :: "u8 list \<Rightarrow> u8" where "de_attr e = e ! 11"
definition de_cluster :: "u8 list \<Rightarrow> u32" where
  "de_cluster e = push_bit 16 (ucast (read_le16 e 20)) OR ucast (read_le16 e 26)"
definition de_size :: "u8 list \<Rightarrow> u32" where "de_size e = read_le32 e 28"

definition set_cluster :: "u8 list \<Rightarrow> u32 \<Rightarrow> u8 list" where
  "set_cluster e c = write_le16 (write_le16 e 26 (ucast (c AND 0xFFFF))) 20 (ucast (drop_bit 16 c AND 0xFFFF))"

definition set_size :: "u8 list \<Rightarrow> u32 \<Rightarrow> u8 list" where
  "set_size e n = write_le32 e 28 n"

definition FAT32_ATTR_VOLUME_ID :: u8 where "FAT32_ATTR_VOLUME_ID = 0x08"
definition FAT32_ATTR_DIRECTORY :: u8 where "FAT32_ATTR_DIRECTORY = 0x10"
definition FAT32_ATTR_ARCHIVE :: u8 where "FAT32_ATTR_ARCHIVE = 0x20"
definition FAT32_ATTR_LFN :: u8 where "FAT32_ATTR_LFN = 0x0F"

definition put_entry :: "u8 list \<Rightarrow> nat \<Rightarrow> u8 list \<Rightarrow> u8 list option" where
  "put_entry buf i e =
     (if 32 * i + 32 \<le> length buf then Some (take (32 * i) buf @ e @ drop (32 * i + 32) buf) else None)"

definition slots :: "fat32_info \<Rightarrow> nat list" where
  "slots info = [0..<cluster_size info div 32]"

definition is_valid_sfn_entry :: "u8 list \<Rightarrow> bool" where
  "is_valid_sfn_entry e \<longleftrightarrow>
     \<not> (e ! 0 = 0x00 \<or> e ! 0 = 0xE5 \<or> e ! 0 = 0x2E) \<and> de_attr e \<noteq> FAT32_ATTR_LFN \<and>
     de_attr e AND FAT32_ATTR_VOLUME_ID = 0"

section \<open>Lookup by short name\<close>

fun scan_sfn :: "u8 list \<Rightarrow> u8 list \<Rightarrow> nat list \<Rightarrow> nat option" where
  "scan_sfn buf filename [] = None"
| "scan_sfn buf filename (i # is) =
     (let e = entry_at buf i
      in if e ! 0 = 0 then None
         else if is_valid_sfn_entry e \<and> memcmp (de_name e) filename 11 = 0 then Some i
         else scan_sfn buf filename is)"

partial_function (option) FAT32_FindEntry ::
  "'d volume \<Rightarrow> fat32_info \<Rightarrow> u32 \<Rightarrow> u8 list \<Rightarrow> 'd \<Rightarrow> (u32 \<times> u8 list \<times> 'd) option" where
  "FAT32_FindEntry v info current filename d =
     Option.bind (FAT32_ReadCluster v info current (replicate (cluster_size info) 0) d) (\<lambda>(st, buf, d).
       if st \<noteq> 0 then Some (2, [], d)
       else case scan_sfn buf filename (slots info) of
         Some i \<Rightarrow> Some (0, entry_at buf i, d)
       | None \<Rightarrow> Option.bind (FAT32_NextCluster v info current d) (\<lambda>(st, nxt, d).
           if st \<noteq> 0 then Some (3, [], d)
           else if FAT32_ENTRY_EOF \<le> nxt then Some (1, [], d)
           else FAT32_FindEntry v info nxt filename d))"

partial_function (option) FAT32_WriteDirEntry ::
  "'d volume \<Rightarrow> fat32_info \<Rightarrow> u32 \<Rightarrow> u8 list \<Rightarrow> 'd \<Rightarrow> (u32 \<times> 'd) option" where
  "FAT32_WriteDirEntry v info current new_entry d =
     Option.bind (FAT32_ReadCluster v info current (replicate (cluster_size info) 0) d) (\<lambda>(st, buf, d).
       if st \<noteq> 0 then Some (2, d)
       else case scan_sfn buf (de_name new_entry) (slots info) of
         Some i \<Rightarrow> Option.bind (put_entry buf i new_entry) (\<lambda>buf. FAT32_WriteCluster v info current buf d)
       | None \<Rightarrow> Option.bind (FAT32_NextCluster v info current d) (\<lambda>(st, nxt, d).
           if st \<noteq> 0 then Some (3, d)
           else if FAT32_ENTRY_EOF \<le> nxt then Some (1, d)
           else FAT32_WriteDirEntry v info nxt new_entry d))"

section \<open>Long names\<close>

definition fat32_lfn_checksum :: "u8 list \<Rightarrow> u8" where
  "fat32_lfn_checksum name = foldl (\<lambda>sum c. (drop_bit 1 sum OR push_bit 7 sum) + c) 0 (take 11 name)"

definition lfn_units :: "u8 list \<Rightarrow> nat list \<Rightarrow> u16 list" where
  "lfn_units e offs = map (read_le16 e) offs"

definition lfn_name1 :: "u8 list \<Rightarrow> u16 list" where "lfn_name1 e = lfn_units e [1, 3, 5, 7, 9]"
definition lfn_name2 :: "u8 list \<Rightarrow> u16 list" where "lfn_name2 e = lfn_units e [14, 16, 18, 20, 22, 24]"
definition lfn_name3 :: "u8 list \<Rightarrow> u16 list" where "lfn_name3 e = lfn_units e [28, 30]"
definition lfn_checksum :: "u8 list \<Rightarrow> u8" where "lfn_checksum e = e ! 13"

text \<open>\<open>room\<close> is \<^verbatim>\<open>out_max - 1\<close>.\<close>

fun lfn_copy_name_segment :: "nat \<Rightarrow> u16 list \<Rightarrow> u8 list" where
  "lfn_copy_name_segment room [] = []"
| "lfn_copy_name_segment 0 part = []"
| "lfn_copy_name_segment (Suc room) (ch # part) =
     (if ch = 0x0000 then []
      else if ch = 0xFFFF then lfn_copy_name_segment (Suc room) part
      else ucast (ch AND 0xFF) # lfn_copy_name_segment room part)"

fun rebuild_segments :: "nat \<Rightarrow> u16 list list \<Rightarrow> u8 list \<Rightarrow> u8 list" where
  "rebuild_segments out_max [] out = out"
| "rebuild_segments out_max (p # ps) out =
     rebuild_segments out_max ps (out @ lfn_copy_name_segment (out_max - length out - 1) p)"

definition rebuild_lfn_name :: "u8 list list \<Rightarrow> u8 list" where
  "rebuild_lfn_name pieces =
     rebuild_segments 260 (concat (map (\<lambda>e. [lfn_name1 e, lfn_name2 e, lfn_name3 e]) (rev pieces))) []"

text \<open>The scan of \<^verbatim>\<open>FAT32_FindEntryAny\<close>; \<open>pieces\<close> are the long name entries collected.\<close>

fun scan_any :: "u8 list \<Rightarrow> u8 list \<Rightarrow> u8 list \<Rightarrow> nat list \<Rightarrow> u8 list list \<Rightarrow> u8 list option \<times> u8 list list" where
  "scan_any name sfn buf [] pieces = (None, pieces)"
| "scan_any name sfn buf (i # is) pieces =
     (let e = entry_at buf i
      in if e ! 0 = 0x00 then (None, pieces)
         else if e ! 0 = 0xE5 then scan_any name sfn buf is []
         else if de_attr e = FAT32_ATTR_LFN
         then scan_any name sfn buf is (if length pieces < 20 then pieces @ [e] else pieces)
         else if e ! 0 = 0x2E then scan_any name sfn buf is []
         else if de_attr e AND FAT32_ATTR_VOLUME_ID \<noteq> 0 then scan_any name sfn buf is []
         else let lfn_valid = (pieces \<noteq> [] \<and> lfn_checksum (last pieces) = fat32_lfn_checksum (de_name e));
                  matched = (lfn_valid \<and> strcmp (rebuild_lfn_name pieces) name = 0 \<or> memcmp (de_name e) sfn 11 = 0)
              in if matched then (Some e, []) else scan_any name sfn buf is [])"

partial_function (option) find_any_loop ::
  "'d volume \<Rightarrow> fat32_info \<Rightarrow> u8 list \<Rightarrow> u8 list list \<Rightarrow> u32 \<Rightarrow> 'd \<Rightarrow> (u32 \<times> u8 list \<times> 'd) option" where
  "find_any_loop v info name pieces current d =
     Option.bind (FAT32_ReadCluster v info current (replicate (cluster_size info) 0) d) (\<lambda>(st, buf, d).
       if st \<noteq> 0 then Some (2, [], d)
       else case scan_any name (name_to_83 name) buf (slots info) pieces of
         (Some e, _) \<Rightarrow> Some (0, e, d)
       | (None, pieces) \<Rightarrow> Option.bind (FAT32_NextCluster v info current d) (\<lambda>(st, nxt, d).
           if st \<noteq> 0 then Some (3, [], d)
           else if FAT32_ENTRY_EOF \<le> nxt then Some (1, [], d)
           else find_any_loop v info name pieces nxt d))"

definition FAT32_FindEntryAny ::
  "'d volume \<Rightarrow> fat32_info \<Rightarrow> u32 \<Rightarrow> u8 list \<Rightarrow> 'd \<Rightarrow> (u32 \<times> u8 list \<times> 'd) option" where
  "FAT32_FindEntryAny v info dir_cluster name d = find_any_loop v info name [] dir_cluster d"

section \<open>Listing\<close>

text \<open>Trailing blanks of the short name, up to the first other character.\<close>

fun trim_sfn :: "u8 list \<Rightarrow> nat \<Rightarrow> u8 list" where
  "trim_sfn l 0 = l"
| "trim_sfn l (Suc n) = (if l ! n = 32 then trim_sfn (l[n := 0]) n else l)"

definition display_name :: "u8 list \<Rightarrow> u8 list list \<Rightarrow> u8 list" where
  "display_name e pieces =
     (if pieces \<noteq> [] \<and> lfn_checksum (last pieces) = fat32_lfn_checksum (de_name e)
      then rebuild_lfn_name (rev pieces)
      else takeWhile (\<lambda>c. c \<noteq> 0) (trim_sfn (de_name e) 11))"

text \<open>The boolean: the listing is full and the search stops.\<close>

fun scan_list :: "nat \<Rightarrow> u8 list \<Rightarrow> nat list \<Rightarrow> u8 list list \<Rightarrow> (u8 list \<times> u8 list) list \<Rightarrow>
    bool \<times> u8 list list \<times> (u8 list \<times> u8 list) list" where
  "scan_list cap buf [] pieces res = (False, pieces, res)"
| "scan_list cap buf (i # is) pieces res =
     (let e = entry_at buf i
      in if e ! 0 = 0x00 then (False, pieces, res)
         else if e ! 0 = 0xE5 \<or> e ! 0 = 0x2E then scan_list cap buf is [] res
         else if de_attr e = FAT32_ATTR_LFN
         then scan_list cap buf is (if length pieces < 20 then pieces @ [e] else pieces) res
         else if de_attr e AND FAT32_ATTR_VOLUME_ID \<noteq> 0 then scan_list cap buf is [] res
         else if cap \<le> length res then (True, pieces, res)
         else scan_list cap buf is [] (res @ [(e, display_name e pieces)]))"

partial_function (option) list_loop ::
  "'d volume \<Rightarrow> fat32_info \<Rightarrow> u8 list list \<Rightarrow> (u8 list \<times> u8 list) list \<Rightarrow> u32 \<Rightarrow> 'd \<Rightarrow>
   ((u8 list \<times> u8 list) list option \<times> 'd) option" where
  "list_loop v info pieces res current d =
     Option.bind (FAT32_ReadCluster v info current (replicate (cluster_size info) 0) d) (\<lambda>(st, buf, d).
       if st \<noteq> 0 then Some (None, d)
       else let (stop, pieces, res) = scan_list (cluster_size info div 32 * 8) buf (slots info) pieces res
         in if stop then Some (Some res, d) else Option.bind (FAT32_NextCluster v info current d) (\<lambda>(st, nxt, d).
           if st \<noteq> 0 then Some (None, d)
           else if FAT32_ENTRY_EOF \<le> nxt then Some (Some res, d)
           else list_loop v info pieces res nxt d))"

definition FAT32_ListDirectory ::
  "'d volume \<Rightarrow> fat32_info \<Rightarrow> u32 \<Rightarrow> 'd \<Rightarrow> ((u8 list \<times> u8 list) list option \<times> 'd) option" where
  "FAT32_ListDirectory v info dir_cluster d = list_loop v info [] [] dir_cluster d"

section \<open>Making entries\<close>

text \<open>The 13 characters of one long name entry: what is left of the name, a terminator, filler.\<close>

definition lfn_chars :: "u8 list \<Rightarrow> nat \<Rightarrow> u16 list" where
  "lfn_chars name start =
     map (\<lambda>j. if start + j < length name then ucast (name ! (start + j))
              else if start + j = length name then 0x0000 else 0xFFFF) [0..<13]"

definition unit_bytes :: "u16 list \<Rightarrow> u8 list" where
  "unit_bytes us = concat (map (\<lambda>u. [byte_at 0 u, byte_at 8 u]) us)"

definition lfn_entry :: "u8 list \<Rightarrow> u8 \<Rightarrow> nat \<Rightarrow> nat \<Rightarrow> u8 list" where
  "lfn_entry name cs tot i =
     (let order = of_nat (tot - i) OR (if i = 0 then 0x40 else 0x00);
          b = lfn_chars name (i * 13)
      in [order] @ unit_bytes (take 5 b) @ [FAT32_ATTR_LFN, 0, cs] @ unit_bytes (take 6 (drop 5 b)) @
         [0, 0] @ unit_bytes (drop 11 b))"

text \<open>The array of the callers has room for 20.\<close>

definition make_lfn_entries :: "u8 list \<Rightarrow> u8 \<Rightarrow> u8 list list option" where
  "make_lfn_entries name cs =
     (let tot = (length name + 12) div 13
      in if 20 < tot then None else Some (map (lfn_entry name cs tot) [0..<tot]))"

definition fat_pack_date :: "u16 \<Rightarrow> u8 \<Rightarrow> u8 \<Rightarrow> u16" where
  "fat_pack_date yr mo dy = push_bit 9 (yr - 1980) OR push_bit 5 (ucast mo) OR ucast dy"

definition fat_pack_time :: "u8 \<Rightarrow> u8 \<Rightarrow> u8 \<Rightarrow> u16" where
  "fat_pack_time hr mn sec = push_bit 11 (ucast hr) OR push_bit 5 (ucast mn) OR ucast (sec div 2)"

text \<open>A short name entry as the creating functions fill it.\<close>

definition sfn_entry :: "u8 list \<Rightarrow> u8 \<Rightarrow> rtc_time \<Rightarrow> u32 \<Rightarrow> u8 list" where
  "sfn_entry name attr t cluster =
     (let dt = fat_pack_date (ucast (year t) + 2000) (month t) (day t);
          tm = fat_pack_time (hour t) (minute t) (second t)
      in name @ [attr, 0, 0] @ unit_bytes [tm, dt, dt, ucast (drop_bit 16 cluster AND 0xFFFF), tm, dt,
           ucast (cluster AND 0xFFFF)] @ [0, 0, 0, 0])"

section \<open>Inserting\<close>

text \<open>The first slot of a free run that is long enough, in one cluster of \<open>n\<close> slots.\<close>

fun free_slot :: "u8 list \<Rightarrow> nat \<Rightarrow> nat \<Rightarrow> nat list \<Rightarrow> nat \<Rightarrow> nat \<Rightarrow> nat option" where
  "free_slot buf needed n [] free_run free_start = None"
| "free_slot buf needed n (i # is) free_run free_start =
     (let b = entry_at buf i ! 0; st = (if free_run = 0 then i else free_start)
      in if b = 0x00 then (if needed \<le> n - i then Some st else None)
         else if b = 0xE5
         then (if needed \<le> free_run + 1 then Some st else free_slot buf needed n is (free_run + 1) st)
         else free_slot buf needed n is 0 free_start)"

fun put_entries :: "u8 list \<Rightarrow> nat \<Rightarrow> u8 list list \<Rightarrow> u8 list option" where
  "put_entries buf pos [] = Some buf"
| "put_entries buf pos (e # es) = do { buf \<leftarrow> put_entry buf pos e; put_entries buf (pos + 1) es }"

definition write_entries ::
  "'d volume \<Rightarrow> fat32_info \<Rightarrow> u8 list \<Rightarrow> nat \<Rightarrow> u8 list list \<Rightarrow> u32 \<Rightarrow> 'd \<Rightarrow> (u32 \<times> fat32_info \<times> 'd) option" where
  "write_entries v info buf pos es current d = do {
     buf \<leftarrow> put_entries buf pos es;
     (st, d) \<leftarrow> FAT32_WriteCluster v info current buf d;
     if st \<noteq> 0 then Some (3, info, d)
     else do { d \<leftarrow> d_flush v True d; Some (0, info, d) } }"

text \<open>The loop \<^verbatim>\<open>FAT32_CreateFile\<close> and \<^verbatim>\<open>FAT32_CreateDir\<close> share; \<open>full\<close> is the
  status when no cluster is free.  At the end of the chain the new cluster is linked to
  \<^verbatim>\<open>current\<close>, which is the end mark by then, and \<^verbatim>\<open>buf\<close>, still the last cluster of the
  directory, is written into the new one.\<close>

partial_function (option) insert_loop ::
  "'d volume \<Rightarrow> u32 \<Rightarrow> u32 \<Rightarrow> u8 list list \<Rightarrow> fat32_info \<Rightarrow> u32 \<Rightarrow> 'd \<Rightarrow> (u32 \<times> fat32_info \<times> 'd) option" where
  "insert_loop v full dir_cluster es info current d =
     Option.bind (FAT32_ReadCluster v info current (replicate (cluster_size info) 0) d) (\<lambda>(st, buf, d).
       if st \<noteq> 0 then Some (2, info, d)
       else case free_slot buf (length es) (cluster_size info div 32) (slots info) 0 0 of
         Some pos \<Rightarrow> write_entries v info buf pos es current d
       | None \<Rightarrow> Option.bind (FAT32_NextCluster v info current d) (\<lambda>(st, nxt, d).
           if st \<noteq> 0 then Some (2, info, d)
           else if FAT32_ENTRY_EOF \<le> nxt
           then Option.bind (FAT32_AllocCluster v info d) (\<lambda>(new, info, d).
                if new = 0 then Some (full, info, d)
                else Option.bind (FAT32_WriteFATEntry v info (if nxt = dir_cluster then dir_cluster else nxt) new d)
                  (\<lambda>(st, d). if st \<noteq> 0 then Some (3, info, d)
                   else Option.bind (FAT32_WriteCluster v info new (replicate (cluster_size info) 0) d)
                     (\<lambda>(st, d). if st \<noteq> 0 then Some (3, info, d)
                      else write_entries v info buf 0 es new d)))
           else insert_loop v full dir_cluster es info nxt d))"

definition FAT32_CreateFile ::
  "'d volume \<Rightarrow> rtc_time \<Rightarrow> fat32_info \<Rightarrow> u32 \<Rightarrow> u8 list \<Rightarrow> 'd \<Rightarrow> (u32 \<times> fat32_info \<times> 'd) option" where
  "FAT32_CreateFile v t info dir_cluster filename d = do {
     (st, _, d) \<leftarrow> FAT32_FindEntryAny v info dir_cluster filename d;
     if st = 0 then Some (1, info, d)
     else do {
       let sfn = name_to_83 filename;
       lfns \<leftarrow> make_lfn_entries filename (fat32_lfn_checksum sfn);
       insert_loop v 5 dir_cluster (lfns @ [sfn_entry sfn FAT32_ATTR_ARCHIVE t 0]) info dir_cluster d } }"

definition dir_data :: "fat32_info \<Rightarrow> rtc_time \<Rightarrow> u32 \<Rightarrow> u32 \<Rightarrow> u8 list" where
  "dir_data info t new_cluster parent =
     sfn_entry (0x2E # replicate 10 0x20) FAT32_ATTR_DIRECTORY t new_cluster @
     sfn_entry (0x2E # 0x2E # replicate 9 0x20) FAT32_ATTR_DIRECTORY t parent @
     replicate (cluster_size info - 64) 0"

definition FAT32_CreateDir ::
  "'d volume \<Rightarrow> rtc_time \<Rightarrow> fat32_info \<Rightarrow> u32 \<Rightarrow> u8 list \<Rightarrow> 'd \<Rightarrow> (u32 \<times> fat32_info \<times> 'd) option" where
  "FAT32_CreateDir v t info dir_cluster dirname d = do {
     (st, _, d) \<leftarrow> FAT32_FindEntryAny v info dir_cluster dirname d;
     if st = 0 then Some (1, info, d)
     else do {
       let sfn = name_to_83 dirname;
       lfns \<leftarrow> make_lfn_entries dirname (fat32_lfn_checksum sfn);
       (new, info, d) \<leftarrow> FAT32_AllocCluster v info d;
       if new = 0 then Some (5, info, d)
       else do {
         (st, d) \<leftarrow> FAT32_WriteCluster v info new
           (dir_data info t new (if dir_cluster = root_cluster info then 0 else dir_cluster)) d;
         if st \<noteq> 0 then Some (3, info, d)
         else insert_loop v 4 dir_cluster (lfns @ [sfn_entry sfn FAT32_ATTR_DIRECTORY t new]) info dir_cluster d } } }"

section \<open>Deleting and renaming\<close>

text \<open>The scan these three share: the slot of the entry and the slots of its long name.\<close>

fun find_target :: "u8 list \<Rightarrow> u8 list \<Rightarrow> u8 list \<Rightarrow> nat list \<Rightarrow> nat list \<Rightarrow> (nat \<times> nat list) option" where
  "find_target name sfn buf [] offs = None"
| "find_target name sfn buf (i # is) offs =
     (let e = entry_at buf i
      in if e ! 0 = 0x00 then None
         else if e ! 0 = 0xE5 then find_target name sfn buf is []
         else if de_attr e = FAT32_ATTR_LFN
         then find_target name sfn buf is (if length offs < 20 then offs @ [i] else offs)
         else if e ! 0 = 0x2E then find_target name sfn buf is []
         else if de_attr e AND FAT32_ATTR_VOLUME_ID \<noteq> 0 then find_target name sfn buf is []
         else let matched = (offs \<noteq> [] \<and> lfn_checksum (entry_at buf (last offs)) = fat32_lfn_checksum (de_name e) \<and>
                    strcmp (rebuild_lfn_name (rev (map (entry_at buf) offs))) name = 0 \<or> memcmp (de_name e) sfn 11 = 0)
              in if matched then Some (i, offs) else find_target name sfn buf is [])"

definition mark_deleted :: "u8 list \<Rightarrow> nat list \<Rightarrow> u8 list" where
  "mark_deleted buf offs = fold (\<lambda>j b. b[32 * j := 0xE5]) offs buf"

definition finish_delete ::
  "'d volume \<Rightarrow> fat32_info \<Rightarrow> u8 list \<Rightarrow> u32 \<Rightarrow> 'd \<Rightarrow> (u32 \<times> fat32_info \<times> 'd) option" where
  "finish_delete v info buf current d = do {
     (st, d) \<leftarrow> FAT32_WriteCluster v info current buf d;
     if st \<noteq> 0 then Some (3, info, d)
     else do { d \<leftarrow> d_flush v True d; Some (0, info, d) } }"

partial_function (option) delete_loop ::
  "'d volume \<Rightarrow> fat32_info \<Rightarrow> u8 list \<Rightarrow> u32 \<Rightarrow> 'd \<Rightarrow> (u32 \<times> fat32_info \<times> 'd) option" where
  "delete_loop v info filename current d =
     Option.bind (FAT32_ReadCluster v info current (replicate (cluster_size info) 0) d) (\<lambda>(st, buf, d).
       if st \<noteq> 0 then Some (2, info, d)
       else case find_target filename (name_to_83 filename) buf (slots info) [] of
         Some (i, offs) \<Rightarrow>
           (let e = entry_at buf i; buf2 = mark_deleted buf (offs @ [i])
            in if de_attr e AND FAT32_ATTR_DIRECTORY \<noteq> 0 then Some (4, info, d)
               else if de_cluster e \<noteq> 0
               then Option.bind (FAT32_FreeClusterChain v info (de_cluster e) d) (\<lambda>(st, info, d).
                      if st \<noteq> 0 then Some (3, info, d) else finish_delete v info buf2 current d)
               else finish_delete v info buf2 current d)
       | None \<Rightarrow> Option.bind (FAT32_NextCluster v info current d) (\<lambda>(st, nxt, d).
           if st \<noteq> 0 then Some (2, info, d)
           else if FAT32_ENTRY_EOF \<le> nxt then Some (1, info, d)
           else delete_loop v info filename nxt d))"

definition FAT32_DeleteFile ::
  "'d volume \<Rightarrow> fat32_info \<Rightarrow> u32 \<Rightarrow> u8 list \<Rightarrow> 'd \<Rightarrow> (u32 \<times> fat32_info \<times> 'd) option" where
  "FAT32_DeleteFile v info dir_cluster filename d = delete_loop v info filename dir_cluster d"

text \<open>\<open>Some b\<close>: the scan of one cluster decides.\<close>

fun scan_empty :: "u8 list \<Rightarrow> nat list \<Rightarrow> bool option" where
  "scan_empty buf [] = None"
| "scan_empty buf (i # is) =
     (let e = entry_at buf i
      in if e ! 0 = 0x00 then Some True
         else if e ! 0 = 0xE5 \<or> de_attr e = FAT32_ATTR_LFN \<or> e ! 0 = 0x2E \<or>
                 de_attr e AND FAT32_ATTR_VOLUME_ID \<noteq> 0 then scan_empty buf is
         else Some False)"

partial_function (option) empty_loop :: "'d volume \<Rightarrow> fat32_info \<Rightarrow> u32 \<Rightarrow> 'd \<Rightarrow> (bool \<times> 'd) option" where
  "empty_loop v info current d =
     Option.bind (FAT32_ReadCluster v info current (replicate (cluster_size info) 0) d) (\<lambda>(st, buf, d).
       if st \<noteq> 0 then Some (False, d)
       else case scan_empty buf (slots info) of
         Some b \<Rightarrow> Some (b, d)
       | None \<Rightarrow> Option.bind (FAT32_NextCluster v info current d) (\<lambda>(st, nxt, d).
           if st \<noteq> 0 then Some (False, d)
           else if FAT32_ENTRY_EOF \<le> nxt then Some (True, d)
           else empty_loop v info nxt d))"

definition is_dir_empty :: "'d volume \<Rightarrow> fat32_info \<Rightarrow> u32 \<Rightarrow> 'd \<Rightarrow> (bool \<times> 'd) option" where
  "is_dir_empty v info start_cluster d =
     (if start_cluster = 0 then Some (True, d) else empty_loop v info start_cluster d)"

partial_function (option) remove_loop ::
  "'d volume \<Rightarrow> fat32_info \<Rightarrow> u8 list \<Rightarrow> u32 \<Rightarrow> 'd \<Rightarrow> (u32 \<times> fat32_info \<times> 'd) option" where
  "remove_loop v info dirname current d =
     Option.bind (FAT32_ReadCluster v info current (replicate (cluster_size info) 0) d) (\<lambda>(st, buf, d).
       if st \<noteq> 0 then Some (2, info, d)
       else case find_target dirname (name_to_83 dirname) buf (slots info) [] of
         Some (i, offs) \<Rightarrow>
           (let e = entry_at buf i; buf2 = mark_deleted buf (offs @ [i])
            in if de_attr e AND FAT32_ATTR_DIRECTORY = 0 then Some (4, info, d)
               else if de_cluster e \<noteq> 0
               then Option.bind (is_dir_empty v info (de_cluster e) d) (\<lambda>(emp, d).
                      if \<not> emp then Some (5, info, d)
                      else Option.bind (FAT32_FreeClusterChain v info (de_cluster e) d) (\<lambda>(st, info, d).
                        if st \<noteq> 0 then Some (3, info, d) else finish_delete v info buf2 current d))
               else finish_delete v info buf2 current d)
       | None \<Rightarrow> Option.bind (FAT32_NextCluster v info current d) (\<lambda>(st, nxt, d).
           if st \<noteq> 0 then Some (2, info, d)
           else if FAT32_ENTRY_EOF \<le> nxt then Some (1, info, d)
           else remove_loop v info dirname nxt d))"

definition FAT32_RemoveDir ::
  "'d volume \<Rightarrow> fat32_info \<Rightarrow> u32 \<Rightarrow> u8 list \<Rightarrow> 'd \<Rightarrow> (u32 \<times> fat32_info \<times> 'd) option" where
  "FAT32_RemoveDir v info dir_cluster dirname d = remove_loop v info dirname dir_cluster d"

fun put_each :: "u8 list \<Rightarrow> (nat \<times> u8 list) list \<Rightarrow> u8 list option" where
  "put_each buf [] = Some buf"
| "put_each buf ((i, e) # es) = do { buf \<leftarrow> put_entry buf i e; put_each buf es }"

text \<open>The cluster after the name of the entry in slot \<open>i\<close> has been changed.\<close>

definition renamed :: "u8 list \<Rightarrow> nat \<Rightarrow> nat list \<Rightarrow> u8 list \<Rightarrow> u8 list list \<Rightarrow> u8 list option" where
  "renamed buf i offs new_sfn new_lfn = do {
     buf \<leftarrow> (if offs \<noteq> [] \<and> new_lfn \<noteq> [] \<and> length offs = length new_lfn
            then put_each buf (zip offs new_lfn) else Some (mark_deleted buf offs));
     put_entry buf i (new_sfn @ drop 11 (entry_at buf i)) }"

partial_function (option) rename_loop ::
  "'d volume \<Rightarrow> fat32_info \<Rightarrow> u8 list \<Rightarrow> u8 list \<Rightarrow> u8 list list \<Rightarrow> u32 \<Rightarrow> 'd \<Rightarrow> (u32 \<times> 'd) option" where
  "rename_loop v info old_name new_sfn new_lfn current d =
     Option.bind (FAT32_ReadCluster v info current (replicate (cluster_size info) 0) d) (\<lambda>(st, buf, d).
       if st \<noteq> 0 then Some (2, d)
       else case find_target old_name (name_to_83 old_name) buf (slots info) [] of
         Some (i, offs) \<Rightarrow>
           Option.bind (renamed buf i offs new_sfn new_lfn) (\<lambda>buf.
           Option.bind (FAT32_WriteCluster v info current buf d) (\<lambda>(st, d).
             if st \<noteq> 0 then Some (3, d) else Option.bind (d_flush v True d) (\<lambda>d. Some (0, d))))
       | None \<Rightarrow> Option.bind (FAT32_NextCluster v info current d) (\<lambda>(st, nxt, d).
           if st \<noteq> 0 then Some (3, d)
           else if FAT32_ENTRY_EOF \<le> nxt then Some (1, d)
           else rename_loop v info old_name new_sfn new_lfn nxt d))"

definition FAT32_RenameFile ::
  "'d volume \<Rightarrow> fat32_info \<Rightarrow> u32 \<Rightarrow> u8 list \<Rightarrow> u8 list \<Rightarrow> 'd \<Rightarrow> (u32 \<times> 'd) option" where
  "FAT32_RenameFile v info dir_cluster old_name new_name d = do {
     (st, _, d) \<leftarrow> FAT32_FindEntryAny v info dir_cluster new_name d;
     if st = 0 then Some (4, d)
     else do {
       let new_sfn = name_to_83 new_name;
       new_lfn \<leftarrow> make_lfn_entries new_name (fat32_lfn_checksum new_sfn);
       rename_loop v info old_name new_sfn new_lfn dir_cluster d } }"

end
