(* ===== verification/FatNames.thy ===== *)
theory FatNames
  imports FatDir
begin

text \<open>
  Names in directories (\<^verbatim>\<open>Kernel/fs/fat32.c\<close>): the long name entries the creating functions
  make and what the reading functions rebuild from them, and the slots new entries go to.
\<close>

section \<open>Long names\<close>

text \<open>The characters \<open>a\<close> up to \<open>b\<close> of the units of a name, its terminator and the filler.\<close>

definition units :: "u8 list \<Rightarrow> nat \<Rightarrow> nat \<Rightarrow> u16 list" where
  "units name a b = map (\<lambda>j. if j < length name then ucast (name ! j)
     else if j = length name then 0x0000 else 0xFFFF) [a..<b]"

lemma lfn_chars_units: "lfn_chars name a = units name a (a + 13)"
  by (rule nth_equalityI) (auto simp: lfn_chars_def units_def)

lemma units_Cons: "a < b \<Longrightarrow> units name a b = hd (units name a b) # units name (a + 1) b"
  by (simp add: units_def upt_conv_Cons)

lemma ucast_unit: "(ucast b :: u16) = 0 \<longleftrightarrow> b = 0" "(ucast b :: u16) \<noteq> 0xFFFF" "ucast ((ucast b :: u16) AND 0xFF) = b"
  for b :: u8
proof -
  have u: "unat (ucast b :: u16) = unat b" by simp
  show "(ucast b :: u16) = 0 \<longleftrightarrow> b = 0" using ucast_up_inj [of b 0, where 'b = 16] by simp
  have "unat b < 2 ^ LENGTH(8)" by (rule unsigned_less)
  then show "(ucast b :: u16) \<noteq> 0xFFFF" using u by (auto simp del: unat_ucast_up)
  have m: "(0xFF :: u16) = mask 8" by (simp add: mask_eq_exp_minus_1)
  show "ucast ((ucast b :: u16) AND 0xFF) = b"
    unfolding m by (intro bit_word_eqI) (auto simp: bit_simps)
qed

lemma copy_past_end: "length name < a \<Longrightarrow> lfn_copy_name_segment room (units name a b) = []"
proof (induction "b - a" arbitrary: a)
  case (Suc n)
  then have u: "units name a b = 0xFFFF # units name (a + 1) b"
    using units_Cons [of a b name] by (simp add: units_def hd_map)
  then show ?case using Suc.hyps(1) [of "a + 1"] Suc.hyps(2) Suc.prems by (cases room) (auto simp: u)
qed (simp add: units_def)

lemma copy_units:
  assumes "0 \<notin> set name" "length name - a \<le> room"
  shows "lfn_copy_name_segment room (units name a b) = drop a (take b name)"
  using assms(2)
proof (induction "b - a" arbitrary: a room)
  case (Suc n)
  then have ab: "a < b" by simp
  show ?case
  proof (cases "a < length name")
    case True
    have u: "units name a b = ucast (name ! a) # units name (a + 1) b"
      using units_Cons [OF ab, of name] ab True by (simp add: units_def hd_map)
    obtain r where r: "room = Suc r" using True Suc.prems by (cases room) auto
    have "name ! a \<noteq> 0" using assms(1) True by (metis nth_mem)
    moreover have "lfn_copy_name_segment r (units name (a + 1) b) = drop (a + 1) (take b name)"
      using Suc.hyps Suc.prems r by (intro Suc.hyps(1)) auto
    moreover have "drop a (take b name) = name ! a # drop (a + 1) (take b name)"
      using True ab by (simp add: Cons_nth_drop_Suc [symmetric])
    ultimately show ?thesis by (simp add: u r ucast_unit)
  next
    case False
    show ?thesis
    proof (cases "a = length name")
      case True
      then have "units name a b = 0 # units name (a + 1) b"
        using units_Cons [OF ab, of name] ab by (simp add: units_def hd_map)
      with True show ?thesis by (cases room) auto
    qed (use False copy_past_end in auto)
  qed
qed (simp add: units_def)

lemma list_13: "length l = 13 \<Longrightarrow> \<exists>a0 a1 a2 a3 a4 a5 a6 a7 a8 a9 a10 a11 a12. l = [a0, a1, a2, a3, a4, a5, a6, a7, a8, a9, a10, a11, a12]"
  by (auto simp: length_Suc_conv numeral_eq_Suc)

lemma lfn_entry_fields:
  "lfn_name1 (lfn_entry name cs n i) = units name (13 * i) (13 * i + 5)"
  "lfn_name2 (lfn_entry name cs n i) = units name (13 * i + 5) (13 * i + 11)"
  "lfn_name3 (lfn_entry name cs n i) = units name (13 * i + 11) (13 * i + 13)"
  "lfn_checksum (lfn_entry name cs n i) = cs" "de_attr (lfn_entry name cs n i) = FAT32_ATTR_LFN"
  "length (lfn_entry name cs n i) = 32"
proof -
  let ?b = "units name (13 * i) (13 * i + 13)"
  have l: "lfn_chars name (i * 13) = ?b" by (simp add: lfn_chars_units mult.commute)
  have "length ?b = 13" by (simp add: units_def)
  from list_13 [OF this] obtain a0 a1 a2 a3 a4 a5 a6 a7 a8 a9 a10 a11 a12 where
    b: "?b = [a0, a1, a2, a3, a4, a5, a6, a7, a8, a9, a10, a11, a12]" by blast
  note e = lfn_entry_def l b unit_bytes_def Let_def lfn_units_def read_le16_def le16_byte_at
  have t: "units name (13 * i) (13 * i + 5) = take 5 ?b" "units name (13 * i + 5) (13 * i + 11) = take 6 (drop 5 ?b)"
    "units name (13 * i + 11) (13 * i + 13) = drop 11 ?b"
    by (rule nth_equalityI; simp add: units_def add.assoc)+
  show "lfn_name1 (lfn_entry name cs n i) = units name (13 * i) (13 * i + 5)"
    unfolding t by (simp add: e lfn_name1_def)
  show "lfn_name2 (lfn_entry name cs n i) = units name (13 * i + 5) (13 * i + 11)"
    unfolding t by (simp add: e lfn_name2_def)
  show "lfn_name3 (lfn_entry name cs n i) = units name (13 * i + 11) (13 * i + 13)"
    unfolding t by (simp add: e lfn_name3_def)
  show "lfn_checksum (lfn_entry name cs n i) = cs" "de_attr (lfn_entry name cs n i) = FAT32_ATTR_LFN"
    "length (lfn_entry name cs n i) = 32"
    by (simp_all add: e lfn_checksum_def de_attr_def)
qed

lemma rebuild_append: "rebuild_segments n (ps @ qs) out = rebuild_segments n qs (rebuild_segments n ps out)"
  by (induction ps arbitrary: out) auto

lemma rebuild_units:
  assumes "0 \<notin> set name" "length name \<le> 259" "a \<le> b"
  shows "rebuild_segments 260 [units name a b] (take a name) = take b name"
proof -
  have "lfn_copy_name_segment (260 - length (take a name) - 1) (units name a b) = drop a (take b name)"
    using assms(2) by (intro copy_units [OF assms(1)]) auto
  moreover have "take a name = take a (take b name)" using assms(3) by simp
  ultimately show ?thesis by (metis append_take_drop_id rebuild_segments.simps)
qed

lemma rebuild_three:
  assumes "0 \<notin> set name" "length name \<le> 259" "a \<le> b" "b \<le> c" "c \<le> d"
  shows "rebuild_segments 260 [units name a b, units name b c, units name c d] (take a name) = take d name"
  using rebuild_units [OF assms(1,2,3)] rebuild_units [OF assms(1,2,4)] rebuild_units [OF assms(1,2,5)]
  by (simp only: rebuild_segments.simps)

lemma rebuild_entries:
  assumes "0 \<notin> set name" "length name \<le> 259"
  shows "rebuild_segments 260 (concat (map (\<lambda>e. [lfn_name1 e, lfn_name2 e, lfn_name3 e])
      (map (lfn_entry name cs n) [0..<k]))) [] = take (13 * k) name"
proof (induction k)
  case (Suc k)
  have "rebuild_segments 260 (concat (map (\<lambda>e. [lfn_name1 e, lfn_name2 e, lfn_name3 e])
      (map (lfn_entry name cs n) [k]))) (take (13 * k) name) = take (13 * k + 13) name"
    using rebuild_three [OF assms, of "13 * k" "13 * k + 5" "13 * k + 11" "13 * k + 13"]
    by (simp only: list.map concat.simps append_Nil2 lfn_entry_fields)
  moreover have "13 * Suc k = 13 * k + 13" by simp
  ultimately show ?case
    by (simp only: upt_Suc_append [OF le0] map_append concat_append rebuild_append Suc.IH)
qed simp

text \<open>C36: \<^verbatim>\<open>FAT32_ListDirectory\<close> shows a file under the name it was created with: the long name entries
  \<^verbatim>\<open>make_lfn_entries\<close> writes are all 32 bytes, carry the checksum of the short name, and in the order the
  listing takes them rebuild the name, for every name of at most 259 characters.\<close>

theorem long_name_roundtrip:
  assumes "make_lfn_entries name (fat32_lfn_checksum (de_name e)) = Some es" "name \<noteq> []" "0 \<notin> set name" "length name \<le> 259"
  shows "display_name e es = name \<and> (\<forall>x \<in> set es. length x = 32 \<and> de_attr x = FAT32_ATTR_LFN)"
proof -
  let ?n = "(length name + 12) div 13" and ?c = "fat32_lfn_checksum (de_name e)"
  have es: "es = map (lfn_entry name ?c ?n) [0..<?n]" using assms(1) by (auto simp: make_lfn_entries_def Let_def split: if_splits)
  have "0 < ?n" using assms(2) by (cases name) (auto simp: div_greater_zero_iff)
  then have ne: "es \<noteq> []" by (simp add: es)
  then have "last es \<in> set es" by (rule last_in_set)
  then have "lfn_checksum (last es) = ?c" by (auto simp: es lfn_entry_fields)
  then have "display_name e es = take (13 * ?n) name"
    using ne rebuild_entries [OF assms(3,4), of ?c ?n ?n] by (simp add: display_name_def rebuild_lfn_name_def es)
  moreover have "length name \<le> 13 * ?n" by simp
  ultimately show ?thesis by (auto simp: es lfn_entry_fields)
qed

theorem long_name_roundtrip_witness:
  "display_name (sfn_entry (name_to_83 (bytes ''reference manual.txt'')) FAT32_ATTR_ARCHIVE
       \<lparr>second = 0, minute = 0, hour = 0, day = 1, month = 1, year = 26\<rparr> 2)
     (the (make_lfn_entries (bytes ''reference manual.txt'')
       (fat32_lfn_checksum (de_name (sfn_entry (name_to_83 (bytes ''reference manual.txt'')) FAT32_ATTR_ARCHIVE
          \<lparr>second = 0, minute = 0, hour = 0, day = 1, month = 1, year = 26\<rparr> 2))))) = bytes ''reference manual.txt''"
proof -
  let ?n = "bytes ''reference manual.txt''"
  have "make_lfn_entries ?n c = Some (the (make_lfn_entries ?n c))" for c
    by (simp add: make_lfn_entries_def bytes_def)
  moreover have "?n \<noteq> []" "0 \<notin> set ?n" "length ?n \<le> 259" by (simp_all add: bytes_def)
  ultimately show ?thesis using long_name_roundtrip by blast
qed

text \<open>The searching functions put the entries in the opposite order, so that a name of more than one entry is found
  under its short form alone.\<close>

theorem long_name_lookup_order:
  "the (make_lfn_entries (bytes ''reference manual.txt'') 0) = es \<Longrightarrow>
   rebuild_lfn_name (rev es) = bytes ''reference manual.txt'' \<and> rebuild_lfn_name es = bytes ''ual.txtreference man''"
  by (elim ssubst [OF sym]) code_simp

section \<open>Slots\<close>

definition free_at :: "u8 list \<Rightarrow> nat \<Rightarrow> bool" where
  "free_at buf j \<longleftrightarrow> entry_at buf j ! 0 = 0xE5 \<or> (\<exists>k \<le> j. entry_at buf k ! 0 = 0x00)"

lemma free_slot_run:
  assumes "free_slot buf needed n [i..<n] run st = Some pos" "0 < run \<Longrightarrow> st + run = i"
    "\<forall>j. st \<le> j \<and> j < i \<and> 0 < run \<longrightarrow> entry_at buf j ! 0 = 0xE5" "run < needed"
  shows "pos + needed \<le> n \<and> (\<forall>j. pos \<le> j \<and> j < pos + needed \<longrightarrow> free_at buf j)"
  using assms
proof (induction "n - i" arbitrary: i run st)
  case (Suc m)
  then have i: "i < n" "[i..<n] = i # [i + 1..<n]" by (auto simp: upt_conv_Cons)
  let ?b = "entry_at buf i ! 0" and ?st = "if run = 0 then i else st"
  have st: "?st + run = i" "\<forall>j. ?st \<le> j \<and> j < i \<longrightarrow> entry_at buf j ! 0 = 0xE5"
    using Suc.prems(2,3) by auto
  consider (zero) "?b = 0x00" | (del) "?b = 0xE5" "?b \<noteq> 0x00" | (used) "?b \<noteq> 0x00" "?b \<noteq> 0xE5" by blast
  then show ?case
  proof cases
    case zero
    then have "needed \<le> n - i" "pos = ?st" using Suc.prems(1) i(2) by (auto simp: Let_def split: if_splits)
    moreover have "free_at buf j" if "pos \<le> j" for j
      using st(2) that zero \<open>pos = ?st\<close> by (cases "j < i") (auto simp: free_at_def linorder_not_less)
    ultimately show ?thesis using st(1) i(1) by simp
  next
    case del
    show ?thesis
    proof (cases "needed \<le> run + 1")
      case True
      then have "pos = ?st" "needed = run + 1" using Suc.prems(1,4) i(2) del by (auto simp: Let_def)
      moreover have "free_at buf j" if "pos \<le> j" "j < i + 1" for j
        using st(2) that del \<open>pos = ?st\<close> by (cases "j < i") (auto simp: free_at_def less_Suc_eq)
      ultimately show ?thesis using st(1) i(1) by auto
    next
      case False
      then have "free_slot buf needed n [i + 1..<n] (run + 1) ?st = Some pos" using Suc.prems(1) i(2) del by (auto simp: Let_def)
      moreover have "?st + (run + 1) = i + 1" using st(1) by simp
      moreover have "\<forall>j. ?st \<le> j \<and> j < i + 1 \<and> 0 < run + 1 \<longrightarrow> entry_at buf j ! 0 = 0xE5"
      proof (intro allI impI)
        fix j
        assume "?st \<le> j \<and> j < i + 1 \<and> 0 < run + 1"
        then show "entry_at buf j ! 0 = 0xE5" using st(2) del(1) by (cases "j = i") auto
      qed
      moreover have "m = n - (i + 1)" "run + 1 < needed" using Suc.hyps(2) False by simp_all
      ultimately show ?thesis by (intro Suc.hyps(1))
    qed
  next
    case used
    then have "free_slot buf needed n [i + 1..<n] 0 st = Some pos" using Suc.prems(1) i(2) by (auto simp: Let_def)
    from Suc.hyps(1) [OF _ this] Suc.hyps(2) Suc.prems(4) show ?thesis by auto
  qed
qed simp

text \<open>\<^verbatim>\<open>FAT32_CreateFile\<close> and \<^verbatim>\<open>FAT32_CreateDir\<close> overwrite no live entry: the run of slots they
  pick in a cluster lies inside it and consists of deleted entries and of entries from the end mark on.\<close>

theorem new_entries_in_free_slots:
  assumes "free_slot buf needed n [0..<n] 0 0 = Some pos" "0 < needed"
  shows "pos + needed \<le> n \<and> (\<forall>j. pos \<le> j \<and> j < pos + needed \<longrightarrow> free_at buf j)"
  by (rule free_slot_run [OF assms(1)]) (use assms(2) in auto)

theorem new_entries_in_free_slots_witness:
  "free_slot (replicate 32 65 @ replicate 32 0xE5 @ replicate 448 0) 2 16 [0..<16] 0 0 = Some 1 \<and>
   free_at (replicate 32 65 @ replicate 32 0xE5 @ replicate 448 0) 2"
proof -
  let ?b = "replicate 32 65 @ replicate 32 0xE5 @ replicate 448 0 :: u8 list"
  have "free_slot ?b 2 16 [0..<16] 0 0 = Some 1" by code_simp
  with new_entries_in_free_slots [OF this] show ?thesis by auto
qed

end
