(* ===== verification/FatFile.thy ===== *)
theory FatFile
  imports FatDir
begin

text \<open>
  FAT32, part 3: the contents of files (\<^verbatim>\<open>Kernel/fs/fat32.c\<close>): reading, overwriting and
  appending.  The caller's memory is a list of bytes; an access past its end is \<open>None\<close>, as is a
  loop over a chain that never ends.
\<close>

definition csize :: "fat32_info \<Rightarrow> u32" where
  "csize info = ucast (bytes_per_sector info) * ucast (sectors_per_cluster info)"

section \<open>Reading\<close>

text \<open>The loop of \<^verbatim>\<open>FAT32_ReadFile\<close>: the number it returns, the buffer and the disk.\<close>

partial_function (option) read_loop ::
  "'d volume \<Rightarrow> fat32_info \<Rightarrow> u32 \<Rightarrow> u32 \<Rightarrow> u32 \<Rightarrow> u8 list \<Rightarrow> 'd \<Rightarrow> (u32 \<times> u8 list \<times> 'd) option" where
  "read_loop v info sz cluster bytes_read buf d =
     (if bytes_read < sz
      then Option.bind (get_bytes buf (unat bytes_read) (cluster_size info)) (\<lambda>old.
           Option.bind (FAT32_ReadCluster v info cluster old d) (\<lambda>(st, b, d).
           Option.bind (put_bytes buf (unat bytes_read) b) (\<lambda>buf.
             if st \<noteq> 0 then Some (bytes_read, buf, d)
             else let bytes_read = bytes_read + csize info
                  in if sz \<le> bytes_read then Some (sz, buf, d)
                     else Option.bind (FAT32_NextCluster v info cluster d) (\<lambda>(st, nxt, d).
                       if st \<noteq> 0 \<or> FAT32_ENTRY_EOF \<le> nxt then Some (bytes_read, buf, d)
                       else read_loop v info sz nxt bytes_read buf d))))
      else Some (sz, buf, d))"

definition FAT32_ReadFile ::
  "'d volume \<Rightarrow> fat32_info \<Rightarrow> u8 list \<Rightarrow> u8 list \<Rightarrow> 'd \<Rightarrow> (u32 \<times> u8 list \<times> 'd) option" where
  "FAT32_ReadFile v info entry buf d =
     (if de_attr entry AND FAT32_ATTR_DIRECTORY \<noteq> 0 then Some (0, buf, d)
      else read_loop v info (de_size entry) (de_cluster entry) 0 buf d)"

section \<open>Overwriting\<close>

text \<open>One cluster of data at \<open>off\<close> of the cluster; a part of a cluster is merged into what the
  cluster holds, and the status of that read is not looked at.\<close>

definition write_part ::
  "'d volume \<Rightarrow> fat32_info \<Rightarrow> u32 \<Rightarrow> bool \<Rightarrow> u32 \<Rightarrow> u8 list \<Rightarrow> 'd \<Rightarrow> (u32 \<times> 'd) option" where
  "write_part v info cluster whole off part d =
     (if whole then FAT32_WriteCluster v info cluster part d
      else do {
        (_, tmp, d) \<leftarrow> FAT32_ReadCluster v info cluster (replicate (cluster_size info) 0) d;
        tmp \<leftarrow> put_bytes tmp (unat off) part;
        FAT32_WriteCluster v info cluster tmp d })"

text \<open>The loop of \<^verbatim>\<open>FAT32_WriteFile\<close>: the bytes written and the cluster reached; the boolean is
  whether the function goes on after the loop.\<close>

partial_function (option) write_loop ::
  "'d volume \<Rightarrow> u8 list \<Rightarrow> u32 \<Rightarrow> fat32_info \<Rightarrow> u32 \<Rightarrow> u32 \<Rightarrow> 'd \<Rightarrow>
   (bool \<times> u32 \<times> u32 \<times> fat32_info \<times> 'd) option" where
  "write_loop v src sz info cluster written d =
     (if written < sz
      then let remain = sz - written;
               to_write = (if remain < csize info then remain else csize info)
           in Option.bind (get_bytes src (unat written) (unat to_write)) (\<lambda>part.
              Option.bind (write_part v info cluster (\<not> to_write < csize info) 0 part d) (\<lambda>(st, d).
              if st \<noteq> 0 then Some (False, written, cluster, info, d)
              else let written = written + to_write
                   in if sz \<le> written then Some (True, written, cluster, info, d)
                      else Option.bind (FAT32_NextCluster v info cluster d) (\<lambda>(st, nxt, d).
                        if st \<noteq> 0 then Some (False, written, cluster, info, d)
                        else if FAT32_ENTRY_EOF \<le> nxt
                        then Option.bind (FAT32_AllocCluster v info d) (\<lambda>(new, info, d).
                             if new = 0 then Some (False, written, cluster, info, d)
                             else Option.bind (FAT32_WriteFATEntry v info cluster new d) (\<lambda>(st, d).
                               if st \<noteq> 0 then Some (False, written, cluster, info, d)
                               else write_loop v src sz info new written d))
                        else write_loop v src sz info nxt written d)))
      else Some (True, written, cluster, info, d))"

definition free_rest ::
  "'d volume \<Rightarrow> fat32_info \<Rightarrow> u32 \<Rightarrow> 'd \<Rightarrow> (fat32_info \<times> 'd) option" where
  "free_rest v info cluster d = do {
     (st, after, d) \<leftarrow> FAT32_NextCluster v info cluster d;
     if st = 0 \<and> after < FAT32_ENTRY_EOF
     then do {
       (_, d) \<leftarrow> FAT32_WriteFATEntry v info cluster FAT32_ENTRY_EOF d;
       (_, info, d) \<leftarrow> FAT32_FreeClusterChain v info after d;
       Some (info, d) }
     else Some (info, d) }"

text \<open>The first cluster: of the entry, or a new one for an empty file (\<open>None\<close>: the disk is full).\<close>

definition first_cluster ::
  "'d volume \<Rightarrow> fat32_info \<Rightarrow> u8 list \<Rightarrow> bool \<Rightarrow> 'd \<Rightarrow> ((u32 \<times> u8 list) option \<times> fat32_info \<times> 'd) option" where
  "first_cluster v info entry need d =
     (if de_cluster entry = 0 \<and> need
      then do {
        (new, info, d) \<leftarrow> FAT32_AllocCluster v info d;
        Some (if new = 0 then None else Some (new, set_cluster entry new), info, d) }
      else Some (Some (de_cluster entry, entry), info, d))"

definition FAT32_WriteFile ::
  "'d volume \<Rightarrow> fat32_info \<Rightarrow> u32 \<Rightarrow> u8 list \<Rightarrow> u8 list \<Rightarrow> u32 \<Rightarrow> 'd \<Rightarrow>
   (u32 \<times> u8 list \<times> fat32_info \<times> 'd) option" where
  "FAT32_WriteFile v info dir_cluster entry data sz d =
     (if de_attr entry AND FAT32_ATTR_DIRECTORY \<noteq> 0 then Some (0, entry, info, d)
      else do {
        let old_clusters = (de_size entry + csize info - 1) div csize info;
        (first, info, d) \<leftarrow> first_cluster v info entry (0 < sz) d;
        case first of
          None \<Rightarrow> Some (0, entry, info, d)
        | Some (cluster, entry) \<Rightarrow> do {
            (go, written, cluster, info, d) \<leftarrow> write_loop v data sz info cluster 0 d;
            if \<not> go then Some (written, entry, info, d)
            else do {
              (info, d) \<leftarrow> (if written < old_clusters * csize info then free_rest v info cluster d
                           else Some (info, d));
              let entry = (if de_size entry < written then set_size entry written else entry);
              (_, d) \<leftarrow> FAT32_WriteDirEntry v info dir_cluster entry d;
              Some (written, entry, info, d) } } })"

section \<open>Appending\<close>

text \<open>The last cluster of a chain; \<open>Some None\<close> is a read error on the way.\<close>

partial_function (option) chain_end :: "'d volume \<Rightarrow> fat32_info \<Rightarrow> u32 \<Rightarrow> 'd \<Rightarrow> (u32 option \<times> 'd) option" where
  "chain_end v info cluster d =
     Option.bind (FAT32_NextCluster v info cluster d) (\<lambda>(st, nxt, d).
       if st \<noteq> 0 then Some (None, d)
       else if FAT32_ENTRY_EOF \<le> nxt then Some (Some cluster, d)
       else chain_end v info nxt d)"

partial_function (option) append_loop ::
  "'d volume \<Rightarrow> u8 list \<Rightarrow> u32 \<Rightarrow> fat32_info \<Rightarrow> u32 \<Rightarrow> u32 \<Rightarrow> u32 \<Rightarrow> 'd \<Rightarrow>
   (bool \<times> u32 \<times> fat32_info \<times> 'd) option" where
  "append_loop v src sz info cluster offset written d =
     (if written < sz
      then let remain = sz - written; space = csize info - offset;
               to_write = (if remain < space then remain else space)
           in Option.bind (get_bytes src (unat written) (unat to_write)) (\<lambda>part.
              Option.bind (write_part v info cluster (\<not> (0 < offset \<or> to_write < csize info)) offset part d) (\<lambda>(st, d).
              let written = written + to_write
              in if sz \<le> written then Some (True, written, info, d)
                 else Option.bind (FAT32_AllocCluster v info d) (\<lambda>(new, info, d).
                   if new = 0 then Some (False, written, info, d)
                   else Option.bind (FAT32_WriteFATEntry v info cluster new d) (\<lambda>(st, d).
                     append_loop v src sz info new 0 written d))))
      else Some (True, written, info, d))"

text \<open>After the cluster at the end of the chain is known.\<close>

definition append_from ::
  "'d volume \<Rightarrow> fat32_info \<Rightarrow> u32 \<Rightarrow> u8 list \<Rightarrow> u8 list \<Rightarrow> u32 \<Rightarrow> u32 \<Rightarrow> 'd \<Rightarrow>
   (u32 \<times> u8 list \<times> fat32_info \<times> 'd) option" where
  "append_from v info dir_cluster entry data sz cluster d = do {
     let old_size = de_size entry;
     let offset = old_size mod csize info;
     (target, info, d) \<leftarrow> (if offset = 0 \<and> 0 < old_size
        then do {
          (new, info, d) \<leftarrow> FAT32_AllocCluster v info d;
          if new = 0 then Some (None, info, d)
          else do { (_, d) \<leftarrow> FAT32_WriteFATEntry v info cluster new d; Some (Some new, info, d) } }
        else Some (Some cluster, info, d));
     case target of
       None \<Rightarrow> Some (0, entry, info, d)
     | Some cluster \<Rightarrow> do {
       (go, written, info, d) \<leftarrow> append_loop v data sz info cluster offset 0 d;
       if \<not> go then Some (written, entry, info, d)
       else do {
         let entry = set_size entry (old_size + written);
         (_, d) \<leftarrow> FAT32_WriteDirEntry v info dir_cluster entry d;
         Some (written, entry, info, d) } } }"

definition FAT32_AppendFile ::
  "'d volume \<Rightarrow> fat32_info \<Rightarrow> u32 \<Rightarrow> u8 list \<Rightarrow> u8 list \<Rightarrow> u32 \<Rightarrow> 'd \<Rightarrow>
   (u32 \<times> u8 list \<times> fat32_info \<times> 'd) option" where
  "FAT32_AppendFile v info dir_cluster entry data sz d =
     (if sz = 0 \<or> de_attr entry AND FAT32_ATTR_DIRECTORY \<noteq> 0 then Some (0, entry, info, d)
      else if de_cluster entry = 0
      then do {
        (first, info, d) \<leftarrow> first_cluster v info entry True d;
        case first of
          None \<Rightarrow> Some (0, entry, info, d)
        | Some (cluster, entry) \<Rightarrow> append_from v info dir_cluster entry data sz cluster d }
      else do {
        (tail, d) \<leftarrow> chain_end v info (de_cluster entry) d;
        case tail of
          None \<Rightarrow> Some (0, entry, info, d)
        | Some cluster \<Rightarrow> append_from v info dir_cluster entry data sz cluster d })"

end
