(* ===== verification/Fs.thy ===== *)
theory Fs
  imports Gpt FatNames FatFile
begin

text \<open>
  The file system calls, \<^verbatim>\<open>Kernel/fs/fs.c\<close>: paths, and the FAT32 operations on the system
  partition.  A path is its characters without the final 0.  The page \<^verbatim>\<open>OpenFile\<close> takes for a
  directory entry is kept by its address and the 32 bytes written to it; \<open>None\<close> is also the use of a null pointer.
\<close>

section \<open>State\<close>

text \<open>\<^verbatim>\<open>SystemPartition\<close>, the page allocator and the disk.\<close>

record 'd fs =
  fs_vol :: "'d volume"
  fs_info :: fat32_info
  fs_mem :: mm_state
  fs_dev :: 'd

record file_t =
  f_entry :: "(addr \<times> u8 list) option"
  f_dir_cluster :: u32
  f_name :: "u8 list option"
  f_status :: int

definition FILE_CLOSED :: int where "FILE_CLOSED = 0"
definition FILE_READ :: int where "FILE_READ = 1"
definition FILE_WRITE :: int where "FILE_WRITE = 2"

definition no_file :: file_t where
  "no_file = \<lparr>f_entry = None, f_dir_cluster = 0, f_name = None, f_status = 0\<rparr>"

section \<open>Mounting\<close>

text \<open>The address of the entry is what the disk descriptor of a volume needs of it.\<close>

definition InitFileSystem ::
  "(ata_channel \<Rightarrow> 'd disk_io) \<Rightarrow> ata_controller_info \<Rightarrow> u8 list \<Rightarrow> 'd fs \<Rightarrow> (int \<times> 'd fs) option" where
  "InitFileSystem io gATAInfo guid S = do {
     let disk = FindFirstATADisk gATAInfo;
     if disk = disk_zero then Some (1, S)
     else do {
       (st, e, d, s) \<leftarrow> FindPartition (io (dk_channel disk)) (dk_master disk) guid (fs_dev S) (fs_mem S);
       let S = S\<lparr>fs_dev := d, fs_mem := s\<rparr>;
       if st \<noteq> 0 then Some (20 + st, S)
       else do {
         let v = disk_io.extend (io (dk_channel disk)) (volume.fields (dk_master disk) (starting_lba e));
         (st, info, d) \<leftarrow> FAT32_GetInfo v d;
         let S = S\<lparr>fs_dev := d\<rparr>;
         case info of
           None \<Rightarrow> Some (30 + int (unat st), S)
         | Some i \<Rightarrow> if st \<noteq> 0 then Some (30 + int (unat st), S) else Some (0, S\<lparr>fs_vol := v, fs_info := i\<rparr>) } } }"

section \<open>Opening\<close>

definition FAT32_MAX_NAME :: nat where "FAT32_MAX_NAME = 260"

text \<open>The loop over the components: \<^verbatim>\<open>current_cluster\<close>, \<^verbatim>\<open>last_entry\<close> if any, and
  \<^verbatim>\<open>last_name_start\<close>; \<open>Some None\<close> is the early return.\<close>

function walk :: "'d volume \<Rightarrow> fat32_info \<Rightarrow> u32 \<Rightarrow> u8 list option \<Rightarrow> u8 list \<Rightarrow> u8 list \<Rightarrow> 'd \<Rightarrow>
    ((u32 \<times> u8 list option \<times> u8 list) option \<times> 'd) option" where
  "walk v info cur found name [] d = Some (Some (cur, found, name), d)"
| "walk v info cur found name (c # p) d =
     (if c = 47 then walk v info cur found name p d
      else let comp = takeWhile (\<lambda>c. c \<noteq> 47) (c # p); rest = dropWhile (\<lambda>c. c \<noteq> 47) (c # p)
           in Option.bind (FAT32_FindEntryAny v info cur (take (FAT32_MAX_NAME - 1) comp) d) (\<lambda>(st, e, d).
                if st \<noteq> 0 then Some (None, d)
                else if rest = [] then Some (Some (cur, Some e, c # p), d)
                else if de_attr e AND FAT32_ATTR_DIRECTORY = 0 then Some (None, d)
                else walk v info (de_cluster e) (Some e) (c # p) (tl rest) d))"
  by pat_completeness auto

termination
  by (relation "measure (\<lambda>(v, info, cur, found, name, p, d). length p)")
    (auto simp: less_Suc_eq_le intro: le_trans [OF diff_le_self length_dropWhile_le])

text \<open>The page for the entry and the descriptor that refers to it.\<close>

definition keep_entry :: "mm_state \<Rightarrow> u8 list \<Rightarrow> (addr \<times> u8 list) option \<times> mm_state" where
  "keep_entry s e = (let (p, s) = Pmm_Malloc s 1 in (if p = 0 then None else Some (p, e), s))"

definition root_entry :: "fat32_info \<Rightarrow> u8 list" where
  "root_entry info = set_cluster ((replicate 32 0)[11 := FAT32_ATTR_DIRECTORY]) (root_cluster info)"

definition OpenFile :: "'d fs \<Rightarrow> u8 list \<Rightarrow> int \<Rightarrow> (file_t \<times> 'd fs) option" where
  "OpenFile S path mode =
     (let info = fs_info S; p = dropWhile (\<lambda>c. c = 47) path
      in if path = [] then Some (no_file, S)
         else if p = []
         then let (e, s) = keep_entry (fs_mem S) (root_entry info)
              in Some (\<lparr>f_entry = e, f_dir_cluster = root_cluster info, f_name = None, f_status = mode\<rparr>, S\<lparr>fs_mem := s\<rparr>)
         else Option.bind (walk (fs_vol S) info (root_cluster info) None p p (fs_dev S)) (\<lambda>(r, d).
           let S = S\<lparr>fs_dev := d\<rparr>
           in case r of
                Some (cur, Some e, name) \<Rightarrow>
                  (let (e, s) = keep_entry (fs_mem S) e
                   in case e of
                        None \<Rightarrow> Some (no_file, S\<lparr>fs_mem := s\<rparr>)
                      | Some _ \<Rightarrow> Some (\<lparr>f_entry = e, f_dir_cluster = cur, f_name = Some name, f_status = mode\<rparr>, S\<lparr>fs_mem := s\<rparr>))
              | _ \<Rightarrow> Some (no_file, S)))"

definition CloseFile :: "file_t \<Rightarrow> file_t" where
  "CloseFile file = no_file\<lparr>f_status := FILE_CLOSED\<rparr>"

section \<open>Contents\<close>

definition read_mode :: "file_t \<Rightarrow> bool" where
  "read_mode file \<longleftrightarrow> f_status file = FILE_READ \<or> f_status file = 3"

definition write_mode :: "file_t \<Rightarrow> bool" where
  "write_mode file \<longleftrightarrow> f_status file = FILE_WRITE \<or> f_status file = 3"

definition ReadFile :: "'d fs \<Rightarrow> file_t \<Rightarrow> u8 list \<Rightarrow> (int \<times> u8 list \<times> 'd fs) option" where
  "ReadFile S file buf =
     (if \<not> read_mode file then Some (-1, buf, S)
      else do {
        (_, e) \<leftarrow> f_entry file;
        (n, buf, d) \<leftarrow> FAT32_ReadFile (fs_vol S) (fs_info S) e buf (fs_dev S);
        Some (sint n, buf, S\<lparr>fs_dev := d\<rparr>) })"

definition store ::
  "('d volume \<Rightarrow> fat32_info \<Rightarrow> u32 \<Rightarrow> u8 list \<Rightarrow> u8 list \<Rightarrow> u32 \<Rightarrow> 'd \<Rightarrow> (u32 \<times> u8 list \<times> fat32_info \<times> 'd) option) \<Rightarrow>
   'd fs \<Rightarrow> file_t \<Rightarrow> u8 list \<Rightarrow> u64 \<Rightarrow> (int \<times> file_t \<times> 'd fs) option" where
  "store op S file buf sz =
     (if \<not> write_mode file then Some (-1, file, S)
      else do {
        (a, e) \<leftarrow> f_entry file;
        (n, e, info, d) \<leftarrow> op (fs_vol S) (fs_info S) (f_dir_cluster file) e buf (ucast sz) (fs_dev S);
        Some (sint n, file\<lparr>f_entry := Some (a, e)\<rparr>, S\<lparr>fs_info := info, fs_dev := d\<rparr>) })"

definition WriteFile where "WriteFile S file buf sz = store FAT32_WriteFile S file buf sz"
definition AppendFile where "AppendFile S file buf sz = store FAT32_AppendFile S file buf sz"

section \<open>Names\<close>

definition RenameFile :: "'d fs \<Rightarrow> u8 list \<Rightarrow> u8 list \<Rightarrow> (int \<times> 'd fs) option" where
  "RenameFile S path new_name = do {
     (file, S) \<leftarrow> OpenFile S path FILE_CLOSED;
     if 47 \<in> set new_name then Some (-1, S)
     else do {
       name \<leftarrow> f_name file;
       (st, d) \<leftarrow> FAT32_RenameFile (fs_vol S) (fs_info S) (f_dir_cluster file) name new_name (fs_dev S);
       Some (int (unat st), S\<lparr>fs_dev := d\<rparr>) } }"

definition ListDirectory :: "'d fs \<Rightarrow> u8 list \<Rightarrow> ((u8 list \<times> u8 list) list option \<times> 'd fs) option" where
  "ListDirectory S path = do {
     (cluster, S) \<leftarrow> (if path = [47] then Some (root_cluster (fs_info S), S)
        else do { (dir, S) \<leftarrow> OpenFile S path FILE_CLOSED; (_, e) \<leftarrow> f_entry dir; Some (de_cluster e, S) });
     (l, d) \<leftarrow> FAT32_ListDirectory (fs_vol S) (fs_info S) cluster (fs_dev S);
     Some (l, S\<lparr>fs_dev := d\<rparr>) }"

text \<open>What precedes the last slash, and what follows it.\<close>

definition split_path :: "u8 list \<Rightarrow> u8 list \<times> u8 list" where
  "split_path path = (rev (tl (dropWhile (\<lambda>c. c \<noteq> 47) (rev path))), rev (takeWhile (\<lambda>c. c \<noteq> 47) (rev path)))"

text \<open>The four functions that change a directory: the parent directory is opened and its page
  given back, then \<open>op\<close> does the work.\<close>

definition in_parent ::
  "('d volume \<Rightarrow> fat32_info \<Rightarrow> u32 \<Rightarrow> u8 list \<Rightarrow> 'd \<Rightarrow> (u32 \<times> fat32_info \<times> 'd) option) \<Rightarrow>
   'd fs \<Rightarrow> u8 list \<Rightarrow> (int \<times> 'd fs) option" where
  "in_parent op S path =
     (let (parent, name) = split_path path
      in if path = [] \<or> hd path \<noteq> 47 \<or> name = [] then Some (6, S)
         else do {
           (dir, S) \<leftarrow> OpenFile S (if parent = [] then [47] else parent) FILE_CLOSED;
           case f_entry dir of
             None \<Rightarrow> Some (6, S)
           | Some (p, e) \<Rightarrow>
               if de_attr e AND FAT32_ATTR_DIRECTORY = 0 then Some (6, S)
               else do {
                 let S = S\<lparr>fs_mem := Pmm_Free (fs_mem S) p 1\<rparr>;
                 (st, info, d) \<leftarrow> op (fs_vol S) (fs_info S) (de_cluster e) name (fs_dev S);
                 Some (int (unat st), S\<lparr>fs_info := info, fs_dev := d\<rparr>) } })"

definition CreateFile where
  "CreateFile t S path = in_parent (\<lambda>v. FAT32_CreateFile v t) S path"
definition CreateDir where
  "CreateDir t S path = in_parent (\<lambda>v. FAT32_CreateDir v t) S path"
definition DeleteFile where "DeleteFile S path = in_parent FAT32_DeleteFile S path"
definition RemoveDir where "RemoveDir S path = in_parent FAT32_RemoveDir S path"

section \<open>Paths\<close>

text \<open>What a path means: its components, and whether a slash ends it.\<close>

function components :: "u8 list \<Rightarrow> u8 list list" where
  "components [] = []"
| "components (c # p) =
     (if c = 47 then components p
      else takeWhile (\<lambda>c. c \<noteq> 47) (c # p) # components (dropWhile (\<lambda>c. c \<noteq> 47) (c # p)))"
  by pat_completeness auto

termination
  by (relation "measure length") (auto simp: less_Suc_eq_le length_dropWhile_le)

fun resolve :: "bool \<Rightarrow> 'd volume \<Rightarrow> fat32_info \<Rightarrow> u32 \<Rightarrow> u8 list option \<Rightarrow> u8 list list \<Rightarrow> 'd \<Rightarrow>
    ((u32 \<times> u8 list option) option \<times> 'd) option" where
  "resolve slash v info cur found [] d = Some (Some (cur, found), d)"
| "resolve slash v info cur found (c # cs) d =
     Option.bind (FAT32_FindEntryAny v info cur (take (FAT32_MAX_NAME - 1) c) d) (\<lambda>(st, e, d).
       if st \<noteq> 0 then Some (None, d)
       else if cs = [] \<and> \<not> slash then Some (Some (cur, Some e), d)
       else if de_attr e AND FAT32_ATTR_DIRECTORY = 0 then Some (None, d)
       else resolve slash v info (de_cluster e) (Some e) cs d)"

definition unnamed :: "((u32 \<times> u8 list option \<times> u8 list) option \<times> 'd) option \<Rightarrow> ((u32 \<times> u8 list option) option \<times> 'd) option" where
  "unnamed = map_option (map_prod (map_option (\<lambda>(cur, found, name). (cur, found))) id)"

lemma unnamed_bind: "unnamed (Option.bind x f) = Option.bind x (\<lambda>y. unnamed (f y))"
  by (cases x) (auto simp: unnamed_def)

lemma last_after_drop: "dropWhile (\<lambda>c. c \<noteq> 47) p \<noteq> [] \<Longrightarrow> last (dropWhile (\<lambda>c. c \<noteq> 47) p) = last p" for p :: "u8 list"
  by (metis last_appendR takeWhile_dropWhile_id)

lemma only_slashes: "components r = [] \<Longrightarrow> last (47 # r) = 47"
  by (induction r rule: components.induct) (auto split: if_splits)

lemma resolve_slash:
  "resolve (last (47 # r) = 47) v info cur f (components r) d =
   resolve (r \<noteq> [] \<and> last r = 47) v info cur f (components r) d"
  by (cases "r = []") auto


section \<open>Calls that go wrong\<close>

text \<open>A directory named with a slash at the end is opened with its own cluster as the cluster of its
  parent.\<close>

theorem open_with_slash:
  assumes "FAT32_FindEntryAny v info root (take (FAT32_MAX_NAME - 1) cmp) d = Some (0, e, d')" "cmp \<noteq> []" "47 \<notin> set cmp"
    "de_attr e AND FAT32_ATTR_DIRECTORY \<noteq> 0"
  shows "walk v info root None cmp cmp d = Some (Some (root, Some e, cmp), d')"
    "walk v info root None (cmp @ [47]) (cmp @ [47]) d = Some (Some (de_cluster e, Some e, cmp @ [47]), d')"
proof -
  obtain c p where c: "cmp = c # p" "c \<noteq> 47" using assms(2,3) by (cases cmp) auto
  have t: "takeWhile (\<lambda>c. c \<noteq> 47) cmp = cmp" "dropWhile (\<lambda>c. c \<noteq> 47) cmp = []"
    "takeWhile (\<lambda>c. c \<noteq> 47) (cmp @ [47]) = cmp" "dropWhile (\<lambda>c. c \<noteq> 47) (cmp @ [47]) = [47]"
    using assms(3) by (auto simp: takeWhile_append dropWhile_append takeWhile_eq_all_conv dropWhile_eq_Nil_conv)
  show "walk v info root None cmp cmp d = Some (Some (root, Some e, cmp), d')"
    using assms(1) c(2) t(1,2) unfolding c(1) by (simp only: walk.simps Let_def) simp
  show "walk v info root None (cmp @ [47]) (cmp @ [47]) d = Some (Some (de_cluster e, Some e, cmp @ [47]), d')"
    using assms(1,4) c(2) t(3,4) unfolding c(1) append_Cons by (simp only: walk.simps Let_def) simp
qed

text \<open>A file that is not there is renamed through a null pointer.\<close>

theorem rename_missing_file:
  assumes "dropWhile (\<lambda>c. c = 47) path = c # p" "walk (fs_vol S) (fs_info S) (root_cluster (fs_info S)) None (c # p) (c # p) (fs_dev S) = Some (None, d)"
    "47 \<notin> set new_name"
  shows "RenameFile S path new_name = None"
proof -
  have "path \<noteq> []" using assms(1) by auto
  then have "OpenFile S path FILE_CLOSED = Some (no_file, S\<lparr>fs_dev := d\<rparr>)"
    using assms(1,2) by (simp add: OpenFile_def Let_def del: walk.simps)
  then show ?thesis using assms(3) by (simp add: RenameFile_def no_file_def)
qed

end
