(* ===== verification/AtaDev.thy ===== *)
theory AtaDev
  imports Ata
begin

text \<open>
  The ATA driver returns: with a time stamp counter that moves on, no wait of \<open>Ata\<close> lasts for ever.
\<close>

section \<open>A counter that moves on\<close>

text \<open>Every access to the hardware moves the time stamp counter by less than \<open>2 ^ 32\<close> cycles;
  reading the counter moves it.\<close>

locale ticking =
  fixes hw :: "'d hw" and clock :: "'d \<Rightarrow> u64"
  assumes inb_clock: "unat (clock (snd (inb hw p d)) - clock d) < 2 ^ 32"
    and inw_clock: "unat (clock (snd (inw hw p d)) - clock d) < 2 ^ 32"
    and rdtsc_value: "fst (rdtsc hw d) = clock d"
    and rdtsc_clock: "unat (clock (snd (rdtsc hw d)) - clock d) < 2 ^ 32"
    and rdtsc_moves: "clock (snd (rdtsc hw d)) \<noteq> clock d"
    and frequency: "unat (SYSTEM_CPU_Frequency hw) \<le> 2 ^ 40"
begin

lemma since_add:
  assumes "unat (clock d - s) \<le> C + 2 ^ 32" "C < 2 ^ 63" "unat (clock d' - clock d) < 2 ^ 32"
  shows "unat (clock d' - s) = unat (clock d - s) + unat (clock d' - clock d)"
proof -
  have "clock d' - s = (clock d - s) + (clock d' - clock d)" by simp
  moreover have "unat (clock d - s) + unat (clock d' - clock d) < 2 ^ LENGTH(64)" using assms by simp
  ultimately show ?thesis by (metis unat_add_lem)
qed

lemma poll_induct:
  assumes "unat (clock d - s) \<le> C + 2 ^ 32"
    and "\<And>d. unat (clock d - s) \<le> C + 2 ^ 32 \<Longrightarrow>
      (\<And>d'. unat (clock d - s) < unat (clock d' - s) \<Longrightarrow> unat (clock d' - s) \<le> C + 2 ^ 32 \<Longrightarrow> P d') \<Longrightarrow> P d"
  shows "P d"
  using assms(1)
proof (induction "C + 2 ^ 32 - unat (clock d - s)" arbitrary: d rule: less_induct)
  case less
  show ?case by (rule assms(2) [OF less.prems]) (use less in auto)
qed

lemma rdtsc_next:
  assumes "rdtsc hw d = (t, d')" "unat (clock d - s) \<le> C + 2 ^ 32" "C < 2 ^ 63"
  shows "t = clock d" "unat (clock d' - s) \<le> unat (clock d - s) + 2 ^ 32" "unat (clock d - s) < unat (clock d' - s)"
proof -
  have c: "unat (clock d' - clock d) < 2 ^ 32" "clock d' \<noteq> clock d" "t = clock d"
    using rdtsc_clock [of d] rdtsc_moves [of d] rdtsc_value [of d] assms(1) by auto
  then have "0 < unat (clock d' - clock d)" by (simp add: unat_gt_0)
  with since_add [OF assms(2,3) c(1)] c
  show "t = clock d" "unat (clock d' - s) \<le> unat (clock d - s) + 2 ^ 32" "unat (clock d - s) < unat (clock d' - s)"
    by auto
qed

lemma inb_next:
  assumes "inb hw p d = (b, d')" "unat (clock d - s) \<le> C + 2 ^ 32" "C < 2 ^ 63"
  shows "unat (clock d' - s) \<le> unat (clock d - s) + 2 ^ 32" "unat (clock d - s) \<le> unat (clock d' - s)"
  using since_add [OF assms(2,3), of d'] inb_clock [of p d] assms(1) by auto

lemma delay_returns:
  assumes "unat (clock d - s) \<le> unat c + 2 ^ 32" "unat c < 2 ^ 63"
  shows "delay_loop hw s c d \<noteq> None"
  using assms(1)
proof (rule poll_induct)
  fix d
  assume e: "unat (clock d - s) \<le> unat c + 2 ^ 32"
    and IH: "\<And>d'. unat (clock d - s) < unat (clock d' - s) \<Longrightarrow> unat (clock d' - s) \<le> unat c + 2 ^ 32 \<Longrightarrow>
      delay_loop hw s c d' \<noteq> None"
  obtain t d' where r: "rdtsc hw d = (t, d')" by fastforce
  note n = rdtsc_next [OF r e assms(2)]
  show "delay_loop hw s c d \<noteq> None"
    by (subst delay_loop.simps) (use n IH [of d'] r in \<open>auto simp: word_less_nat_alt\<close>)
qed

text \<open>One turn of a polling loop that is not over.\<close>

lemma turn:
  assumes "inb hw p d = (st, d1)" "rdtsc hw d1 = (t, d2)" "\<not> c < t - s"
    "unat (clock d - s) \<le> (unat c + 2 ^ 32) + 2 ^ 32" "unat c + 2 ^ 32 < 2 ^ 63"
  shows "unat (clock d - s) < unat (clock d2 - s)" "unat (clock d2 - s) \<le> (unat c + 2 ^ 32) + 2 ^ 32"
proof -
  note n1 = inb_next [OF assms(1,4,5)]
  have "t = clock d1" using rdtsc_value [of d1] assms(2) by simp
  then have "unat (clock d1 - s) \<le> (unat c + 2 ^ 32) + 2 ^ 32" using assms(3) by (simp add: word_less_nat_alt)
  note n2 = rdtsc_next [OF assms(2) this assms(5)]
  show "unat (clock d - s) < unat (clock d2 - s)" "unat (clock d2 - s) \<le> (unat c + 2 ^ 32) + 2 ^ 32"
    using n1 n2 assms(3) by (auto simp: word_less_nat_alt)
qed

lemma busy_returns:
  assumes "unat (clock d - s) \<le> (unat c + 2 ^ 32) + 2 ^ 32" "unat c + 2 ^ 32 < 2 ^ 63"
  shows "busy_loop hw ch c s d \<noteq> None"
  using assms(1)
proof (rule poll_induct)
  fix d
  assume e: "unat (clock d - s) \<le> (unat c + 2 ^ 32) + 2 ^ 32"
    and IH: "\<And>d'. unat (clock d - s) < unat (clock d' - s) \<Longrightarrow> unat (clock d' - s) \<le> (unat c + 2 ^ 32) + 2 ^ 32 \<Longrightarrow>
      busy_loop hw ch c s d' \<noteq> None"
  obtain st d1 where i: "inb hw (alt_status_port ch) d = (st, d1)" by fastforce
  obtain t d2 where r: "rdtsc hw d1 = (t, d2)" by fastforce
  show "busy_loop hw ch c s d \<noteq> None"
    by (subst busy_loop.simps) (use IH [of d2] turn [OF i r _ e assms(2)] in \<open>auto simp: i r\<close>)
qed

lemma drq_returns:
  assumes "unat (clock d - s) \<le> (unat c + 2 ^ 32) + 2 ^ 32" "unat c + 2 ^ 32 < 2 ^ 63"
  shows "drq_loop hw ch c s d \<noteq> None"
  using assms(1)
proof (rule poll_induct)
  fix d
  assume e: "unat (clock d - s) \<le> (unat c + 2 ^ 32) + 2 ^ 32"
    and IH: "\<And>d'. unat (clock d - s) < unat (clock d' - s) \<Longrightarrow> unat (clock d' - s) \<le> (unat c + 2 ^ 32) + 2 ^ 32 \<Longrightarrow>
      drq_loop hw ch c s d' \<noteq> None"
  obtain st d1 where i: "inb hw (alt_status_port ch) d = (st, d1)" by fastforce
  obtain t d2 where r: "rdtsc hw d1 = (t, d2)" by fastforce
  show "drq_loop hw ch c s d \<noteq> None"
    by (subst drq_loop.simps) (use IH [of d2] turn [OF i r _ e assms(2)] in \<open>auto simp: i r\<close>)
qed

lemma timeout_small: "unat (timeout_cycles hw tm) + 2 ^ 32 < 2 ^ 63"
proof -
  have "unat tm < 2 ^ LENGTH(32)" by (rule unsigned_less)
  then have a: "unat (ucast tm :: u64) \<le> 2 ^ 32" by simp
  have b: "unat (SYSTEM_CPU_Frequency hw div 1000) \<le> 2 ^ 40 div 1000"
    using div_le_mono [OF frequency, of 1000] by (simp add: unat_div)
  have "unat (timeout_cycles hw tm) \<le> unat (ucast tm :: u64) * unat (SYSTEM_CPU_Frequency hw div 1000)"
    unfolding timeout_cycles_def unat_word_ariths by (rule mod_less_eq_dividend)
  also have "\<dots> \<le> 2 ^ 32 * (2 ^ 40 div 1000)" by (rule mult_le_mono [OF a b])
  finally show ?thesis by simp
qed

lemma rdtsc_start: "rdtsc hw d = (t, d') \<Longrightarrow> unat (clock d' - t) \<le> 2 ^ 32"
  using rdtsc_value [of d] rdtsc_clock [of d] by auto

lemma wait_busy_returns: "returns (ATA_Wait_Busy hw ch tm d)"
  using busy_returns [OF _ timeout_small] rdtsc_start [of d]
  by (auto simp: ATA_Wait_Busy_def returns_def split: prod.split)

lemma wait_drq_returns: "returns (ATA_Wait_DRP hw ch tm d)"
  using drq_returns [OF _ timeout_small] rdtsc_start [of d]
  by (auto simp: ATA_Wait_DRP_def returns_def split: prod.split)

lemma delay_ms_returns: "returns (delay_ms hw ms d)"
proof -
  obtain t d' where r: "rdtsc hw d = (t, d')" by fastforce
  have "unat (timeout_cycles hw ms) < 2 ^ 63" using timeout_small [of ms] by simp
  from delay_returns [OF _ this, of d' t] rdtsc_start [OF r]
  show ?thesis by (simp add: delay_ms_def r timeout_cycles_def returns_def)
qed

lemma lba28_returns: "returns (lba28_cmd hw ch m cmd lba n d)"
  unfolding lba28_cmd_def Let_def
  by (auto intro!: returns_bind delay_ms_returns wait_busy_returns)

lemma lba48_returns: "returns (lba48_cmd hw ch m cmd lba n d)"
  unfolding lba48_cmd_def Let_def
  by (auto intro!: returns_bind delay_ms_returns wait_busy_returns)

lemma in_words_length: "in_words hw port n d = (ws, d') \<Longrightarrow> length ws = n"
  by (induction n arbitrary: ws d d') (auto split: prod.splits)

lemma words_bytes_length: "length (words_bytes ws) = 2 * length ws"
  by (induction ws) (auto simp: words_bytes_def)

lemma put_bytes_length: "put_bytes buf k bs = Some buf' \<Longrightarrow> length buf' = length buf"
  by (auto simp: put_bytes_def split: if_splits)

lemma read_sectors_returns:
  "512 * (k + n) \<le> length buf \<Longrightarrow> returns (read_sectors hw ch k n buf d)"
proof (induction n arbitrary: k buf d)
  case (Suc n)
  have len: "length (words_bytes (fst (in_words hw (data_port ch) 256 e))) = 512" for e
    by (simp add: words_bytes_length in_words_length [OF prod.collapse [symmetric]])
  have put: "returns (put_bytes buf (512 * k) (words_bytes (fst (in_words hw (data_port ch) 256 e))))" for e
    using Suc.prems by (simp add: put_bytes_def len)
  have IH: "returns (read_sectors hw ch (Suc k) n y e)" if "put_bytes buf (512 * k) bs = Some y" for y e bs
    using Suc.IH [of "Suc k" y e] Suc.prems put_bytes_length [OF that] by simp
  show ?case unfolding read_sectors.simps Let_def
    by (auto simp: split_beta intro!: returns_bind wait_busy_returns wait_drq_returns put IH)
qed simp

lemma write_sectors_returns:
  "512 * (k + n) \<le> length buf \<Longrightarrow> returns (write_sectors hw ch k n buf d)"
proof (induction n arbitrary: k d)
  case (Suc n)
  have IH: "returns (write_sectors hw ch (k + 1) n buf e)" for e
    using Suc.IH [of "k + 1" e] Suc.prems by simp
  have "returns (get_bytes buf (512 * k) 512)" using Suc.prems by (simp add: get_bytes_def)
  with IH show ?case unfolding write_sectors.simps Let_def
    by (auto simp: split_beta intro!: returns_bind wait_busy_returns wait_drq_returns)
qed simp

lemma ATA_Read_returns: "512 * unat n \<le> length buf \<Longrightarrow> returns (ATA_Read hw ch m lba n buf d)"
  unfolding ATA_Read_def ATA_Read_LBA28_cmd_def ATA_Read_LBA48_cmd_def Read_Sector_def
  by (auto intro!: returns_bind lba28_returns lba48_returns read_sectors_returns)

lemma ATA_Write_returns: "512 * unat n \<le> length buf \<Longrightarrow> returns (ATA_Write hw ch m lba n buf d)"
  unfolding ATA_Write_def ATA_Write_LBA28_cmd_def ATA_Write_LBA48_cmd_def Write_Sector_def
  by (auto intro!: returns_bind lba28_returns lba48_returns write_sectors_returns)

lemma ATA_Flush_returns: "returns (ATA_Flush_Cache hw ch m d)"
  unfolding ATA_Flush_Cache_def
  by (auto intro!: returns_bind delay_ms_returns wait_busy_returns)

end

end
