(* ===== verification/FatDisk.thy ===== *)
theory FatDisk
  imports FatFile
begin

text \<open>
  What the file system needs of a disk driver, as the locale \<open>block_device\<close>, and the file system's
  lemmas over it.
\<close>

section \<open>Fields of a sector\<close>

lemma write_le32_length [simp]: "length (write_le32 b k v) = length b"
  by (simp add: write_le32_def)

lemma read_write_le32: "k + 4 \<le> length b \<Longrightarrow> read_le32 (write_le32 b k v) k = v"
  by (simp add: read_le32_def write_le32_def le32_byte_at)

lemma read_write_le32_other:
  "j + 4 \<le> k \<or> k + 4 \<le> j \<Longrightarrow> read_le32 (write_le32 b k v) j = read_le32 b j"
  by (auto simp: read_le32_def write_le32_def)

lemma unat_add64: "unat a + unat b < 2 ^ 64 \<Longrightarrow> unat (a + b) = unat a + unat b" for a b :: u64
  by (simp add: unat_word_ariths)

section \<open>Layout of a volume\<close>

text \<open>What \<^verbatim>\<open>check_DBR\<close> checks and the boot sector promises: the tables lie one after the other
  before the clusters, have an entry for each cluster, and everything can be addressed.\<close>

definition fat_base :: "'d volume \<Rightarrow> fat32_info \<Rightarrow> nat" where
  "fat_base v info = unat (v_start v) + unat (fat_region_lba info)"

definition data_base :: "'d volume \<Rightarrow> fat32_info \<Rightarrow> nat" where
  "data_base v info = unat (v_start v) + unat (data_region_lba info)"

definition spc :: "fat32_info \<Rightarrow> nat" where "spc info = unat (sectors_per_cluster info)"

definition geometry :: "'d volume \<Rightarrow> fat32_info \<Rightarrow> bool" where
  "geometry v info \<longleftrightarrow> bytes_per_sector info = 512 \<and> v_master v \<and> 0 < num_fats info \<and> 0 < spc info \<and>
     spc info \<le> 64 \<and> 0 < unat (total_clusters info) \<and> unat (total_clusters info) + 2 \<le> 0x0FFFFFF0 \<and>
     unat (total_clusters info) + 2 \<le> 128 * unat (sectors_per_fat info) \<and>
     fat_base v info + unat (num_fats info) * unat (sectors_per_fat info) \<le> data_base v info \<and>
     data_base v info + unat (total_clusters info) * spc info \<le> 2 ^ 48"

definition valid_cluster :: "fat32_info \<Rightarrow> u32 \<Rightarrow> bool" where
  "valid_cluster info c \<longleftrightarrow> 2 \<le> unat c \<and> unat c < unat (total_clusters info) + 2"

text \<open>The sector of copy \<open>i\<close> of the table that holds the entry of a cluster, and the entry in it.\<close>

definition entry_sec :: "'d volume \<Rightarrow> fat32_info \<Rightarrow> nat \<Rightarrow> u32 \<Rightarrow> nat" where
  "entry_sec v info i c = fat_base v info + i * unat (sectors_per_fat info) + unat c div 128"

definition entry_off :: "u32 \<Rightarrow> nat" where "entry_off c = 4 * (unat c mod 128)"

definition fat_get :: "'d volume \<Rightarrow> fat32_info \<Rightarrow> (bool \<Rightarrow> nat \<Rightarrow> u8 list) \<Rightarrow> nat \<Rightarrow> u32 \<Rightarrow> u32" where
  "fat_get v info s i c = read_le32 (s True (entry_sec v info i c)) (entry_off c)"

definition fat_set :: "'d volume \<Rightarrow> fat32_info \<Rightarrow> u32 \<Rightarrow> u32 \<Rightarrow> (bool \<Rightarrow> nat \<Rightarrow> u8 list) \<Rightarrow> bool \<Rightarrow> nat \<Rightarrow> u8 list" where
  "fat_set v info c val s m x =
     (if m \<and> (\<exists>i \<in> {..<unat (num_fats info)}. x = entry_sec v info i c)
      then write_le32 (s m x) (entry_off c) val else s m x)"

definition free_entry :: "'d volume \<Rightarrow> fat32_info \<Rightarrow> (bool \<Rightarrow> nat \<Rightarrow> u8 list) \<Rightarrow> u32 \<Rightarrow> bool" where
  "free_entry v info s c \<longleftrightarrow> fat_get v info s 0 c AND 0x0FFFFFFF = 0"

definition nth_cluster :: "fat32_info \<Rightarrow> nat \<Rightarrow> nat \<Rightarrow> u32" where
  "nth_cluster info s k = of_nat ((s + k) mod unat (total_clusters info) + 2)"

text \<open>The counters after cluster \<open>r\<close> has been taken.\<close>

definition taken :: "fat32_info \<Rightarrow> u32 \<Rightarrow> fat32_info" where
  "taken info r =
     (if free_clusters info \<noteq> 0xFFFFFFFF \<and> 0 < free_clusters info
      then info\<lparr>free_clusters := free_clusters info - 1\<rparr> else info)\<lparr>next_free_cluster := r + 1\<rparr>"

definition hint_ok :: "fat32_info \<Rightarrow> bool" where
  "hint_ok info \<longleftrightarrow> next_free_cluster info = 0xFFFFFFFF \<or> next_free_cluster info < 2 \<or>
     valid_cluster info (next_free_cluster info)"

text \<open>The counter after a cluster has been given back.\<close>

definition given_back :: "fat32_info \<Rightarrow> fat32_info" where
  "given_back info =
     (if free_clusters info \<noteq> 0xFFFFFFFF then info\<lparr>free_clusters := free_clusters info + 1\<rparr> else info)"

text \<open>\<open>cs\<close> is the chain of clusters from its first on, in the first copy of the table.\<close>

fun chain :: "'d volume \<Rightarrow> fat32_info \<Rightarrow> (bool \<Rightarrow> nat \<Rightarrow> u8 list) \<Rightarrow> u32 list \<Rightarrow> bool" where
  "chain v info s [] = False"
| "chain v info s [c] \<longleftrightarrow> valid_cluster info c \<and> FAT32_ENTRY_EOF \<le> fat_get v info s 0 c AND 0x0FFFFFFF"
| "chain v info s (c # c' # cs) \<longleftrightarrow>
     valid_cluster info c \<and> fat_get v info s 0 c AND 0x0FFFFFFF = c' \<and> c' < FAT32_ENTRY_EOF \<and> chain v info s (c' # cs)"

definition chain_next :: "'d volume \<Rightarrow> fat32_info \<Rightarrow> (bool \<Rightarrow> nat \<Rightarrow> u8 list) \<Rightarrow> u32 \<Rightarrow> u32 list \<Rightarrow> bool" where
  "chain_next v info s c cs \<longleftrightarrow>
     (if cs = [] then FAT32_ENTRY_EOF \<le> fat_get v info s 0 c AND 0x0FFFFFFF
      else fat_get v info s 0 c AND 0x0FFFFFFF = hd cs \<and> \<not> FAT32_ENTRY_EOF \<le> hd cs \<and> chain v info s cs)"

lemma chain_Cons: "chain v info s (c # cs) \<longleftrightarrow> valid_cluster info c \<and> chain_next v info s c cs"
  by (cases cs) (auto simp: chain_next_def linorder_not_le)

lemma chain_ConsD: "chain v info s (c # cs) \<Longrightarrow> valid_cluster info c \<and> chain_next v info s c cs"
  by (simp add: chain_Cons)

lemma given_back_simps:
  "geometry v (given_back info) = geometry v info" "fat_set v (given_back info) = fat_set v info"
  "chain v (given_back info) s cs = chain v info s cs" "valid_cluster (given_back info) = valid_cluster info"
proof -
  show v: "valid_cluster (given_back info) = valid_cluster info"
    by (auto simp: given_back_def valid_cluster_def fun_eq_iff)
  have g: "fat_get v (given_back info) = fat_get v info"
    by (auto simp: given_back_def fat_get_def entry_sec_def fat_base_def fun_eq_iff)
  show "geometry v (given_back info) = geometry v info"
    by (auto simp: given_back_def geometry_def fat_base_def data_base_def spc_def)
  show "fat_set v (given_back info) = fat_set v info"
    by (auto simp: given_back_def fat_set_def entry_sec_def fat_base_def fun_eq_iff)
  show "chain v (given_back info) s cs = chain v info s cs"
    by (induction cs) (simp_all add: chain_Cons chain_next_def v g del: chain.simps(2,3))
qed

lemma entry_off_bound: "entry_off c + 4 \<le> 512"
  by (simp add: entry_off_def)

lemma geometry_words:
  assumes "geometry v info"
  shows "bytes_per_sector info = 512" "fat_sector info c = ucast c div 128" "sector_offset info c = entry_off c"
proof -
  show b: "bytes_per_sector info = 512" using assms by (simp add: geometry_def)
  have u: "unat c < 2 ^ LENGTH(32)" by (rule unsigned_less)
  have m: "unat (ucast c * 4 :: u64) = 4 * unat c" using u by (simp add: unat_word_ariths)
  have "unat (fat_sector info c) = 4 * unat c div 512" by (simp add: fat_sector_def b unat_div m)
  also have "\<dots> = unat (ucast c div 128 :: u64)" by (simp add: unat_div)
  finally show "fat_sector info c = ucast c div 128" by (rule unat_eqI)
  have "sector_offset info c = 4 * unat c mod 512" by (simp add: sector_offset_def b unat_mod m)
  then show "sector_offset info c = entry_off c" by (simp add: entry_off_def mult_mod_right)
qed

lemma cluster_sec:
  assumes "geometry v info" "valid_cluster info c" "i < unat (num_fats info)"
  shows "unat c div 128 < unat (sectors_per_fat info)" "entry_sec v info i c < data_base v info"
proof -
  show c: "unat c div 128 < unat (sectors_per_fat info)"
    using assms by (auto simp: geometry_def valid_cluster_def)
  have "(i + 1) * unat (sectors_per_fat info) \<le> unat (num_fats info) * unat (sectors_per_fat info)"
    using assms(3) by (intro mult_le_mono1) simp
  with c assms(1) show "entry_sec v info i c < data_base v info" by (simp add: entry_sec_def geometry_def)
qed

lemma entry_sec_inj:
  assumes "geometry v info" "valid_cluster info c" "valid_cluster info c'" "i < unat (num_fats info)"
    "j < unat (num_fats info)" "entry_sec v info i c = entry_sec v info j c'"
  shows "i = j \<and> unat c div 128 = unat c' div 128"
proof -
  let ?s = "unat (sectors_per_fat info)"
  have e: "i * ?s + unat c div 128 = j * ?s + unat c' div 128" using assms(6) by (simp add: entry_sec_def)
  have l: "unat c div 128 < ?s" "unat c' div 128 < ?s" using assms cluster_sec(1) by blast+
  then have "(i * ?s + unat c div 128) div ?s = i" "(j * ?s + unat c' div 128) div ?s = j" by (simp_all add: div_mult_self3)
  with e have "i = j" by simp
  with e show ?thesis by simp
qed

lemma fat_get_set:
  assumes "geometry v info" "valid_cluster info c" "valid_cluster info c'" "i < unat (num_fats info)"
    "\<And>x. length (s True x) = 512"
  shows "fat_get v info (fat_set v info c val s) i c' = (if c' = c then val else fat_get v info s i c')"
proof (cases "c' = c")
  case True
  with assms(4) show ?thesis
    using read_write_le32 entry_off_bound [of c] assms(5) by (auto simp: fat_get_def fat_set_def)
next
  case False
  then have n: "unat c' \<noteq> unat c" by (auto dest: unat_eqI)
  show ?thesis
  proof (cases "\<exists>j \<in> {..<unat (num_fats info)}. entry_sec v info i c' = entry_sec v info j c")
    case True
    then have "unat c' div 128 = unat c div 128" using entry_sec_inj [OF assms(1,3,2,4)] by auto
    then have "unat c' mod 128 \<noteq> unat c mod 128" using n by (metis mult_div_mod_eq)
    then have "entry_off c' + 4 \<le> entry_off c \<or> entry_off c + 4 \<le> entry_off c'"
      by (simp add: entry_off_def) linarith
    with False True show ?thesis by (simp add: fat_get_def fat_set_def read_write_le32_other)
  next
    case c: False
    with False show ?thesis by (auto simp: fat_get_def fat_set_def)
  qed
qed

lemma chain_valid: "chain v info s cs \<Longrightarrow> c \<in> set cs \<Longrightarrow> valid_cluster info c"
  by (induction cs rule: chain.induct) auto

text \<open>An entry outside the chain can change.\<close>

lemma chain_fat_set:
  assumes "geometry v info" "valid_cluster info c" "chain v info s cs" "c \<notin> set cs" "\<And>x. length (s True x) = 512"
  shows "chain v info (fat_set v info c val s) cs"
  using assms(3,4)
proof (induction cs)
  case (Cons c' cs)
  have "0 < unat (num_fats info)" using assms(1) by (simp add: geometry_def word_less_nat_alt)
  moreover from Cons.prems have "valid_cluster info c'" by (simp add: chain_Cons del: chain.simps(2,3))
  ultimately have "fat_get v info (fat_set v info c val s) 0 c' = fat_get v info s 0 c'"
    using fat_get_set [OF assms(1,2), of c' 0 s val] Cons.prems assms(5) by auto
  with Cons show ?case by (auto simp: chain_Cons chain_next_def simp del: chain.simps(2,3))
qed simp

section \<open>The contract of the driver\<close>

text \<open>\<open>sec d m x\<close> is sector \<open>x\<close> of the master or slave; \<open>ok\<close> is the state between two calls, and
  48 bits address a sector.\<close>

locale block_device =
  fixes v :: "'d volume" and sec :: "'d \<Rightarrow> bool \<Rightarrow> nat \<Rightarrow> u8 list" and ok :: "'d \<Rightarrow> bool"
  assumes read_law: "ok d \<Longrightarrow> 0 < n \<Longrightarrow> unat lba + unat n \<le> 2 ^ 48 \<Longrightarrow> 512 * unat n \<le> length buf \<Longrightarrow>
      \<exists>d'. d_read v m lba n buf d =
             Some (int (unat n), concat (map (sec d m) [unat lba..<unat lba + unat n]) @ drop (512 * unat n) buf, d') \<and>
           ok d' \<and> sec d' = sec d"
    and write_law: "ok d \<Longrightarrow> 0 < n \<Longrightarrow> unat lba + unat n \<le> 2 ^ 48 \<Longrightarrow> 512 * unat n \<le> length buf \<Longrightarrow>
      \<exists>d'. d_write v m lba n buf d = Some (int (unat n), d') \<and> ok d' \<and>
           sec d' = (sec d)(m := (\<lambda>x. if unat lba \<le> x \<and> x < unat lba + unat n
                                      then take 512 (drop (512 * (x - unat lba)) buf) else sec d m x))"
    and flush_law: "ok d \<Longrightarrow> \<exists>d'. d_flush v m d = Some d' \<and> ok d' \<and> sec d' = sec d"
    and sec_length: "ok d \<Longrightarrow> length (sec d m x) = 512"
begin

lemma read_one:
  assumes "ok d" "unat lba < 2 ^ 48"
  shows "\<exists>d'. d_read v m lba 1 (replicate 512 0) d = Some (1, sec d m (unat lba), d') \<and> ok d' \<and> sec d' = sec d"
  using read_law [OF assms(1), of 1 lba "replicate 512 0" m] assms(2) by simp

lemma write_one:
  assumes "ok d" "unat lba < 2 ^ 48" "length b = 512"
  shows "\<exists>d'. d_write v m lba 1 b d = Some (1, d') \<and> ok d' \<and> sec d' = (sec d)(m := (sec d m)(unat lba := b))"
proof -
  have "(\<lambda>x. if unat lba \<le> x \<and> x < unat lba + 1 then take 512 (drop (512 * (x - unat lba)) b) else sec d m x) =
      (sec d m)(unat lba := b)" using assms(3) by (auto simp: fun_eq_iff)
  with write_law [OF assms(1), of 1 lba b m] assms(2,3) show ?thesis by simp
qed

section \<open>The table on a block device\<close>

lemma entry_lba:
  assumes "geometry v info" "valid_cluster info c" "i < unat (num_fats info)"
  shows "unat (v_start v + ucast (fat_region_lba info) + of_nat i * ucast (sectors_per_fat info) + fat_sector info c) =
      entry_sec v info i c" "entry_sec v info i c < 2 ^ 48"
proof -
  have s: "entry_sec v info i c < data_base v info" by (rule cluster_sec [OF assms])
  with assms(1) show l: "entry_sec v info i c < 2 ^ 48" by (simp add: geometry_def)
  have "unat (num_fats info) < 2 ^ LENGTH(8)" "unat (sectors_per_fat info) < 2 ^ LENGTH(32)" by (rule unsigned_less)+
  then have b: "i < 2 ^ 8" "unat (sectors_per_fat info) < 2 ^ 32" using assms(3) by simp_all
  then have "i * unat (sectors_per_fat info) < 2 ^ 8 * 2 ^ 32" by (intro mult_strict_mono) auto
  moreover have "unat (of_nat i :: u64) = i" using b by (simp add: unsigned_of_nat take_bit_nat_eq_self)
  ultimately have m: "unat (of_nat i * ucast (sectors_per_fat info) :: u64) = i * unat (sectors_per_fat info)"
    by (simp add: unat_word_ariths)
  have f: "unat (fat_sector info c) = unat c div 128"
    by (simp add: geometry_words(2) [OF assms(1)] unat_div)
  have l': "unat (v_start v) + unat (fat_region_lba info) + i * unat (sectors_per_fat info) + unat c div 128 < 2 ^ 48"
    using l by (simp add: entry_sec_def fat_base_def)
  then have a1: "unat (v_start v + ucast (fat_region_lba info)) = unat (v_start v) + unat (fat_region_lba info)"
    by (subst unat_add64) simp_all
  then have a2: "unat (v_start v + ucast (fat_region_lba info) + of_nat i * ucast (sectors_per_fat info)) =
      unat (v_start v) + unat (fat_region_lba info) + i * unat (sectors_per_fat info)"
    using l' by (subst unat_add64) (simp_all add: m)
  show "unat (v_start v + ucast (fat_region_lba info) + of_nat i * ucast (sectors_per_fat info) + fat_sector info c) =
      entry_sec v info i c"
    using l' by (subst unat_add64) (simp_all add: a2 f entry_sec_def fat_base_def)
qed

lemma next_spec:
  assumes "geometry v info" "valid_cluster info c" "ok d"
  shows "\<exists>d'. FAT32_NextCluster v info c d = Some (0, fat_get v info (sec d) 0 c AND 0x0FFFFFFF, d') \<and>
    ok d' \<and> sec d' = sec d"
proof -
  have "0 < unat (num_fats info)" using assms(1) by (simp add: geometry_def word_less_nat_alt)
  note l = entry_lba [OF assms(1,2) this]
  obtain d' where d': "d_read v True (v_start v + ucast (fat_region_lba info) + fat_sector info c) 1 (replicate 512 0) d =
      Some (1, sec d True (entry_sec v info 0 c), d')" "ok d'" "sec d' = sec d"
    using read_one [OF assms(3), of "v_start v + ucast (fat_region_lba info) + fat_sector info c" True] l by auto
  then show ?thesis
    by (auto simp: FAT32_NextCluster_def fat_get_def geometry_words [OF assms(1)])
qed

text \<open>Copies \<open>is\<close> of the table are written.\<close>

lemma write_fats_spec:
  assumes "geometry v info" "valid_cluster info c" "ok d" "distinct is" "set is \<subseteq> {..<unat (num_fats info)}"
  shows "\<exists>d'. write_fats v info c val is d = Some (0, d') \<and> ok d' \<and>
    sec d' = (\<lambda>m x. if m \<and> x \<in> (\<lambda>i. entry_sec v info i c) ` set is
                    then write_le32 (sec d m x) (entry_off c) val else sec d m x)"
  using assms(3-)
proof (induction "is" arbitrary: d)
  case (Cons i "is")
  let ?lba = "v_start v + ucast (fat_region_lba info) + of_nat i * ucast (sectors_per_fat info) + fat_sector info c"
  let ?x = "entry_sec v info i c" and ?b = "write_le32 (sec d True (entry_sec v info i c)) (entry_off c) val"
  have i: "i < unat (num_fats info)" using Cons.prems by simp
  note l = entry_lba [OF assms(1,2) i]
  have lb: "unat ?lba < 2 ^ 48" using l by simp
  obtain d1 where d1: "d_read v True ?lba 1 (replicate 512 0) d = Some (1, sec d True ?x, d1)" "ok d1" "sec d1 = sec d"
    using read_one [OF Cons.prems(1) lb, of True] unfolding l by blast
  have "length ?b = 512" using sec_length [OF Cons.prems(1)] by simp
  from write_one [OF d1(2) lb this, of True] obtain d2 where d2: "d_write v True ?lba 1 ?b d1 = Some (1, d2)" "ok d2"
    "sec d2 = (sec d)(True := (sec d True)(?x := ?b))" unfolding l d1(3) by blast
  obtain d3 where d3: "write_fats v info c val is d2 = Some (0, d3)" "ok d3"
    "sec d3 = (\<lambda>m x. if m \<and> x \<in> (\<lambda>i. entry_sec v info i c) ` set is
                    then write_le32 (sec d2 m x) (entry_off c) val else sec d2 m x)"
    using Cons.IH [OF d2(2)] Cons.prems by auto
  have out: "?x \<notin> (\<lambda>i. entry_sec v info i c) ` set is"
  proof
    assume "?x \<in> (\<lambda>i. entry_sec v info i c) ` set is"
    then obtain j where "j \<in> set is" "?x = entry_sec v info j c" by blast
    moreover from this Cons.prems have "j < unat (num_fats info)" by auto
    ultimately have "i = j" using entry_sec_inj [OF assms(1,2,2) i] by blast
    with \<open>j \<in> set is\<close> Cons.prems show False by simp
  qed
  have "write_fats v info c val (i # is) d = Some (0, d3)"
    by (simp add: Let_def d1(1) d2(1) d3(1) geometry_words(3) [OF assms(1)])
  moreover have "sec d3 = (\<lambda>m x. if m \<and> x \<in> (\<lambda>i. entry_sec v info i c) ` set (i # is)
                    then write_le32 (sec d m x) (entry_off c) val else sec d m x)"
    unfolding d3(3) d2(3) using out by (intro ext) auto
  ultimately show ?case using d3(2) by blast
qed simp

lemma write_entry_spec:
  assumes "geometry v info" "valid_cluster info c" "ok d"
  shows "\<exists>d'. FAT32_WriteFATEntry v info c val d = Some (0, d') \<and> ok d' \<and> sec d' = fat_set v info c val (sec d)"
proof -
  obtain d1 where d1: "write_fats v info c val [0..<unat (num_fats info)] d = Some (0, d1)" "ok d1"
    "sec d1 = (\<lambda>m x. if m \<and> x \<in> (\<lambda>i. entry_sec v info i c) ` set [0..<unat (num_fats info)]
                    then write_le32 (sec d m x) (entry_off c) val else sec d m x)"
    using write_fats_spec [OF assms, of "[0..<unat (num_fats info)]"]
    unfolding set_upt atLeast0LessThan by auto
  obtain d2 where d2: "d_flush v True d1 = Some d2" "ok d2" "sec d2 = sec d1" using flush_law [OF d1(2)] by blast
  have "sec d2 = fat_set v info c val (sec d)"
    unfolding d2(3) d1(3) by (intro ext) (auto simp: fat_set_def)
  with d1(1) d2 show ?thesis by (simp add: FAT32_WriteFATEntry_def)
qed

section \<open>Allocation on a block device\<close>

lemma alloc_step:
  assumes "geometry v info" "valid_cluster info c" "ok d"
  shows "\<exists>d1. ok d1 \<and> sec d1 = sec d \<and>
    d_read v True (v_start v + ucast (fat_region_lba info) + fat_sector info c) 1 (replicate 512 0) d =
      Some (1, sec d True (entry_sec v info 0 c), d1)"
proof -
  have "0 < unat (num_fats info)" using assms(1) by (simp add: geometry_def word_less_nat_alt)
  note l = entry_lba [OF assms(1,2) this]
  show ?thesis
    using read_one [OF assms(3), of "v_start v + ucast (fat_region_lba info) + fat_sector info c" True] l by auto
qed

text \<open>The clusters in the order the loop looks at them.\<close>

lemma nth_cluster:
  assumes "geometry v info"
  shows "valid_cluster info (nth_cluster info s k)"
    "unat (nth_cluster info s k) = (s + k) mod unat (total_clusters info) + 2"
proof -
  let ?T = "unat (total_clusters info)"
  have T: "0 < ?T" "?T + 2 \<le> 0x0FFFFFF0" using assms by (auto simp: geometry_def)
  then have l: "(s + k) mod ?T < ?T" by simp
  with T have "(s + k) mod ?T + 2 < 2 ^ 32" by simp
  then show u: "unat (nth_cluster info s k) = (s + k) mod ?T + 2"
    unfolding nth_cluster_def unsigned_of_nat of_nat_id by (intro take_bit_nat_eq_self) simp
  then show "valid_cluster info (nth_cluster info s k)" using l by (simp add: valid_cluster_def)
qed

lemma next_cluster:
  assumes "geometry v info"
  shows "(let c = nth_cluster info s k + 1 in if total_clusters info + 2 \<le> c then 2 else c) = nth_cluster info s (Suc k)"
proof (rule unat_eqI)
  let ?T = "unat (total_clusters info)"
  have T: "0 < ?T" "?T + 2 \<le> 0x0FFFFFF0" using assms by (auto simp: geometry_def)
  then have l: "(s + k) mod ?T < ?T" by simp
  have c: "unat (nth_cluster info s k + 1) = (s + k) mod ?T + 3"
    using T l by (simp add: unat_word_ariths nth_cluster(2) [OF assms])
  have t: "unat (total_clusters info + 2) = ?T + 2" using T by (simp add: unat_word_ariths)
  show "unat (let c = nth_cluster info s k + 1 in if total_clusters info + 2 \<le> c then 2 else c) =
      unat (nth_cluster info s (Suc k))"
    using l by (auto simp: Let_def word_le_nat_alt c t nth_cluster(2) [OF assms] mod_Suc)
qed

lemma alloc_loop_spec:
  assumes "geometry v info" "ok d" "k < unat (total_clusters info)"
    "\<forall>j < k. \<not> free_entry v info (sec d) (nth_cluster info s j)"
  shows "\<exists>r info' d'. alloc_loop v info (nth_cluster info s 0) (nth_cluster info s k) d = Some (r, info', d') \<and> ok d' \<and>
    (if r = 0 then info' = info \<and> sec d' = sec d \<and>
         (\<forall>j < unat (total_clusters info). \<not> free_entry v info (sec d) (nth_cluster info s j))
     else valid_cluster info r \<and> free_entry v info (sec d) r \<and> sec d' = fat_set v info r FAT32_ENTRY_EOF (sec d) \<and>
       info' = taken info r)"
  using assms(2-)
proof (induction "unat (total_clusters info) - k" arbitrary: k d rule: less_induct)
  case less
  let ?c = "nth_cluster info s k" and ?T = "unat (total_clusters info)"
  note v = nth_cluster [OF assms(1), of s]
  obtain d1 where d1: "d_read v True (v_start v + ucast (fat_region_lba info) + fat_sector info ?c) 1 (replicate 512 0) d =
      Some (1, sec d True (entry_sec v info 0 ?c), d1)" "ok d1" "sec d1 = sec d"
    using alloc_step [OF assms(1) v(1) less.prems(1)] by blast
  have fr: "free_entry v info (sec d) ?c \<longleftrightarrow>
      read_le32 (sec d True (entry_sec v info 0 ?c)) (sector_offset info ?c) AND 0x0FFFFFFF = FAT32_ENTRY_FREE"
    by (simp add: free_entry_def fat_get_def geometry_words(3) [OF assms(1)] FAT32_ENTRY_FREE_def)
  show ?case
  proof (cases "free_entry v info (sec d) ?c")
    case True
    obtain d2 where d2: "FAT32_WriteFATEntry v info ?c FAT32_ENTRY_EOF d1 = Some (0, d2)" "ok d2"
      "sec d2 = fat_set v info ?c FAT32_ENTRY_EOF (sec d)"
      using write_entry_spec [OF assms(1) v(1) d1(2)] unfolding d1(3) by blast
    have "?c \<noteq> 0" using v(2) [of k] by auto
    moreover have "alloc_loop v info (nth_cluster info s 0) ?c d = Some (?c, taken info ?c, d2)"
      by (subst alloc_loop.simps) (use True fr in \<open>simp add: d1(1) d2(1) taken_def Let_def\<close>)
    ultimately show ?thesis using d2 True v(1) by auto
  next
    case False
    have step: "alloc_loop v info (nth_cluster info s 0) ?c d =
        (if nth_cluster info s (Suc k) = nth_cluster info s 0 then Some (0, info, d1)
         else alloc_loop v info (nth_cluster info s 0) (nth_cluster info s (Suc k)) d1)"
      by (subst alloc_loop.simps, unfold next_cluster [OF assms(1), symmetric])
        (use False fr in \<open>simp add: d1(1) Let_def\<close>)
    have seen: "\<forall>j < Suc k. \<not> free_entry v info (sec d) (nth_cluster info s j)"
      using False less.prems(3) by (auto simp: less_Suc_eq)
    show ?thesis
    proof (cases "Suc k = ?T")
      case True
      then have "nth_cluster info s (Suc k) = nth_cluster info s 0" by (intro unat_eqI) (simp add: v(2))
      with step seen True d1 show ?thesis by auto
    next
      case k: False
      then have k: "Suc k < ?T" using less.prems(2) by simp
      then have "(s + Suc k) mod ?T \<noteq> s mod ?T"
        using mod_eq_dvd_iff_nat [of s "s + Suc k" ?T] nat_dvd_not_less [of "Suc k" ?T] by auto
      then have "nth_cluster info s (Suc k) \<noteq> nth_cluster info s 0"
        using v(2) [of "Suc k"] v(2) [of 0] by (metis add_right_cancel add.right_neutral)
      moreover have "\<forall>j < Suc k. \<not> free_entry v info (sec d1) (nth_cluster info s j)" using seen d1(3) by simp
      note IH = less.hyps [OF _ d1(2) k this, unfolded d1(3)]
      ultimately show ?thesis unfolding step using IH k by simp
    qed
  qed
qed

lemma alloc_spec:
  assumes "geometry v info" "ok d" "hint_ok info"
  shows "\<exists>r info' d'. FAT32_AllocCluster v info d = Some (r, info', d') \<and> ok d' \<and>
    (if r = 0 then info' = info \<and> sec d' = sec d \<and> (\<forall>c. valid_cluster info c \<longrightarrow> \<not> free_entry v info (sec d) c)
     else valid_cluster info r \<and> free_entry v info (sec d) r \<and> sec d' = fat_set v info r FAT32_ENTRY_EOF (sec d) \<and>
       info' = taken info r)"
proof -
  let ?T = "unat (total_clusters info)"
  let ?start = "if next_free_cluster info \<noteq> 0xFFFFFFFF \<and> 2 \<le> next_free_cluster info then next_free_cluster info else 2"
  have T: "0 < ?T" using assms(1) by (simp add: geometry_def)
  have v: "valid_cluster info ?start"
    using assms(3) T by (auto simp: hint_ok_def valid_cluster_def word_le_nat_alt word_less_nat_alt split: if_splits)
  define s where "s = unat ?start - 2"
  have s: "s < ?T" "unat ?start = s + 2" using v by (auto simp: s_def valid_cluster_def)
  have z: "nth_cluster info s 0 = ?start"
    by (rule unat_eqI) (use s in \<open>simp add: nth_cluster(2) [OF assms(1)]\<close>)
  have all: "\<exists>j < ?T. c = nth_cluster info s j" if "valid_cluster info c" for c
  proof -
    let ?j = "(unat c - 2 + (?T - s)) mod ?T"
    have "(s + ?j) mod ?T = (s + (unat c - 2 + (?T - s))) mod ?T" by (simp only: mod_add_right_eq)
    also have "s + (unat c - 2 + (?T - s)) = (unat c - 2) + ?T" using s by simp
    also have "((unat c - 2) + ?T) mod ?T = unat c - 2"
      unfolding mod_add_self2 using that by (intro mod_less) (auto simp: valid_cluster_def)
    finally have "unat (nth_cluster info s ?j) = unat c - 2 + 2" by (simp only: nth_cluster(2) [OF assms(1)])
    also have "\<dots> = unat c" using that by (auto simp: valid_cluster_def)
    finally have "c = nth_cluster info s ?j" by (intro unat_eqI) (rule sym)
    with T show ?thesis by (intro exI [of _ ?j]) simp
  qed
  have "\<forall>j < 0. \<not> free_entry v info (sec d) (nth_cluster info s j)" by simp
  from alloc_loop_spec [OF assms(1,2) T this, unfolded z] all show ?thesis
    unfolding FAT32_AllocCluster_def Let_def by (metis (lifting))
qed

lemma free_chain_spec:
  assumes "geometry v info" "ok d" "chain v info (sec d) cs" "distinct cs"
  shows "\<exists>d'. FAT32_FreeClusterChain v info (hd cs) d = Some (0, (given_back ^^ length cs) info, d') \<and> ok d' \<and>
    sec d' = fold (\<lambda>c. fat_set v info c FAT32_ENTRY_FREE) cs (sec d)"
  using assms
proof (induction cs arbitrary: info d)
  case (Cons c cs)
  have v: "valid_cluster info c" "chain_next v info (sec d) c cs" using Cons.prems(3) by (auto dest: chain_ConsD)
  then have c: "2 \<le> c" "c < FAT32_ENTRY_EOF"
    using Cons.prems(1) by (auto simp: valid_cluster_def geometry_def word_le_nat_alt word_less_nat_alt FAT32_ENTRY_EOF_def)
  let ?n = "fat_get v info (sec d) 0 c AND 0x0FFFFFFF"
  obtain d1 where d1: "FAT32_NextCluster v info c d = Some (0, ?n, d1)" "ok d1" "sec d1 = sec d"
    using next_spec [OF Cons.prems(1) v(1) Cons.prems(2)] by blast
  obtain d2 where d2: "FAT32_WriteFATEntry v info c FAT32_ENTRY_FREE d1 = Some (0, d2)" "ok d2"
    "sec d2 = fat_set v info c FAT32_ENTRY_FREE (sec d)"
    using write_entry_spec [OF Cons.prems(1) v(1) d1(2)] unfolding d1(3) by blast
  have step: "FAT32_FreeClusterChain v info c d =
      (if FAT32_ENTRY_EOF \<le> ?n then Some (0, given_back info, d2) else FAT32_FreeClusterChain v (given_back info) ?n d2)"
    by (subst FAT32_FreeClusterChain.simps) (simp add: c d1(1) d2(1) given_back_def)
  show ?case
  proof (cases "cs = []")
    case True
    with v(2) step d2 show ?thesis by (simp add: chain_next_def)
  next
    case False
    with v(2) have n: "?n = hd cs" "\<not> FAT32_ENTRY_EOF \<le> ?n" "chain v info (sec d) cs"
      by (auto simp: chain_next_def)
    have "chain v (given_back info) (sec d2) cs"
      using chain_fat_set [OF Cons.prems(1) v(1) n(3)] Cons.prems(4) sec_length [OF Cons.prems(2)] d2(3)
      by (simp add: given_back_simps)
    with Cons.IH [of "given_back info" d2] Cons.prems d2(2)
    obtain d3 where "FAT32_FreeClusterChain v (given_back info) (hd cs) d2 =
        Some (0, (given_back ^^ length cs) (given_back info), d3)" "ok d3"
      "sec d3 = fold (\<lambda>c. fat_set v info c FAT32_ENTRY_FREE) cs (sec d2)"
      by (auto simp: given_back_simps)
    with step n d2(3) show ?thesis by (simp add: funpow_swap1)
  qed
qed simp

end

end
