(* ===== verification/FatData.thy ===== *)
theory FatData
  imports FatDisk
begin

text \<open>
  The contents of files on a block device: what \<^verbatim>\<open>FAT32_ReadFile\<close> and
  \<^verbatim>\<open>FAT32_WriteFile\<close> do along a chain of clusters.
\<close>

section \<open>Clusters of data\<close>

definition data_sec :: "'d volume \<Rightarrow> fat32_info \<Rightarrow> u32 \<Rightarrow> nat" where
  "data_sec v info c = data_base v info + (unat c - 2) * spc info"

definition cdata :: "'d volume \<Rightarrow> fat32_info \<Rightarrow> (bool \<Rightarrow> nat \<Rightarrow> u8 list) \<Rightarrow> u32 \<Rightarrow> u8 list" where
  "cdata v info s c = concat (map (s True) [data_sec v info c..<data_sec v info c + spc info])"

definition data_set :: "'d volume \<Rightarrow> fat32_info \<Rightarrow> u32 \<Rightarrow> u8 list \<Rightarrow> (bool \<Rightarrow> nat \<Rightarrow> u8 list) \<Rightarrow> bool \<Rightarrow> nat \<Rightarrow> u8 list" where
  "data_set v info c b s m x =
     (if m \<and> data_sec v info c \<le> x \<and> x < data_sec v info c + spc info
      then take 512 (drop (512 * (x - data_sec v info c)) b) else s m x)"

definition csz :: "fat32_info \<Rightarrow> nat" where "csz info = 512 * spc info"

lemma cdata_length: "(\<And>x. length (s True x) = 512) \<Longrightarrow> length (cdata v info s c) = csz info"
  by (simp add: cdata_def csz_def length_concat comp_def sum_list_triv)

lemma concat_slices: "length b = 512 * n \<Longrightarrow> concat (map (\<lambda>i. take 512 (drop (512 * i) b)) [0..<n]) = b"
proof (induction n arbitrary: b)
  case (Suc n)
  have "[0..<Suc n] = 0 # map Suc [0..<n]" by (simp add: map_Suc_upt upt_conv_Cons del: upt_Suc)
  then have "concat (map (\<lambda>i. take 512 (drop (512 * i) b)) [0..<Suc n]) =
      take 512 b @ concat (map (\<lambda>i. take 512 (drop (512 * i) (drop 512 b))) [0..<n])"
    by (simp add: comp_def add.commute del: upt_Suc)
  also have "\<dots> = b" using Suc.IH [of "drop 512 b"] Suc.prems by simp
  finally show ?case .
qed simp

lemma cdata_set_same: "length b = csz info \<Longrightarrow> cdata v info (data_set v info c b s) c = b"
proof -
  assume b: "length b = csz info"
  let ?l = "data_sec v info c"
  have "map (data_set v info c b s True) [?l..<?l + spc info] = map (\<lambda>i. take 512 (drop (512 * i) b)) [0..<spc info]"
    by (rule nth_equalityI) (auto simp: data_set_def)
  then show ?thesis using concat_slices [of b "spc info"] b by (simp add: cdata_def csz_def)
qed

lemma data_disjoint:
  assumes "unat c \<noteq> unat c'" "2 \<le> unat c" "2 \<le> unat c'" "data_sec v info c \<le> x" "x < data_sec v info c + spc info"
  shows "\<not> (data_sec v info c' \<le> x \<and> x < data_sec v info c' + spc info)"
proof
  assume "data_sec v info c' \<le> x \<and> x < data_sec v info c' + spc info"
  moreover have "(x - data_base v info) div spc info = unat a - 2"
    if "data_sec v info a \<le> x" "x < data_sec v info a + spc info" for a
    using that by (intro div_nat_eqI) (auto simp: data_sec_def algebra_simps)
  ultimately have "unat c - 2 = unat c' - 2" using assms(4,5) by metis
  then show False using assms(1-3) by simp
qed

lemma cdata_set_other:
  assumes "valid_cluster info c" "valid_cluster info c'" "c' \<noteq> c"
  shows "cdata v info (data_set v info c b s) c' = cdata v info s c'"
proof -
  have "unat c' \<noteq> unat c" using assms(3) by (auto dest: unat_eqI)
  then have "data_set v info c b s True x = s True x"
    if "data_sec v info c' \<le> x" "x < data_sec v info c' + spc info" for x
    using data_disjoint [OF _ _ _ that] assms(1,2) by (auto simp: data_set_def valid_cluster_def)
  then show ?thesis unfolding cdata_def by (intro arg_cong [of _ _ concat] map_cong) auto
qed

lemma fat_get_data_set:
  assumes "geometry v info" "valid_cluster info c'" "valid_cluster info c"
  shows "fat_get v info (data_set v info c b s) 0 c' = fat_get v info s 0 c'"
proof -
  have "0 < unat (num_fats info)" using assms(1) by (simp add: geometry_def word_less_nat_alt)
  from cluster_sec(2) [OF assms(1,2) this] have "\<not> data_sec v info c \<le> entry_sec v info 0 c'"
    by (simp add: data_sec_def)
  then show ?thesis by (simp add: fat_get_def data_set_def)
qed

lemma chain_data_set:
  assumes "geometry v info" "valid_cluster info c" "chain v info s cs"
  shows "chain v info (data_set v info c b s) cs"
  using assms(3) by (induction cs)
    (auto simp: chain_Cons chain_next_def fat_get_data_set [OF assms(1) _ assms(2)] simp del: chain.simps(2,3))

lemma data_set_length:
  assumes "length b = csz info" "\<And>m x. length (s m x) = 512"
  shows "length (data_set v info c b s m x) = 512"
proof -
  have "512 * (x - data_sec v info c) + 512 \<le> length b"
    if "data_sec v info c \<le> x" "x < data_sec v info c + spc info"
    using that assms(1) by (simp add: csz_def)
  then show ?thesis using assms(2) by (auto simp: data_set_def)
qed

lemma geometry_csz:
  assumes "geometry v info"
  shows "cluster_size info = csz info" "unat (csize info) = csz info" "0 < csz info" "csz info \<le> 2 ^ 15"
proof -
  have b: "bytes_per_sector info = 512" "0 < spc info" "spc info \<le> 64" using assms by (simp_all add: geometry_def)
  then show "cluster_size info = csz info" "0 < csz info" "csz info \<le> 2 ^ 15"
    by (simp_all add: cluster_size_def csz_def spc_def)
  show "unat (csize info) = csz info" using b by (simp add: csize_def csz_def spc_def unat_word_ariths)
qed

section \<open>What a write leaves\<close>

text \<open>The new contents of a cluster: the \<open>k\<close>th part of the data, then what the cluster held.\<close>

definition new_data :: "fat32_info \<Rightarrow> u8 list \<Rightarrow> nat \<Rightarrow> u8 list \<Rightarrow> u8 list" where
  "new_data info dat k old =
     (let p = take (csz info) (drop (csz info * k) dat) in p @ drop (length p) old)"

fun write_chain :: "'d volume \<Rightarrow> fat32_info \<Rightarrow> u8 list \<Rightarrow> nat \<Rightarrow> u32 list \<Rightarrow> (bool \<Rightarrow> nat \<Rightarrow> u8 list) \<Rightarrow> bool \<Rightarrow> nat \<Rightarrow> u8 list" where
  "write_chain v info dat k [] s = s"
| "write_chain v info dat k (c # cs) s =
     write_chain v info dat (k + 1) cs (data_set v info c (new_data info dat k (cdata v info s c)) s)"

lemma new_data_length: "length old = csz info \<Longrightarrow> length (new_data info dat k old) = csz info"
  by (auto simp: new_data_def Let_def)

lemma write_chain_length:
  "(\<And>m x. length (s m x) = 512) \<Longrightarrow> length (write_chain v info dat k cs s m x) = 512"
proof (induction cs arbitrary: s k)
  case (Cons c cs)
  then have "length (data_set v info c (new_data info dat k (cdata v info s c)) s m x) = 512" for m x
    by (intro data_set_length new_data_length cdata_length) auto
  with Cons.IH show ?case by simp
qed simp

lemma write_chain_other:
  "(\<And>c'. c' \<in> set cs \<Longrightarrow> valid_cluster info c') \<Longrightarrow> valid_cluster info c \<Longrightarrow> c \<notin> set cs \<Longrightarrow>
   cdata v info (write_chain v info dat k cs s) c = cdata v info s c"
  by (induction cs arbitrary: s k) (auto simp: cdata_set_other)

lemma write_chain_keeps:
  assumes "geometry v info" "\<And>c'. c' \<in> set cs \<Longrightarrow> valid_cluster info c'" "chain v info s ks"
  shows "chain v info (write_chain v info dat k cs s) ks"
  using assms(2,3) by (induction cs arbitrary: s k) (auto intro: chain_data_set [OF assms(1)])

lemma write_chain_data:
  assumes "\<And>c. c \<in> set cs \<Longrightarrow> valid_cluster info c" "distinct cs" "\<And>m x. length (s m x) = 512"
    "length dat \<le> csz info * (k + length cs)"
  shows "take (length dat - csz info * k) (concat (map (cdata v info (write_chain v info dat k cs s)) cs)) =
    drop (csz info * k) dat"
  using assms
proof (induction cs arbitrary: k s)
  case (Cons c cs)
  let ?z = "csz info" and ?b = "new_data info dat k (cdata v info s c)"
  let ?s = "data_set v info c ?b s"
  have bl: "length ?b = ?z" by (rule new_data_length) (use cdata_length Cons.prems(3) in blast)
  have sl: "length (?s m x) = 512" for m x by (rule data_set_length [OF bl Cons.prems(3)])
  have c: "cdata v info (write_chain v info dat (k + 1) cs ?s) c = ?b"
    using write_chain_other [where cs = cs and c = c and s = ?s and k = "k + 1" and info = info and v = v and dat = dat] Cons.prems cdata_set_same [OF bl, where v = v and s = s and c = c] by auto
  have IH: "take (length dat - ?z * (k + 1)) (concat (map (cdata v info (write_chain v info dat (k + 1) cs ?s)) cs)) =
      drop (?z * (k + 1)) dat"
    using Cons.prems sl by (intro Cons.IH) auto
  let ?r = "concat (map (cdata v info (write_chain v info dat (k + 1) cs ?s)) cs)"
  have "take (length dat - ?z * k) (?b @ ?r) = drop (?z * k) dat"
  proof (cases "?z * (k + 1) \<le> length dat")
    case True
    then have b: "?b = take ?z (drop (?z * k) dat)"
      using cdata_length [of s v info c] Cons.prems(3) by (simp add: new_data_def algebra_simps)
    have "take (length dat - ?z * k) (?b @ ?r) = ?b @ take (length dat - ?z * (k + 1)) ?r"
      using bl True by (simp add: algebra_simps)
    also have "\<dots> = ?b @ drop (?z * (k + 1)) dat" unfolding IH ..
    also have "drop (?z * (k + 1)) dat = drop ?z (drop (?z * k) dat)" by (simp add: algebra_simps)
    finally show ?thesis unfolding b append_take_drop_id .
  next
    case False
    then have p: "take ?z (drop (?z * k) dat) = drop (?z * k) dat" by simp
    show ?thesis using False bl by (simp add: new_data_def p)
  qed
  then show ?case by (simp only: write_chain.simps list.map concat.simps c)
qed simp

context block_device
begin

lemma cluster_lba:
  assumes "geometry v info" "valid_cluster info c"
  shows "unat (v_start v + FAT32_ClusterToLBA info c) = data_sec v info c"
    "data_sec v info c + spc info \<le> 2 ^ 48" "unat (ucast (sectors_per_cluster info) :: u16) = spc info"
proof -
  have c: "2 \<le> unat c" "unat c - 2 < unat (total_clusters info)" using assms(2) by (auto simp: valid_cluster_def)
  have "(unat c - 2 + 1) * spc info \<le> unat (total_clusters info) * spc info" using c by (intro mult_le_mono1) simp
  moreover have "data_base v info + unat (total_clusters info) * spc info \<le> 2 ^ 48" using assms(1) by (simp add: geometry_def)
  ultimately show l: "data_sec v info c + spc info \<le> 2 ^ 48" by (simp add: data_sec_def)
  show s: "unat (ucast (sectors_per_cluster info) :: u16) = spc info" by (simp add: spc_def)
  have "unat (c - 2) = unat c - 2" using c by (simp add: unat_sub word_le_nat_alt)
  then have "unat (ucast (c - 2) * ucast (sectors_per_cluster info) :: u64) = (unat c - 2) * spc info"
    using l by (simp add: unat_word_ariths spc_def data_sec_def)
  then show "unat (v_start v + FAT32_ClusterToLBA info c) = data_sec v info c"
    using l by (simp add: FAT32_ClusterToLBA_def unat_word_ariths data_sec_def data_base_def)
qed

lemma read_cluster_spec:
  assumes "geometry v info" "valid_cluster info c" "ok d" "length buf = csz info"
  shows "\<exists>d'. FAT32_ReadCluster v info c buf d = Some (0, cdata v info (sec d) c, d') \<and> ok d' \<and> sec d' = sec d"
proof -
  note l = cluster_lba [OF assms(1,2)]
  have n: "0 < (ucast (sectors_per_cluster info) :: u16)" "v_master v"
    using assms(1) l(3) by (simp_all add: geometry_def word_less_nat_alt)
  from read_law [OF assms(3) n(1), of "v_start v + FAT32_ClusterToLBA info c" buf True] l assms(4) n(2)
  show ?thesis by (auto simp: FAT32_ReadCluster_def csz_def cdata_def)
qed

lemma write_cluster_spec:
  assumes "geometry v info" "valid_cluster info c" "ok d" "length buf = csz info"
  shows "\<exists>d'. FAT32_WriteCluster v info c buf d = Some (0, d') \<and> ok d' \<and> sec d' = data_set v info c buf (sec d)"
proof -
  note l = cluster_lba [OF assms(1,2)]
  have n: "0 < (ucast (sectors_per_cluster info) :: u16)" "v_master v"
    using assms(1) l(3) by (simp_all add: geometry_def word_less_nat_alt)
  let ?lba = "v_start v + FAT32_ClusterToLBA info c" and ?n = "ucast (sectors_per_cluster info) :: u16"
  have p: "unat ?lba + unat ?n \<le> 2 ^ 48" "512 * unat ?n \<le> length buf" using l assms(4) by (simp_all add: csz_def)
  obtain d1 where d1: "d_write v True ?lba ?n buf d = Some (int (unat ?n), d1)" "ok d1"
    "sec d1 = (sec d)(True := (\<lambda>x. if unat ?lba \<le> x \<and> x < unat ?lba + unat ?n
                                      then take 512 (drop (512 * (x - unat ?lba)) buf) else sec d True x))"
    using write_law [OF assms(3) n(1) p, of True] by blast
  obtain d2 where d2: "d_flush v True d1 = Some d2" "ok d2" "sec d2 = sec d1" using flush_law [OF d1(2)] by blast
  have "sec d2 = data_set v info c buf (sec d)"
    unfolding d2(3) d1(3) l by (intro ext) (auto simp: data_set_def)
  with d1(1) d2 n(2) show ?thesis by (simp add: FAT32_WriteCluster_def)
qed

lemma next_of_chain:
  assumes "geometry v info" "ok d" "chain v info (sec d) (c # c' # cs)"
  shows "\<exists>d'. FAT32_NextCluster v info c d = Some (0, c', d') \<and> ok d' \<and> sec d' = sec d"
  using next_spec [OF assms(1) _ assms(2), of c] assms(3) by auto

text \<open>One turn of the loop of \<^verbatim>\<open>FAT32_ReadFile\<close>, with \<open>k\<close> clusters read.\<close>

lemma read_turn:
  assumes "geometry v info" "ok d" "valid_cluster info c" "unat br = csz info * k" "br < sz"
    "unat sz + csz info < 2 ^ 32" "csz info * (k + 1) \<le> length buf"
  shows "\<exists>d'. read_loop v info sz c br buf d =
      (let buf = take (csz info * k) buf @ cdata v info (sec d) c @ drop (csz info * (k + 1)) buf
       in if unat sz \<le> csz info * (k + 1) then Some (sz, buf, d')
          else Option.bind (FAT32_NextCluster v info c d') (\<lambda>(st, nxt, d).
            if st \<noteq> 0 \<or> FAT32_ENTRY_EOF \<le> nxt then Some (br + csize info, buf, d)
            else read_loop v info sz nxt (br + csize info) buf d)) \<and>
    ok d' \<and> sec d' = sec d \<and> unat (br + csize info) = csz info * (k + 1)"
proof -
  let ?z = "csz info"
  have next_br: "unat (br + csize info) = ?z * (k + 1)"
    using assms(4-6) geometry_csz(2) [OF assms(1)] by (simp add: unat_word_ariths word_less_nat_alt)
  let ?old = "take ?z (drop (?z * k) buf)"
  have old: "get_bytes buf (unat br) (cluster_size info) = Some ?old" "length ?old = ?z"
    using assms(4,7) geometry_csz(1) [OF assms(1)] by (auto simp: get_bytes_def algebra_simps)
  obtain d1 where d1: "FAT32_ReadCluster v info c ?old d = Some (0, cdata v info (sec d) c, d1)" "ok d1" "sec d1 = sec d"
    using read_cluster_spec [OF assms(1,3,2) old(2)] by blast
  have len: "length (cdata v info (sec d) c) = ?z" using cdata_length sec_length [OF assms(2)] by blast
  have put: "put_bytes buf (unat br) (cdata v info (sec d) c) =
      Some (take (?z * k) buf @ cdata v info (sec d) c @ drop (?z * (k + 1)) buf)"
    using assms(4,7) len by (simp add: put_bytes_def algebra_simps)
  have "sz \<le> br + csize info \<longleftrightarrow> unat sz \<le> ?z * (k + 1)" using next_br by (simp add: word_le_nat_alt)
  then have "read_loop v info sz c br buf d =
      (let buf = take (csz info * k) buf @ cdata v info (sec d) c @ drop (csz info * (k + 1)) buf
       in if unat sz \<le> csz info * (k + 1) then Some (sz, buf, d1)
          else Option.bind (FAT32_NextCluster v info c d1) (\<lambda>(st, nxt, d).
            if st \<noteq> 0 \<or> FAT32_ENTRY_EOF \<le> nxt then Some (br + csize info, buf, d)
            else read_loop v info sz nxt (br + csize info) buf d))"
    by (subst read_loop.simps) (simp only: assms(5) if_True old(1) d1(1) put bind.bind_lunit prod.case Let_def refl
      not_True_eq_False if_False)
  with d1 next_br show ?thesis by blast
qed

text \<open>\<open>k\<close> clusters are read and \<open>n\<close> more than one are needed.\<close>

lemma read_loop_spec:
  assumes "geometry v info" "ok d" "chain v info (sec d) cs" "n < length cs" "unat br = csz info * k"
    "csz info * (k + n) < unat sz" "unat sz \<le> csz info * (k + n + 1)" "unat sz + csz info < 2 ^ 32"
    "csz info * (k + n + 1) \<le> length buf"
  shows "\<exists>d'. read_loop v info sz (hd cs) br buf d = Some (sz, take (csz info * k) buf @
      concat (map (cdata v info (sec d)) (take (n + 1) cs)) @ drop (csz info * (k + n + 1)) buf, d') \<and>
    ok d' \<and> sec d' = sec d"
  using assms(2-7,9)
proof (induction n arbitrary: cs br k buf d)
  case (Suc n)
  let ?z = "csz info"
  from Suc.prems(3) obtain c c' cs' where cs: "cs = c # c' # cs'" by (cases cs; cases "tl cs") auto
  have v: "valid_cluster info c" "chain v info (sec d) (c' # cs')" "\<not> FAT32_ENTRY_EOF \<le> c'"
    using Suc.prems(2) by (auto simp: cs linorder_not_le)
  have lt: "br < sz" "?z * (k + 1) \<le> length buf" "\<not> unat sz \<le> ?z * (k + 1)"
    using Suc.prems(4,5,7) geometry_csz(3) [OF assms(1)] by (auto simp: word_less_nat_alt algebra_simps)
  let ?buf = "take (?z * k) buf @ cdata v info (sec d) c @ drop (?z * (k + 1)) buf"
  obtain d1 where d1: "read_loop v info sz c br buf d = Option.bind (FAT32_NextCluster v info c d1) (\<lambda>(st, nxt, d).
      if st \<noteq> 0 \<or> FAT32_ENTRY_EOF \<le> nxt then Some (br + csize info, ?buf, d)
      else read_loop v info sz nxt (br + csize info) ?buf d)" "ok d1" "sec d1 = sec d"
    "unat (br + csize info) = ?z * (k + 1)"
    using read_turn [OF assms(1) Suc.prems(1) v(1) Suc.prems(4) lt(1) assms(8) lt(2)] lt(3) unfolding Let_def by auto
  obtain d2 where d2: "FAT32_NextCluster v info c d1 = Some (0, c', d2)" "ok d2" "sec d2 = sec d"
    using next_of_chain [OF assms(1) d1(2)] Suc.prems(2) unfolding d1(3) cs by blast
  have len: "length (cdata v info (sec d) c) = ?z" using cdata_length sec_length [OF Suc.prems(1)] by blast
  then have blen: "length ?buf = length buf" using lt(2) by (simp add: algebra_simps)
  have "n < length (c' # cs')" "?z * (k + 1 + n) < unat sz" "unat sz \<le> ?z * (k + 1 + n + 1)"
    "?z * (k + 1 + n + 1) \<le> length ?buf"
    using Suc.prems cs unfolding blen by (simp_all add: algebra_simps)
  from Suc.IH [OF d2(2) v(2) [folded d2(3)] this(1) d1(4) this(2,3,4)] obtain d3 where
    d3: "read_loop v info sz c' (br + csize info) ?buf d2 = Some (sz, take (?z * (k + 1)) ?buf @
      concat (map (cdata v info (sec d)) (take (n + 1) (c' # cs'))) @ drop (?z * (k + 1 + n + 1)) ?buf, d3)"
    "ok d3" "sec d3 = sec d" unfolding d2(3) by auto
  have "read_loop v info sz c br buf d = read_loop v info sz c' (br + csize info) ?buf d2"
    unfolding d1(1) d2(1) using v(3) by simp
  moreover have "take (?z * (k + 1)) ?buf = take (?z * k) buf @ cdata v info (sec d) c"
    "drop (?z * (k + 1 + n + 1)) ?buf = drop (?z * (k + Suc n + 1)) buf"
    using Suc.prems(7) len by (auto simp: algebra_simps)
  ultimately show ?case using d3 by (auto simp: cs)
next
  case 0
  from "0.prems"(3) obtain c cs' where cs: "cs = c # cs'" by (cases cs) auto
  have v: "valid_cluster info c" using "0.prems"(2) chain_valid unfolding cs by fastforce
  have "br < sz" "csz info * (k + 1) \<le> length buf" using "0.prems"(4,5,7) by (simp_all add: word_less_nat_alt)
  from read_turn [OF assms(1) "0.prems"(1) v "0.prems"(4) this(1) assms(8) this(2)] "0.prems"(6)
  show ?case by (auto simp: cs Let_def)
qed

text \<open>One turn of the loop of \<^verbatim>\<open>FAT32_WriteFile\<close>, with \<open>k\<close> clusters written.\<close>

lemma write_turn:
  assumes "geometry v info" "ok d" "valid_cluster info c" "unat w = csz info * k" "w < sz"
    "unat sz + csz info < 2 ^ 32" "unat sz \<le> length src"
  shows "\<exists>d'. write_loop v src sz info c w d =
      (if unat sz \<le> csz info * (k + 1) then Some (True, sz, c, info, d')
       else Option.bind (FAT32_NextCluster v info c d') (\<lambda>(st, nxt, d).
         if st \<noteq> 0 then Some (False, w + csize info, c, info, d)
         else if FAT32_ENTRY_EOF \<le> nxt
         then Option.bind (FAT32_AllocCluster v info d) (\<lambda>(new, info2, d).
              if new = 0 then Some (False, w + csize info, c, info2, d)
              else Option.bind (FAT32_WriteFATEntry v info2 c new d) (\<lambda>(st, d).
                if st \<noteq> 0 then Some (False, w + csize info, c, info2, d)
                else write_loop v src sz info2 new (w + csize info) d))
         else write_loop v src sz info nxt (w + csize info) d)) \<and>
    ok d' \<and> sec d' = data_set v info c (new_data info (take (unat sz) src) k (cdata v info (sec d) c)) (sec d) \<and>
    unat (w + csize info) = csz info * (k + 1)"
proof -
  let ?z = "csz info" and ?w = "if sz - w < csize info then sz - w else csize info"
  let ?p = "take ?z (drop (?z * k) (take (unat sz) src))"
  let ?b = "new_data info (take (unat sz) src) k (cdata v info (sec d) c)"
  have z: "unat (csize info) = ?z" "cluster_size info = ?z" using geometry_csz [OF assms(1)] by simp_all
  have next_w: "unat (w + csize info) = ?z * (k + 1)"
    using assms(4-6) z by (simp add: unat_word_ariths word_less_nat_alt)
  have rem: "unat (sz - w) = unat sz - ?z * k" using assms(4,5) by (simp add: unat_sub less_imp_le)
  have w: "unat ?w = length ?p" using assms(7) by (simp add: word_less_nat_alt rem z)
  have part: "get_bytes src (unat w) (unat ?w) = Some ?p"
    using assms(4,5,7) w by (auto simp: get_bytes_def word_less_nat_alt take_drop min_def)
  have len: "length (cdata v info (sec d) c) = ?z" using cdata_length sec_length [OF assms(2)] by blast
  have bl: "length ?b = ?z" by (rule new_data_length [OF len])
  obtain d1 where d1: "write_part v info c (\<not> ?w < csize info) 0 ?p d = Some (0, d1)" "ok d1"
    "sec d1 = data_set v info c ?b (sec d)"
  proof (cases "?w < csize info")
    case False
    then have "length ?p = ?z" using w z by (simp add: word_less_nat_alt split: if_splits)
    then have "?b = ?p" using len by (simp add: new_data_def Let_def del: length_take length_drop)
    with write_cluster_spec [OF assms(1,3,2) bl] False that show ?thesis by (auto simp: write_part_def)
  next
    case True
    obtain d2 where d2: "FAT32_ReadCluster v info c (replicate ?z 0) d = Some (0, cdata v info (sec d) c, d2)"
      "ok d2" "sec d2 = sec d" using read_cluster_spec [OF assms(1,3,2), of "replicate ?z 0"] by auto
    have "length ?p \<le> ?z" by simp
    then have "put_bytes (cdata v info (sec d) c) (unat (0 :: u32)) ?p = Some ?b"
      using len by (simp add: put_bytes_def new_data_def Let_def del: length_take length_drop)
    with write_cluster_spec [OF assms(1,3) d2(2) bl] d2 True that show ?thesis
      by (auto simp: write_part_def z)
  qed
  have fin: "sz \<le> w + ?w \<longleftrightarrow> unat sz \<le> ?z * (k + 1)" "unat sz \<le> ?z * (k + 1) \<Longrightarrow> w + ?w = sz"
    "\<not> unat sz \<le> ?z * (k + 1) \<Longrightarrow> ?w = csize info"
  proof -
    have lt: "sz - w < csize info \<longleftrightarrow> unat sz < ?z * (k + 1)"
      using assms(4,5) by (auto simp: word_less_nat_alt rem z)
    show "sz \<le> w + ?w \<longleftrightarrow> unat sz \<le> ?z * (k + 1)"
      using next_w by (auto simp: lt word_le_nat_alt)
    show "unat sz \<le> ?z * (k + 1) \<Longrightarrow> w + ?w = sz"
      using next_w by (auto simp: lt intro: unat_eqI)
    show "\<not> unat sz \<le> ?z * (k + 1) \<Longrightarrow> ?w = csize info" by (simp add: lt)
  qed
  have "write_loop v src sz info c w d = (if sz \<le> w + ?w then Some (True, w + ?w, c, info, d1)
       else Option.bind (FAT32_NextCluster v info c d1) (\<lambda>(st, nxt, d).
         if st \<noteq> 0 then Some (False, w + ?w, c, info, d)
         else if FAT32_ENTRY_EOF \<le> nxt
         then Option.bind (FAT32_AllocCluster v info d) (\<lambda>(new, info2, d).
              if new = 0 then Some (False, w + ?w, c, info2, d)
              else Option.bind (FAT32_WriteFATEntry v info2 c new d) (\<lambda>(st, d).
                if st \<noteq> 0 then Some (False, w + ?w, c, info2, d)
                else write_loop v src sz info2 new (w + ?w) d))
         else write_loop v src sz info nxt (w + ?w) d))"
    by (subst write_loop.simps) (simp only: Let_def assms(5) if_True part d1(1) bind.bind_lunit prod.case refl
      not_True_eq_False if_False)
  note e = this
  have "write_loop v src sz info c w d = (if unat sz \<le> csz info * (k + 1) then Some (True, sz, c, info, d1)
       else Option.bind (FAT32_NextCluster v info c d1) (\<lambda>(st, nxt, d).
         if st \<noteq> 0 then Some (False, w + csize info, c, info, d)
         else if FAT32_ENTRY_EOF \<le> nxt
         then Option.bind (FAT32_AllocCluster v info d) (\<lambda>(new, info2, d).
              if new = 0 then Some (False, w + csize info, c, info2, d)
              else Option.bind (FAT32_WriteFATEntry v info2 c new d) (\<lambda>(st, d).
                if st \<noteq> 0 then Some (False, w + csize info, c, info2, d)
                else write_loop v src sz info2 new (w + csize info) d))
         else write_loop v src sz info nxt (w + csize info) d))"
  proof (cases "unat sz \<le> ?z * (k + 1)")
    case True
    then show ?thesis using e by (simp only: fin(2) [OF True] order_refl if_True)
  next
    case False
    then have "\<not> sz \<le> w + csize info" using fin(1) unfolding fin(3) [OF False] by blast
    then show ?thesis using e False by (simp only: fin(3) [OF False] if_False)
  qed
  with d1 next_w show ?thesis by blast
qed

text \<open>\<open>k\<close> clusters are written and \<open>n\<close> more than one are needed, all of them in the chain.\<close>

lemma write_loop_spec:
  assumes "geometry v info" "ok d" "chain v info (sec d) cs" "n < length cs" "unat w = csz info * k"
    "csz info * (k + n) < unat sz" "unat sz \<le> csz info * (k + n + 1)" "unat sz + csz info < 2 ^ 32"
    "unat sz \<le> length src"
  shows "\<exists>d'. write_loop v src sz info (hd cs) w d = Some (True, sz, cs ! n, info, d') \<and> ok d' \<and>
    sec d' = write_chain v info (take (unat sz) src) k (take (n + 1) cs) (sec d)"
  using assms(2-7)
proof (induction n arbitrary: cs w k d)
  case (Suc n)
  let ?z = "csz info"
  from Suc.prems(3) obtain c c' cs' where cs: "cs = c # c' # cs'" by (cases cs; cases "tl cs") auto
  have v: "valid_cluster info c" "chain v info (sec d) (c' # cs')" "\<not> FAT32_ENTRY_EOF \<le> c'"
    using Suc.prems(2) by (auto simp: cs linorder_not_le)
  have lt: "w < sz" "\<not> unat sz \<le> ?z * (k + 1)"
    using Suc.prems(4,5) geometry_csz(3) [OF assms(1)] by (auto simp: word_less_nat_alt algebra_simps)
  let ?b = "new_data info (take (unat sz) src) k (cdata v info (sec d) c)"
  from write_turn [OF assms(1) Suc.prems(1) v(1) Suc.prems(4) lt(1) assms(8,9), unfolded if_not_P [OF lt(2)]]
  obtain d1 where d1: "write_loop v src sz info c w d = Option.bind (FAT32_NextCluster v info c d1) (\<lambda>(st, nxt, d).
         if st \<noteq> 0 then Some (False, w + csize info, c, info, d)
         else if FAT32_ENTRY_EOF \<le> nxt
         then Option.bind (FAT32_AllocCluster v info d) (\<lambda>(new, info2, d).
              if new = 0 then Some (False, w + csize info, c, info2, d)
              else Option.bind (FAT32_WriteFATEntry v info2 c new d) (\<lambda>(st, d).
                if st \<noteq> 0 then Some (False, w + csize info, c, info2, d)
                else write_loop v src sz info2 new (w + csize info) d))
         else write_loop v src sz info nxt (w + csize info) d)" "ok d1"
    "sec d1 = data_set v info c ?b (sec d)" "unat (w + csize info) = ?z * (k + 1)" by blast
  have ch: "chain v info (sec d1) (c # c' # cs')"
    unfolding d1(3) using chain_data_set [OF assms(1) v(1)] Suc.prems(2) cs by blast
  obtain d2 where d2: "FAT32_NextCluster v info c d1 = Some (0, c', d2)" "ok d2" "sec d2 = sec d1"
    using next_of_chain [OF assms(1) d1(2) ch] by blast
  have "chain v info (sec d2) (c' # cs')" "n < length (c' # cs')" "?z * (k + 1 + n) < unat sz"
    "unat sz \<le> ?z * (k + 1 + n + 1)"
    using ch Suc.prems cs by (simp_all add: d2(3) algebra_simps)
  from Suc.IH [OF d2(2) this(1,2) d1(4) this(3,4)] obtain d3 where
    d3: "write_loop v src sz info c' (w + csize info) d2 = Some (True, sz, (c' # cs') ! n, info, d3)" "ok d3"
    "sec d3 = write_chain v info (take (unat sz) src) (k + 1) (take (n + 1) (c' # cs')) (sec d1)"
    unfolding d2(3) by auto
  have "write_loop v src sz info c w d = write_loop v src sz info c' (w + csize info) d2"
    unfolding d1(1) d2(1) using v(3) by simp
  with d3 d1(3) show ?case by (simp add: cs)
next
  case 0
  from "0.prems"(3) obtain c cs' where cs: "cs = c # cs'" by (cases cs) auto
  have v: "valid_cluster info c" using "0.prems"(2) chain_valid unfolding cs by fastforce
  have "w < sz" using "0.prems"(4,5) by (simp add: word_less_nat_alt)
  from write_turn [OF assms(1) "0.prems"(1) v "0.prems"(4) this assms(8,9)] "0.prems"(6)
  show ?case by (auto simp: cs)
qed

text \<open>What is written along a chain is read back.\<close>

lemma write_then_read:
  assumes "geometry v info" "ok d" "chain v info (sec d) cs" "distinct cs" "n < length cs"
    "csz info * n < unat sz" "unat sz \<le> csz info * (n + 1)" "unat sz + csz info < 2 ^ 32"
    "unat sz \<le> length src" "csz info * (n + 1) \<le> length buf"
  shows "\<exists>d1 b d2. write_loop v src sz info (hd cs) 0 d = Some (True, sz, cs ! n, info, d1) \<and>
    read_loop v info sz (hd cs) 0 buf d1 = Some (sz, b, d2) \<and> take (unat sz) b = take (unat sz) src"
proof -
  obtain d1 where d1: "write_loop v src sz info (hd cs) 0 d = Some (True, sz, cs ! n, info, d1)" "ok d1"
    "sec d1 = write_chain v info (take (unat sz) src) 0 (take (n + 1) cs) (sec d)"
    using write_loop_spec [OF assms(1-3,5), of 0 0 sz src] assms(6-9) by auto
  have val: "valid_cluster info c" if "c \<in> set cs" for c using chain_valid [OF assms(3) that] .
  then have val': "valid_cluster info c" if "c \<in> set (take (n + 1) cs)" for c using that by (meson in_set_takeD)
  have ch: "chain v info (sec d1) cs"
    unfolding d1(3) by (rule write_chain_keeps [OF assms(1) _ assms(3)]) (use val' in blast)
  let ?all = "concat (map (cdata v info (sec d1)) (take (n + 1) cs))"
  obtain d2 where d2: "read_loop v info sz (hd cs) 0 buf d1 = Some (sz, ?all @ drop (csz info * (n + 1)) buf, d2)"
    using read_loop_spec [OF assms(1) d1(2) ch assms(5), of 0 0 sz buf] assms(6-8,10) by auto
  have len: "length (take (n + 1) cs) = n + 1" using assms(5) by simp
  have "length (take (unat sz) src) = unat sz" using assms(9) by simp
  with write_chain_data [where cs = "take (n + 1) cs" and s = "sec d" and dat = "take (unat sz) src" and k = 0 and
      v = v and info = info, OF val'] assms(4,7) sec_length [OF assms(2)] len d1(3)
  have "take (unat sz) ?all = take (unat sz) src" by (simp del: length_take)
  moreover have "length (cdata v info (sec d1) c) = csz info" for c
    by (rule cdata_length) (rule sec_length [OF d1(2)])
  then have "length ?all = csz info * (n + 1)"
    using len by (simp add: length_concat comp_def sum_list_triv del: length_take)
  ultimately show ?thesis using d1(1) d2 assms(7) by auto
qed

end

end
