(* ===== verification/AtaDisk.thy ===== *)
theory AtaDisk
  imports AtaDev FatData
begin

text \<open>
  A drive as the ATA standard describes it to the host: the task file with the previous and the
  current byte of each register, the data port, and a busy bit that is always clear.  The driver of
  \<open>Ata\<close> on this drive is a block device.
\<close>

section \<open>The drive\<close>

record drive =
  img :: "bool \<Rightarrow> nat \<Rightarrow> u8 list"
  r_cnt :: "u8 \<times> u8"
  r_lo :: "u8 \<times> u8"
  r_mid :: "u8 \<times> u8"
  r_hi :: "u8 \<times> u8"
  r_drv :: u8
  out_buf :: "u16 list"
  in_lba :: nat
  in_left :: nat
  in_buf :: "u16 list"
  tsc :: u64

definition sel_master :: "u8 \<Rightarrow> bool" where "sel_master b \<longleftrightarrow> \<not> bit b 4"

definition lba28_of :: "drive \<Rightarrow> nat" where
  "lba28_of s = unat (snd (r_lo s)) + 2 ^ 8 * unat (snd (r_mid s)) + 2 ^ 16 * unat (snd (r_hi s)) +
     2 ^ 24 * unat (r_drv s AND 0x0F)"

definition lba48_of :: "drive \<Rightarrow> nat" where
  "lba48_of s = unat (snd (r_lo s)) + 2 ^ 8 * unat (snd (r_mid s)) + 2 ^ 16 * unat (snd (r_hi s)) +
     2 ^ 24 * unat (fst (r_lo s)) + 2 ^ 32 * unat (fst (r_mid s)) + 2 ^ 40 * unat (fst (r_hi s))"

definition cnt28_of :: "drive \<Rightarrow> nat" where
  "cnt28_of s = (let n = unat (snd (r_cnt s)) in if n = 0 then 256 else n)"

definition cnt48_of :: "drive \<Rightarrow> nat" where
  "cnt48_of s = (let n = 256 * unat (fst (r_cnt s)) + unat (snd (r_cnt s)) in if n = 0 then 65536 else n)"

definition start_read :: "nat \<Rightarrow> nat \<Rightarrow> drive \<Rightarrow> drive" where
  "start_read lba n s = s\<lparr>out_buf := concat (map (\<lambda>x. bytes_words (img s (sel_master (r_drv s)) x)) [lba..<lba + n])\<rparr>"

definition start_write :: "nat \<Rightarrow> nat \<Rightarrow> drive \<Rightarrow> drive" where
  "start_write lba n s = s\<lparr>in_lba := lba, in_left := n, in_buf := []\<rparr>"

definition exec_cmd :: "u8 \<Rightarrow> drive \<Rightarrow> drive" where
  "exec_cmd c s =
     (if c = 0x20 then start_read (lba28_of s) (cnt28_of s) s
      else if c = 0x24 then start_read (lba48_of s) (cnt48_of s) s
      else if c = 0x30 then start_write (lba28_of s) (cnt28_of s) s
      else if c = 0x34 then start_write (lba48_of s) (cnt48_of s) s
      else s)"

definition drive_outb :: "u16 \<Rightarrow> u8 \<Rightarrow> drive \<Rightarrow> drive" where
  "drive_outb p b s =
     (if p = 0x1F2 then r_cnt_update (\<lambda>c. (snd c, b)) s
      else if p = 0x1F3 then r_lo_update (\<lambda>c. (snd c, b)) s
      else if p = 0x1F4 then r_mid_update (\<lambda>c. (snd c, b)) s
      else if p = 0x1F5 then r_hi_update (\<lambda>c. (snd c, b)) s
      else if p = 0x1F6 then s\<lparr>r_drv := b\<rparr>
      else if p = 0x1F7 then exec_cmd b s
      else s)"

definition drive_inb :: "u16 \<Rightarrow> drive \<Rightarrow> u8 \<times> drive" where
  "drive_inb p s = (if p = 0x3F6 then if out_buf s \<noteq> [] \<or> in_left s \<noteq> 0 then 0x48 else 0x40 else 0, s)"

definition drive_inw :: "u16 \<Rightarrow> drive \<Rightarrow> u16 \<times> drive" where
  "drive_inw p s =
     (if p = 0x1F0 then case out_buf s of [] \<Rightarrow> (0, s) | w # ws \<Rightarrow> (w, s\<lparr>out_buf := ws\<rparr>) else (0, s))"

definition take_word :: "u16 \<Rightarrow> drive \<Rightarrow> drive" where
  "take_word w s =
     (let b = in_buf s @ [w]; m = sel_master (r_drv s)
      in if in_left s = 0 then s
         else if length b < 256 then s\<lparr>in_buf := b\<rparr>
         else s\<lparr>img := (img s)(m := (img s m)(in_lba s := words_bytes b)),
                in_lba := in_lba s + 1, in_left := in_left s - 1, in_buf := []\<rparr>)"

definition drive_hw :: "drive hw" where
  "drive_hw = \<lparr>inb = drive_inb, inw = drive_inw, inl = (\<lambda>_ s. (0, s)), outb = drive_outb,
     outw = (\<lambda>p w s. if p = 0x1F0 then take_word w s else s), outl = (\<lambda>_ _ s. s),
     rdtsc = (\<lambda>s. (tsc s, s\<lparr>tsc := tsc s + 1\<rparr>)), SYSTEM_CPU_Frequency = 3000000000\<rparr>"

lemma drive_hw_simps [simp]:
  "inb drive_hw = drive_inb" "inw drive_hw = drive_inw" "outb drive_hw = drive_outb"
  "outw drive_hw p w s = (if p = 0x1F0 then take_word w s else s)"
  "rdtsc drive_hw s = (tsc s, s\<lparr>tsc := tsc s + 1\<rparr>)" "SYSTEM_CPU_Frequency drive_hw = 3000000000"
  by (auto simp: drive_hw_def)

interpretation drive_clock: ticking drive_hw tsc
  by unfold_locales (auto simp: drive_inb_def drive_inw_def split: list.split)

lemma drive_outb_simps [simp]:
  "drive_outb 0x1F2 b s = r_cnt_update (\<lambda>c. (snd c, b)) s" "drive_outb 0x1F3 b s = r_lo_update (\<lambda>c. (snd c, b)) s"
  "drive_outb 0x1F4 b s = r_mid_update (\<lambda>c. (snd c, b)) s" "drive_outb 0x1F5 b s = r_hi_update (\<lambda>c. (snd c, b)) s"
  "drive_outb 0x1F6 b s = s\<lparr>r_drv := b\<rparr>" "drive_outb 0x1F7 b s = exec_cmd b s"
  by (simp_all add: drive_outb_def)

section \<open>Waiting on the drive\<close>

abbreviation primary :: ata_channel where "primary \<equiv> ATA_Init_Channel True"

lemma primary_ports [simp]:
  "data_port primary = 0x1F0" "sector_count primary = 0x1F2" "lba_lo primary = 0x1F3" "lba_mid primary = 0x1F4"
  "lba_hi primary = 0x1F5" "drive_port primary = 0x1F6" "command_port primary = 0x1F7"
  "alt_status_port primary = 0x3F6"
  by (simp_all add: ATA_Init_Channel_def)

definition later :: "drive \<Rightarrow> drive \<Rightarrow> bool" where "later s s' \<longleftrightarrow> (\<exists>t. s' = s\<lparr>tsc := t\<rparr>)"

lemma later_I: "later s (s\<lparr>tsc := t\<rparr>)" by (auto simp: later_def)

lemma later_trans: "later s s' \<Longrightarrow> later s' s'' \<Longrightarrow> later s s''"
  by (auto simp: later_def)

lemma delay_later: "delay_loop drive_hw b c s = Some s' \<Longrightarrow> later s s'"
proof (rule delay_loop.raw_induct [of "\<lambda>hw b c s s'. hw = drive_hw \<longrightarrow> later s s'" drive_hw b c s s', rule_format])
  fix f hw b c s s'
  assume IH: "\<And>hw b c s s'. f hw b c s = Some s' \<Longrightarrow> hw = drive_hw \<Longrightarrow> later s s'"
    and s': "(let (t, d) = rdtsc hw s in if t - b < c then f hw b c d else Some d) = Some s'"
    and hw: "hw = drive_hw"
  let ?s1 = "s\<lparr>tsc := tsc s + 1\<rparr>"
  have "f hw b c ?s1 = Some s' \<or> ?s1 = s'" using s' hw by (simp split: if_splits)
  then have "later ?s1 s' \<or> ?s1 = s'" using IH hw by blast
  then show "later s s'" using later_I later_trans by blast
qed simp_all

lemma delay_ms_later: "\<exists>s'. delay_ms drive_hw ms s = Some s' \<and> later s s'"
proof -
  obtain s' where s': "delay_ms drive_hw ms s = Some s'"
    using drive_clock.delay_ms_returns [of ms s] by (auto simp: returns_def)
  then have "later (s\<lparr>tsc := tsc s + 1\<rparr>) s'"
    by (intro delay_later) (simp add: delay_ms_def)
  with s' show ?thesis by (blast intro: later_trans later_I)
qed

lemma img_later [simp]:
  assumes "later s s'"
  shows "img s' = img s" "r_cnt s' = r_cnt s" "r_lo s' = r_lo s" "r_mid s' = r_mid s" "r_hi s' = r_hi s"
    "r_drv s' = r_drv s" "out_buf s' = out_buf s" "in_lba s' = in_lba s" "in_left s' = in_left s" "in_buf s' = in_buf s"
  using assms by (auto simp: later_def)

lemma wait_busy_drive: "\<exists>s'. ATA_Wait_Busy drive_hw primary tm s = Some (0, s') \<and> later s s'"
proof -
  have "busy_loop drive_hw primary c b (s\<lparr>tsc := t\<rparr>) = Some (0, s\<lparr>tsc := t\<rparr>)" for c b t
    by (subst busy_loop.simps) (simp add: drive_inb_def ATA_SR_BSY_def)
  then have "ATA_Wait_Busy drive_hw primary tm s = Some (0, s\<lparr>tsc := tsc s + 1\<rparr>)"
    by (simp add: ATA_Wait_Busy_def)
  then show ?thesis using later_I by blast
qed

lemma wait_drq_drive:
  assumes "out_buf s \<noteq> [] \<or> in_left s \<noteq> 0"
  shows "\<exists>s'. ATA_Wait_DRP drive_hw primary tm s = Some (0, s') \<and> later s s'"
proof -
  have "drq_loop drive_hw primary c b (s\<lparr>tsc := t\<rparr>) = Some (0, s\<lparr>tsc := t\<rparr>)" for c b t
    using assms by (subst drq_loop.simps) (simp add: drive_inb_def ATA_SR_BSY_def ATA_SR_ERR_def ATA_SR_DRQ_def)
  then have "ATA_Wait_DRP drive_hw primary tm s = Some (0, s\<lparr>tsc := tsc s + 1\<rparr>)"
    by (simp add: ATA_Wait_DRP_def)
  then show ?thesis using later_I by blast
qed

section \<open>Commands on the drive\<close>

definition idle :: "drive \<Rightarrow> bool" where
  "idle s \<longleftrightarrow> out_buf s = [] \<and> in_left s = 0 \<and> (\<forall>m x. length (img s m x) = 512)"

definition cmd_state :: "drive \<Rightarrow> bool \<Rightarrow> drive \<Rightarrow> bool" where
  "cmd_state s m s' \<longleftrightarrow> img s' = img s \<and> out_buf s' = out_buf s \<and> in_lba s' = in_lba s \<and> in_left s' = in_left s \<and>
     in_buf s' = in_buf s \<and> sel_master (r_drv s') = m"

lemma unat_byte_at: "unat (byte_at k x) = unat x div 2 ^ k mod 256"
proof -
  have "unat (byte_at k x) = take_bit 8 (drop_bit k (unat x))"
    by (rule bit_eqI) (auto simp: bit_unsigned_iff bit_byte_at bit_take_bit_iff bit_drop_bit_eq)
  then show ?thesis by (simp add: take_bit_eq_mod drop_bit_eq_div)
qed

lemma nat_digits3: "x mod 256 + 2 ^ 8 * (x div 2 ^ 8 mod 256) + 2 ^ 16 * (x div 2 ^ 16 mod 256) = x mod 2 ^ 24"
  for x :: nat
proof -
  have "x mod (256 * (256 * 256)) = 256 * (x div 256 mod (256 * 256)) + x mod 256" by (rule mod_mult2_eq)
  moreover have "x div 256 mod (256 * 256) = 256 * (x div 256 div 256 mod 256) + x div 256 mod 256" by (rule mod_mult2_eq)
  ultimately show ?thesis by (simp add: div_mult2_eq [symmetric])
qed

lemma nat_bytes3:
  "unat (byte_at 0 x) + 2 ^ 8 * unat (byte_at 8 x) + 2 ^ 16 * unat (byte_at 16 x) = unat x mod 2 ^ 24"
  using nat_digits3 [of "unat x"] by (simp add: unat_byte_at)

text \<open>The drive byte selects the drive and holds bits 24 to 27 of the address.\<close>

lemma drive_lba28_table:
  "\<forall>k \<in> set [0..<16]. \<forall>m \<in> {True, False}.
     let b = (ucast ((0xE0 OR (if m then 0 else 0x10) OR (of_nat k AND 0x0F)) :: u32) :: u8)
     in bit b 4 = (\<not> m) \<and> unat (b AND 0x0F) = k"
  by code_simp

lemma drive_lba28:
  assumes "lba \<le> 0x0FFFFFFF"
  shows "sel_master (drive_lba28 m lba) = m" "unat (drive_lba28 m lba AND 0x0F) = unat lba div 2 ^ 24"
proof -
  let ?k = "unat lba div 2 ^ 24"
  have "unat lba \<le> 0x0FFFFFFF" using assms by (simp add: word_le_nat_alt)
  then have k: "?k \<in> set [0..<16]" by auto
  have e: "drop_bit 24 lba = of_nat ?k"
    using k by (intro unat_eqI) (simp add: drop_bit_eq_div unat_div unsigned_of_nat take_bit_nat_eq_self)
  have "m \<in> {True, False}" by simp
  from bspec [OF bspec [OF drive_lba28_table k] this]
  show "sel_master (drive_lba28 m lba) = m" "unat (drive_lba28 m lba AND 0x0F) = ?k"
    by (simp_all only: drive_lba28_def sel_master_def e Let_def not_not)
qed

lemma lba28_drive:
  assumes "lba \<le> 0x0FFFFFFF" "0 < n" "n \<le> 256"
  shows "\<exists>s'. lba28_cmd drive_hw primary m c lba n s = Some (0, exec_cmd c s') \<and> cmd_state s m s' \<and>
    lba28_of s' = unat lba \<and> cnt28_of s' = unat n"
proof -
  obtain s1 where s1: "delay_ms drive_hw 1 (s\<lparr>r_drv := drive_lba28 m lba\<rparr>) = Some s1"
    "later (s\<lparr>r_drv := drive_lba28 m lba\<rparr>) s1" using delay_ms_later by blast
  obtain s2 where s2: "ATA_Wait_Busy drive_hw primary 5000 s1 = Some (0, s2)" "later s1 s2"
    using wait_busy_drive by blast
  have l: "img s2 = img s" "out_buf s2 = out_buf s" "in_lba s2 = in_lba s" "in_left s2 = in_left s" "in_buf s2 = in_buf s"
    using s1 s2 by simp_all
  have d: "sel_master (drive_lba28 m lba) = m" "unat (drive_lba28 m lba AND 0x0F) = unat lba div 2 ^ 24"
    using drive_lba28 [OF assms(1)] by auto
  have "unat n \<le> 256" "unat n \<noteq> 0" using assms by (auto simp: word_le_nat_alt unat_eq_0)
  then have n: "(let k = unat (byte_at 0 n) in if k = 0 then 256 else k) = unat n"
    by (cases "unat n = 256") (auto simp: unat_byte_at)
  let ?s3 = "r_drv_update (\<lambda>_. drive_lba28 m lba) (r_hi_update (\<lambda>c. (snd c, byte_at 16 lba))
    (r_mid_update (\<lambda>c. (snd c, byte_at 8 lba)) (r_lo_update (\<lambda>c. (snd c, byte_at 0 lba))
    (r_cnt_update (\<lambda>c. (snd c, byte_at 0 n)) s2))))"
  have "lba28_cmd drive_hw primary m c lba n s = Some (0, exec_cmd c ?s3)"
  proof -
    have "\<not> 0x0FFFFFFF < lba" "n \<noteq> 0" using assms by auto
    then show ?thesis
      by (simp only: lba28_cmd_def Let_def if_False s1(1) s2(1) drive_hw_simps primary_ports drive_outb_simps
        bind.bind_lunit prod.case refl not_True_eq_False) 
  qed
  moreover have "cmd_state s m ?s3" using l d by (simp add: cmd_state_def)
  moreover have "lba28_of ?s3 = unat lba" using nat_bytes3 [of lba] d by (simp add: lba28_of_def)
  moreover have "cnt28_of ?s3 = unat n" using n by (simp add: cnt28_of_def)
  ultimately show ?thesis by blast
qed

text \<open>The registers have two bytes each now, the first the one written before.\<close>

lemma nat_bytes6:
  fixes x :: nat
  assumes "x < 2 ^ 48"
  shows "x mod 256 + 2 ^ 8 * (x div 2 ^ 8 mod 256) + 2 ^ 16 * (x div 2 ^ 16 mod 256) + 2 ^ 24 * (x div 2 ^ 24 mod 256) +
    2 ^ 32 * (x div 2 ^ 32 mod 256) + 2 ^ 40 * (x div 2 ^ 40 mod 256) = x"
proof -
  have f: "x div 16777216 mod 16777216 = x div 16777216" using assms by (simp add: div_less_iff_less_mult)
  have g: "x div 1099511627776 mod 256 = x div 1099511627776" using assms by (simp add: div_less_iff_less_mult)
  have a: "x mod 256 + 256 * (x div 256 mod 256) + 65536 * (x div 65536 mod 256) = x mod 16777216"
    using nat_digits3 [of x] by simp
  have b: "x div 16777216 mod 256 + 256 * (x div 4294967296 mod 256) + 65536 * (x div 1099511627776 mod 256) = x div 16777216"
    using nat_digits3 [of "x div 16777216"] f g by (simp add: div_mult2_eq [symmetric])
  have "x = 16777216 * (x div 16777216) + x mod 16777216" by simp
  then have "x mod 256 + 256 * (x div 256 mod 256) + 65536 * (x div 65536 mod 256) + 16777216 * (x div 16777216 mod 256) +
    4294967296 * (x div 4294967296 mod 256) + 1099511627776 * (x div 1099511627776 mod 256) = x"
    using a b by linarith
  then show ?thesis by simp
qed

lemma lba48_drive:
  assumes "lba \<le> 0x0000FFFFFFFFFFFF" "0 < n"
  shows "\<exists>s'. lba48_cmd drive_hw primary m c lba n s = Some (0, exec_cmd c s') \<and> cmd_state s m s' \<and>
    lba48_of s' = unat lba \<and> cnt48_of s' = unat n"
proof -
  obtain s1 where s1: "delay_ms drive_hw 1 (s\<lparr>r_drv := drive_lba48 m\<rparr>) = Some s1"
    "later (s\<lparr>r_drv := drive_lba48 m\<rparr>) s1" using delay_ms_later by blast
  obtain s2 where s2: "ATA_Wait_Busy drive_hw primary 5000 s1 = Some (0, s2)" "later s1 s2"
    using wait_busy_drive by blast
  have l: "img s2 = img s" "out_buf s2 = out_buf s" "in_lba s2 = in_lba s" "in_left s2 = in_left s" "in_buf s2 = in_buf s"
    "r_drv s2 = drive_lba48 m" using s1 s2 by simp_all
  have d: "sel_master (drive_lba48 m) = m" by (cases m) (simp_all add: drive_lba48_def sel_master_def)
  have "unat n < 2 ^ LENGTH(16)" by (rule unsigned_less)
  moreover have "0 < unat n" using assms by (simp add: word_less_nat_alt)
  ultimately have n: "(let k = 256 * unat (byte_at 8 n) + unat (byte_at 0 n) in if k = 0 then 65536 else k) = unat n"
    by (simp add: unat_byte_at Let_def)
  have "unat lba < 2 ^ 48" using assms by (simp add: word_le_nat_alt)
  from nat_bytes6 [OF this]
  have a: "unat (byte_at 0 lba) + 2 ^ 8 * unat (byte_at 8 lba) + 2 ^ 16 * unat (byte_at 16 lba) +
    2 ^ 24 * unat (byte_at 24 lba) + 2 ^ 32 * unat (byte_at 32 lba) + 2 ^ 40 * unat (byte_at 40 lba) = unat lba"
    by (simp add: unat_byte_at)
  let ?s3 = "r_hi_update (\<lambda>c. (snd c, byte_at 16 lba)) (r_mid_update (\<lambda>c. (snd c, byte_at 8 lba))
    (r_lo_update (\<lambda>c. (snd c, byte_at 0 lba)) (r_cnt_update (\<lambda>c. (snd c, byte_at 0 n))
    (r_hi_update (\<lambda>c. (snd c, byte_at 40 lba)) (r_mid_update (\<lambda>c. (snd c, byte_at 32 lba))
    (r_lo_update (\<lambda>c. (snd c, byte_at 24 lba)) (r_cnt_update (\<lambda>c. (snd c, byte_at 8 n)) s2)))))))"
  have "lba48_cmd drive_hw primary m c lba n s = Some (0, exec_cmd c ?s3)"
  proof -
    have "\<not> 0x0000FFFFFFFFFFFF < lba" "n \<noteq> 0" using assms by auto
    then show ?thesis
      by (simp only: lba48_cmd_def Let_def if_False s1(1) s2(1) drive_hw_simps primary_ports drive_outb_simps
        bind.bind_lunit prod.case refl not_True_eq_False)
  qed
  moreover have "cmd_state s m ?s3" using l d by (simp add: cmd_state_def)
  moreover have "lba48_of ?s3 = unat lba" using a by (simp add: lba48_of_def)
  moreover have "cnt48_of ?s3 = unat n" using n by (simp add: cnt48_of_def)
  ultimately show ?thesis by blast
qed

section \<open>Transfers on the drive\<close>

lemma words_bytes_words: "length bs = 2 * n \<Longrightarrow> words_bytes (bytes_words bs) = bs"
proof (induction n arbitrary: bs)
  case (Suc n)
  then obtain a b r where bs: "bs = a # b # r" and r: "length r = 2 * n"
    by (cases bs; cases "tl bs") auto
  have "[0..<Suc n] = 0 # map Suc [0..<n]" by (simp add: map_Suc_upt upt_conv_Cons del: upt_Suc)
  then have "bytes_words bs = le16 a b # bytes_words r"
    unfolding bs bytes_words_def by (simp add: r read_le16_def del: upt_Suc)
  then show ?case using Suc.IH [OF r] by (simp add: bs words_bytes_def byte_at_le16)
qed (simp add: words_bytes_def bytes_words_def)

lemma length_bytes_words [simp]: "length (bytes_words bs) = length bs div 2"
  by (simp add: bytes_words_def)

lemma in_words_drive:
  "out_buf s = ws @ rest \<Longrightarrow> in_words drive_hw 0x1F0 (length ws) s = (ws, s\<lparr>out_buf := rest\<rparr>)"
proof (induction ws arbitrary: s)
  case (Cons w ws)
  then show ?case using Cons.IH [of "s\<lparr>out_buf := ws @ rest\<rparr>"] by (simp add: drive_inw_def)
qed simp

lemma read_sectors_drive:
  assumes "\<forall>b \<in> set secs. length b = 512" "out_buf s = concat (map bytes_words secs)"
    "512 * (k + length secs) \<le> length buf"
  shows "\<exists>s'. read_sectors drive_hw primary k (length secs) buf s =
      Some (int (k + length secs), take (512 * k) buf @ concat secs @ drop (512 * (k + length secs)) buf, s') \<and>
    img s' = img s \<and> out_buf s' = [] \<and> in_left s' = in_left s"
  using assms
proof (induction secs arbitrary: k buf s)
  case (Cons b secs)
  let ?r = "concat (map bytes_words secs)"
  obtain s1 where s1: "ATA_Wait_Busy drive_hw primary 30000 s = Some (0, s1)" "later s s1"
    using wait_busy_drive by blast
  have "length (bytes_words b) = 256" using Cons.prems by simp
  then have "bytes_words b \<noteq> []" by (metis list.size(3) zero_neq_numeral)
  with Cons.prems s1 have o1: "out_buf s1 = bytes_words b @ ?r" "out_buf s1 \<noteq> []" by auto
  obtain s2 where s2: "ATA_Wait_DRP drive_hw primary 30000 s1 = Some (0, s2)" "later s1 s2"
    using wait_drq_drive o1(2) by blast
  have w: "in_words drive_hw 0x1F0 256 s2 = (bytes_words b, s2\<lparr>out_buf := ?r\<rparr>)"
    using in_words_drive [of s2 "bytes_words b" ?r] o1 s2 Cons.prems by simp
  have b: "words_bytes (bytes_words b) = b" "length b = 512"
    using Cons.prems words_bytes_words [of b 256] by auto
  let ?buf = "take (512 * k) buf @ b @ drop (512 * k + 512) buf"
  have p: "put_bytes buf (512 * k) b = Some ?buf" using Cons.prems b by (simp add: put_bytes_def)
  have "\<exists>s'. read_sectors drive_hw primary (k + 1) (length secs) ?buf (s2\<lparr>out_buf := ?r\<rparr>) =
      Some (int (k + 1 + length secs), take (512 * (k + 1)) ?buf @ concat secs @
        drop (512 * (k + 1 + length secs)) ?buf, s') \<and>
      img s' = img (s2\<lparr>out_buf := ?r\<rparr>) \<and> out_buf s' = [] \<and> in_left s' = in_left (s2\<lparr>out_buf := ?r\<rparr>)"
    by (rule Cons.IH) (use Cons.prems b in auto)
  then obtain s' where s': "read_sectors drive_hw primary (k + 1) (length secs) ?buf (s2\<lparr>out_buf := ?r\<rparr>) =
      Some (int (k + 1 + length secs), take (512 * (k + 1)) ?buf @ concat secs @
        drop (512 * (k + 1 + length secs)) ?buf, s')"
    "img s' = img s2" "out_buf s' = []" "in_left s' = in_left s2" by auto
  have t: "take (512 * (k + 1)) ?buf = take (512 * k) buf @ b"
    "drop (512 * (k + 1 + length secs)) ?buf = drop (512 * (k + length (b # secs))) buf"
    using Cons.prems b by (auto simp: algebra_simps)
  have "read_sectors drive_hw primary k (Suc (length secs)) buf s =
      read_sectors drive_hw primary (k + 1) (length secs) ?buf (s2\<lparr>out_buf := ?r\<rparr>)"
    by (simp add: s1(1) s2(1) w b(1) p drive_inb_def ATA_SR_ERR_def)
  with s' t s1 s2 show ?case by (simp add: algebra_simps)
qed simp

lemma out_words_drive:
  assumes "in_left s \<noteq> 0" "sel_master (r_drv s) = m" "length (in_buf s) + length ws = 256" "ws \<noteq> []"
  shows "out_words drive_hw 0x1F0 ws s =
    s\<lparr>img := (img s)(m := (img s m)(in_lba s := words_bytes (in_buf s @ ws))),
      in_lba := in_lba s + 1, in_left := in_left s - 1, in_buf := []\<rparr>"
  using assms
proof (induction ws arbitrary: s)
  case (Cons w ws)
  show ?case
  proof (cases "ws = []")
    case True
    then show ?thesis using Cons.prems by (simp add: take_word_def fun_upd_def)
  next
    case False
    then have "take_word w s = s\<lparr>in_buf := in_buf s @ [w]\<rparr>"
      using Cons.prems by (cases ws) (auto simp: take_word_def)
    then show ?thesis using False Cons.prems Cons.IH [of "s\<lparr>in_buf := in_buf s @ [w]\<rparr>"] by simp
  qed
qed simp

lemma write_sectors_drive:
  assumes "in_left s = n" "in_buf s = []" "out_buf s = []" "sel_master (r_drv s) = m" "512 * (k + n) \<le> length buf"
  shows "\<exists>s'. write_sectors drive_hw primary k n buf s = Some (int (k + n), s') \<and>
    img s' = (img s)(m := (\<lambda>x. if in_lba s \<le> x \<and> x < in_lba s + n
                              then take 512 (drop (512 * (k + (x - in_lba s))) buf) else img s m x)) \<and>
    in_left s' = 0 \<and> out_buf s' = []"
  using assms
proof (induction n arbitrary: k s)
  case 0
  have "(\<lambda>x. if in_lba s \<le> x \<and> x < in_lba s + 0 then take 512 (drop (512 * (k + (x - in_lba s))) buf)
      else img s m x) = img s m" by (rule ext) auto
  with 0 show ?case by simp
next
  case (Suc n)
  have "out_buf s \<noteq> [] \<or> in_left s \<noteq> 0" using Suc.prems by simp
  from wait_drq_drive [OF this] obtain s1 where s1: "ATA_Wait_DRP drive_hw primary 30000 s = Some (0, s1)" "later s s1"
    by blast
  let ?p = "take 512 (drop (512 * k) buf)"
  have p: "get_bytes buf (512 * k) 512 = Some ?p" "length ?p = 512" using Suc.prems by (auto simp: get_bytes_def)
  let ?s2 = "s1\<lparr>img := (img s)(m := (img s m)(in_lba s := ?p)), in_lba := in_lba s + 1, in_left := n, in_buf := []\<rparr>"
  have len: "length (bytes_words ?p) = 256" unfolding length_bytes_words p(2) by simp
  then have "bytes_words ?p \<noteq> []" by (metis list.size(3) zero_neq_numeral)
  then have w: "out_words drive_hw 0x1F0 (bytes_words ?p) s1 = ?s2"
    using out_words_drive [of s1 m "bytes_words ?p"] words_bytes_words [of ?p 256] len s1(2) Suc.prems p(2)
    by (simp del: length_bytes_words length_take)
  obtain s3 where s3: "ATA_Wait_Busy drive_hw primary 30000 ?s2 = Some (0, s3)" "later ?s2 s3"
    using wait_busy_drive by blast
  have "in_left s3 = n" "in_buf s3 = []" "out_buf s3 = []" "sel_master (r_drv s3) = m" "512 * (k + 1 + n) \<le> length buf"
    using s1(2) s3(2) Suc.prems by simp_all
  from Suc.IH [OF this]
  obtain s4 where s4: "write_sectors drive_hw primary (k + 1) n buf s3 = Some (int (k + 1 + n), s4)"
    "img s4 = (img s3)(m := (\<lambda>x. if in_lba s3 \<le> x \<and> x < in_lba s3 + n
        then take 512 (drop (512 * (k + 1 + (x - in_lba s3))) buf) else img s3 m x))"
    "in_left s4 = 0" "out_buf s4 = []" by blast
  have "write_sectors drive_hw primary k (Suc n) buf s = write_sectors drive_hw primary (k + 1) n buf s3"
    by (simp only: write_sectors.simps s1(1) p(1) w s3(1) bind.bind_lunit prod.case Let_def primary_ports)
      (simp add: drive_inb_def ATA_SR_ERR_def)
  moreover have "img s4 = (img s)(m := (\<lambda>x. if in_lba s \<le> x \<and> x < in_lba s + Suc n
        then take 512 (drop (512 * (k + (x - in_lba s))) buf) else img s m x))"
  proof (intro ext)
    fix m' x
    have e: "k + 1 + (x - Suc (in_lba s)) = k + (x - in_lba s)" if "in_lba s < x" using that by simp
    show "img s4 m' x = ((img s)(m := (\<lambda>x. if in_lba s \<le> x \<and> x < in_lba s + Suc n
        then take 512 (drop (512 * (k + (x - in_lba s))) buf) else img s m x))) m' x"
      unfolding s4(2) using s3(2)
      by (cases x "in_lba s" rule: linorder_cases) (simp_all add: e del: add_Suc_right)
  qed
  ultimately show ?case using s4(1,3,4)
    by (intro exI [of _ s4]) (simp del: write_sectors.simps fun_upd_apply)
qed

section \<open>The driver keeps the contract\<close>

definition ata_volume :: "bool \<Rightarrow> u64 \<Rightarrow> drive volume" where
  "ata_volume m start = \<lparr>d_read = ATA_Read drive_hw primary, d_write = ATA_Write drive_hw primary,
     d_flush = ATA_Flush_Cache drive_hw primary, v_master = m, v_start = start\<rparr>"

text \<open>Both commands start a transfer of the sectors asked for.\<close>

lemma read_cmd_drive:
  assumes "idle s" "0 < n" "unat lba + unat n \<le> 2 ^ 48"
  shows "\<exists>s'. (if use_lba28 lba n then ATA_Read_LBA28_cmd drive_hw primary m (ucast lba) n s
       else ATA_Read_LBA48_cmd drive_hw primary m lba n s) = Some (0, s') \<and> img s' = img s \<and> in_left s' = 0 \<and>
     out_buf s' = concat (map bytes_words (map (img s m) [unat lba..<unat lba + unat n]))"
proof (cases "use_lba28 lba n")
  case True
  then have l: "unat lba \<le> 0x0FFFFFFF" "n \<le> 256" by (auto simp: use_lba28_def word_less_nat_alt)
  then have u: "unat (ucast lba :: u32) = unat lba" by (simp add: unsigned_ucast_eq take_bit_nat_eq_self)
  then have "(ucast lba :: u32) \<le> 0x0FFFFFFF" using l by (simp add: word_le_nat_alt)
  from lba28_drive [OF this assms(2) l(2), where m = m and c = "0x20" and s = s] obtain s' where
    "lba28_cmd drive_hw primary m 0x20 (ucast lba) n s = Some (0, exec_cmd 0x20 s')" "cmd_state s m s'"
    "lba28_of s' = unat lba" "cnt28_of s' = unat n" unfolding u by blast
  with True assms(1) show ?thesis
    by (auto simp: ATA_Read_LBA28_cmd_def exec_cmd_def start_read_def cmd_state_def idle_def comp_def)
next
  case False
  have "lba \<le> 0x0000FFFFFFFFFFFF" using assms by (simp add: word_le_nat_alt word_less_nat_alt)
  from lba48_drive [OF this assms(2), where m = m and c = "0x24" and s = s] obtain s' where
    "lba48_cmd drive_hw primary m 0x24 lba n s = Some (0, exec_cmd 0x24 s')" "cmd_state s m s'"
    "lba48_of s' = unat lba" "cnt48_of s' = unat n" by blast
  with False assms(1) show ?thesis
    by (auto simp: ATA_Read_LBA48_cmd_def exec_cmd_def start_read_def cmd_state_def idle_def comp_def)
qed

lemma write_cmd_drive:
  assumes "idle s" "0 < n" "unat lba + unat n \<le> 2 ^ 48"
  shows "\<exists>s'. (if use_lba28 lba n then ATA_Write_LBA28_cmd drive_hw primary m (ucast lba) n s
       else ATA_Write_LBA48_cmd drive_hw primary m lba n s) = Some (0, s') \<and> img s' = img s \<and> out_buf s' = [] \<and>
     in_left s' = unat n \<and> in_lba s' = unat lba \<and> in_buf s' = [] \<and> sel_master (r_drv s') = m"
proof (cases "use_lba28 lba n")
  case True
  then have l: "unat lba \<le> 0x0FFFFFFF" "n \<le> 256" by (auto simp: use_lba28_def word_less_nat_alt)
  then have u: "unat (ucast lba :: u32) = unat lba" by (simp add: unsigned_ucast_eq take_bit_nat_eq_self)
  then have "(ucast lba :: u32) \<le> 0x0FFFFFFF" using l by (simp add: word_le_nat_alt)
  from lba28_drive [OF this assms(2) l(2), where m = m and c = "0x30" and s = s] obtain s' where
    "lba28_cmd drive_hw primary m 0x30 (ucast lba) n s = Some (0, exec_cmd 0x30 s')" "cmd_state s m s'"
    "lba28_of s' = unat lba" "cnt28_of s' = unat n" unfolding u by blast
  with True assms(1) show ?thesis
    by (auto simp: ATA_Write_LBA28_cmd_def exec_cmd_def start_write_def cmd_state_def idle_def)
next
  case False
  have "lba \<le> 0x0000FFFFFFFFFFFF" using assms by (simp add: word_le_nat_alt word_less_nat_alt)
  from lba48_drive [OF this assms(2), where m = m and c = "0x34" and s = s] obtain s' where
    "lba48_cmd drive_hw primary m 0x34 lba n s = Some (0, exec_cmd 0x34 s')" "cmd_state s m s'"
    "lba48_of s' = unat lba" "cnt48_of s' = unat n" by blast
  with False assms(1) show ?thesis
    by (auto simp: ATA_Write_LBA48_cmd_def exec_cmd_def start_write_def cmd_state_def idle_def)
qed

lemma ATA_Read_drive:
  assumes "idle s" "0 < n" "unat lba + unat n \<le> 2 ^ 48" "512 * unat n \<le> length buf"
  shows "\<exists>s'. ATA_Read drive_hw primary m lba n buf s =
      Some (int (unat n), concat (map (img s m) [unat lba..<unat lba + unat n]) @ drop (512 * unat n) buf, s') \<and>
    idle s' \<and> img s' = img s"
proof -
  let ?secs = "map (img s m) [unat lba..<unat lba + unat n]"
  obtain s1 where s1: "(if use_lba28 lba n then ATA_Read_LBA28_cmd drive_hw primary m (ucast lba) n s
       else ATA_Read_LBA48_cmd drive_hw primary m lba n s) = Some (0, s1)" "img s1 = img s" "in_left s1 = 0"
     "out_buf s1 = concat (map bytes_words ?secs)" using read_cmd_drive [OF assms(1-3)] by blast
  have "\<forall>b \<in> set ?secs. length b = 512" "512 * (0 + length ?secs) \<le> length buf"
    using assms by (auto simp: idle_def)
  from read_sectors_drive [OF this(1) s1(4) this(2)] obtain s2 where
    "read_sectors drive_hw primary 0 (unat n) buf s1 =
       Some (int (unat n), concat ?secs @ drop (512 * unat n) buf, s2)"
    "img s2 = img s1" "out_buf s2 = []" "in_left s2 = in_left s1" by auto
  with s1 assms(1) show ?thesis unfolding ATA_Read_def s1(1) by (simp add: Read_Sector_def idle_def)
qed

lemma ATA_Write_drive:
  assumes "idle s" "0 < n" "unat lba + unat n \<le> 2 ^ 48" "512 * unat n \<le> length buf"
  shows "\<exists>s'. ATA_Write drive_hw primary m lba n buf s = Some (int (unat n), s') \<and> idle s' \<and>
    img s' = (img s)(m := (\<lambda>x. if unat lba \<le> x \<and> x < unat lba + unat n
                              then take 512 (drop (512 * (x - unat lba)) buf) else img s m x))"
proof -
  obtain s1 where s1: "(if use_lba28 lba n then ATA_Write_LBA28_cmd drive_hw primary m (ucast lba) n s
       else ATA_Write_LBA48_cmd drive_hw primary m lba n s) = Some (0, s1)" "img s1 = img s" "out_buf s1 = []"
     "in_left s1 = unat n" "in_lba s1 = unat lba" "in_buf s1 = []" "sel_master (r_drv s1) = m"
    using write_cmd_drive [OF assms(1-3)] by blast
  have "512 * (0 + unat n) \<le> length buf" using assms(4) by simp
  from write_sectors_drive [OF s1(4,6,3,7) this, unfolded s1(2,5) add_0] obtain s2 where
    s2: "write_sectors drive_hw primary 0 (unat n) buf s1 = Some (int (unat n), s2)"
    "img s2 = (img s)(m := (\<lambda>x. if unat lba \<le> x \<and> x < unat lba + unat n
                              then take 512 (drop (512 * (x - unat lba)) buf) else img s m x))"
    "in_left s2 = 0" "out_buf s2 = []" by blast
  have "length (img s2 m' x) = 512" for m' x
    unfolding s2(2) using assms(1,4) by (auto simp: idle_def algebra_simps)
  with s2 show ?thesis unfolding ATA_Write_def s1(1) by (simp add: Write_Sector_def idle_def del: fun_upd_apply)
qed

lemma ATA_Flush_drive: "idle s \<Longrightarrow> \<exists>s'. ATA_Flush_Cache drive_hw primary m s = Some s' \<and> idle s' \<and> img s' = img s"
proof -
  assume s: "idle s"
  let ?b = "0xE0 OR (if m then 0 else 0x10)"
  obtain s1 where s1: "delay_ms drive_hw 1 (s\<lparr>r_drv := ?b\<rparr>) = Some s1" "later (s\<lparr>r_drv := ?b\<rparr>) s1"
    using delay_ms_later by blast
  obtain s2 where s2: "ATA_Wait_Busy drive_hw primary 5000 s1 = Some (0, s2)" "later s1 s2"
    using wait_busy_drive by blast
  obtain s3 where s3: "ATA_Wait_Busy drive_hw primary 30000 s2 = Some (0, s3)" "later s2 s3"
    using wait_busy_drive by blast
  have "exec_cmd 0xE7 s2 = s2" by (simp add: exec_cmd_def)
  then have "ATA_Flush_Cache drive_hw primary m s = Some s3"
    using s1(1) s2(1) s3(1) by (simp add: ATA_Flush_Cache_def)
  moreover have "idle s3" "img s3 = img s" using s s1(2) s2(2) s3(2) by (simp_all add: idle_def)
  ultimately show ?thesis by blast
qed

interpretation ata_dev: block_device "ata_volume m start" img idle for m start
  by unfold_locales
    (simp_all only: ata_volume_def disk_io.simps volume.simps ATA_Read_drive ATA_Write_drive ATA_Flush_drive,
      simp add: idle_def)

end
