(* ===== verification/FatProps.thy ===== *)
theory FatProps
  imports AtaDisk
begin

text \<open>
  The properties of the disk driver and of the file system on it: the lemmas of \<open>FatDisk\<close> and
  \<open>FatData\<close> for the driver of \<open>Ata\<close> on the drive of \<open>AtaDisk\<close>, which is a block device there.
\<close>

section \<open>A small volume\<close>

definition demo_info :: fat32_info where
  "demo_info = \<lparr>bytes_per_sector = 512, sectors_per_cluster = 1, reserved_sectors = 32, num_fats = 2,
     sectors_per_fat = 1, root_cluster = 2, fsinfo_sector = 1, backup_boot_sector = 6, fat_region_lba = 32,
     data_region_lba = 34, fi_total_sectors = 134, total_clusters = 100, free_clusters = 90, next_free_cluster = 5,
     volume_label = [], volume_id = 0\<rparr>"

text \<open>Clusters 2 and 3 are a chain; the others are free.\<close>

definition demo_fat :: "u8 list" where
  "demo_fat = [0xF8, 0xFF, 0xFF, 0x0F, 0xFF, 0xFF, 0xFF, 0x0F, 3, 0, 0, 0, 0xFF, 0xFF, 0xFF, 0x0F] @ replicate 496 0"

definition demo_drive :: drive where
  "demo_drive = \<lparr>img = (\<lambda>m x. if x = 32 \<or> x = 33 then demo_fat else replicate 512 0), r_cnt = (0, 0), r_lo = (0, 0),
     r_mid = (0, 0), r_hi = (0, 0), r_drv = 0, out_buf = [], in_lba = 0, in_left = 0, in_buf = [], tsc = 0\<rparr>"

abbreviation demo_volume :: "drive volume" where "demo_volume \<equiv> ata_volume True 0"

lemma demo_idle: "idle demo_drive"
  by (auto simp: idle_def demo_drive_def demo_fat_def)

lemma demo_geometry: "geometry demo_volume demo_info"
  by (simp add: geometry_def demo_info_def ata_volume_def spc_def fat_base_def data_base_def)

lemma demo_valid: "valid_cluster demo_info 2" "valid_cluster demo_info 3"
  by (simp_all add: valid_cluster_def demo_info_def)

lemma demo_chain: "chain demo_volume demo_info (img demo_drive) [2, 3]"
  using demo_valid
  by (simp add: fat_get_def entry_sec_def entry_off_def fat_base_def demo_info_def ata_volume_def demo_drive_def
    demo_fat_def read_le32_def le32_def FAT32_ENTRY_EOF_def)

section \<open>The driver\<close>

text \<open>C10: Every call of the ATA driver comes back, whatever the drive answers and whether there is one: when the
  time stamp counter moves on with each access and the buffer has room for the sectors, neither a busy drive nor an
  absent one holds \<^verbatim>\<open>ATA_Read\<close>, \<^verbatim>\<open>ATA_Write\<close> or \<^verbatim>\<open>ATA_Flush_Cache\<close> for ever.\<close>

theorem ata_driver_returns:
  assumes "ticking hw clock" "512 * unat n \<le> length buf"
  shows "returns (ATA_Read hw ch m lba n buf d) \<and> returns (ATA_Write hw ch m lba n buf d) \<and>
    returns (ATA_Flush_Cache hw ch m d)"
  using ticking.ATA_Read_returns [OF assms] ticking.ATA_Write_returns [OF assms]
    ticking.ATA_Flush_returns [OF assms(1)] by blast

theorem ata_driver_returns_witness:
  "returns (ATA_Read drive_hw (ATA_Init_Channel False) False 7 2 (replicate 1024 0) demo_drive)"
proof -
  have "512 * unat (2 :: u16) \<le> length (replicate 1024 (0 :: u8))" by simp
  from ata_driver_returns [OF drive_clock.ticking_axioms this] show ?thesis by blast
qed

text \<open>C7: The registers the driver loads name the sectors asked for, in both address forms, and the transfer is
  in order: sectors written by \<^verbatim>\<open>ATA_Write\<close> are what \<^verbatim>\<open>ATA_Read\<close> returns, both calls
  report the number of sectors, and every other sector of both drives is as before.\<close>

theorem ata_write_then_read:
  assumes "idle s" "0 < n" "unat lba + unat n \<le> 2 ^ 48" "length data = 512 * unat n" "length buf = 512 * unat n"
  shows "\<exists>s1 s2. ATA_Write drive_hw primary m lba n data s = Some (int (unat n), s1) \<and>
    ATA_Read drive_hw primary m lba n buf s1 = Some (int (unat n), data, s2) \<and>
    (\<forall>m' x. m' \<noteq> m \<or> x < unat lba \<or> unat lba + unat n \<le> x \<longrightarrow> img s1 m' x = img s m' x)"
proof -
  obtain s1 where s1: "ATA_Write drive_hw primary m lba n data s = Some (int (unat n), s1)" "idle s1"
    "img s1 = (img s)(m := (\<lambda>x. if unat lba \<le> x \<and> x < unat lba + unat n
                              then take 512 (drop (512 * (x - unat lba)) data) else img s m x))"
    using ATA_Write_drive [OF assms(1-3)] assms(4) by force
  have "map (img s1 m) [unat lba..<unat lba + unat n] = map (\<lambda>i. take 512 (drop (512 * i) data)) [0..<unat n]"
    unfolding s1(3) by (rule nth_equalityI) auto
  then have "concat (map (img s1 m) [unat lba..<unat lba + unat n]) = data"
    using concat_slices [OF assms(4)] by simp
  with ATA_Read_drive [OF s1(2) assms(2,3), of buf m] assms(5) s1 show ?thesis by auto
qed

theorem ata_write_then_read_witness:
  "\<exists>s1 s2. ATA_Write drive_hw primary True 0x12345678 1 (replicate 512 7) demo_drive = Some (1, s1) \<and>
     ATA_Read drive_hw primary True 0x12345678 1 (replicate 512 0) s1 = Some (1, replicate 512 7, s2)"
  using ata_write_then_read [OF demo_idle, of 1 "0x12345678" "replicate 512 7" "replicate 512 0" True] by fastforce

section \<open>The allocation table\<close>

text \<open>C8: An entry written by \<^verbatim>\<open>FAT32_WriteFATEntry\<close> reads back as its low 28 bits by
  \<^verbatim>\<open>FAT32_NextCluster\<close>; every copy of the table gets it, and no entry of another cluster changes in any copy.\<close>

theorem fat_entry_roundtrip:
  assumes "geometry (ata_volume True start) info" "valid_cluster info c" "idle s"
  shows "\<exists>s1 s2. FAT32_WriteFATEntry (ata_volume True start) info c val s = Some (0, s1) \<and>
    FAT32_NextCluster (ata_volume True start) info c s1 = Some (0, val AND 0x0FFFFFFF, s2) \<and>
    (\<forall>i c'. i < unat (num_fats info) \<longrightarrow> valid_cluster info c' \<longrightarrow>
       fat_get (ata_volume True start) info (img s1) i c' =
         (if c' = c then val else fat_get (ata_volume True start) info (img s) i c'))"
proof -
  let ?v = "ata_volume True start"
  obtain s1 where s1: "FAT32_WriteFATEntry ?v info c val s = Some (0, s1)" "idle s1" "img s1 = fat_set ?v info c val (img s)"
    using ata_dev.write_entry_spec [OF assms] by blast
  have get: "fat_get ?v info (img s1) i c' = (if c' = c then val else fat_get ?v info (img s) i c')"
    if "i < unat (num_fats info)" "valid_cluster info c'" for i c'
    unfolding s1(3) by (rule fat_get_set [OF assms(1,2) that(2,1)]) (use assms(3) in \<open>simp add: idle_def\<close>)
  have "0 < unat (num_fats info)" using assms(1) by (simp add: geometry_def word_less_nat_alt)
  with ata_dev.next_spec [OF assms(1,2) s1(2)] get [OF _ assms(2), of 0]
  obtain s2 where "FAT32_NextCluster ?v info c s1 = Some (0, val AND 0x0FFFFFFF, s2)" by auto
  with s1(1) get show ?thesis by blast
qed

theorem fat_entry_roundtrip_witness:
  "\<exists>s1 s2. FAT32_WriteFATEntry demo_volume demo_info 3 7 demo_drive = Some (0, s1) \<and>
     FAT32_NextCluster demo_volume demo_info 3 s1 = Some (0, 7, s2)"
  using fat_entry_roundtrip [OF demo_geometry demo_valid(2) demo_idle, of 7] by auto



text \<open>C9: \<^verbatim>\<open>FAT32_FreeClusterChain\<close> frees a chain completely and nothing else: it ends, and after it the
  entry of a cluster is 0 in every copy if the cluster was in the chain and as it was if not.\<close>

theorem free_chain_correct:
  assumes "geometry (ata_volume True start) info" "idle s" "chain (ata_volume True start) info (img s) cs" "distinct cs"
    "i < unat (num_fats info)" "valid_cluster info c"
  shows "\<exists>info' s'. FAT32_FreeClusterChain (ata_volume True start) info (hd cs) s = Some (0, info', s') \<and>
    fat_get (ata_volume True start) info (img s') i c =
      (if c \<in> set cs then 0 else fat_get (ata_volume True start) info (img s) i c)"
proof -
  let ?v = "ata_volume True start"
  have fold: "fat_get ?v info (fold (\<lambda>c. fat_set ?v info c FAT32_ENTRY_FREE) cs t) i c =
      (if c \<in> set cs then 0 else fat_get ?v info t i c)"
    if "\<forall>c \<in> set cs. valid_cluster info c" "\<forall>m x. length (t m x) = 512" for cs t
    using that
  proof (induction cs arbitrary: t)
    case (Cons b cs)
    have "fat_get ?v info (fat_set ?v info b FAT32_ENTRY_FREE t) i c = (if c = b then 0 else fat_get ?v info t i c)"
      using fat_get_set [OF assms(1) _ assms(6,5), of b t FAT32_ENTRY_FREE] Cons.prems by (simp add: FAT32_ENTRY_FREE_def)
    moreover have "\<forall>m x. length (fat_set ?v info b FAT32_ENTRY_FREE t m x) = 512"
      using Cons.prems(2) by (simp add: fat_set_def)
    ultimately show ?case using Cons by auto
  qed simp
  obtain s' where s': "FAT32_FreeClusterChain ?v info (hd cs) s = Some (0, (given_back ^^ length cs) info, s')"
    "img s' = fold (\<lambda>c. fat_set ?v info c FAT32_ENTRY_FREE) cs (img s)"
    using ata_dev.free_chain_spec [OF assms(1-4)] by blast
  show ?thesis using s' fold [of cs "img s"] chain_valid [OF assms(3)] assms(2) by (auto simp: idle_def)
qed

theorem free_chain_correct_witness:
  "\<exists>info' s'. FAT32_FreeClusterChain demo_volume demo_info 2 demo_drive = Some (0, info', s') \<and>
     fat_get demo_volume demo_info (img s') 1 3 = 0"
  using free_chain_correct [OF demo_geometry demo_idle demo_chain _ _ demo_valid(2), of 1]
  by (auto simp: demo_info_def)

section \<open>Files\<close>

text \<open>C32: \<^verbatim>\<open>FAT32_ReadFile\<close> returns the size of the file and fills the buffer with the clusters of its
  chain in order, the last of them whole: the caller's buffer is overwritten up to the next cluster boundary, past
  the size that is returned.\<close>

theorem read_file_contents:
  assumes "geometry (ata_volume True start) info" "idle s" "chain (ata_volume True start) info (img s) cs"
    "de_attr entry AND FAT32_ATTR_DIRECTORY = 0" "de_cluster entry = hd cs" "n < length cs"
    "csz info * n < unat (de_size entry)" "unat (de_size entry) \<le> csz info * (n + 1)"
    "unat (de_size entry) + csz info < 2 ^ 32" "csz info * (n + 1) \<le> length buf"
  shows "\<exists>s'. FAT32_ReadFile (ata_volume True start) info entry buf s = Some (de_size entry,
      concat (map (cdata (ata_volume True start) info (img s)) (take (n + 1) cs)) @ drop (csz info * (n + 1)) buf, s') \<and>
    img s' = img s"
  using ata_dev.read_loop_spec [OF assms(1-3,6), of 0 0 "de_size entry" buf] assms(4,5,7-10)
  by (auto simp: FAT32_ReadFile_def)

definition demo_entry :: "u8 list" where
  "demo_entry = sfn_entry (name_to_83 (bytes ''a.txt'')) FAT32_ATTR_ARCHIVE
     \<lparr>second = 0, minute = 0, hour = 0, day = 1, month = 1, year = 26\<rparr> 2"

theorem read_file_contents_witness:
  "\<exists>s' b. FAT32_ReadFile demo_volume demo_info (set_size demo_entry 600) (replicate 1024 1) demo_drive = Some (600, b, s')"
proof -
  let ?e = "set_size demo_entry 600"
  have e: "de_size ?e = 600" "de_attr ?e AND FAT32_ATTR_DIRECTORY = 0" "de_cluster ?e = 2" by code_simp+
  from read_file_contents [OF demo_geometry demo_idle demo_chain e(2), of 1 "replicate 1024 1"] e
  show ?thesis by (auto simp: csz_def spc_def demo_info_def)
qed

text \<open>C5: What the loop of \<^verbatim>\<open>FAT32_WriteFile\<close> stores along a chain that is long enough, with a last cluster
  that is filled in part, the loop of \<^verbatim>\<open>FAT32_ReadFile\<close> reads back byte for byte.\<close>

theorem file_write_then_read:
  assumes "geometry (ata_volume True start) info" "idle s" "chain (ata_volume True start) info (img s) cs" "distinct cs"
    "n < length cs" "csz info * n < unat sz" "unat sz \<le> csz info * (n + 1)" "unat sz + csz info < 2 ^ 32"
    "unat sz \<le> length src" "csz info * (n + 1) \<le> length buf"
  shows "\<exists>s1 b s2. write_loop (ata_volume True start) src sz info (hd cs) 0 s = Some (True, sz, cs ! n, info, s1) \<and>
    read_loop (ata_volume True start) info sz (hd cs) 0 buf s1 = Some (sz, b, s2) \<and> take (unat sz) b = take (unat sz) src"
  by (rule ata_dev.write_then_read [OF assms])

theorem file_write_then_read_witness:
  "\<exists>s1 b s2. write_loop demo_volume (replicate 600 9) 600 demo_info 2 0 demo_drive = Some (True, 600, 3, demo_info, s1) \<and>
     read_loop demo_volume demo_info 600 2 0 (replicate 1024 0) s1 = Some (600, b, s2) \<and> take 600 b = replicate 600 9"
  using file_write_then_read [OF demo_geometry demo_idle demo_chain, of 1 600 "replicate 600 9" "replicate 1024 0"]
  by (simp add: csz_def spc_def demo_info_def)

text \<open>The hint the allocation leaves behind is outside the volume after the last cluster has been
  taken.\<close>

theorem alloc_hint_leaves_volume:
  assumes "geometry v info" "unat r = unat (total_clusters info) + 1"
  shows "\<not> hint_ok (taken info r)"
proof -
  have T: "0 < unat (total_clusters info)" "unat (total_clusters info) + 2 \<le> 0x0FFFFFF0"
    using assms(1) by (auto simp: geometry_def)
  then have "unat (r + 1) = unat (total_clusters info) + 2" using assms(2) by (simp add: unat_word_ariths)
  with T show ?thesis
    by (auto simp: hint_ok_def taken_def valid_cluster_def word_less_nat_alt split: if_splits)
qed

text \<open>A device that is present is taken as the disk, whether it is a disk or not.\<close>

theorem first_disk_may_be_cd:
  assumes "present (drives info ! 0)"
  shows "FindFirstATADisk info = \<lparr>dk_primary = True, dk_master = True, dk_channel = ATA_Init_Channel True\<rparr>"
  using assms by (simp add: FindFirstATADisk_def)

end
