(* ===== verification/Screen.thy ===== *)
theory Screen
  imports CMem
begin

text \<open>
  Drawing on the frame buffer: the primitives of the display driver,
  \<^verbatim>\<open>Kernel/drives/display.c\<close>.  The frame buffer is memory; \<open>display_info\<close> says where it is and
  how large the screen is.  A coordinate is a 32-bit word and an address is computed at that width,
  as in the code.  The lemmas say which pixels each primitive changes: those of the rectangle it is
  given that lie on the screen, and no other byte of the memory.
\<close>

unbundle bit_operations_syntax

section \<open>Screen and primitives\<close>

record display_info =
  framebuffer :: addr
  width :: u16
  height :: u16
  pitch :: u16
  bpp :: u8

definition pixel_addr :: "display_info \<Rightarrow> u32 \<Rightarrow> addr" where
  "pixel_addr info i = framebuffer info + 4 * ucast i"

definition bochs_pixel :: "display_info \<Rightarrow> u32 \<Rightarrow> u32 \<Rightarrow> u32 \<Rightarrow> mem \<Rightarrow> mem" where
  "bochs_pixel info x y color m =
     (if x < ucast (width info) \<and> y < ucast (height info)
      then wr32 m (pixel_addr info (y * ucast (width info) + x)) color else m)"

text \<open>\<^verbatim>\<open>rep stosl\<close>.\<close>

fun stosl :: "addr \<Rightarrow> nat \<Rightarrow> u32 \<Rightarrow> mem \<Rightarrow> mem" where
  "stosl p 0 color m = m"
| "stosl p (Suc n) color m = stosl (p + 4) n color (wr32 m p color)"

definition clamp :: "u32 \<Rightarrow> u32 \<Rightarrow> u16 \<Rightarrow> u32" where
  "clamp x w bound = (if x + w > ucast bound then ucast bound - x else w)"

definition bochs_fill_rect :: "display_info \<Rightarrow> u32 \<Rightarrow> u32 \<Rightarrow> u32 \<Rightarrow> u32 \<Rightarrow> u32 \<Rightarrow> mem \<Rightarrow> mem" where
  "bochs_fill_rect info x y w h color m =
     (if x \<ge> ucast (width info) \<or> y \<ge> ucast (height info) then m
      else let w = clamp x w (width info); h = clamp y h (height info)
           in if w = 0 \<or> h = 0 then m
              else fold (\<lambda>row. stosl (pixel_addr info ((y + of_nat row) * ucast (width info) + x)) (unat w) color)
                     [0..<unat h] m)"

definition bochs_clear :: "display_info \<Rightarrow> u32 \<Rightarrow> mem \<Rightarrow> mem" where
  "bochs_clear info color = bochs_fill_rect info 0 0 (ucast (width info)) (ucast (height info)) color"

definition bochs_hline :: "display_info \<Rightarrow> u32 \<Rightarrow> u32 \<Rightarrow> u32 \<Rightarrow> u32 \<Rightarrow> mem \<Rightarrow> mem" where
  "bochs_hline info x y w color m =
     (if y \<ge> ucast (height info) then m else if x \<ge> ucast (width info) then m
      else let w = clamp x w (width info)
           in if w = 0 then m else stosl (pixel_addr info (y * ucast (width info) + x)) (unat w) color m)"

fun vline_loop :: "addr \<Rightarrow> u16 \<Rightarrow> nat \<Rightarrow> u32 \<Rightarrow> mem \<Rightarrow> mem" where
  "vline_loop p w 0 color m = m"
| "vline_loop p w (Suc n) color m = vline_loop (p + 4 * ucast w) w n color (wr32 m p color)"

definition bochs_vline :: "display_info \<Rightarrow> u32 \<Rightarrow> u32 \<Rightarrow> u32 \<Rightarrow> u32 \<Rightarrow> mem \<Rightarrow> mem" where
  "bochs_vline info x y h color m =
     (if x \<ge> ucast (width info) then m else if y \<ge> ucast (height info) then m
      else let h = clamp y h (height info)
           in if h = 0 then m
              else vline_loop (pixel_addr info (y * ucast (width info) + x)) (width info) (unat h) color m)"

text \<open>The copy of a block, row by row in the order that keeps overlapping rows apart.\<close>

definition blit_row :: "display_info \<Rightarrow> u32 \<Rightarrow> u32 \<Rightarrow> u32 \<Rightarrow> u32 \<Rightarrow> u32 \<Rightarrow> u32 \<Rightarrow> mem \<Rightarrow> mem" where
  "blit_row info sx sy dx dy w row m =
     memcpy m (framebuffer info + ucast ((dy + row) * ucast (pitch info)) + ucast (dx * ucast (bpp info)))
       (framebuffer info + ucast ((sy + row) * ucast (pitch info)) + ucast (sx * ucast (bpp info)))
       (unat (w * ucast (bpp info)))"

definition bochs_blit ::
  "display_info \<Rightarrow> u32 \<Rightarrow> u32 \<Rightarrow> u32 \<Rightarrow> u32 \<Rightarrow> u32 \<Rightarrow> u32 \<Rightarrow> mem \<Rightarrow> mem" where
  "bochs_blit info sx sy dx dy w h m =
     (if sx \<ge> ucast (width info) \<or> sy \<ge> ucast (height info) then m
      else if dx \<ge> ucast (width info) \<or> dy \<ge> ucast (height info) then m
      else let w = clamp sx w (width info); h = clamp sy h (height info);
               w = clamp dx w (width info); h = clamp dy h (height info)
           in if w = 0 \<or> h = 0 then m
              else if sy < dy then fold (\<lambda>row. blit_row info sx sy dx dy w (of_nat row)) (rev [0..<unat h]) m
              else fold (\<lambda>row. blit_row info sx sy dx dy w (of_nat row)) [0..<unat h] m)"

text \<open>The line of \<^verbatim>\<open>bochs_line\<close>.  Its integers are 32-bit and signed, and overflow is undefined:
  \<open>None\<close> is an overflow, and a loop that does not end.\<close>

definition fits :: "int \<Rightarrow> bool" where
  "fits z \<longleftrightarrow> - (2 ^ 31) \<le> z \<and> z < 2 ^ 31"

partial_function (option) line_loop ::
  "display_info \<Rightarrow> int \<Rightarrow> int \<Rightarrow> int \<Rightarrow> int \<Rightarrow> int \<Rightarrow> int \<Rightarrow> u32 \<Rightarrow> int \<Rightarrow> int \<Rightarrow> int \<Rightarrow> mem \<Rightarrow> mem option" where
  "line_loop info x2 y2 dx dy sx sy color x1 y1 err m =
     (let m = bochs_pixel info (word_of_int x1) (word_of_int y1) color m
      in if x1 = x2 \<and> y1 = y2 then Some m
         else let e2 = 2 * err;
                  (err', x1') = (if e2 > - dy then (err - dy, x1 + sx) else (err, x1));
                  (err', y1') = (if e2 < dx then (err' + dx, y1 + sy) else (err', y1))
              in if fits e2 \<and> fits err' \<and> fits x1' \<and> fits y1' \<and> (e2 > - dy \<longrightarrow> fits (err - dy))
                 then line_loop info x2 y2 dx dy sx sy color x1' y1' err' m else None)"

definition bochs_line :: "display_info \<Rightarrow> int \<Rightarrow> int \<Rightarrow> int \<Rightarrow> int \<Rightarrow> u32 \<Rightarrow> mem \<Rightarrow> mem option" where
  "bochs_line info x1 y1 x2 y2 color m =
     (let dx = (if x2 > x1 then x2 - x1 else x1 - x2);
          dy = (if y2 > y1 then y2 - y1 else y1 - y2);
          sx = (if x2 > x1 then 1 else - 1);
          sy = (if y2 > y1 then 1 else - 1)
      in if fits dx \<and> fits dy \<and> fits (dx - dy)
         then line_loop info x2 y2 dx dy sx sy color x1 y1 (dx - dy) m else None)"

section \<open>Lines\<close>

text \<open>After \<open>i\<close> steps along the first and \<open>j\<close> along the second axis the point is off the line by
  \<open>off\<close>; the variable \<^verbatim>\<open>err\<close> of the code is \<open>off + dx - dy\<close>.\<close>

definition off :: "int \<Rightarrow> int \<Rightarrow> int \<Rightarrow> int \<Rightarrow> int" where
  "off dx dy i j = j * dx - i * dy"

lemma off_step:
  "off dx dy (i + 1) j = off dx dy i j - dy" "off dx dy i (j + 1) = off dx dy i j + dx"
  "off dx dy (i + 1) (j + 1) = off dx dy i j + dx - dy" "off dx dy 0 0 = 0"
  by (simp_all add: off_def algebra_simps)

text \<open>A point close to the line that is at the end of the longer side is the end of the line.\<close>

lemma off_end: "0 < d \<Longrightarrow> \<bar>2 * ((j::int) * d - d * e)\<bar> \<le> d \<Longrightarrow> j = e"
proof -
  assume d: "0 < d" and a: "\<bar>2 * (j * d - d * e)\<bar> \<le> d"
  have "2 * (j * d - d * e) = d * (2 * (j - e))" by (simp add: algebra_simps)
  with a d have "d * \<bar>2 * (j - e)\<bar> \<le> d * 1" by (simp add: abs_mult)
  with d have "\<bar>2 * (j - e)\<bar> \<le> 1" by (simp only: mult_le_cancel_left_pos)
  then show "j = e" by presburger
qed

lemma off_inside: "0 < d \<Longrightarrow> i \<le> d \<Longrightarrow> 0 \<le> e \<Longrightarrow> 2 * ((j::int) * d - i * e) \<le> d \<Longrightarrow> j \<le> e"
proof -
  assume d: "0 < d" "i \<le> d" "0 \<le> e" and a: "2 * (j * d - i * e) \<le> d"
  have "i * e \<le> d * e" using d by (intro mult_right_mono)
  with a have "2 * (j * d) \<le> 2 * (d * e) + d" unfolding right_diff_distrib by linarith
  then have "d * (2 * j) \<le> d * (2 * e + 1)" by (simp add: algebra_simps)
  with d have "2 * j \<le> 2 * e + 1" by (simp only: mult_le_cancel_left_pos)
  then show "j \<le> e" by presburger
qed

abbreviation plot :: "display_info \<Rightarrow> u32 \<Rightarrow> (int \<times> int) list \<Rightarrow> mem \<Rightarrow> mem" where
  "plot info color \<equiv> fold (\<lambda>(x, y). bochs_pixel info (word_of_int x) (word_of_int y) color)"

text \<open>What the rest of a line looks like from its \<open>k\<close>-th point on; a step changes the coordinate
  along the longer side.\<close>

definition on_line :: "int \<Rightarrow> int \<Rightarrow> int \<Rightarrow> int \<Rightarrow> bool" where
  "on_line dx dy i j \<longleftrightarrow> 0 \<le> i \<and> i \<le> dx \<and> 0 \<le> j \<and> j \<le> dy \<and> \<bar>2 * off dx dy i j\<bar> \<le> max dx dy"

definition along :: "int \<Rightarrow> int \<Rightarrow> int \<Rightarrow> int \<Rightarrow> int" where
  "along dx dy i j = (if dy \<le> dx then i else j)"

definition line_pts :: "(int \<Rightarrow> int \<Rightarrow> int \<times> int) \<Rightarrow> int \<Rightarrow> int \<Rightarrow> int \<Rightarrow> (int \<times> int) list \<Rightarrow> bool" where
  "line_pts P dx dy k pts \<longleftrightarrow>
     length pts = nat (max dx dy - k) + 1 \<and> last pts = P dx dy \<and>
     (\<forall>n<length pts. \<exists>i j. pts ! n = P i j \<and> on_line dx dy i j \<and> along dx dy i j = k + int n)"

lemma line_pts_Cons:
  assumes "line_pts P dx dy (k + 1) pts" "on_line dx dy i j" "along dx dy i j = k" "k < max dx dy"
  shows "line_pts P dx dy k (P i j # pts)"
proof -
  have "\<exists>i' j'. (P i j # pts) ! n = P i' j' \<and> on_line dx dy i' j' \<and> along dx dy i' j' = k + int n"
    if "n < Suc (length pts)" for n
  proof (cases n)
    case (Suc n')
    then show ?thesis using assms(1) that unfolding line_pts_def by (auto simp: algebra_simps)
  qed (use assms in auto)
  moreover have "nat (max dx dy - k) = Suc (nat (max dx dy - (k + 1)))" using assms(4) by linarith
  moreover have "pts \<noteq> []" using assms(1) by (auto simp: line_pts_def)
  ultimately show ?thesis using assms(1) by (auto simp: line_pts_def)
qed

text \<open>One step of the loop, from a point on the line to the next one.\<close>

definition step_i :: "int \<Rightarrow> int \<Rightarrow> int \<Rightarrow> int \<Rightarrow> int" where
  "step_i dx dy i j = (if 2 * (off dx dy i j + dx - dy) > - dy then i + 1 else i)"

definition step_j :: "int \<Rightarrow> int \<Rightarrow> int \<Rightarrow> int \<Rightarrow> int" where
  "step_j dx dy i j = (if 2 * (off dx dy i j + dx - dy) < dx then j + 1 else j)"

lemma step_along:
  assumes "on_line dx dy i j" "along dx dy i j < max dx dy"
  shows "along dx dy (step_i dx dy i j) (step_j dx dy i j) = along dx dy i j + 1"
    "on_line dx dy (step_i dx dy i j) (step_j dx dy i j)"
proof -
  let ?i = "step_i dx dy i j" and ?j = "step_j dx dy i j"
  have a: "0 \<le> i" "i \<le> dx" "0 \<le> j" "j \<le> dy" "\<bar>2 * off dx dy i j\<bar> \<le> max dx dy"
    using assms(1) by (auto simp: on_line_def)
  have zero: "off dx dy i j = 0" if "dy = dx"
  proof -
    have "0 < dx" using assms(2) a that by (auto simp: along_def)
    moreover have "\<bar>2 * (j * dx - dx * i)\<bar> \<le> dx" using a(5) that by (simp add: off_def algebra_simps)
    ultimately have "j = i" by (rule off_end)
    then show ?thesis using that by (simp add: off_def)
  qed
  consider "dy < dx" | "dy = dx" | "dx < dy" by linarith
  then show al: "along dx dy ?i ?j = along dx dy i j + 1"
  proof cases
    case 1
    then have "2 * (off dx dy i j + dx - dy) > - dy" using a(5) by simp
    with 1 show ?thesis by (simp add: along_def step_i_def)
  next
    case 2
    then show ?thesis using zero assms(2) a by (simp add: along_def step_i_def split: if_splits)
  next
    case 3
    then have "2 * (off dx dy i j + dx - dy) < dx" using a(5) by simp
    with 3 show ?thesis by (simp add: along_def step_j_def)
  qed
  define D where "D = off dx dy i j"
  have near: "\<bar>2 * off dx dy ?i ?j\<bar> \<le> max dx dy"
  proof (cases "dy \<le> dx")
    case True
    then have i: "?i = i + 1" and d: "\<bar>2 * D\<bar> \<le> dx" using al a by (simp_all add: along_def D_def)
    show ?thesis
    proof (cases "2 * (D + dx - dy) < dx")
      case c: True
      then have "?j = j + 1" by (simp add: step_j_def D_def)
      then show ?thesis using c d True i a unfolding D_def by (simp add: off_step)
    next
      case c: False
      then have "?j = j" by (simp add: step_j_def D_def)
      then show ?thesis using c d True i a unfolding D_def by (simp add: off_step)
    qed
  next
    case False
    then have j: "?j = j + 1" and d: "\<bar>2 * D\<bar> \<le> dy" using al a by (simp_all add: along_def D_def)
    show ?thesis
    proof (cases "2 * (D + dx - dy) > - dy")
      case c: True
      then have "?i = i + 1" by (simp add: step_i_def D_def)
      then show ?thesis using c d False j a unfolding D_def by (simp add: off_step)
    next
      case c: False
      then have "?i = i" by (simp add: step_i_def D_def)
      then show ?thesis using c d False j a unfolding D_def by (simp add: off_step)
    qed
  qed
  have "?i \<le> dx \<and> ?j \<le> dy"
  proof (cases "dy \<le> dx")
    case True
    then have "0 < dx" "?i \<le> dx" using al a assms(2) by (simp_all add: along_def)
    moreover have "2 * (?j * dx - ?i * dy) \<le> dx" using near True unfolding off_def by linarith
    ultimately show ?thesis using a off_inside [of dx ?i dy ?j] by linarith
  next
    case False
    then have "0 < dy" "?j \<le> dy" using al a assms(2) by (simp_all add: along_def)
    moreover have "- (2 * (?j * dx - ?i * dy)) \<le> dy" using near False unfolding off_def by linarith
    then have "2 * (?i * dy - ?j * dx) \<le> dy" by (simp only: mult_minus_right [symmetric] minus_diff_eq)
    ultimately show ?thesis using a off_inside [of dy ?j dx ?i] by linarith
  qed
  moreover have "0 \<le> ?i" "0 \<le> ?j" using a by (auto simp: step_i_def step_j_def)
  ultimately show "on_line dx dy ?i ?j" using near by (simp add: on_line_def)
qed

lemma line_step:
  "\<not> (x1 = x2 \<and> y1 = y2) \<Longrightarrow> p \<longleftrightarrow> 2 * err > - dy \<Longrightarrow> q \<longleftrightarrow> 2 * err < dx \<Longrightarrow>
   fits (2 * err) \<Longrightarrow> fits err \<Longrightarrow> fits (err - dy) \<Longrightarrow> fits (err + dx) \<Longrightarrow> fits (err - dy + dx) \<Longrightarrow>
   fits x1 \<Longrightarrow> fits (x1 + sx) \<Longrightarrow> fits y1 \<Longrightarrow> fits (y1 + sy) \<Longrightarrow>
   line_loop info x2 y2 dx dy sx sy color x1 y1 err m =
   line_loop info x2 y2 dx dy sx sy color (if p then x1 + sx else x1) (if q then y1 + sy else y1)
     (err - (if p then dy else 0) + (if q then dx else 0)) (bochs_pixel info (word_of_int x1) (word_of_int y1) color m)"
  by (subst line_loop.simps, cases p; cases q) (auto simp: Let_def)

text \<open>The loop from a point on the line: nothing overflows, it ends, and it plots the rest.\<close>

lemma line_loop_spec:
  assumes big: "dx \<le> 2 ^ 29" "dy \<le> 2 ^ 29" "\<bar>X\<bar> \<le> 2 ^ 28" "\<bar>Y\<bar> \<le> 2 ^ 28" and s: "sx = 1 \<or> sx = - 1" "sy = 1 \<or> sy = - 1"
    and P: "P = (\<lambda>i j. (X + sx * i, Y + sy * j))"
  shows "on_line dx dy i j \<Longrightarrow>
    \<exists>pts. line_loop info (X + sx * dx) (Y + sy * dy) dx dy sx sy color (X + sx * i) (Y + sy * j) (off dx dy i j + dx - dy) m
            = Some (plot info color pts m) \<and> line_pts P dx dy (along dx dy i j) pts \<and> hd pts = P i j"
proof (induction "nat (max dx dy - along dx dy i j)" arbitrary: i j m)
  case 0
  then have l: "0 \<le> i" "i \<le> dx" "0 \<le> j" "j \<le> dy" "\<bar>2 * off dx dy i j\<bar> \<le> max dx dy" by (simp_all add: on_line_def)
  have "i = dx \<and> j = dy"
  proof (cases "dy \<le> dx")
    case True
    then have i: "i = dx" using 0 l by (simp add: along_def)
    moreover have "\<bar>2 * (j * dx - dx * dy)\<bar> \<le> dx" using l(5) True i by (simp add: off_def)
    ultimately show ?thesis using off_end [of dx j dy] l True by (cases "dx = 0") auto
  next
    case False
    then have j: "j = dy" using 0 l by (simp add: along_def)
    moreover have "\<bar>2 * (i * dy - dy * dx)\<bar> \<le> dy" using l(5) False j
      by (simp add: off_def abs_minus_commute mult.commute)
    ultimately show ?thesis using off_end [of dy i dx] l False by auto
  qed
  then have "i = dx" "j = dy" by auto
  moreover have "line_pts P dx dy (along dx dy dx dy) [P dx dy]"
  proof -
    have "\<exists>i j. [P dx dy] ! 0 = P i j \<and> on_line dx dy i j \<and> along dx dy i j = along dx dy dx dy + int 0"
      by (rule exI [of _ dx], rule exI [of _ dy]) (use 0(2) \<open>i = dx\<close> \<open>j = dy\<close> in simp)
    then show ?thesis by (simp add: line_pts_def along_def)
  qed
  ultimately show ?case
    by (subst line_loop.simps) (auto simp: P Let_def intro!: exI [of _ "[P dx dy]"])
next
  case (Suc n)
  let ?i = "step_i dx dy i j" and ?j = "step_j dx dy i j"
  let ?m = "bochs_pixel info (word_of_int (X + sx * i)) (word_of_int (Y + sy * j)) color m"
  have lt: "along dx dy i j < max dx dy" using Suc.hyps(2) by linarith
  have next_pt: "along dx dy ?i ?j = along dx dy i j + 1" "on_line dx dy ?i ?j"
    using step_along [OF Suc.prems lt] by auto
  obtain pts where pts: "line_loop info (X + sx * dx) (Y + sy * dy) dx dy sx sy color (X + sx * ?i) (Y + sy * ?j)
      (off dx dy ?i ?j + dx - dy) ?m = Some (plot info color pts ?m)"
    "line_pts P dx dy (along dx dy i j + 1) pts"
  proof -
    have "n = nat (max dx dy - along dx dy ?i ?j)" using Suc.hyps(2) next_pt(1) by linarith
    from Suc.hyps(1) [OF this next_pt(2), of ?m] that next_pt(1) show ?thesis by force
  qed
  have "line_loop info (X + sx * dx) (Y + sy * dy) dx dy sx sy color (X + sx * i) (Y + sy * j) (off dx dy i j + dx - dy) m
      = Some (plot info color (P i j # pts) m)"
    (is "?loop = _")
  proof -
    define D where "D = off dx dy i j"
    have b: "0 \<le> i" "i \<le> dx" "0 \<le> j" "j \<le> dy" "\<bar>2 * D\<bar> \<le> max dx dy"
      using Suc.prems by (simp_all add: on_line_def D_def)
    define p q where "p \<longleftrightarrow> 2 * (D + dx - dy) > - dy" and "q \<longleftrightarrow> 2 * (D + dx - dy) < dx"
    have ij: "?i = (if p then i + 1 else i)" "?j = (if q then j + 1 else j)"
      by (simp_all add: step_i_def step_j_def p_def q_def D_def)
    have d': "off dx dy ?i ?j = D - (if p then dy else 0) + (if q then dx else 0)"
      unfolding ij D_def by (cases p; cases q) (simp_all add: off_step)
    have ne: "\<not> (X + sx * i = X + sx * dx \<and> Y + sy * j = Y + sy * dy)"
    proof -
      have "i \<noteq> dx \<or> j \<noteq> dy" using lt by (cases "dy \<le> dx") (auto simp: along_def)
      moreover have "sx \<noteq> 0" "sy \<noteq> 0" using s by auto
      ultimately show ?thesis by simp
    qed
    have xy: "X + sx * ?i = (if p then X + sx * i + sx else X + sx * i)"
      "Y + sy * ?j = (if q then Y + sy * j + sy else Y + sy * j)"
      unfolding ij by (simp_all add: algebra_simps)
    have small: "\<bar>2 * D\<bar> \<le> 2 ^ 29" using b(5) big by linarith
    have fit: "fits (2 * (D + dx - dy))" "fits (D + dx - dy)" "fits (D + dx - dy - dy)" "fits (D + dx - dy + dx)"
      "fits (D + dx - dy - dy + dx)"
    proof -
      have "0 \<le> dx" "0 \<le> dy" "- 268435456 \<le> D" "D \<le> 268435456" "dx \<le> 536870912" "dy \<le> 536870912"
        using b(1-4) small big by auto
      then show "fits (2 * (D + dx - dy))" "fits (D + dx - dy)" "fits (D + dx - dy - dy)" "fits (D + dx - dy + dx)"
        "fits (D + dx - dy - dy + dx)" unfolding fits_def by auto
    qed
    have fit': "fits (X + sx * i)" "fits (X + sx * i + sx)" "fits (Y + sy * j)" "fits (Y + sy * j + sy)"
      using b(1-4) big s unfolding fits_def by (auto simp: abs_le_iff)
    have "?loop = line_loop info (X + sx * dx) (Y + sy * dy) dx dy sx sy color
        (if p then X + sx * i + sx else X + sx * i) (if q then Y + sy * j + sy else Y + sy * j)
        (D + dx - dy - (if p then dy else 0) + (if q then dx else 0)) ?m"
      unfolding D_def [symmetric] by (rule line_step [OF ne _ _ fit fit']) (simp_all add: p_def q_def)
    also have "D + dx - dy - (if p then dy else 0) + (if q then dx else 0) = off dx dy ?i ?j + dx - dy"
      unfolding d' by simp
    finally have "?loop = line_loop info (X + sx * dx) (Y + sy * dy) dx dy sx sy color (X + sx * ?i) (Y + sy * ?j)
      (off dx dy ?i ?j + dx - dy) ?m" unfolding xy .
    then show ?thesis using pts(1) by (simp add: P)
  qed
  then show ?case using line_pts_Cons [OF pts(2) Suc.prems refl lt] by (intro exI [of _ "P i j # pts"]) simp
qed

lemma bochs_line_spec:
  assumes "\<bar>x1\<bar> \<le> 2 ^ 28" "\<bar>y1\<bar> \<le> 2 ^ 28" "\<bar>x2\<bar> \<le> 2 ^ 28" "\<bar>y2\<bar> \<le> 2 ^ 28"
  defines "sx \<equiv> if x2 > x1 then 1 else - 1 :: int" and "sy \<equiv> if y2 > y1 then 1 else - 1 :: int"
  shows "\<exists>pts. bochs_line info x1 y1 x2 y2 color m = Some (plot info color pts m) \<and>
    line_pts (\<lambda>i j. (x1 + sx * i, y1 + sy * j)) \<bar>x2 - x1\<bar> \<bar>y2 - y1\<bar> 0 pts \<and> hd pts = (x1, y1)"
proof -
  define dx dy where "dx = \<bar>x2 - x1\<bar>" and "dy = \<bar>y2 - y1\<bar>"
  have e: "x1 + sx * dx = x2" "y1 + sy * dy = y2" by (auto simp: sx_def sy_def dx_def dy_def)
  have b: "dx \<le> 2 ^ 29" "dy \<le> 2 ^ 29" "0 \<le> dx" "0 \<le> dy" using assms(1-4) by (auto simp: dx_def dy_def)
  have "bochs_line info x1 y1 x2 y2 color m = line_loop info x2 y2 dx dy sx sy color x1 y1 (dx - dy) m"
  proof -
    have "(if x2 > x1 then x2 - x1 else x1 - x2) = dx" "(if y2 > y1 then y2 - y1 else y1 - y2) = dy"
      by (simp_all add: dx_def dy_def)
    moreover have "fits dx" "fits dy" "fits (dx - dy)" using b by (simp_all add: fits_def)
    ultimately show ?thesis unfolding bochs_line_def Let_def sx_def [symmetric] sy_def [symmetric] by simp
  qed
  moreover have "on_line dx dy 0 0" using b by (simp add: on_line_def off_step)
  moreover have "sx = 1 \<or> sx = - 1" "sy = 1 \<or> sy = - 1" by (simp_all add: sx_def sy_def)
  ultimately show ?thesis
    using line_loop_spec [OF b(1,2) assms(1,2) _ _ refl, of sx sy 0 0 info color m] e
    unfolding dx_def dy_def by (simp add: off_step along_def)
qed

text \<open>C33: A line plots, from its first to its last point, one point for each step along its longer side, each of
  them inside the rectangle the two ends span and within half a pixel of the ideal line, and returns:
  for coordinates up to \<open>2 ^ 28\<close> the arithmetic of the loop never overflows and the loop ends.\<close>

theorem line_reaches_end:
  "\<bar>x1\<bar> \<le> 2 ^ 28 \<Longrightarrow> \<bar>y1\<bar> \<le> 2 ^ 28 \<Longrightarrow> \<bar>x2\<bar> \<le> 2 ^ 28 \<Longrightarrow> \<bar>y2\<bar> \<le> 2 ^ 28 \<Longrightarrow>
   \<exists>pts. bochs_line info x1 y1 x2 y2 color m =
       Some (fold (\<lambda>(x, y). bochs_pixel info (word_of_int x) (word_of_int y) color) pts m) \<and>
     length pts = nat (max \<bar>x2 - x1\<bar> \<bar>y2 - y1\<bar>) + 1 \<and> hd pts = (x1, y1) \<and> last pts = (x2, y2) \<and>
     (\<forall>n<length pts. case pts ! n of (x, y) \<Rightarrow>
        (if \<bar>y2 - y1\<bar> \<le> \<bar>x2 - x1\<bar> then \<bar>x - x1\<bar> else \<bar>y - y1\<bar>) = int n \<and>
        min x1 x2 \<le> x \<and> x \<le> max x1 x2 \<and> min y1 y2 \<le> y \<and> y \<le> max y1 y2 \<and>
        2 * \<bar>\<bar>y - y1\<bar> * \<bar>x2 - x1\<bar> - \<bar>x - x1\<bar> * \<bar>y2 - y1\<bar>\<bar> \<le> max \<bar>x2 - x1\<bar> \<bar>y2 - y1\<bar>)"
proof -
  assume b: "\<bar>x1\<bar> \<le> 2 ^ 28" "\<bar>y1\<bar> \<le> 2 ^ 28" "\<bar>x2\<bar> \<le> 2 ^ 28" "\<bar>y2\<bar> \<le> 2 ^ 28"
  define sx sy :: int where "sx = (if x2 > x1 then 1 else - 1)" and "sy = (if y2 > y1 then 1 else - 1)"
  obtain pts where p: "bochs_line info x1 y1 x2 y2 color m = Some (plot info color pts m)" "hd pts = (x1, y1)"
    "line_pts (\<lambda>i j. (x1 + sx * i, y1 + sy * j)) \<bar>x2 - x1\<bar> \<bar>y2 - y1\<bar> 0 pts"
    using bochs_line_spec [OF b] unfolding sx_def sy_def by blast
  have pt: "(if \<bar>y2 - y1\<bar> \<le> \<bar>x2 - x1\<bar> then \<bar>x - x1\<bar> else \<bar>y - y1\<bar>) = int n \<and>
        min x1 x2 \<le> x \<and> x \<le> max x1 x2 \<and> min y1 y2 \<le> y \<and> y \<le> max y1 y2 \<and>
        2 * \<bar>\<bar>y - y1\<bar> * \<bar>x2 - x1\<bar> - \<bar>x - x1\<bar> * \<bar>y2 - y1\<bar>\<bar> \<le> max \<bar>x2 - x1\<bar> \<bar>y2 - y1\<bar>"
    if n: "n < length pts" and xy: "pts ! n = (x, y)" for n x y
  proof -
    obtain i j where ij: "x = x1 + sx * i" "y = y1 + sy * j" "on_line \<bar>x2 - x1\<bar> \<bar>y2 - y1\<bar> i j"
      "along \<bar>x2 - x1\<bar> \<bar>y2 - y1\<bar> i j = int n"
    proof -
      have "\<exists>i j. pts ! n = (x1 + sx * i, y1 + sy * j) \<and> on_line \<bar>x2 - x1\<bar> \<bar>y2 - y1\<bar> i j \<and>
          along \<bar>x2 - x1\<bar> \<bar>y2 - y1\<bar> i j = 0 + int n"
        using p(3) n unfolding line_pts_def by simp
      then show ?thesis using that xy by auto
    qed
    then have "\<bar>x - x1\<bar> = i" "\<bar>y - y1\<bar> = j" by (auto simp: on_line_def sx_def sy_def)
    moreover have "min x1 x2 \<le> x \<and> x \<le> max x1 x2 \<and> min y1 y2 \<le> y \<and> y \<le> max y1 y2"
      using ij(3) unfolding ij(1,2) on_line_def sx_def sy_def by auto
    moreover have "2 * \<bar>c\<bar> = \<bar>2 * c\<bar>" for c :: int by (simp add: abs_mult)
    ultimately show ?thesis using ij(3,4) unfolding on_line_def along_def off_def by (simp only: simp_thms)
  qed
  have "x1 + sx * \<bar>x2 - x1\<bar> = x2" "y1 + sy * \<bar>y2 - y1\<bar> = y2" by (auto simp: sx_def sy_def)
  then have "length pts = nat (max \<bar>x2 - x1\<bar> \<bar>y2 - y1\<bar>) + 1 \<and> last pts = (x2, y2)"
    using p(3) unfolding line_pts_def by simp
  with p(1,2) pt show ?thesis by (intro exI [of _ pts] conjI allI impI) (simp_all only: split: prod.split, blast+)
qed

definition demo_screen :: display_info where
  "demo_screen = \<lparr>framebuffer = 0xE0000000, width = 1280, height = 720, pitch = 5120, bpp = 4\<rparr>"

lemma line_reaches_end_witness:
  "\<exists>pts. bochs_line demo_screen 20 20 120 57 0xFFFF0000 (\<lambda>_. 0) =
       Some (fold (\<lambda>(x, y). bochs_pixel demo_screen (word_of_int x) (word_of_int y) 0xFFFF0000) pts (\<lambda>_. 0)) \<and>
     length pts = 101 \<and> hd pts = (20, 20) \<and> last pts = (120, 57)"
  using line_reaches_end [of 20 20 120 57 demo_screen "0xFFFF0000" "\<lambda>_. 0"] by auto

section \<open>Pixels\<close>

abbreviation cols :: "display_info \<Rightarrow> nat" where "cols info \<equiv> unat (width info)"
abbreviation rows :: "display_info \<Rightarrow> nat" where "rows info \<equiv> unat (height info)"

text \<open>The pixel in column \<open>x\<close> of row \<open>y\<close>, and the bytes of the frame buffer.\<close>

definition px_addr :: "display_info \<Rightarrow> nat \<Rightarrow> nat \<Rightarrow> addr" where
  "px_addr info x y = framebuffer info + of_nat (4 * (y * cols info + x))"

definition pixel :: "display_info \<Rightarrow> mem \<Rightarrow> nat \<Rightarrow> nat \<Rightarrow> u32" where
  "pixel info m x y = rd32 m (px_addr info x y)"

lemma px_addr_Suc: "px_addr info x y + 4 = px_addr info (Suc x) y"
  "px_addr info x y + 4 * ucast (width info) = px_addr info x (Suc y)"
  by (simp_all add: px_addr_def algebra_simps)

definition in_frame :: "display_info \<Rightarrow> addr \<Rightarrow> bool" where
  "in_frame info a \<longleftrightarrow> within (framebuffer info) (4 * (cols info * rows info)) a"

lemma unat_u16: "unat (a :: u16) < 65536"
  using unsigned_less [of a] by simp

lemma cols_rows_less: "cols info * rows info < 2 ^ 32"
proof -
  have "cols info * rows info \<le> 65535 * 65535"
    using unat_u16 [of "width info"] unat_u16 [of "height info"] by (intro mult_le_mono) simp_all
  then show ?thesis by simp
qed

lemma row_col_less: "x < W \<Longrightarrow> y < H \<Longrightarrow> y * W + x < W * H" for x y W H :: nat
proof -
  assume "x < W" "y < H"
  then have "y * W + x < Suc y * W" by simp
  also have "\<dots> \<le> H * W" using \<open>y < H\<close> by (intro mult_le_mono) simp_all
  finally show ?thesis by (simp add: mult.commute)
qed

lemma row_col_eq:
  "x < W \<Longrightarrow> x' < W \<Longrightarrow> y * W + x = y' * W + x' \<longleftrightarrow> y = y' \<and> x = x'" for x y W x' y' :: nat
  by (metis div_mult_self3 mod_mult_self3 div_less mod_less add_0_right gr_implies_not0)

text \<open>Distances of addresses, as natural numbers.\<close>

lemma unat64: "n < 2 ^ 64 \<Longrightarrow> unat (of_nat n :: addr) = n"
  by (simp add: unat_of_nat take_bit_nat_eq_self)

lemma unat_off: "n < 2 ^ 64 \<Longrightarrow> unat ((a + of_nat n) - a :: addr) = n"
  by (simp add: unat_of_nat take_bit_nat_eq_self)

lemma disj_pixels:
  assumes "i \<noteq> j" "i < 2 ^ 32" "j < 2 ^ 32"
  shows "disj (a + of_nat (4 * i) :: addr) 4 (a + of_nat (4 * j)) 4"
proof -
  have far: "\<not> within (a + of_nat (4 * i)) 4 (a + of_nat (4 * j))"
    if "i \<noteq> j" "i < 2 ^ 32" "j < 2 ^ 32" for i j
  proof (cases "i < j")
    case True
    then have "(a + of_nat (4 * j)) - (a + of_nat (4 * i)) = (of_nat (4 * (j - i)) :: addr)"
      by (simp add: of_nat_diff algebra_simps)
    moreover have "unat (of_nat (4 * (j - i)) :: addr) = 4 * (j - i)"
      using that by (intro unat64) simp
    ultimately show ?thesis using True by (simp add: within_def)
  next
    case False
    then have l: "j < i" using that by simp
    then have "(a + of_nat (4 * j)) - (a + of_nat (4 * i)) = 0 - (of_nat (4 * (i - j)) :: addr)"
      by (simp add: of_nat_diff algebra_simps)
    moreover have "unat (0 - (of_nat (4 * (i - j)) :: addr)) = 2 ^ 64 - 4 * (i - j)"
      using unat64 [of "4 * (i - j)"] that l by (subst unat_sub_if_size) (simp add: word_size)
    ultimately show ?thesis using that l by (simp add: within_def)
  qed
  show ?thesis using far [OF assms] far [OF assms(1) [symmetric] assms(3,2)] by (simp add: disj_iff)
qed

section \<open>What is painted\<close>

text \<open>From \<open>m\<close> to \<open>m'\<close> the pixels of \<open>S\<close> on the screen got the color, and nothing else changed.\<close>

definition painted :: "display_info \<Rightarrow> (nat \<times> nat) set \<Rightarrow> u32 \<Rightarrow> mem \<Rightarrow> mem \<Rightarrow> bool" where
  "painted info S color m m' \<longleftrightarrow>
     (\<forall>x<cols info. \<forall>y<rows info. pixel info m' x y = (if (x, y) \<in> S then color else pixel info m x y)) \<and>
     (\<forall>a. \<not> in_frame info a \<longrightarrow> m' a = m a)"

lemma painted_refl: "painted info {} color m m"
  by (simp add: painted_def)

lemma painted_trans: "painted info S color m m' \<Longrightarrow> painted info T color m' m'' \<Longrightarrow> painted info (S \<union> T) color m m''"
  by (simp add: painted_def)

lemma painted_cong:
  "painted info S color m m' \<Longrightarrow> S \<inter> {0..<cols info} \<times> {0..<rows info} = T \<inter> {0..<cols info} \<times> {0..<rows info} \<Longrightarrow>
   painted info T color m m'"
  unfolding painted_def set_eq_iff by fastforce

lemma painted_fold:
  "(\<And>i m. i \<in> set is \<Longrightarrow> painted info (S i) color m (f i m)) \<Longrightarrow> painted info (\<Union>i\<in>set is. S i) color m (fold f is m)"
proof (induction "is" arbitrary: m)
  case (Cons i "is")
  have "painted info (S i \<union> (\<Union>i\<in>set is. S i)) color m (fold f is (f i m))"
    by (rule painted_trans [of _ _ _ _ "f i m"]) (use Cons in auto)
  then show ?case by simp
qed (simp add: painted_refl)

lemma within_part: "unat (b - a) + k \<le> n \<Longrightarrow> within b k x \<Longrightarrow> within a n x" for a b x :: addr
proof -
  assume n: "unat (b - a) + k \<le> n" and w: "within b k x"
  have "unat (x - a) = unat ((x - b) + (b - a))" by simp
  also have "\<dots> \<le> unat (x - b) + unat (b - a)" by (metis unat_plus_if_size le_add1 le_refl diff_le_self)
  finally show "within a n x" using n w by (simp add: within_def)
qed

lemma painted_wr:
  assumes "x < cols info" "y < rows info"
  shows "painted info {(x, y)} color m (wr32 m (px_addr info x y) color)"
proof -
  have n: "y * cols info + x < cols info * rows info" "cols info * rows info < 2 ^ 32"
    using assms cols_rows_less [of info] by (auto intro: row_col_less)
  have "pixel info (wr32 m (px_addr info x y) color) x' y' = (if (x', y') = (x, y) then color else pixel info m x' y')"
    if "x' < cols info" "y' < rows info" for x' y'
  proof (cases "(x', y') = (x, y)")
    case False
    then have "y * cols info + x \<noteq> y' * cols info + x'"
      using row_col_eq [OF assms(1) that(1)] by auto
    moreover have "y' * cols info + x' < cols info * rows info" using that by (rule row_col_less)
    ultimately have "disj (px_addr info x y) 4 (px_addr info x' y') 4"
      using n unfolding px_addr_def by (intro disj_pixels) auto
    then show ?thesis using False by (auto simp: pixel_def rd32_wr32_disj)
  qed (simp add: pixel_def rd32_wr32)
  moreover have "wr32 m (px_addr info x y) color b = m b" if "\<not> in_frame info b" for b
  proof (rule wr32_other)
    have "unat (px_addr info x y - framebuffer info) + 4 \<le> 4 * (cols info * rows info)"
      using n unat_off [of "4 * (y * cols info + x)" "framebuffer info"] by (simp add: px_addr_def)
    then show "\<not> within (px_addr info x y) 4 b" using that within_part by (auto simp: in_frame_def)
  qed
  ultimately show ?thesis by (simp add: painted_def)
qed

lemma painted_stosl:
  "y < rows info \<Longrightarrow> x + n \<le> cols info \<Longrightarrow>
   painted info ({x..<x + n} \<times> {y}) color m (stosl (px_addr info x y) n color m)"
proof (induction n arbitrary: x m)
  case 0
  then show ?case by (simp add: painted_refl)
next
  case (Suc n)
  let ?m = "wr32 m (px_addr info x y) color"
  have "painted info {(x, y)} color m ?m" using Suc.prems by (intro painted_wr) auto
  moreover have "painted info ({Suc x..<Suc x + n} \<times> {y}) color ?m (stosl (px_addr info (Suc x) y) n color ?m)"
    using Suc.prems by (intro Suc.IH) auto
  ultimately have "painted info ({(x, y)} \<union> {Suc x..<Suc x + n} \<times> {y}) color m (stosl (px_addr info x y) (Suc n) color m)"
    unfolding stosl.simps px_addr_Suc by (rule painted_trans)
  moreover have "{(x, y)} \<union> {Suc x..<Suc x + n} \<times> {y} = {x..<x + Suc n} \<times> {y}" by auto
  ultimately show ?case by simp
qed

lemma painted_vline:
  "x < cols info \<Longrightarrow> y + n \<le> rows info \<Longrightarrow>
   painted info ({x} \<times> {y..<y + n}) color m (vline_loop (px_addr info x y) (width info) n color m)"
proof (induction n arbitrary: y m)
  case 0
  then show ?case by (simp add: painted_refl)
next
  case (Suc n)
  let ?m = "wr32 m (px_addr info x y) color"
  have "painted info {(x, y)} color m ?m" using Suc.prems by (intro painted_wr) auto
  moreover have "painted info ({x} \<times> {Suc y..<Suc y + n}) color ?m (vline_loop (px_addr info x (Suc y)) (width info) n color ?m)"
    using Suc.prems by (intro Suc.IH) auto
  ultimately have "painted info ({(x, y)} \<union> {x} \<times> {Suc y..<Suc y + n}) color m
      (vline_loop (px_addr info x y) (width info) (Suc n) color m)"
    unfolding vline_loop.simps px_addr_Suc by (rule painted_trans)
  moreover have "{(x, y)} \<union> {x} \<times> {Suc y..<Suc y + n} = {x} \<times> {y..<y + Suc n}" by auto
  ultimately show ?case by simp
qed

text \<open>Indices and lengths, computed with 32 bits.\<close>

lemma pixel_addr_px:
  assumes "unat x < cols info" "unat y < rows info"
  shows "pixel_addr info (y * ucast (width info) + x) = px_addr info (unat x) (unat y)"
proof -
  have n: "unat y * cols info + unat x < 2 ^ 32"
    using row_col_less [OF assms] cols_rows_less [of info] by simp
  then have "unat (y * ucast (width info) + x) = unat y * cols info + unat x"
    by (simp add: unat_word_ariths)
  moreover have "4 * ucast i = (of_nat (4 * unat i) :: addr)" for i :: u32
    by (simp add: unat_eqI)
  ultimately show ?thesis by (simp only: pixel_addr_def px_addr_def)
qed

lemma unat_clamp:
  "unat x < unat b \<Longrightarrow> unat x + unat w < 2 ^ 32 \<Longrightarrow> unat (clamp x w b) = min (unat w) (unat b - unat x)"
proof -
  assume a: "unat x < unat b" "unat x + unat w < 2 ^ 32"
  then have "unat (x + w) = unat x + unat w" by (simp add: unat_word_ariths)
  moreover have "unat (ucast b - x) = unat b - unat x" using a by (subst unat_sub) (simp_all add: word_le_nat_alt)
  ultimately show ?thesis using a by (auto simp: clamp_def word_less_nat_alt)
qed

lemma rows_union: "(\<Union>r\<in>{0..<n}. A \<times> {y + r}) = A \<times> {y..<y + n}" for y n :: nat
proof -
  have "(\<exists>r\<in>{0..<n}. b = y + r) \<longleftrightarrow> y \<le> b \<and> b < y + n" for b
    unfolding bex_simps atLeastLessThan_iff Bex_def by presburger
  then show ?thesis by (intro set_eqI) auto
qed

lemma painted_row:
  assumes "x < cols info" "y < rows info" "n \<le> cols info - x"
  shows "painted info ({x..<x + n} \<times> {y}) color m (stosl (px_addr info x y) n color m)"
  using assms by (intro painted_stosl) auto

lemma bochs_pixel_painted:
  "painted info {(unat x, unat y)} color m (bochs_pixel info x y color m)"
proof (cases "unat x < cols info \<and> unat y < rows info")
  case True
  then show ?thesis using painted_wr [of "unat x" info "unat y" color m]
    by (simp add: bochs_pixel_def word_less_nat_alt pixel_addr_px)
next
  case False
  then have "bochs_pixel info x y color m = m" by (auto simp: bochs_pixel_def word_less_nat_alt)
  then show ?thesis using False by (auto intro: painted_cong [OF painted_refl])
qed

text \<open>The driver's rectangle, and with it the rows, columns and the clearing of the screen, paints the
  pixels of the rectangle that lie on the screen, and changes no other byte of memory, where the
  corner and the size do not wrap around.\<close>

theorem fill_rect_exact:
  "unat x + unat w < 2 ^ 32 \<Longrightarrow> unat y + unat h < 2 ^ 32 \<Longrightarrow>
   painted info ({unat x..<unat x + unat w} \<times> {unat y..<unat y + unat h}) color m (bochs_fill_rect info x y w h color m)"
proof (cases "unat x < cols info \<and> unat y < rows info")
  case True
  assume wrap: "unat x + unat w < 2 ^ 32" "unat y + unat h < 2 ^ 32"
  let ?w = "clamp x w (width info)" and ?h = "clamp y h (height info)"
  have c: "unat ?w = min (unat w) (cols info - unat x)" "unat ?h = min (unat h) (rows info - unat y)"
    using True wrap by (auto intro: unat_clamp)
  let ?f = "\<lambda>row. stosl (pixel_addr info ((y + of_nat row) * ucast (width info) + x)) (unat ?w) color"
  let ?S = "\<lambda>row. {unat x..<unat x + unat ?w} \<times> {unat y + row}"
  have row: "painted info (?S r) color m (?f r m)" if "r \<in> set [0..<unat ?h]" for r m
  proof -
    have r: "unat y + r < rows info" using that True c by auto
    then have "unat (y + of_nat r) = unat y + r" using unat_u16 [of "height info"]
      by (simp add: unat_word_ariths unat_of_nat take_bit_nat_eq_self)
    with r True c show ?thesis
      using pixel_addr_px [of x info "y + of_nat r"] by (simp add: painted_row)
  qed
  have "painted info (\<Union>r\<in>set [0..<unat ?h]. ?S r) color m (bochs_fill_rect info x y w h color m)"
  proof (cases "?w = 0 \<or> ?h = 0")
    case z: True
    then have "(\<Union>r\<in>set [0..<unat ?h]. ?S r) = {}" by auto
    moreover have "bochs_fill_rect info x y w h color m = m" using z by (simp add: bochs_fill_rect_def Let_def)
    ultimately show ?thesis by (simp only: painted_refl)
  next
    case z: False
    have "bochs_fill_rect info x y w h color m = fold ?f [0..<unat ?h] m"
      using z True by (simp add: bochs_fill_rect_def Let_def word_le_nat_alt)
    moreover have "painted info (\<Union>r\<in>set [0..<unat ?h]. ?S r) color m (fold ?f [0..<unat ?h] m)"
      by (rule painted_fold) (rule row)
    ultimately show ?thesis by (simp only:)
  qed
  also have "(\<Union>r\<in>set [0..<unat ?h]. ?S r) =
      {unat x..<unat x + min (unat w) (cols info - unat x)} \<times> {unat y..<unat y + min (unat h) (rows info - unat y)}"
    unfolding set_upt rows_union c ..
  finally show ?thesis by (rule painted_cong) auto
next
  case False
  then have "bochs_fill_rect info x y w h color m = m" by (auto simp: bochs_fill_rect_def word_le_nat_alt)
  then show ?thesis using False by (auto intro: painted_cong [OF painted_refl])
qed

lemma fill_rect_exact_witness:
  "painted demo_screen ({1270..<1300} \<times> {700..<760}) 0xFF00FFEE (\<lambda>_. 0)
     (bochs_fill_rect demo_screen 1270 700 30 60 0xFF00FFEE (\<lambda>_. 0))"
  using fill_rect_exact [of 1270 30 700 60 demo_screen "0xFF00FFEE" "\<lambda>_. 0"] by simp

lemma hline_painted:
  "unat x + unat w < 2 ^ 32 \<Longrightarrow>
   painted info ({unat x..<unat x + unat w} \<times> {unat y}) color m (bochs_hline info x y w color m)"
proof -
  assume "unat x + unat w < 2 ^ 32"
  then have c: "unat (clamp x w (width info)) = min (unat w) (cols info - unat x)" if "unat x < cols info"
    using that by (auto intro: unat_clamp)
  show ?thesis
  proof (cases "unat x < cols info \<and> unat y < rows info")
    case True
    then have "bochs_hline info x y w color m = stosl (px_addr info (unat x) (unat y)) (unat (clamp x w (width info))) color m"
      by (auto simp: bochs_hline_def Let_def word_le_nat_alt pixel_addr_px)
    moreover have "painted info ({unat x..<unat x + unat (clamp x w (width info))} \<times> {unat y}) color m
        (stosl (px_addr info (unat x) (unat y)) (unat (clamp x w (width info))) color m)"
      using True c by (intro painted_row) auto
    ultimately have "painted info ({unat x..<unat x + min (unat w) (cols info - unat x)} \<times> {unat y}) color m
        (bochs_hline info x y w color m)" using True c by simp
    then show ?thesis by (rule painted_cong) auto
  next
    case False
    then have "bochs_hline info x y w color m = m" by (auto simp: bochs_hline_def word_le_nat_alt)
    then show ?thesis using False by (auto intro: painted_cong [OF painted_refl])
  qed
qed

lemma vline_painted:
  "unat y + unat h < 2 ^ 32 \<Longrightarrow>
   painted info ({unat x} \<times> {unat y..<unat y + unat h}) color m (bochs_vline info x y h color m)"
proof -
  assume "unat y + unat h < 2 ^ 32"
  then have c: "unat (clamp y h (height info)) = min (unat h) (rows info - unat y)" if "unat y < rows info"
    using that by (auto intro: unat_clamp)
  show ?thesis
  proof (cases "unat x < cols info \<and> unat y < rows info")
    case True
    then have "bochs_vline info x y h color m =
        vline_loop (px_addr info (unat x) (unat y)) (width info) (unat (clamp y h (height info))) color m"
      by (auto simp: bochs_vline_def Let_def word_le_nat_alt pixel_addr_px)
    moreover have "painted info ({unat x} \<times> {unat y..<unat y + unat (clamp y h (height info))}) color m
        (vline_loop (px_addr info (unat x) (unat y)) (width info) (unat (clamp y h (height info))) color m)"
      using True c by (intro painted_vline) auto
    ultimately have "painted info ({unat x} \<times> {unat y..<unat y + min (unat h) (rows info - unat y)}) color m
        (bochs_vline info x y h color m)" using True c by simp
    then show ?thesis by (rule painted_cong) auto
  next
    case False
    then have "bochs_vline info x y h color m = m" by (auto simp: bochs_vline_def word_le_nat_alt)
    then show ?thesis using False by (auto intro: painted_cong [OF painted_refl])
  qed
qed

lemma clear_painted:
  "painted info ({0..<cols info} \<times> {0..<rows info}) color m (bochs_clear info color m)"
  using fill_rect_exact [of 0 "ucast (width info)" 0 "ucast (height info)" info color m]
    unat_u16 [of "width info"] unat_u16 [of "height info"] by (simp add: bochs_clear_def)

section \<open>Block transfer\<close>

text \<open>\<^verbatim>\<open>memcpy\<close> goes forward: it copies also when the destination starts below the source.\<close>

lemma memcpy_off:
  "d \<le> s \<or> s + n \<le> d \<Longrightarrow> d + n \<le> N \<Longrightarrow> s + n \<le> N \<Longrightarrow> N \<le> 2 ^ 64 \<Longrightarrow> x < N \<Longrightarrow>
   memcpy m (a + of_nat d) (a + of_nat s) n (a + of_nat x) =
     (if d \<le> x \<and> x < d + n then m (a + of_nat (s + x - d)) else m (a + of_nat x))"
proof (induction n arbitrary: m d s)
  case (Suc n)
  let ?m = "m(a + of_nat d := m (a + of_nat s))"
  have inj: "a + of_nat i = a + of_nat j \<longleftrightarrow> i = j" if "i < N" "j < N" for i j
    using unat64 [of i] unat64 [of j] that Suc.prems(4) by (metis add_left_cancel less_le_trans)
  have step: "memcpy m (a + of_nat d) (a + of_nat s) (Suc n) = memcpy ?m (a + of_nat (Suc d)) (a + of_nat (Suc s)) n"
    by (simp add: algebra_simps)
  have IH: "memcpy ?m (a + of_nat (Suc d)) (a + of_nat (Suc s)) n (a + of_nat x) =
     (if Suc d \<le> x \<and> x < Suc d + n then ?m (a + of_nat (Suc s + x - Suc d)) else ?m (a + of_nat x))"
    using Suc.prems by (intro Suc.IH) auto
  consider "x = d" | "Suc d \<le> x" "x < Suc d + n" | "x < d \<or> d + Suc n \<le> x" by linarith
  then show ?case
  proof cases
    case 2
    then have "s + x - d \<noteq> d" "s + x - d < N" using Suc.prems by auto
    then show ?thesis using 2 Suc.prems inj [of "s + x - d" d] unfolding step IH by (auto simp: Suc_diff_le)
  next
    case 1
    then show ?thesis unfolding step IH by simp
  next
    case 3
    then show ?thesis using Suc.prems inj [of x d] unfolding step IH by auto
  qed
qed auto

text \<open>A frame buffer of whole rows of bytes; its byte in row \<open>y\<close> at position \<open>c\<close>.\<close>

definition fb_byte :: "display_info \<Rightarrow> mem \<Rightarrow> nat \<Rightarrow> nat \<Rightarrow> u8" where
  "fb_byte info m y c = m (framebuffer info + of_nat (y * unat (pitch info) + c))"

text \<open>The rows in \<open>rs\<close> are copied: the bytes of the destination are those the source had.\<close>

definition copied ::
  "display_info \<Rightarrow> nat \<Rightarrow> nat \<Rightarrow> nat \<Rightarrow> nat \<Rightarrow> nat \<Rightarrow> nat set \<Rightarrow> mem \<Rightarrow> mem \<Rightarrow> bool" where
  "copied info sx sy dx dy n rs m m' \<longleftrightarrow>
     (\<forall>y<rows info. \<forall>c<unat (pitch info). fb_byte info m' y c =
        (if dy \<le> y \<and> y - dy \<in> rs \<and> dx \<le> c \<and> c < dx + n
         then fb_byte info m (sy + (y - dy)) (sx + (c - dx)) else fb_byte info m y c))"

lemma blit_dest_inside:
  assumes "dy + r < rows info" "dx + n \<le> unat (pitch info)"
    and out: "\<not> within (framebuffer info) (rows info * unat (pitch info)) a"
  shows "memcpy m (framebuffer info + of_nat ((dy + r) * unat (pitch info) + dx)) s n a = m a"
proof (rule memcpy_other)
  let ?p = "unat (pitch info)"
  have le: "(dy + r) * ?p + dx + n \<le> rows info * ?p"
  proof -
    have "(dy + r) * ?p + dx + n \<le> Suc (dy + r) * ?p" using assms by simp
    also have "\<dots> \<le> rows info * ?p" using assms by (intro mult_le_mono) simp_all
    finally show ?thesis .
  qed
  have "rows info * ?p \<le> 65535 * 65535"
    using unat_u16 [of "height info"] unat_u16 [of "pitch info"] by (intro mult_le_mono) simp_all
  with le have small: "(dy + r) * ?p + dx < 2 ^ 64" "n \<le> 2 ^ 64" by simp_all
  then show "n \<le> 2 ^ 64" by simp
  show "\<not> within (framebuffer info + of_nat ((dy + r) * ?p + dx)) n a"
    using out le unat_off [OF small(1), of "framebuffer info"] within_part by metis
qed

lemma copied_row:
  assumes r: "dy + r < rows info" "sy + r < rows info" and n: "sx + n \<le> unat (pitch info)" "dx + n \<le> unat (pitch info)"
    and apart: "sy \<noteq> dy \<or> dx \<le> sx"
  shows "copied info sx sy dx dy n {r} m
    (memcpy m (framebuffer info + of_nat ((dy + r) * unat (pitch info) + dx))
       (framebuffer info + of_nat ((sy + r) * unat (pitch info) + sx)) n)"
proof -
  let ?p = "unat (pitch info)"
  have inside: "y * ?p + c \<le> rows info * ?p" if "y < rows info" "c \<le> ?p" for y c
  proof -
    have "y * ?p + c \<le> Suc y * ?p" using that by simp
    also have "\<dots> \<le> rows info * ?p" using that by (intro mult_le_mono) simp_all
    finally show ?thesis .
  qed
  have "rows info * ?p \<le> 65535 * 65535"
    using unat_u16 [of "height info"] unat_u16 [of "pitch info"] by (intro mult_le_mono) simp_all
  then have small: "rows info * ?p \<le> 2 ^ 64" by simp
  have lt: "y * ?p + c \<le> y' * ?p" if "y < y'" "c \<le> ?p" for y y' c
  proof -
    have "y * ?p + c \<le> Suc y * ?p" using that by simp
    also have "\<dots> \<le> y' * ?p" using that by (intro mult_le_mono) simp_all
    finally show ?thesis .
  qed
  have order: "(dy + r) * ?p + dx \<le> (sy + r) * ?p + sx \<or> (sy + r) * ?p + sx + n \<le> (dy + r) * ?p + dx"
  proof (cases "sy = dy")
    case False
    then show ?thesis
      using lt [of "sy + r" "dy + r" "sx + n"] lt [of "dy + r" "sy + r" dx] n by (cases "sy < dy") auto
  qed (use apart in auto)
  show ?thesis
    unfolding copied_def fb_byte_def
  proof (intro allI impI)
    fix y c assume yc: "y < rows info" "c < ?p"
    have x: "y * ?p + c < rows info * ?p" using row_col_less [OF yc(2,1)] by (simp add: mult.commute)
    have here: "(dy + r) * ?p + dx \<le> y * ?p + c \<and> y * ?p + c < (dy + r) * ?p + dx + n \<longleftrightarrow>
        dy \<le> y \<and> y - dy \<in> {r} \<and> dx \<le> c \<and> c < dx + n"
    proof (cases "y = dy + r")
      case False
      then show ?thesis
        using lt [of y "dy + r" "Suc c"] lt [of "dy + r" y "dx + n"] yc n by (cases "y < dy + r") auto
    qed auto
    have "memcpy m (framebuffer info + of_nat ((dy + r) * ?p + dx)) (framebuffer info + of_nat ((sy + r) * ?p + sx)) n
        (framebuffer info + of_nat (y * ?p + c)) =
      (if dy \<le> y \<and> y - dy \<in> {r} \<and> dx \<le> c \<and> c < dx + n
       then m (framebuffer info + of_nat ((sy + r) * ?p + sx + (y * ?p + c) - ((dy + r) * ?p + dx)))
       else m (framebuffer info + of_nat (y * ?p + c)))"
      using inside [of "dy + r" "dx + n"] inside [of "sy + r" "sx + n"] r n order small x
      unfolding here [symmetric] by (intro memcpy_off) auto
    moreover have "(sy + r) * ?p + sx + (y * ?p + c) - ((dy + r) * ?p + dx) = (sy + (y - dy)) * ?p + (sx + (c - dx))"
      if "dy \<le> y \<and> y - dy \<in> {r} \<and> dx \<le> c \<and> c < dx + n"
    proof -
      have "y = dy + r" using that by auto
      then show ?thesis using that by simp
    qed
    ultimately show "memcpy m (framebuffer info + of_nat ((dy + r) * ?p + dx)) (framebuffer info + of_nat ((sy + r) * ?p + sx)) n
        (framebuffer info + of_nat (y * ?p + c)) =
      (if dy \<le> y \<and> y - dy \<in> {r} \<and> dx \<le> c \<and> c < dx + n
       then m (framebuffer info + of_nat ((sy + (y - dy)) * ?p + (sx + (c - dx))))
       else m (framebuffer info + of_nat (y * ?p + c)))"
      by simp
  qed
qed

lemma copied_fold:
  assumes n: "sx + n \<le> unat (pitch info)" "dx + n \<le> unat (pitch info)"
  shows "sorted_wrt (\<lambda>r' r. sy + r \<noteq> dy + r') rs \<Longrightarrow> distinct rs \<Longrightarrow>
    \<forall>r\<in>set rs. dy + r < rows info \<and> sy + r < rows info \<Longrightarrow>
    (\<And>r m. r \<in> set rs \<Longrightarrow> copied info sx sy dx dy n {r} m (f r m)) \<Longrightarrow>
    copied info sx sy dx dy n (set rs) m (fold f rs m)"
proof (induction rs rule: rev_induct)
  case (snoc r rs)
  let ?m = "fold f rs m"
  have IH: "copied info sx sy dx dy n (set rs) m ?m" using snoc by (intro snoc.IH) (auto simp: sorted_wrt_append)
  have last_row: "copied info sx sy dx dy n {r} ?m (f r ?m)" using snoc.prems(4) by simp
  have fresh: "sy + r \<noteq> dy + r'" "r \<noteq> r'" if "r' \<in> set rs" for r' using snoc.prems(1,2) that by (auto simp: sorted_wrt_append)
  have "fb_byte info ?m (sy + r) (sx + (c - dx)) = fb_byte info m (sy + r) (sx + (c - dx))"
    if "dx \<le> c" "c < dx + n" for c
  proof -
    have "sx + (c - dx) < unat (pitch info)" using that n by linarith
    moreover have "\<not> (dy \<le> sy + r \<and> sy + r - dy \<in> set rs)" using fresh by (metis le_add_diff_inverse)
    ultimately show ?thesis using IH snoc.prems(3) by (auto simp: copied_def)
  qed
  then have "copied info sx sy dx dy n (set rs \<union> {r}) m (f r ?m)"
    using IH last_row fresh(2) unfolding copied_def by (auto split: if_splits)
  then show ?case by simp
qed (simp add: copied_def)

text \<open>A screen as the driver sets it up for 32 bits a pixel: rows of \<open>4 * width\<close> bytes.\<close>

definition packed :: "display_info \<Rightarrow> bool" where
  "packed info \<longleftrightarrow> bpp info = 4 \<and> unat (pitch info) = 4 * cols info"

lemma pixel_bytes:
  assumes "packed info" "x < cols info"
  shows "pixel info m x y = le32 (fb_byte info m y (4 * x)) (fb_byte info m y (4 * x + 1))
     (fb_byte info m y (4 * x + 2)) (fb_byte info m y (4 * x + 3))"
  using assms by (simp add: pixel_def rd32_def px_addr_def fb_byte_def packed_def algebra_simps)

lemma copied_pixels:
  assumes p: "packed info" and c: "copied info (4 * sx) sy (4 * dx) dy (4 * w) {0..<h} m m'"
    and xy: "x < cols info" "y < rows info" and w: "sx + w \<le> cols info"
  shows "pixel info m' x y = (if dy \<le> y \<and> y < dy + h \<and> dx \<le> x \<and> x < dx + w
     then pixel info m (sx + (x - dx)) (sy + (y - dy)) else pixel info m x y)"
    (is "_ = (if ?in then _ else _)")
proof -
  have "fb_byte info m' y (4 * x + k) =
      (if dy \<le> y \<and> y < dy + h \<and> dx \<le> x \<and> x < dx + w
       then fb_byte info m (sy + (y - dy)) (4 * (sx + (x - dx)) + k) else fb_byte info m y (4 * x + k))"
    if k: "k < 4" for k
  proof -
    have "4 * x + k < unat (pitch info)" using p xy k by (simp add: packed_def)
    then have "fb_byte info m' y (4 * x + k) =
        (if dy \<le> y \<and> y - dy \<in> {0..<h} \<and> 4 * dx \<le> 4 * x + k \<and> 4 * x + k < 4 * dx + 4 * w
         then fb_byte info m (sy + (y - dy)) (4 * sx + (4 * x + k - 4 * dx)) else fb_byte info m y (4 * x + k))"
      using c xy unfolding copied_def by blast
    moreover have "4 * dx \<le> 4 * x + k \<and> 4 * x + k < 4 * dx + 4 * w \<longleftrightarrow> dx \<le> x \<and> x < dx + w" using k by presburger
    moreover have "4 * sx + (4 * x + k - 4 * dx) = 4 * (sx + (x - dx)) + k" if "dx \<le> x" using that by simp
    moreover have "dy \<le> y \<and> y - dy \<in> {0..<h} \<longleftrightarrow> dy \<le> y \<and> y < dy + h" by auto
    ultimately show ?thesis by auto
  qed
  from this [of 0] this [of 1] this [of 2] this [of 3]
  have b: "fb_byte info m' y (4 * x) = (if ?in then fb_byte info m (sy + (y - dy)) (4 * (sx + (x - dx))) else fb_byte info m y (4 * x))"
    "fb_byte info m' y (4 * x + 1) = (if ?in then fb_byte info m (sy + (y - dy)) (4 * (sx + (x - dx)) + 1) else fb_byte info m y (4 * x + 1))"
    "fb_byte info m' y (4 * x + 2) = (if ?in then fb_byte info m (sy + (y - dy)) (4 * (sx + (x - dx)) + 2) else fb_byte info m y (4 * x + 2))"
    "fb_byte info m' y (4 * x + 3) = (if ?in then fb_byte info m (sy + (y - dy)) (4 * (sx + (x - dx)) + 3) else fb_byte info m y (4 * x + 3))"
    by simp_all
  have "?in \<Longrightarrow> sx + (x - dx) < cols info" using w by linarith
  then show ?thesis unfolding pixel_bytes [OF p xy(1)] b using pixel_bytes [OF p] by simp
qed

lemma unat_clamp2:
  assumes "unat sx < unat b" "unat dx < unat b" "unat sx + unat w < 2 ^ 32" "unat dx + unat w < 2 ^ 32"
  shows "unat (clamp dx (clamp sx w b) b) = min (unat w) (min (unat b - unat sx) (unat b - unat dx))"
proof -
  have c: "unat (clamp sx w b) = min (unat w) (unat b - unat sx)" using assms by (intro unat_clamp)
  then have "unat (clamp sx w b) \<le> unat w" by simp
  then have "unat dx + unat (clamp sx w b) < 2 ^ 32" using assms(4) by linarith
  from unat_clamp [OF assms(2) this] show ?thesis by (simp add: c min.assoc)
qed

lemma blit_offset:
  "unat y + r < rows info \<Longrightarrow> unat x < cols info \<Longrightarrow> bpp info = 4 \<Longrightarrow>
   framebuffer info + ucast ((y + of_nat r) * ucast (pitch info)) + ucast (x * ucast (bpp info)) =
   framebuffer info + of_nat ((unat y + r) * unat (pitch info) + 4 * unat x)"
  for x y :: u32
proof -
  assume a: "unat y + r < rows info" "unat x < cols info" "bpp info = 4"
  have "unat y + r \<le> 65535" using a(1) unat_u16 [of "height info"] by simp
  then have "(unat y + r) * unat (pitch info) \<le> 65535 * 65535"
    using unat_u16 [of "pitch info"] by (intro mult_le_mono) simp_all
  moreover have "unat (y + of_nat r) = unat y + r" using \<open>unat y + r \<le> 65535\<close>
    by (simp add: unat_word_ariths unat_of_nat take_bit_nat_eq_self)
  ultimately have "unat ((y + of_nat r) * ucast (pitch info)) = (unat y + r) * unat (pitch info)"
    by (subst unat_mult_lem [THEN iffD1]) auto
  moreover have "unat (x * 4) = 4 * unat x" using a(2) unat_u16 [of "width info"]
    by (subst unat_mult_lem [THEN iffD1]) auto
  moreover have "ucast z = (of_nat (unat z) :: addr)" for z :: u32 by (simp add: unat_eqI)
  ultimately show ?thesis unfolding a(3) by (simp only: of_nat_add add.assoc) simp
qed

text \<open>C34: A block transfer behaves as if the block were copied from a snapshot, overlapping or not: the
  pixels of the destination that both clipped blocks have become the ones the source had before,
  and no other byte changes.  Rows may overlap in any way; within one row the block must not move
  to the right, since the copy of a row goes forward.\<close>

theorem blit_copies_snapshot:
  "packed info \<Longrightarrow> unat sx + unat w < 2 ^ 32 \<Longrightarrow> unat dx + unat w < 2 ^ 32 \<Longrightarrow>
   unat sy + unat h < 2 ^ 32 \<Longrightarrow> unat dy + unat h < 2 ^ 32 \<Longrightarrow> sy \<noteq> dy \<or> dx \<le> sx \<Longrightarrow>
   w' = min (unat w) (min (cols info - unat sx) (cols info - unat dx)) \<Longrightarrow>
   h' = min (unat h) (min (rows info - unat sy) (rows info - unat dy)) \<Longrightarrow>
   (\<forall>x<cols info. \<forall>y<rows info. pixel info (bochs_blit info sx sy dx dy w h m) x y =
      (if unat dy \<le> y \<and> y < unat dy + h' \<and> unat dx \<le> x \<and> x < unat dx + w'
       then pixel info m (unat sx + (x - unat dx)) (unat sy + (y - unat dy)) else pixel info m x y)) \<and>
   (\<forall>a. \<not> in_frame info a \<longrightarrow> bochs_blit info sx sy dx dy w h m a = m a)"
  (is "_ \<Longrightarrow> _ \<Longrightarrow> _ \<Longrightarrow> _ \<Longrightarrow> _ \<Longrightarrow> _ \<Longrightarrow> _ \<Longrightarrow> _ \<Longrightarrow> ?goal")
proof -
  assume p: "packed info" and wrap: "unat sx + unat w < 2 ^ 32" "unat dx + unat w < 2 ^ 32"
    "unat sy + unat h < 2 ^ 32" "unat dy + unat h < 2 ^ 32" and dir: "sy \<noteq> dy \<or> dx \<le> sx"
    and w': "w' = min (unat w) (min (cols info - unat sx) (cols info - unat dx))"
    and h': "h' = min (unat h) (min (rows info - unat sy) (rows info - unat dy))"
  let ?in = "unat sx < cols info \<and> unat sy < rows info \<and> unat dx < cols info \<and> unat dy < rows info"
  let ?w = "clamp dx (clamp sx w (width info)) (width info)" and ?h = "clamp dy (clamp sy h (height info)) (height info)"
  have wh: "unat ?w = w'" "unat ?h = h'" if ?in
    using that wrap unat_clamp2 [of sx "width info" dx w] unat_clamp2 [of sy "height info" dy h] unfolding w' h' by blast+
  show ?goal
  proof (cases "w' = 0 \<or> h' = 0 \<or> \<not> ?in")
    case True
    have "bochs_blit info sx sy dx dy w h m = m"
    proof (cases ?in)
      case i: True
      then have "?w = 0 \<or> ?h = 0" using True wh by (metis unat_eq_0)
      then show ?thesis by (simp add: bochs_blit_def Let_def)
    qed (auto simp: bochs_blit_def word_le_nat_alt)
    moreover have "w' = 0 \<or> h' = 0"
    proof (cases ?in)
      case False
      then have "cols info - unat sx = 0 \<or> cols info - unat dx = 0 \<or> rows info - unat sy = 0 \<or> rows info - unat dy = 0"
        by linarith
      then show ?thesis unfolding w' h' by (elim disjE) simp_all
    qed (use True in blast)
    then have "\<not> (unat dy \<le> y \<and> y < unat dy + h' \<and> unat dx \<le> x \<and> x < unat dx + w')" for x y by linarith
    ultimately show ?thesis by (simp only: if_False simp_thms)
  next
    case False
    then have i: ?in and nz: "?w \<noteq> 0" "?h \<noteq> 0" using wh by (metis unat_0)+
    define rs where "rs = (if sy < dy then rev [0..<h'] else [0..<h'])"
    define f where "f = (\<lambda>r. blit_row info sx sy dx dy ?w (of_nat r))"
    have blit: "bochs_blit info sx sy dx dy w h m = fold f rs m"
      using i nz wh [OF i] by (simp add: bochs_blit_def Let_def rs_def f_def word_le_nat_alt)
    have rows_ok: "unat dy + r < rows info \<and> unat sy + r < rows info" if "r \<in> set rs" for r
    proof -
      have "r < h'" using that by (simp add: rs_def split: if_splits)
      moreover have "h' \<le> rows info - unat sy" "h' \<le> rows info - unat dy" unfolding h' by simp_all
      ultimately show ?thesis by linarith
    qed
    have f: "f r m = memcpy m (framebuffer info + of_nat ((unat dy + r) * unat (pitch info) + 4 * unat dx))
        (framebuffer info + of_nat ((unat sy + r) * unat (pitch info) + 4 * unat sx)) (4 * w')"
      if "r \<in> set rs" for r m
    proof -
      have b: "bpp info = 4" using p by (simp add: packed_def)
      have "unat ?w \<le> cols info" unfolding wh(1) [OF i] w' by linarith
      then have "unat (?w * 4) = 4 * unat ?w" using unat_u16 [of "width info"]
        by (subst unat_mult_lem [THEN iffD1]) auto
      then have "unat (?w * ucast (bpp info)) = 4 * w'" using wh [OF i] by (simp add: b)
      then show ?thesis unfolding f_def blit_row_def
        using blit_offset [of dy r info dx] blit_offset [of sy r info sx] rows_ok [OF that] i b by (simp only: simp_thms)
    qed
    have "copied info (4 * unat sx) (unat sy) (4 * unat dx) (unat dy) (4 * w') (set rs) m (fold f rs m)"
    proof (rule copied_fold)
      show "sorted_wrt (\<lambda>r' r. unat sy + r \<noteq> unat dy + r') rs"
        by (auto simp: rs_def sorted_wrt_rev word_less_nat_alt intro: sorted_wrt_mono_rel [OF _ sorted_wrt_upt])
      show "4 * unat sx + 4 * w' \<le> unat (pitch info)" "4 * unat dx + 4 * w' \<le> unat (pitch info)"
        using p w' i by (auto simp: packed_def)
      then show "copied info (4 * unat sx) (unat sy) (4 * unat dx) (unat dy) (4 * w') {r} m (f r m)"
        if "r \<in> set rs" for r m
        unfolding f [OF that] using rows_ok [OF that] dir by (intro copied_row) (auto simp: word_le_nat_alt dest: unat_eqI)
      show "distinct rs" by (simp add: rs_def)
    qed (use rows_ok in blast)
    moreover have "set rs = {0..<h'}" by (auto simp: rs_def)
    ultimately have c: "copied info (4 * unat sx) (unat sy) (4 * unat dx) (unat dy) (4 * w') {0..<h'} m
        (bochs_blit info sx sy dx dy w h m)" by (simp add: blit)
    have "bochs_blit info sx sy dx dy w h m a = m a" if "\<not> in_frame info a" for a
    proof -
      have out: "\<not> within (framebuffer info) (rows info * unat (pitch info)) a"
      proof -
        have "rows info * unat (pitch info) = 4 * (cols info * rows info)" using p by (simp add: packed_def)
        then show ?thesis using that by (simp only: in_frame_def simp_thms)
      qed
      have n: "4 * unat dx + 4 * w' \<le> unat (pitch info)" using p w' i by (auto simp: packed_def)
      have "f r m a = m a" if "r \<in> set rs" for r m
        unfolding f [OF that] using rows_ok [OF that] n out by (intro blit_dest_inside) auto
      then have "\<forall>r\<in>set ss. r \<in> set rs \<Longrightarrow> fold f ss m a = m a" for ss m
        by (induction ss arbitrary: m) auto
      then show ?thesis by (simp add: blit)
    qed
    moreover have "unat sx + w' \<le> cols info" using w' i by auto
    ultimately show ?thesis using copied_pixels [OF p c] by blast
  qed
qed

lemma blit_copies_snapshot_witness:
  "pixel demo_screen (bochs_blit demo_screen 20 20 250 30 100 100 ucast) 300 70 = pixel demo_screen ucast 70 60"
proof -
  have i: "packed demo_screen" "cols demo_screen = 1280" "rows demo_screen = 720"
    by (simp_all add: packed_def demo_screen_def)
  have "(\<forall>x<cols demo_screen. \<forall>y<rows demo_screen. pixel demo_screen (bochs_blit demo_screen 20 20 250 30 100 100 ucast) x y =
      (if unat (30 :: u32) \<le> y \<and> y < unat (30 :: u32) + 100 \<and> unat (250 :: u32) \<le> x \<and> x < unat (250 :: u32) + 100
       then pixel demo_screen ucast (unat (20 :: u32) + (x - unat (250 :: u32))) (unat (20 :: u32) + (y - unat (30 :: u32))) else pixel demo_screen ucast x y)) \<and>
    (\<forall>a. \<not> in_frame demo_screen a \<longrightarrow> bochs_blit demo_screen 20 20 250 30 100 100 ucast a = ucast a)"
    by (rule blit_copies_snapshot [OF i(1)]) (simp_all add: i(2,3))
  from conjunct1 [OF this, rule_format, of 300 70] show ?thesis by (simp add: i)
qed

text \<open>Within one row a block that moves to the right over itself is smeared: here, on a screen of four
  pixels, the second pixel of a block of two becomes the first one.\<close>

definition tiny_screen :: display_info where
  "tiny_screen = \<lparr>framebuffer = 0x1000, width = 4, height = 1, pitch = 16, bpp = 4\<rparr>"

lemma tiny_blit: "bochs_blit tiny_screen 0 0 1 0 2 1 m = memcpy m 0x1004 0x1000 8"
  by (simp add: tiny_screen_def bochs_blit_def blit_row_def clamp_def word_le_nat_alt)

lemma memcpy8: "memcpy m d s 8 = memcpy m d s (Suc (Suc (Suc (Suc (Suc (Suc (Suc (Suc 0))))))))"
  by (simp add: eval_nat_numeral)

theorem blit_smears_row:
  "pixel tiny_screen (bochs_blit tiny_screen 0 0 1 0 2 1 m) 2 0 = pixel tiny_screen m 0 0"
  unfolding tiny_blit by (simp add: tiny_screen_def pixel_def px_addr_def rd32_def memcpy8)

end
