(* ===== verification/Format.thy ===== *)
theory Format
  imports KString
begin

text \<open>
  Formatted output: \<^verbatim>\<open>vsprintf\<close>, \<^verbatim>\<open>sprintf\<close> and the buffer of
  \<^verbatim>\<open>printf\<close> in \<^verbatim>\<open>Kernel/kernel/Print.c\<close>.  A variable argument is a 64-bit slot, or a
  pointer to a string.  \<open>None\<close> is a read of an argument that is not there or not of the kind the
  directive takes, a read past the end of the format, and a write past the end of the buffer.
\<close>

section \<open>Directives\<close>

datatype arg = Val u64 | Text "u8 list"

definition lower_hex :: "u8 \<Rightarrow> u8" where
  "lower_hex c = (if 65 \<le> c \<and> c \<le> 70 then c + (97 - 65) else c)"

text \<open>The loop from index 2 on that makes the digits of \<^verbatim>\<open>itoa_hex\<close> lower case.\<close>

definition lower_from_2 :: "u8 list \<Rightarrow> u8 list" where
  "lower_from_2 buf = take 2 buf @ map lower_hex (drop 2 buf)"

definition format_value :: "u8 \<Rightarrow> u64 \<Rightarrow> u8 list option" where
  "format_value d v =
     (if d = 99 then Some [ucast v]
      else if d = 115 then (if v = 0 then Some (bytes ''(null)'') else None)
      else if d = 100 then Some (fst (itoa_dec (scast (ucast v :: u32))))
      else if d = 117 then Some (fst (utoa_dec v))
      else if d = 120 then Some (lower_from_2 (fst (itoa_hex (ucast (ucast v :: u32)))))
      else if d = 88 then Some (fst (itoa_hex (ucast (ucast v :: u32))))
      else Some (lower_from_2 (fst (itoa_hex v))))"

definition takes_arg :: "u8 \<Rightarrow> bool" where
  "takes_arg d \<longleftrightarrow> d \<in> {99, 115, 100, 117, 120, 88, 112}"

text \<open>The text a directive gives and the arguments left.\<close>

definition directive :: "u8 \<Rightarrow> arg list \<Rightarrow> (u8 list \<times> arg list) option" where
  "directive d args =
     (if takes_arg d
      then (case args of [] \<Rightarrow> None
            | Val v # args' \<Rightarrow> map_option (\<lambda>t. (t, args')) (format_value d v)
            | Text s # args' \<Rightarrow> if d = 115 then Some (takeWhile (\<lambda>c. c \<noteq> 0) s, args') else None)
      else if d = 37 then Some ([37], args) else Some ([37, d], args))"

section \<open>The interpreter of formats\<close>

fun vsprintf :: "u8 list \<Rightarrow> arg list \<Rightarrow> u8 list option" where
  "vsprintf [] args = Some []"
| "vsprintf (c # f) args =
     (if c = 0 then Some []
      else if c = 37
      then (case f of [] \<Rightarrow> None
            | d # f' \<Rightarrow> if d = 0 then None
                else Option.bind (directive d args) (\<lambda>(t, args'). map_option ((@) t) (vsprintf f' args')))
      else map_option ((#) c) (vsprintf f args))"

text \<open>Into a buffer, with the terminator; the result is the number of characters.\<close>

definition sprintf :: "u8 list \<Rightarrow> u8 list \<Rightarrow> arg list \<Rightarrow> (nat \<times> u8 list) option" where
  "sprintf str format args =
     Option.bind (vsprintf format args) (\<lambda>t. map_option (Pair (length t)) (put_bytes str 0 (t @ [0])))"

text \<open>What \<^verbatim>\<open>printf\<close> hands to \<^verbatim>\<open>print\<close>: the C string in its buffer of 512 bytes.\<close>

definition printf_text :: "u8 list \<Rightarrow> arg list \<Rightarrow> u8 list option" where
  "printf_text format args =
     map_option (\<lambda>(_, buffer). takeWhile (\<lambda>c. c \<noteq> 0) buffer) (sprintf (replicate 512 0) format args)"

section \<open>Composition\<close>

text \<open>A format that does not end inside a directive, and the arguments it takes.\<close>

fun arity :: "u8 list \<Rightarrow> nat option" where
  "arity [] = Some 0"
| "arity (c # f) =
     (if c = 0 then None
      else if c = 37
      then (case f of [] \<Rightarrow> None
            | d # f' \<Rightarrow> if d = 0 then None else map_option (\<lambda>n. n + (if takes_arg d then 1 else 0)) (arity f'))
      else arity f)"

lemma map_option_append: "map_option ((@) s) (map_option ((@) t) x) = map_option ((@) (s @ t)) x"
  by (cases x) simp_all

lemma map_option_Cons: "map_option ((#) c) (map_option ((@) t) x) = map_option ((@) (c # t)) x"
  by (cases x) simp_all

lemma vsprintf_append:
  "arity f = Some n \<Longrightarrow> length as = n \<Longrightarrow>
   vsprintf (f @ g) (as @ bs) =
     Option.bind (vsprintf f as) (\<lambda>s. map_option ((@) s) (vsprintf g bs))"
proof (induction f arbitrary: n as rule: arity.induct)
  case (2 c f)
  show ?case
  proof (cases "c = 37")
    case True
    then obtain d f' where f: "f = d # f'" and d: "d \<noteq> 0" using 2 by (cases f) (auto split: if_splits)
    then obtain k where k: "arity f' = Some k" "n = k + (if takes_arg d then 1 else 0)"
      using 2(3) True by (auto split: if_splits)
    show ?thesis
    proof (cases "takes_arg d")
      case t: True
      then obtain a as' where as: "as = a # as'" "length as' = k" using 2(4) k by (cases as) auto
      have "vsprintf (f' @ g) (as' @ bs) = Option.bind (vsprintf f' as') (\<lambda>s. map_option ((@) s) (vsprintf g bs))"
        using 2(1) True f d k as by auto
      then show ?thesis using True f d t as
        by (auto simp: directive_def map_option_append split: arg.splits Option.bind_splits)
    next
      case t: False
      have "vsprintf (f' @ g) (as @ bs) = Option.bind (vsprintf f' as) (\<lambda>s. map_option ((@) s) (vsprintf g bs))"
        using 2(1) True f d k t 2(4) by auto
      then show ?thesis using True f d t
        by (auto simp: directive_def map_option_append split: Option.bind_splits)
    qed
  next
    case False
    then have "c \<noteq> 0" "arity f = Some n" using 2(3) by (auto split: if_splits)
    then have "vsprintf (f @ g) (as @ bs) = Option.bind (vsprintf f as) (\<lambda>s. map_option ((@) s) (vsprintf g bs))"
      using 2(2) False 2(4) by auto
    then show ?thesis using False \<open>c \<noteq> 0\<close> by (auto simp: map_option_Cons split: Option.bind_splits)
  qed
qed (simp add: map_option_case split: option.split)

section \<open>Reading the numbers back\<close>

definition dec_int :: "u8 list \<Rightarrow> int" where
  "dec_int t = (case t of c # ds \<Rightarrow> if c = 45 then - int (dec_value ds) else int (dec_value t) | [] \<Rightarrow> 0)"

text \<open>A hexadecimal numeral in digits of either case, after its \<^verbatim>\<open>0x\<close>.\<close>

definition hex_digit_of :: "u8 \<Rightarrow> nat" where
  "hex_digit_of c = (if c < 65 then unat c - 48 else if c < 97 then unat c - 55 else unat c - 87)"

definition hex_numeral :: "u8 list \<Rightarrow> nat option" where
  "hex_numeral t =
     (if take 2 t = [48, 120] then Some (foldl (\<lambda>a c. 16 * a + hex_digit_of c) 0 (drop 2 t)) else None)"

lemma utoa_value: "dec_value (fst (utoa_dec v)) = unat v"
  by (simp add: utoa_dec_def Let_def dec_rev_value) (simp add: dec_value_def)

lemma dec_int_digits: "fst (utoa_dec v) = t \<Longrightarrow> dec_int t = int (unat v)"
proof -
  assume t: "fst (utoa_dec v) = t"
  have "c \<noteq> 45" if "c \<in> set t" for c
    using t that dec_rev_digits [of c v] by (auto simp: utoa_dec_def Let_def split: if_splits)
  then have "dec_int t = (if t = [] then 0 else int (dec_value t))" by (cases t) (auto simp: dec_int_def)
  moreover have "t \<noteq> []" if "v \<noteq> 0" using t that by (auto simp: utoa_dec_def Let_def dec_rev.simps [of v])
  moreover have "t \<noteq> []" if "v = 0" using t that by (auto simp: utoa_dec_def)
  ultimately show ?thesis using utoa_value [of v] t by auto
qed

lemma sint_unat: "sint w = (if w <s 0 then - int (unat (- w)) else int (unat w))" for w :: u64
proof -
  have b: "- (2 ^ 63) \<le> sint w" "sint w < 2 ^ 63" using sint_ge [of w] sint_lt [of w] by simp_all
  have u: "uint w = sint w mod 2 ^ 64" by (simp add: uint_sint take_bit_eq_mod)
  show ?thesis
  proof (cases "w <s 0")
    case True
    then have neg: "sint w < 0" by (simp add: word_sless_alt)
    then have "uint w = sint w + 2 ^ 64"
      using b u mod_pos_pos_trivial [of "sint w + 2 ^ 64" "2 ^ 64"] by simp
    moreover have "w \<noteq> 0" using True by auto
    then have "uint (- w) = 2 ^ 64 - uint w"
      using uint_word_ariths(4) [of w] uint_lt2p [of w] uint_nonnegative [of w]
      by (simp add: zmod_zminus1_eq_if uint_0_iff)
    ultimately show ?thesis using True by simp
  next
    case False
    then have "0 \<le> sint w" by (simp add: word_sless_alt)
    then have "uint w = sint w" using b u by simp
    then show ?thesis using False by simp
  qed
qed

lemma itoa_dec_value: "dec_int (fst (itoa_dec w)) = sint w"
proof (cases "w <s 0")
  case True
  then have "fst (itoa_dec w) = 45 # fst (utoa_dec (- w))" by (auto simp: itoa_dec_def utoa_dec_def Let_def)
  then show ?thesis using True by (simp add: dec_int_def utoa_value sint_unat [of w])
next
  case False
  then have "fst (itoa_dec w) = fst (utoa_dec w)" by (auto simp: itoa_dec_def utoa_dec_def Let_def)
  then show ?thesis using False by (simp add: dec_int_digits sint_unat [of w])
qed

lemma hex_digit_cases:
  "d < 16 \<Longrightarrow> hex_digit_of (hex_digit d) = unat d \<and> hex_digit_of (lower_hex (hex_digit d)) = unat d"
proof -
  assume d: "d < 16"
  then have u: "unat (ucast d :: u8) = unat d" "unat d < 16"
    using unat_ucast8 [of d] by (auto simp: word_less_nat_alt)
  have h: "unat (hex_digit d) = (if unat d < 10 then 48 + unat d else 55 + unat d)"
  proof (cases "d < 10")
    case True
    then show ?thesis using u by (simp add: hex_digit_def unat_word_ariths word_less_nat_alt)
  next
    case False
    have e: "65 + ucast d - 10 = (55 + ucast d :: u8)" by simp
    show ?thesis using False u unfolding hex_digit_def e by (simp add: unat_word_ariths word_less_nat_alt)
  qed
  have l: "unat (lower_hex (hex_digit d)) = (if unat d < 10 then 48 + unat d else 87 + unat d)"
    using u h by (simp add: lower_hex_def unat_word_ariths word_le_nat_alt)
  show ?thesis using u h l by (simp add: hex_digit_of_def word_less_nat_alt)
qed

lemma hex_rev_fold:
  assumes "\<And>d. d < 16 \<Longrightarrow> hex_digit_of (f (hex_digit d)) = unat d"
  shows "foldl (\<lambda>a c. 16 * a + hex_digit_of c) 0 (map f (rev (hex_rev v))) = unat v"
proof (induction v rule: hex_rev.induct)
  case (1 v)
  show ?case
  proof (cases "v = 0")
    case False
    have "v AND 0xF < 16" by (simp add: word_less_nat_alt unat_and_F)
    then show ?thesis using 1 False assms unat_drop [of 4 v] by (simp add: hex_rev.simps [of v] unat_and_F)
  qed simp
qed

lemma hex_text_value:
  "hex_numeral (fst (itoa_hex v)) = Some (unat v)" "hex_numeral (lower_from_2 (fst (itoa_hex v))) = Some (unat v)"
  using hex_rev_fold [of id v] hex_rev_fold [of lower_hex v] hex_digit_cases
  by (simp_all add: hex_numeral_def lower_from_2_def itoa_hex_def Let_def rev_map)
    (simp_all add: hex_digit_of_def lower_hex_def)

text \<open>C39: In any format, a numeric directive prints the number it is given, however the text around
  it is formatted: \<^verbatim>\<open>%d\<close> the low 32 bits with their sign, \<^verbatim>\<open>%u\<close> all 64 bits,
  \<^verbatim>\<open>%x\<close> and \<^verbatim>\<open>%X\<close> the low 32 bits and \<^verbatim>\<open>%p\<close> all 64 bits in
  hexadecimal after \<^verbatim>\<open>0x\<close>.\<close>

theorem formatted_number_reads_back:
  "arity f = Some (length as) \<Longrightarrow> d \<in> {100, 117, 120, 88, 112} \<Longrightarrow>
   \<exists>t. vsprintf (f @ [37, d] @ g) (as @ [Val v] @ bs) =
       Option.bind (vsprintf f as) (\<lambda>s. map_option (\<lambda>r. s @ t @ r) (vsprintf g bs)) \<and>
     (d = 100 \<longrightarrow> dec_int t = sint (ucast v :: u32)) \<and> (d = 117 \<longrightarrow> dec_int t = uint v) \<and>
     (d = 120 \<or> d = 88 \<longrightarrow> hex_numeral t = Some (unat (ucast v :: u32))) \<and>
     (d = 112 \<longrightarrow> hex_numeral t = Some (unat v))"
proof -
  assume f: "arity f = Some (length as)" and d: "d \<in> {100, 117, 120, 88, 112}"
  define t where "t = the (format_value d v)"
  have "vsprintf ([37, d] @ g) ([Val v] @ bs) = map_option ((@) t) (vsprintf g bs)"
    using d by (auto simp: t_def directive_def takes_arg_def format_value_def split: Option.bind_splits)
  then have "vsprintf (f @ [37, d] @ g) (as @ [Val v] @ bs) =
      Option.bind (vsprintf f as) (\<lambda>s. map_option (\<lambda>r. s @ t @ r) (vsprintf g bs))"
    unfolding vsprintf_append [OF f refl] by (simp add: option.map_comp comp_def)
  moreover have "sint (scast x :: u64) = sint x" for x :: u32
    using sint_ge [of x] sint_lt [of x] by (simp add: signed_scast_eq signed_take_bit_int_eq_self)
  ultimately show ?thesis using d
    by (intro exI [of _ t]) (auto simp: t_def format_value_def itoa_dec_value hex_text_value dec_int_digits)
qed

lemma formatted_number_reads_back_witness:
  "\<exists>t. vsprintf (bytes ''a = %d, %s'') [Val (- 5), Text (bytes ''b'')] = Some (bytes ''a = '' @ t @ bytes '', b'') \<and>
     dec_int t = - 5"
proof -
  have f: "arity (bytes ''a = '') = Some (length [])" by (simp add: bytes_def)
  have g: "vsprintf (bytes '', %s'') [Text (bytes ''b'')] = Some (bytes '', b'')"
    by (simp add: bytes_def directive_def takes_arg_def)
  from formatted_number_reads_back [OF f, of 100 "bytes '', %s''" "- 5" "[Text (bytes ''b'')]"] g
  show ?thesis by (auto simp: bytes_def)
qed

section \<open>The buffer of printf\<close>

lemma put_bytes_fits: "length t < n \<Longrightarrow> put_bytes (replicate n 0) 0 (t @ [0]) = Some (t @ [0] @ replicate (n - Suc (length t)) 0)"
  by (simp add: put_bytes_def)

lemma printf_text_spec:
  "vsprintf f args = Some t \<Longrightarrow>
   printf_text f args = (if length t < 512 then Some (takeWhile (\<lambda>c. c \<noteq> 0) t) else None)"
proof -
  assume v: "vsprintf f args = Some t"
  have w: "takeWhile (\<lambda>c. c \<noteq> 0) (t @ 0 # zs) = takeWhile (\<lambda>c. c \<noteq> 0) t" for zs :: "u8 list"
    by (induction t) auto
  show ?thesis
  proof (cases "length t < 512")
    case True
    then show ?thesis using v w by (simp add: printf_text_def sprintf_def put_bytes_fits)
  next
    case False
    then show ?thesis using v by (simp add: printf_text_def sprintf_def put_bytes_def)
  qed
qed

text \<open>\<^verbatim>\<open>printf\<close> has a buffer of 512 bytes and checks nothing: a text of up to 511
  characters is printed, a longer one is written past the end of the buffer.\<close>

theorem printf_overruns_buffer:
  "0 \<notin> set s \<Longrightarrow> printf_text (bytes ''%s'') [Text s] = (if length s < 512 then Some s else None)"
proof -
  assume "0 \<notin> set s"
  then have "takeWhile (\<lambda>c. c \<noteq> 0) s = s" by (auto simp: takeWhile_eq_all_conv)
  then show ?thesis
    using printf_text_spec [of "bytes ''%s''" "[Text s]" s] by (simp add: bytes_def directive_def takes_arg_def)
qed

lemma printf_overruns_buffer_witness:
  "printf_text (bytes ''%s'') [Text (replicate 512 65)] = None \<and> printf_text (bytes ''%s'') [Text (replicate 511 65)] \<noteq> None"
  using printf_overruns_buffer [of "replicate 512 65"] printf_overruns_buffer [of "replicate 511 65"]
  by (simp add: set_replicate_conv_if)

text \<open>A text of unknown contents must not be the format: a \<^verbatim>\<open>%\<close> in it reads an argument that is
  not there, or the memory behind the text.\<close>

theorem text_is_no_format:
  "printf_text (bytes ''100%s'') [] = None \<and> printf_text (bytes ''100%'') [] = None"
  by (simp add: printf_text_def sprintf_def bytes_def directive_def takes_arg_def)

end
