(* ===== verification/Console.thy ===== *)
theory Console
  imports Screen Format Hw
begin

text \<open>
  Text on the screen: \<^verbatim>\<open>Kernel/lib/Draw.c\<close> (points, rectangles, characters), the cursor and the
  printing of \<^verbatim>\<open>Kernel/kernel/Print.c\<close>.  The record \<open>console\<close> holds the global variables of both
  files, the frame buffer and the font are memory.  Screens have less than \<open>2 ^ 31\<close> pixels, where the
  index of \<^verbatim>\<open>DrawPoint\<close>, an \<^verbatim>\<open>int\<close>, does not overflow.
\<close>

unbundle bit_operations_syntax

section \<open>State\<close>

text \<open>\<open>g_display_driver\<close> is the information of the driver in use and whether it has a
  \<^verbatim>\<open>fill_rect\<close>.\<close>

record console =
  FrameBuffer :: addr
  ScreenWidth :: u16
  ScreenHeigth :: u16
  PrintLine :: u16
  PrintRow :: u16
  TextColor :: u32
  BgColor :: u32
  font_data :: addr
  g_display_driver :: "(display_info \<times> bool) option"

definition fontlist :: "u8 list" where
  "fontlist = bytes (''ABCDEFGHIJKLMNOPQRSTUVWXYZabcdefghijklmnopqrstuvwxyz0123456789'' @
     [CHR 0x60] @ ''~.,/'' @ [CHR 0x5C] @ '';'' @ [CHR 0x27] @ '':'' @ [CHR 0x22] @ ''<>()[]{}#$%&* !|@-+=_?'')"

section \<open>Points and rectangles\<close>

definition rgb :: "u8 \<Rightarrow> u8 \<Rightarrow> u8 \<Rightarrow> u32" where
  "rgb red green blue = push_bit 24 255 OR push_bit 16 (ucast red) OR push_bit 8 (ucast green) OR ucast blue"

definition DrawPoint :: "console \<Rightarrow> u16 \<Rightarrow> u16 \<Rightarrow> u32 \<Rightarrow> mem \<Rightarrow> mem" where
  "DrawPoint c x y color m =
     (if x \<ge> ScreenWidth c \<or> y \<ge> ScreenHeigth c then m
      else wr32 m (FrameBuffer c + of_nat (4 * (unat y * unat (ScreenWidth c) + unat x))) color)"

text \<open>\<open>None\<close>: no driver is bound, and the code reads a function pointer from address 0 on.\<close>

definition fillRect :: "console \<Rightarrow> u16 \<Rightarrow> u16 \<Rightarrow> u16 \<Rightarrow> u16 \<Rightarrow> u32 \<Rightarrow> mem \<Rightarrow> mem option" where
  "fillRect c x y w h color m =
     (case g_display_driver c of None \<Rightarrow> None
      | Some (info, has_fill) \<Rightarrow>
          if has_fill then Some (bochs_fill_rect info (ucast x) (ucast y) (ucast w) (ucast h) color m)
          else Some (fold (\<lambda>yy. fold (\<lambda>xx. DrawPoint c (of_nat xx) (of_nat yy) color) [unat x..<unat w + unat x])
                      [unat y..<unat h + unat y] m))"

section \<open>Characters\<close>

fun char_index :: "u8 list \<Rightarrow> nat \<Rightarrow> u8 \<Rightarrow> nat" where
  "char_index [] i ch = 84"
| "char_index (f # fs) i ch = (if f = ch then i else char_index fs (i + 1) ch)"

definition row_data :: "console \<Rightarrow> mem \<Rightarrow> u8 \<Rightarrow> nat \<Rightarrow> u16" where
  "row_data c m ch row =
     (let data_offset = char_index fontlist 0 ch * 32
      in le16 (m (font_data c + of_nat (data_offset + row * 2 + 1))) (m (font_data c + of_nat (data_offset + row * 2))))"

text \<open>The coordinates are \<^verbatim>\<open>int\<close>s; the call of \<^verbatim>\<open>DrawPoint\<close> cuts them to 16 bits.\<close>

definition DrawChar_row :: "console \<Rightarrow> u8 \<Rightarrow> int \<Rightarrow> int \<Rightarrow> u32 \<Rightarrow> nat \<Rightarrow> mem \<Rightarrow> mem" where
  "DrawChar_row c ch x y color row m =
     (let data = row_data c m ch row
      in fold (\<lambda>col m. if data AND drop_bit col 0x8000 \<noteq> 0
                 then DrawPoint c (word_of_int (x + int col)) (word_of_int (y + int row)) color m else m) [0..<10] m)"

definition DrawChar :: "console \<Rightarrow> u8 \<Rightarrow> int \<Rightarrow> int \<Rightarrow> u32 \<Rightarrow> mem \<Rightarrow> mem" where
  "DrawChar c ch x y color m = fold (DrawChar_row c ch x y color) [0..<16] m"

fun DrawString_loop :: "console \<Rightarrow> u8 list \<Rightarrow> int \<Rightarrow> int \<Rightarrow> int \<Rightarrow> u32 \<Rightarrow> mem \<Rightarrow> mem" where
  "DrawString_loop c [] startX currentX currentY color m = m"
| "DrawString_loop c (ch # s) startX currentX currentY color m =
     (if ch = 0 then m
      else if ch = 10 then DrawString_loop c s startX startX (currentY + 18) color m
      else let (currentX, currentY) =
             (if currentX + 10 > uint (ScreenWidth c) then (startX, currentY + 18) else (currentX, currentY))
           in DrawString_loop c s startX (currentX + 10) currentY color (DrawChar c ch currentX currentY color m))"

definition DrawString :: "console \<Rightarrow> u8 list \<Rightarrow> int \<Rightarrow> int \<Rightarrow> u32 \<Rightarrow> mem \<Rightarrow> mem" where
  "DrawString c s x y color m = DrawString_loop c s x x y color m"

section \<open>The cursor\<close>

definition UpdateCursor :: "console \<Rightarrow> u32 \<Rightarrow> mem \<Rightarrow> mem" where
  "UpdateCursor c color m =
     fold (\<lambda>i. DrawPoint c (PrintRow c * 10) (PrintLine c * 18 + of_nat i) color) [0..<16] m"

definition next_line :: "console \<Rightarrow> console" where
  "next_line c = c\<lparr>PrintLine := PrintLine c + 1, PrintRow := 0\<rparr>"

section \<open>Strings\<close>

text \<open>The position in the loop of \<^verbatim>\<open>DrawString1\<close>: \<^verbatim>\<open>currentX\<close>, \<^verbatim>\<open>currentY\<close>, the
  global variables and the memory.\<close>

type_synonym pen = "int \<times> int \<times> console \<times> mem"

definition wrap_line :: "int \<Rightarrow> pen \<Rightarrow> pen" where
  "wrap_line startX = (\<lambda>(x, y, c, m).
     if x + 10 > uint (ScreenWidth c) then (startX, y + 18, next_line c, m) else (x, y, c, m))"

definition tab_space :: "int \<Rightarrow> u32 \<Rightarrow> pen \<Rightarrow> pen" where
  "tab_space startX color p =
     (case wrap_line startX p of (x, y, c, m) \<Rightarrow> (x + 10, y, c, DrawChar c 32 x y color m))"

definition put_char1 :: "int \<Rightarrow> u32 \<Rightarrow> u8 \<Rightarrow> pen \<Rightarrow> pen" where
  "put_char1 startX color ch = (\<lambda>(x, y, c, m).
     let m = UpdateCursor c (BgColor c) m
     in if ch = 10 then (startX, y + 18, next_line c, m)
        else if ch = 9
        then (case (tab_space startX color ^^ 4) (x, y, c, m) of (x, y, c, m) \<Rightarrow> (x, y, c\<lparr>PrintRow := PrintRow c + 4\<rparr>, m))
        else case wrap_line startX (x, y, c, m) of (x, y, c, m) \<Rightarrow>
          (x + 10, y, c\<lparr>PrintRow := PrintRow c + 1\<rparr>, DrawChar c ch x y color (UpdateCursor c (BgColor c) m)))"

definition DrawString1 :: "u8 list \<Rightarrow> int \<Rightarrow> int \<Rightarrow> u32 \<Rightarrow> console \<times> mem \<Rightarrow> console \<times> mem" where
  "DrawString1 s x y color = (\<lambda>(c, m).
     case fold (put_char1 x color) (takeWhile (\<lambda>ch. ch \<noteq> 0) s) (x, y, c, m) of (_, _, c, m) \<Rightarrow> (c, m))"

definition clip_line :: "console \<Rightarrow> console" where
  "clip_line c = (if PrintLine c > ScreenHeigth c div 16 then c\<lparr>PrintLine := 0\<rparr> else c)"

definition printc :: "u8 \<Rightarrow> u32 \<Rightarrow> console \<times> mem \<Rightarrow> console \<times> mem" where
  "printc ch color = (\<lambda>(c, m).
     let spl = PrintLine c; spr = PrintRow c; c = clip_line c
     in if ch = 10 then (next_line c, m)
        else if ch = 9 then DrawString1 [9] (uint (PrintRow c) * 10) (uint (PrintLine c) * 18) color (c, m)
        else let m = DrawChar c ch (uint (PrintRow c) * 10) (uint (PrintLine c) * 18) color m;
                 c = c\<lparr>PrintRow := PrintRow c + 1\<rparr>
             in (c, fold (\<lambda>i. DrawPoint c (spr * 10) (spl * 18 + of_nat i) (BgColor c)) [0..<16] m))"

text \<open>\<open>prev\<close> is the byte in front of the text, which \<^verbatim>\<open>LastCharOf\<close> reads of an empty one.\<close>

definition print :: "u8 \<Rightarrow> u8 list \<Rightarrow> u32 \<Rightarrow> console \<times> mem \<Rightarrow> console \<times> mem" where
  "print prev s color = (\<lambda>(c, m).
     let c = clip_line c;
         (c, m) = DrawString1 s (uint (PrintRow c) * 10) (uint (PrintLine c) * 18) color (c, m);
         ch = (case LastCharOf s of None \<Rightarrow> prev | Some ch \<Rightarrow> ch)
     in (if ch = 10 then c\<lparr>PrintRow := 0\<rparr> else c, m))"

definition printf :: "u8 \<Rightarrow> u8 list \<Rightarrow> arg list \<Rightarrow> console \<times> mem \<Rightarrow> (console \<times> mem) option" where
  "printf prev format args cm =
     map_option (\<lambda>t. print prev t (TextColor (fst cm)) cm) (printf_text format args)"

section \<open>Messages\<close>

definition COLOR_WHITE :: u32 where "COLOR_WHITE = 0xFFFFFFFF"
definition COLOR_RED :: u32 where "COLOR_RED = 0xFFFF0000"
definition COLOR_YELLOW :: u32 where "COLOR_YELLOW = 0xFFFFFF00"
definition COLOR_GREEN :: u32 where "COLOR_GREEN = 0xFF00FF00"
definition COLOR_BLUE :: u32 where "COLOR_BLUE = 0xFF0000FF"

definition message :: "u8 \<Rightarrow> string \<Rightarrow> u32 \<Rightarrow> u8 list \<Rightarrow> console \<times> mem \<Rightarrow> console \<times> mem" where
  "message prev tag color text cm =
     print prev text COLOR_WHITE (printc 93 COLOR_WHITE (print prev (bytes tag) color (printc 91 COLOR_WHITE cm)))"

definition out_error :: "u8 \<Rightarrow> u8 list \<Rightarrow> console \<times> mem \<Rightarrow> console \<times> mem" where
  "out_error prev text = message prev ''ERROR'' COLOR_RED text"

definition out_waring :: "u8 \<Rightarrow> u8 list \<Rightarrow> console \<times> mem \<Rightarrow> console \<times> mem" where
  "out_waring prev text = message prev ''WARING'' COLOR_YELLOW text"

definition out_ok :: "u8 \<Rightarrow> u8 list \<Rightarrow> u8 \<Rightarrow> console \<times> mem \<Rightarrow> console \<times> mem" where
  "out_ok prev text mode = message prev (if mode = 1 then ''SUCESS'' else ''OK'') COLOR_GREEN text"

text \<open>A negative delay stops the system.\<close>

definition out_debug :: "'d hw \<Rightarrow> u8 \<Rightarrow> u8 list \<Rightarrow> u16 \<Rightarrow> (console \<times> mem) \<times> 'd \<Rightarrow> ((console \<times> mem) \<times> 'd) option" where
  "out_debug hw prev text delay = (\<lambda>(cm, d).
     let cm = message prev ''DEBUG'' COLOR_BLUE text cm
     in if 0 <s delay then map_option (Pair cm) (delay_ms hw (scast delay) d)
        else if delay = 0 then Some (cm, d) else None)"

definition ClearScreen :: "console \<times> mem \<Rightarrow> (console \<times> mem) option" where
  "ClearScreen = (\<lambda>(c, m).
     map_option (\<lambda>m. (c\<lparr>PrintLine := 0, PrintRow := 0\<rparr>, UpdateCursor c (BgColor c) m))
       (fillRect c 0 0 (ScreenWidth c) (ScreenHeigth c) (BgColor c) m))"

section \<open>The screen of the console\<close>

definition screen :: "console \<Rightarrow> display_info" where
  "screen c = \<lparr>framebuffer = FrameBuffer c, width = ScreenWidth c, height = ScreenHeigth c, pitch = 0, bpp = 0\<rparr>"

lemma screen_simps [simp]:
  "width (screen c) = ScreenWidth c" "height (screen c) = ScreenHeigth c" "framebuffer (screen c) = FrameBuffer c"
  "screen (c\<lparr>PrintLine := l\<rparr>) = screen c" "screen (c\<lparr>PrintRow := r\<rparr>) = screen c" "screen (next_line c) = screen c"
  "screen (clip_line c) = screen c"
  by (simp_all add: screen_def next_line_def clip_line_def)

text \<open>Only the frame buffer changes.\<close>

definition only_frame :: "console \<Rightarrow> mem \<Rightarrow> mem \<Rightarrow> bool" where
  "only_frame c m m' \<longleftrightarrow> (\<forall>a. \<not> in_frame (screen c) a \<longrightarrow> m' a = m a)"

lemma only_frame_refl [simp]: "only_frame c m m" by (simp add: only_frame_def)

lemma only_frame_trans: "only_frame c m m' \<Longrightarrow> only_frame c m' m'' \<Longrightarrow> only_frame c m m''"
  by (simp add: only_frame_def)

lemma only_frame_painted: "painted (screen c) S color m m' \<Longrightarrow> only_frame c m m'"
  by (simp add: painted_def only_frame_def)

lemma only_frame_fold: "(\<And>i m. only_frame c m (f i m)) \<Longrightarrow> only_frame c m (fold f is m)"
proof (induction "is" arbitrary: m)
  case (Cons i "is")
  have "only_frame c (f i m) (fold f is (f i m))" using Cons by simp
  then show ?case using Cons.prems [of m i] only_frame_trans by auto
qed simp

lemma only_frame_cong: "screen c = screen c' \<Longrightarrow> only_frame c m m' \<longleftrightarrow> only_frame c' m m'"
  by (simp add: only_frame_def)

lemma DrawPoint_painted: "painted (screen c) {(unat x, unat y)} color m (DrawPoint c x y color m)"
proof (cases "unat x < unat (ScreenWidth c) \<and> unat y < unat (ScreenHeigth c)")
  case True
  then show ?thesis using painted_wr [of "unat x" "screen c" "unat y" color m]
    by (simp add: DrawPoint_def word_le_nat_alt px_addr_def)
next
  case False
  then have "DrawPoint c x y color m = m" by (auto simp: DrawPoint_def word_le_nat_alt)
  then show ?thesis using False by (auto intro: painted_cong [OF painted_refl])
qed

lemma DrawPoint_frame [simp]: "only_frame c m (DrawPoint c x y color m)"
  using DrawPoint_painted by (rule only_frame_painted)

lemma UpdateCursor_frame [simp]: "only_frame c m (UpdateCursor c color m)"
  unfolding UpdateCursor_def by (rule only_frame_fold) simp

lemma DrawChar_frame [simp]: "only_frame c m (DrawChar c ch x y color m)"
  unfolding DrawChar_def DrawChar_row_def Let_def by (intro only_frame_fold) simp

text \<open>A pen whose console has the screen and the font of \<open>c\<close> and whose memory comes from \<open>m\<close> by drawing.\<close>

text \<open>All of the console but the place of the cursor.\<close>

definition layout :: "console \<Rightarrow> console" where "layout c = c\<lparr>PrintLine := 0, PrintRow := 0\<rparr>"

lemma layout_simps [simp]:
  "layout (next_line c) = layout c" "layout (clip_line c) = layout c" "layout (c\<lparr>PrintRow := r\<rparr>) = layout c"
  "layout (c\<lparr>PrintLine := l\<rparr>) = layout c"
  by (simp_all add: layout_def next_line_def clip_line_def)

lemma layout_D:
  assumes "layout c' = layout c"
  shows "screen c' = screen c" "font_data c' = font_data c" "TextColor c' = TextColor c" "BgColor c' = BgColor c"
    "g_display_driver c' = g_display_driver c" "ScreenWidth c' = ScreenWidth c" "ScreenHeigth c' = ScreenHeigth c"
    "FrameBuffer c' = FrameBuffer c"
  using assms by (cases c; cases c'; simp add: layout_def screen_def)+

definition pen_from :: "console \<Rightarrow> mem \<Rightarrow> pen \<Rightarrow> bool" where
  "pen_from c m = (\<lambda>(x, y, c', m'). layout c' = layout c \<and> screen c' = screen c \<and> font_data c' = font_data c \<and> only_frame c m m')"

lemma pen_from_draw:
  "pen_from c m (x, y, c', m') \<Longrightarrow> only_frame c' m' m'' \<Longrightarrow> pen_from c m (x', y', c', m'')"
  by (auto simp: pen_from_def intro: only_frame_trans simp: only_frame_cong [of c' c])

lemma pen_from_wrap: "pen_from c m p \<Longrightarrow> pen_from c m (wrap_line startX p)"
  by (auto simp: pen_from_def wrap_line_def next_line_def split: prod.splits)

lemma pen_from_tab: "pen_from c m p \<Longrightarrow> pen_from c m (tab_space startX color p)"
  using pen_from_wrap [of c m p startX] by (auto simp: tab_space_def split: prod.splits intro: pen_from_draw)

lemma pen_from_tabs: "pen_from c m p \<Longrightarrow> pen_from c m ((tab_space startX color ^^ n) p)"
  by (induction n) (auto intro: pen_from_tab)

lemma pen_from_put: "pen_from c m p \<Longrightarrow> pen_from c m (put_char1 startX color ch p)"
proof -
  assume p: "pen_from c m p"
  obtain x y c' m' where e: "p = (x, y, c', m')" by (cases p)
  let ?m = "UpdateCursor c' (BgColor c') m'"
  have u: "pen_from c m (x, y, c', ?m)" using p unfolding e by (rule pen_from_draw) simp
  consider "ch = 10" | "ch = 9" | "ch \<noteq> 10" "ch \<noteq> 9" by blast
  then show ?thesis
  proof cases
    case 1
    then show ?thesis using u by (simp add: e put_char1_def Let_def pen_from_def next_line_def)
  next
    case 2
    then show ?thesis using pen_from_tabs [OF u, of 4 startX color]
      by (auto simp: e put_char1_def Let_def pen_from_def split: prod.splits)
  next
    case 3
    obtain x1 y1 c1 m1 where w: "wrap_line startX (x, y, c', ?m) = (x1, y1, c1, m1)" by (cases "wrap_line startX (x, y, c', ?m)")
    have "pen_from c m (x1, y1, c1, m1)" using pen_from_wrap [OF u, of startX] by (simp add: w)
    moreover have "only_frame c1 m1 (DrawChar c1 ch x1 y1 color (UpdateCursor c1 (BgColor c1) m1))"
      by (rule only_frame_trans [of _ _ "UpdateCursor c1 (BgColor c1) m1"]) simp_all
    ultimately have "pen_from c m (x1 + 10, y1, c1, DrawChar c1 ch x1 y1 color (UpdateCursor c1 (BgColor c1) m1))"
      by (rule pen_from_draw)
    then show ?thesis using 3 by (simp add: e put_char1_def Let_def w pen_from_def)
  qed
qed

lemma pen_from_fold: "pen_from c m p \<Longrightarrow> pen_from c m (fold (put_char1 startX color) s p)"
  by (induction s arbitrary: p) (simp_all add: pen_from_put)

text \<open>The same for an operation on the console.\<close>

definition draws :: "console \<times> mem \<Rightarrow> console \<times> mem \<Rightarrow> bool" where
  "draws = (\<lambda>(c, m) (c', m'). layout c' = layout c \<and> screen c' = screen c \<and> font_data c' = font_data c \<and> only_frame c m m')"

lemma draws_trans: "draws a b \<Longrightarrow> draws b c \<Longrightarrow> draws a c"
  by (cases a, cases b, cases c) (auto simp: draws_def only_frame_def)

lemma DrawString1_draws: "draws cm (DrawString1 s x y color cm)"
proof -
  obtain c m where e: "cm = (c, m)" by (cases cm)
  have "pen_from c m (x, y, c, m)" by (simp add: pen_from_def)
  from pen_from_fold [OF this, of x color "takeWhile (\<lambda>ch. ch \<noteq> 0) s"] show ?thesis
    by (auto simp: e DrawString1_def draws_def pen_from_def split: prod.splits)
qed

lemma draws_cong: "layout c' = layout c \<Longrightarrow> screen c' = screen c \<Longrightarrow> font_data c' = font_data c \<Longrightarrow> draws (c', m) x \<longleftrightarrow> draws (c, m) x"
  by (auto simp: draws_def only_frame_def)

lemma clip_draws: "draws (clip_line c, m) x \<longleftrightarrow> draws (c, m) x"
  by (rule draws_cong) (simp_all add: clip_line_def)

lemma frame_of:
  "screen c' = screen c \<Longrightarrow> only_frame c m (DrawPoint c' x y color m)"
  "screen c' = screen c \<Longrightarrow> only_frame c m (DrawChar c' ch X Y color m)"
  using only_frame_cong [of c' c] DrawPoint_frame [of c'] DrawChar_frame [of c'] by blast+

lemma printc_draws: "draws cm (printc ch color cm)"
proof -
  obtain c m where e: "cm = (c, m)" by (cases cm)
  let ?c = "clip_line c"
  consider "ch = 10" | "ch = 9" | "ch \<noteq> 10" "ch \<noteq> 9" by blast
  then show ?thesis
  proof cases
    case 1
    then show ?thesis by (simp add: e printc_def Let_def draws_def next_line_def clip_line_def screen_def)
  next
    case 2
    then show ?thesis using DrawString1_draws [of "(?c, m)"] by (simp add: e printc_def Let_def clip_draws)
  next
    case 3
    let ?m = "DrawChar ?c ch (uint (PrintRow ?c) * 10) (uint (PrintLine ?c) * 18) color m"
    have "only_frame c m (fold (\<lambda>i. DrawPoint (?c\<lparr>PrintRow := r\<rparr>) x (y + of_nat i) col) [0..<16] ?m)" for r x y col
      by (rule only_frame_trans [OF frame_of(2) only_frame_fold [OF frame_of(1)]]) simp_all
    then show ?thesis using 3 by (simp add: e printc_def Let_def draws_def) (simp add: clip_line_def)
  qed
qed

lemma print_draws: "draws cm (print prev s color cm)"
proof -
  obtain c m where e: "cm = (c, m)" by (cases cm)
  obtain c' m' where d: "DrawString1 s (uint (PrintRow (clip_line c)) * 10) (uint (PrintLine (clip_line c)) * 18) color
      (clip_line c, m) = (c', m')" by fastforce
  have "draws (clip_line c, m) (c', m')" using DrawString1_draws [of "(clip_line c, m)"] d by metis
  then have "draws (c, m) (c', m')" by (simp add: clip_draws)
  then show ?thesis by (simp add: e print_def Let_def d draws_def screen_def)
qed

lemma message_draws: "draws cm (message prev tag color text cm)"
  unfolding message_def using print_draws printc_draws draws_trans by metis

text \<open>Printing writes into the frame buffer and nowhere else, whatever the text, the position, the
  font and the size of the screen: characters, strings, formatted output and messages.\<close>

theorem printing_stays_on_screen:
  "(printc ch color (c, m) = (c', m') \<or> print prev s color (c, m) = (c', m') \<or> printf prev format args (c, m) = Some (c', m') \<or>
    out_error prev s (c, m) = (c', m') \<or> out_waring prev s (c, m) = (c', m') \<or> out_ok prev s mode (c, m) = (c', m')) \<Longrightarrow>
   unat (a - FrameBuffer c) \<ge> 4 * (unat (ScreenWidth c) * unat (ScreenHeigth c)) \<Longrightarrow>
   m' a = m a \<and> FrameBuffer c' = FrameBuffer c \<and> ScreenWidth c' = ScreenWidth c \<and> ScreenHeigth c' = ScreenHeigth c"
proof -
  assume step: "printc ch color (c, m) = (c', m') \<or> print prev s color (c, m) = (c', m') \<or> printf prev format args (c, m) = Some (c', m') \<or>
    out_error prev s (c, m) = (c', m') \<or> out_waring prev s (c, m) = (c', m') \<or> out_ok prev s mode (c, m) = (c', m')"
    and a: "unat (a - FrameBuffer c) \<ge> 4 * (unat (ScreenWidth c) * unat (ScreenHeigth c))"
  have "draws (c, m) (c', m')"
    using step printc_draws [of "(c, m)"] print_draws [of "(c, m)"] message_draws [of "(c, m)"]
    by (auto simp: printf_def out_error_def out_waring_def out_ok_def) metis+
  moreover have "\<not> in_frame (screen c) a" using a by (simp add: in_frame_def within_def)
  ultimately show ?thesis by (auto simp: draws_def only_frame_def screen_def)
qed

definition demo_console :: console where
  "demo_console = \<lparr>FrameBuffer = 0x80000000, ScreenWidth = 1280, ScreenHeigth = 720, PrintLine = 2, PrintRow = 3,
     TextColor = 0xFFFFFFFF, BgColor = 0xFF000000, font_data = 0xF0000000, g_display_driver = None\<rparr>"

lemma printing_stays_on_screen_witness:
  "snd (print 0 (bytes ''OK'') 0xFF00FF00 (demo_console, \<lambda>_. 7)) 0x100000 = 7"
proof -
  let ?r = "print 0 (bytes ''OK'') 0xFF00FF00 (demo_console, \<lambda>_. 7)"
  have "?r = (fst ?r, snd ?r)" by simp
  from printing_stays_on_screen [OF disjI2, OF disjI1, OF this, where a = "0x100000"]
  show ?thesis by (simp add: demo_console_def)
qed

section \<open>What a text looks like\<close>

definition glyph :: "console \<Rightarrow> mem \<Rightarrow> u8 \<Rightarrow> nat \<Rightarrow> nat \<Rightarrow> bool" where
  "glyph c m ch row col \<longleftrightarrow> row_data c m ch row AND drop_bit col 0x8000 \<noteq> 0"

text \<open>The font is not in the frame buffer.\<close>

definition font_ok :: "console \<Rightarrow> bool" where
  "font_ok c \<longleftrightarrow> (\<forall>k<94 * 32. \<not> in_frame (screen c) (font_data c + of_nat k))"

lemma char_index_less: "char_index fs i ch = 84 \<or> char_index fs i ch < i + length fs"
proof (induction fs arbitrary: i)
  case (Cons f fs)
  then show ?case using Cons.IH [of "i + 1"] by auto
qed simp

lemma row_data_frame:
  assumes "font_ok c" "only_frame c m m'" "row < 16"
  shows "row_data c m' ch row = row_data c m ch row"
proof -
  have "char_index fontlist 0 ch < 94"
    using char_index_less [of fontlist 0 ch] by (auto simp: fontlist_def bytes_def)
  then have k: "char_index fontlist 0 ch * 32 + row * 2 + j < 94 * 32" if "j < 2" for j using assms(3) that by linarith
  have "m' (font_data c + of_nat k) = m (font_data c + of_nat k)" if "k < 94 * 32" for k
    using assms(1,2) that by (auto simp: font_ok_def only_frame_def)
  from this [OF k [of 0]] this [OF k [of 1]] show ?thesis
    unfolding row_data_def Let_def by (simp del: of_nat_add of_nat_mult)
qed

lemma glyph_frame: "font_ok c \<Longrightarrow> only_frame c m m' \<Longrightarrow> row < 16 \<Longrightarrow> glyph c m' ch row col = glyph c m ch row col"
  by (simp add: glyph_def row_data_frame)

lemma row_data_cong: "font_data c' = font_data c \<Longrightarrow> row_data c' m ch row = row_data c m ch row"
  by (simp add: row_data_def)

text \<open>A character at a position on the screen.\<close>

lemma DrawChar_painted:
  assumes f: "font_ok c" and x: "x + 10 \<le> unat (ScreenWidth c)" and y: "y + 16 \<le> unat (ScreenHeigth c)"
  shows "painted (screen c) {(x + col, y + row) |col row. col < 10 \<and> row < 16 \<and> glyph c m ch row col} color m
    (DrawChar c ch (int x) (int y) color m)"
proof -
  have pt: "painted (screen c) {(x + col, y + row)} color m' (DrawPoint c (word_of_int (int x + int col)) (word_of_int (int y + int row)) color m')"
    if "col < 10" "row < 16" for col row m'
  proof -
    have "unat (word_of_int (int x + int col) :: u16) = x + col" "unat (word_of_int (int y + int row) :: u16) = y + row"
    proof -
      have e: "word_of_int (int a + int b) = (of_nat (a + b) :: u16)" for a b by simp
      show "unat (word_of_int (int x + int col) :: u16) = x + col" "unat (word_of_int (int y + int row) :: u16) = y + row"
        unfolding e using that x y unat_u16 [of "ScreenWidth c"] unat_u16 [of "ScreenHeigth c"]
        by (simp_all add: unat_of_nat take_bit_nat_eq_self del: of_nat_add)
    qed
    then show ?thesis using DrawPoint_painted [of c "word_of_int (int x + int col)" "word_of_int (int y + int row)" color m'] by simp
  qed
  have row: "painted (screen c) {(x + col, y + row) |col. col < 10 \<and> glyph c m ch row col} color m' (DrawChar_row c ch (int x) (int y) color row m')"
    if "row < 16" "only_frame c m m'" for row m'
  proof -
    let ?f = "\<lambda>col m'. if row_data c m ch row AND drop_bit col 0x8000 \<noteq> 0
       then DrawPoint c (word_of_int (int x + int col)) (word_of_int (int y + int row)) color m' else m'"
    have "painted (screen c) (\<Union>col\<in>set [0..<10]. if glyph c m ch row col then {(x + col, y + row)} else {}) color m' (fold ?f [0..<10] m')"
      by (rule painted_fold) (use that pt in \<open>auto simp: glyph_def painted_refl\<close>)
    moreover have "(\<Union>col\<in>set [0..<10]. if glyph c m ch row col then {(x + col, y + row)} else {}) =
      {(x + col, y + row) |col. col < 10 \<and> glyph c m ch row col}" by (auto split: if_splits)
    ultimately show ?thesis using row_data_frame [OF f that(2,1)] by (simp add: DrawChar_row_def Let_def)
  qed
  have "n \<le> 16 \<Longrightarrow> painted (screen c) {(x + col, y + row) |col row. col < 10 \<and> row < n \<and> glyph c m ch row col} color m
    (fold (DrawChar_row c ch (int x) (int y) color) [0..<n] m)" for n
  proof (induction n)
    case (Suc n)
    let ?m = "fold (DrawChar_row c ch (int x) (int y) color) [0..<n] m"
    have IH: "painted (screen c) {(x + col, y + row) |col row. col < 10 \<and> row < n \<and> glyph c m ch row col} color m ?m"
      using Suc by simp
    have "painted (screen c) {(x + col, y + n) |col. col < 10 \<and> glyph c m ch n col} color ?m (DrawChar_row c ch (int x) (int y) color n ?m)"
      using row [of n ?m] only_frame_painted [OF IH] Suc.prems by simp
    from painted_trans [OF IH this] have "painted (screen c) ({(x + col, y + row) |col row. col < 10 \<and> row < n \<and> glyph c m ch row col} \<union>
        {(x + col, y + n) |col. col < 10 \<and> glyph c m ch n col}) color m (DrawChar_row c ch (int x) (int y) color n ?m)" .
    moreover have "{(x + col, y + row) |col row. col < 10 \<and> row < n \<and> glyph c m ch row col} \<union>
        {(x + col, y + n) |col. col < 10 \<and> glyph c m ch n col} =
        {(x + col, y + row) |col row. col < 10 \<and> row < Suc n \<and> glyph c m ch row col}"
      by (auto simp: less_Suc_eq)
    ultimately show ?case by simp
  qed (simp add: painted_refl)
  from this [of 16] show ?thesis by (simp add: DrawChar_def)
qed

lemma UpdateCursor_painted:
  assumes "unat (PrintRow c) = r" "unat (PrintLine c) = l" "10 * r < unat (ScreenWidth c)" "18 * l + 16 \<le> unat (ScreenHeigth c)"
  shows "painted (screen c) ({10 * r} \<times> {18 * l..<18 * l + 16}) color m (UpdateCursor c color m)"
proof -
  have "painted (screen c) {(10 * r, 18 * l + i)} color m (DrawPoint c (PrintRow c * 10) (PrintLine c * 18 + of_nat i) color m)"
    if "i < 16" for i m
  proof -
    have "unat (PrintRow c * 10) = 10 * r" "unat (PrintLine c * 18 + of_nat i) = 18 * l + i"
      using that assms unat_u16 [of "ScreenWidth c"] unat_u16 [of "ScreenHeigth c"]
      by (simp_all add: unat_word_ariths unat_of_nat take_bit_nat_eq_self)
    then show ?thesis using DrawPoint_painted [of c "PrintRow c * 10" "PrintLine c * 18 + of_nat i" color m] by simp
  qed
  then have "painted (screen c) (\<Union>i\<in>set [0..<16]. {10 * r} \<times> {18 * l + i}) color m (UpdateCursor c color m)"
    unfolding UpdateCursor_def by (intro painted_fold) auto
  then show ?thesis unfolding set_upt rows_union .
qed

text \<open>The picture of a text at column \<open>r\<close> of line \<open>l\<close>: ten pixels a character; the first column of a
  cell is wiped with the cursor.\<close>

definition text_pixel :: "console \<Rightarrow> mem \<Rightarrow> u32 \<Rightarrow> u8 list \<Rightarrow> nat \<Rightarrow> nat \<Rightarrow> nat \<Rightarrow> nat \<Rightarrow> u32" where
  "text_pixel c m color s r l x y =
     (if 18 * l \<le> y \<and> y < 18 * l + 16 \<and> 10 * r \<le> x \<and> x < 10 * (r + length s)
      then let i = (x - 10 * r) div 10; col = (x - 10 * r) mod 10
           in if glyph c m (s ! i) (y - 18 * l) col then color
              else if col = 0 then BgColor c else pixel (screen c) m x y
      else pixel (screen c) m x y)"

lemma put_char1_pixels:
  assumes f: "font_ok c" and rl: "unat (PrintRow c) = r" "unat (PrintLine c) = l"
    and x: "10 * r + 10 \<le> unat (ScreenWidth c)" and y: "18 * l + 16 \<le> unat (ScreenHeigth c)" and ch: "ch \<noteq> 10" "ch \<noteq> 9"
  shows "\<exists>m'. put_char1 startX color ch (int (10 * r), int (18 * l), c, m) =
      (int (10 * (r + 1)), int (18 * l), c\<lparr>PrintRow := PrintRow c + 1\<rparr>, m') \<and> only_frame c m m' \<and>
      (\<forall>x<unat (ScreenWidth c). \<forall>y<unat (ScreenHeigth c). pixel (screen c) m' x y = text_pixel c m color [ch] r l x y)"
proof -
  define m1 m2 m3 where "m1 = UpdateCursor c (BgColor c) m" and "m2 = UpdateCursor c (BgColor c) m1"
    and "m3 = DrawChar c ch (int (10 * r)) (int (18 * l)) color m2"
  have "int (10 * r) + 10 \<le> int (unat (ScreenWidth c))" using x by linarith
  then have "\<not> int (10 * r) + 10 > uint (ScreenWidth c)" by simp
  then have w: "wrap_line startX (int (10 * r), int (18 * l), c, m1) = (int (10 * r), int (18 * l), c, m1)"
    by (simp only: wrap_line_def prod.case if_False)
  have n: "int (10 * r) + 10 = int (10 * (r + 1))" by simp
  have p: "put_char1 startX color ch (int (10 * r), int (18 * l), c, m) =
      (int (10 * (r + 1)), int (18 * l), c\<lparr>PrintRow := PrintRow c + 1\<rparr>, m3)"
    unfolding put_char1_def Let_def prod.case m1_def [symmetric] w m2_def [symmetric] m3_def [symmetric] n
    by (simp only: ch if_False)
  have 12: "painted (screen c) ({10 * r} \<times> {18 * l..<18 * l + 16} \<union> {10 * r} \<times> {18 * l..<18 * l + 16}) (BgColor c) m m2"
    unfolding m1_def m2_def by (rule painted_trans; rule UpdateCursor_painted) (use rl x y in auto)
  have frame2: "only_frame c m m2" using 12 by (rule only_frame_painted)
  have 3: "painted (screen c) {(10 * r + col, 18 * l + row) |col row. col < 10 \<and> row < 16 \<and> glyph c m2 ch row col} color m2 m3"
    unfolding m3_def using f x y by (rule DrawChar_painted)
  have "pixel (screen c) m3 x y = text_pixel c m color [ch] r l x y"
    if xy: "x < unat (ScreenWidth c)" "y < unat (ScreenHeigth c)" for x y
  proof -
    let ?cell = "18 * l \<le> y \<and> y < 18 * l + 16 \<and> 10 * r \<le> x \<and> x < 10 * (r + 1)"
    let ?G = "{(10 * r + col, 18 * l + row) |col row. col < 10 \<and> row < 16 \<and> glyph c m2 ch row col}"
    have p3: "pixel (screen c) m3 x y = (if (x, y) \<in> ?G then color else pixel (screen c) m2 x y)"
      using 3 xy by (simp add: painted_def)
    have p2: "pixel (screen c) m2 x y =
        (if x = 10 * r \<and> 18 * l \<le> y \<and> y < 18 * l + 16 then BgColor c else pixel (screen c) m x y)"
      using 12 xy by (simp add: painted_def)
    show ?thesis
    proof (cases ?cell)
      case True
      define row col where "row = y - 18 * l" and "col = x - 10 * r"
      have e: "y = 18 * l + row" "x = 10 * r + col" "row < 16" "col < 10" using True by (auto simp: row_def col_def)
      have "(x, y) \<in> ?G \<longleftrightarrow> glyph c m ch row col" using e glyph_frame [OF f frame2 e(3)] by auto
      then show ?thesis using e unfolding p3 p2 by (simp add: text_pixel_def)
    next
      case False
      then have n: "(x, y) \<notin> ?G" "\<not> (x = 10 * r \<and> 18 * l \<le> y \<and> y < 18 * l + 16)" by auto
      have t: "text_pixel c m color [ch] r l x y = pixel (screen c) m x y"
        unfolding text_pixel_def by (rule if_not_P) (use False in simp)
      show ?thesis by (simp only: p3 p2 n t if_False)
    qed
  qed
  moreover have "only_frame c m m3" using only_frame_trans [OF frame2 only_frame_painted [OF 3]] .
  ultimately show ?thesis using p by blast
qed

lemma text_pixel_out:
  "\<not> (18 * l \<le> y \<and> y < 18 * l + 16 \<and> 10 * r \<le> x \<and> x < 10 * (r + length s)) \<Longrightarrow>
   text_pixel c m color s r l x y = pixel (screen c) m x y"
  unfolding text_pixel_def by (rule if_not_P)

lemma text_pixel_in:
  "18 * l \<le> y \<Longrightarrow> y < 18 * l + 16 \<Longrightarrow> i < length s \<Longrightarrow> col < 10 \<Longrightarrow> x = 10 * (r + i) + col \<Longrightarrow>
   text_pixel c m color s r l x y =
     (if glyph c m (s ! i) (y - 18 * l) col then color else if col = 0 then BgColor c else pixel (screen c) m x y)"
proof -
  assume a: "18 * l \<le> y" "y < 18 * l + 16" "i < length s" "col < 10" "x = 10 * (r + i) + col"
  then have "x - 10 * r = 10 * i + col" by simp
  then have "(x - 10 * r) div 10 = i" "(x - 10 * r) mod 10 = col" using a(4) by simp_all
  moreover have "10 * r \<le> x \<and> x < 10 * (r + length s)" using a by simp
  ultimately show ?thesis using a(1,2) by (simp add: text_pixel_def)
qed

lemma text_pixel_Cons:
  assumes f: "font_ok c" "only_frame c m m1" and p: "pixel (screen c) m1 x y = text_pixel c m color [ch] r l x y"
  shows "text_pixel c m1 color s (r + 1) l x y = text_pixel c m color (ch # s) r l x y"
proof (cases "18 * l \<le> y \<and> y < 18 * l + 16 \<and> 10 * r \<le> x \<and> x < 10 * (r + length (ch # s))")
  case True
  define i col where "i = (x - 10 * r) div 10" and "col = (x - 10 * r) mod 10"
  have x: "x = 10 * (r + i) + col" "col < 10" using True by (simp_all add: i_def col_def)
  have i: "i < length (ch # s)" using True x by simp
  show ?thesis
  proof (cases i)
    case 0
    then have "text_pixel c m1 color s (r + 1) l x y = pixel (screen c) m1 x y" using x by (intro text_pixel_out) simp
    then show ?thesis using p text_pixel_in [of l y 0 "[ch]" col x r] text_pixel_in [of l y 0 "ch # s" col x r] True x 0 by simp
  next
    case (Suc j)
    then have "pixel (screen c) m1 x y = pixel (screen c) m x y" using p x text_pixel_out [of l y r x "[ch]"] by simp
    moreover have "glyph c m1 (s ! j) (y - 18 * l) col = glyph c m (s ! j) (y - 18 * l) col"
      using True by (intro glyph_frame [OF f]) auto
    moreover have "text_pixel c m1 color s (r + 1) l x y = (if glyph c m1 (s ! j) (y - 18 * l) col then color
        else if col = 0 then BgColor c else pixel (screen c) m1 x y)"
      using True x i Suc by (intro text_pixel_in) auto
    moreover have "text_pixel c m color (ch # s) r l x y = (if glyph c m ((ch # s) ! i) (y - 18 * l) col then color
        else if col = 0 then BgColor c else pixel (screen c) m x y)"
      using True x i by (intro text_pixel_in) auto
    ultimately show ?thesis using Suc by (simp only: nth_Cons_Suc)
  qed
next
  case False
  then have "\<not> (18 * l \<le> y \<and> y < 18 * l + 16 \<and> 10 * (r + 1) \<le> x \<and> x < 10 * (r + 1 + length s))"
    "\<not> (18 * l \<le> y \<and> y < 18 * l + 16 \<and> 10 * r \<le> x \<and> x < 10 * (r + length [ch]))" by auto
  then have "text_pixel c m1 color s (r + 1) l x y = pixel (screen c) m1 x y"
    "text_pixel c m color [ch] r l x y = pixel (screen c) m x y" by (auto intro!: text_pixel_out)
  then show ?thesis using p text_pixel_out [OF False] by simp
qed

lemma fold_put_char1_pixels:
  assumes f: "font_ok c" and y: "18 * l + 16 \<le> unat (ScreenHeigth c)" and l: "unat (PrintLine c) = l"
  shows "unat (PrintRow c') = r \<Longrightarrow> c' = c\<lparr>PrintRow := PrintRow c'\<rparr> \<Longrightarrow>
    10 * (r + length s) \<le> unat (ScreenWidth c) \<Longrightarrow> 9 \<notin> set s \<Longrightarrow> 10 \<notin> set s \<Longrightarrow>
    \<exists>m'. fold (put_char1 startX color) s (int (10 * r), int (18 * l), c', m) =
      (int (10 * (r + length s)), int (18 * l), c\<lparr>PrintRow := of_nat (r + length s)\<rparr>, m') \<and>
      (\<forall>x<unat (ScreenWidth c). \<forall>y<unat (ScreenHeigth c). pixel (screen c) m' x y = text_pixel c m color s r l x y)"
proof (induction s arbitrary: c' r m)
  case Nil
  then have "c' = c\<lparr>PrintRow := of_nat r\<rparr>" by (simp flip: Nil(1))
  then show ?case by (auto simp: text_pixel_out)
next
  case (Cons ch s)
  have same: "screen c' = screen c" "font_data c' = font_data c" "BgColor c' = BgColor c" "ScreenWidth c' = ScreenWidth c"
    "ScreenHeigth c' = ScreenHeigth c" "PrintLine c' = PrintLine c"
    by (subst Cons.prems(2), simp)+
  have fit: "10 * r + 10 \<le> unat (ScreenWidth c)" using Cons.prems(3) by simp
  have tp: "text_pixel c' m color [ch] r l x y = text_pixel c m color [ch] r l x y" for x y
    unfolding text_pixel_def glyph_def row_data_cong [OF same(2)] same(1,3) ..
  obtain m1 where m1: "put_char1 startX color ch (int (10 * r), int (18 * l), c', m) =
      (int (10 * (r + 1)), int (18 * l), c'\<lparr>PrintRow := PrintRow c' + 1\<rparr>, m1)" "only_frame c m m1"
    "\<forall>x<unat (ScreenWidth c). \<forall>y<unat (ScreenHeigth c). pixel (screen c) m1 x y = text_pixel c m color [ch] r l x y"
    using put_char1_pixels [of c' r l ch startX color m] same f y l fit Cons.prems tp only_frame_cong [OF same(1)]
    by (auto simp: font_ok_def)
  let ?c = "c'\<lparr>PrintRow := PrintRow c' + 1\<rparr>"
  have r: "unat (PrintRow ?c) = r + 1"
    using Cons.prems(1) fit unat_u16 [of "ScreenWidth c"] by (simp add: unat_word_ariths)
  have c: "?c = c\<lparr>PrintRow := PrintRow ?c\<rparr>" by (subst Cons.prems(2)) simp
  obtain m' where m': "fold (put_char1 startX color) s (int (10 * (r + 1)), int (18 * l), ?c, m1) =
      (int (10 * (r + 1 + length s)), int (18 * l), c\<lparr>PrintRow := of_nat (r + 1 + length s)\<rparr>, m')"
    "\<forall>x<unat (ScreenWidth c). \<forall>y<unat (ScreenHeigth c). pixel (screen c) m' x y = text_pixel c m1 color s (r + 1) l x y"
    using Cons.IH [OF r c, of m1] Cons.prems(3-5) by auto
  have "\<forall>x<unat (ScreenWidth c). \<forall>y<unat (ScreenHeigth c). pixel (screen c) m' x y = text_pixel c m color (ch # s) r l x y"
    using m'(2) m1(3) text_pixel_Cons [OF f m1(2)] by simp
  then show ?case using m'(1) m1(1) by simp
qed

lemma no_wrap:
  "10 * r + 10 \<le> unat (ScreenWidth c) \<Longrightarrow> wrap_line startX (int (10 * r), y, c, m) = (int (10 * r), y, c, m)"
proof -
  assume "10 * r + 10 \<le> unat (ScreenWidth c)"
  then have "int (10 * r) + 10 \<le> int (unat (ScreenWidth c))" by linarith
  then have "\<not> int (10 * r) + 10 > uint (ScreenWidth c)" by simp
  then show ?thesis by (simp only: wrap_line_def prod.case if_False)
qed

lemma print_plain:
  assumes s: "s \<noteq> []" "0 \<notin> set s" "10 \<notin> set s" and l: "PrintLine c \<le> ScreenHeigth c div 16"
    and d: "fold (put_char1 (int (10 * unat (PrintRow c))) color) s (int (10 * unat (PrintRow c)), int (18 * unat (PrintLine c)), c, m) =
      (x, y, c', m')"
  shows "print prev s color (c, m) = (c', m')"
proof -
  have c: "clip_line c = c" using l by (simp add: clip_line_def)
  have t: "takeWhile (\<lambda>ch. ch \<noteq> 0) s = s" using s(2) by (auto simp: takeWhile_eq_all_conv)
  have xy: "uint (PrintRow c) * 10 = int (10 * unat (PrintRow c))" "uint (PrintLine c) * 18 = int (18 * unat (PrintLine c))"
    by simp_all
  have "DrawString1 s (uint (PrintRow c) * 10) (uint (PrintLine c) * 18) color (c, m) = (c', m')"
    unfolding DrawString1_def prod.case t xy d ..
  moreover have "LastCharOf s = Some (last s)"
    using s strlen_no_zero [OF s(2)] by (simp add: LastCharOf_def last_conv_nth)
  moreover have "last s \<noteq> 10" using s last_in_set by metis
  ultimately show ?thesis by (simp add: print_def Let_def c)
qed

text \<open>C37: A text without control characters that fits on its line is printed as the glyphs of its
  characters, ten pixels apart, in the color given: every pixel of the screen is the one of the
  glyph, or of the wiped first column of its cell, or the one before; and the cursor moves behind
  the text.\<close>

theorem print_shows_text:
  "font_ok c \<Longrightarrow> s \<noteq> [] \<Longrightarrow> 0 \<notin> set s \<Longrightarrow> 9 \<notin> set s \<Longrightarrow> 10 \<notin> set s \<Longrightarrow>
   r = unat (PrintRow c) \<Longrightarrow> l = unat (PrintLine c) \<Longrightarrow>
   10 * (r + length s) \<le> unat (ScreenWidth c) \<Longrightarrow> 18 * l + 16 \<le> unat (ScreenHeigth c) \<Longrightarrow>
   fst (print prev s color (c, m)) = c\<lparr>PrintRow := of_nat (r + length s)\<rparr> \<and>
   (\<forall>x<unat (ScreenWidth c). \<forall>y<unat (ScreenHeigth c).
      pixel (screen c) (snd (print prev s color (c, m))) x y = text_pixel c m color s r l x y)"
proof -
  assume f: "font_ok c" and s: "s \<noteq> []" "0 \<notin> set s" "9 \<notin> set s" "10 \<notin> set s"
    and rl: "r = unat (PrintRow c)" "l = unat (PrintLine c)"
    and fit: "10 * (r + length s) \<le> unat (ScreenWidth c)" "18 * l + 16 \<le> unat (ScreenHeigth c)"
  obtain m' where m': "fold (put_char1 (int (10 * r)) color) s (int (10 * r), int (18 * l), c, m) =
      (int (10 * (r + length s)), int (18 * l), c\<lparr>PrintRow := of_nat (r + length s)\<rparr>, m')"
    "\<forall>x<unat (ScreenWidth c). \<forall>y<unat (ScreenHeigth c). pixel (screen c) m' x y = text_pixel c m color s r l x y"
    using fold_put_char1_pixels [OF f fit(2) rl(2) [symmetric] rl(1) [symmetric], of s "int (10 * r)" color m] fit(1) s(3,4) by auto
  have "PrintLine c \<le> ScreenHeigth c div 16" using fit(2) rl(2) by (simp add: word_le_nat_alt unat_div)
  with print_plain [OF s(1,2,4)] m'(1) rl have "print prev s color (c, m) = (c\<lparr>PrintRow := of_nat (r + length s)\<rparr>, m')"
    by simp
  then show ?thesis using m'(2) by simp
qed

lemma font_ok_demo: "font_ok demo_console"
proof -
  have "\<not> in_frame (screen demo_console) (0xF0000000 + of_nat k)" if "k < 94 * 32" for k
  proof -
    have e: "0xF0000000 + of_nat k - 0x80000000 = (of_nat (0x70000000 + k) :: addr)" by simp
    have "unat (of_nat (0x70000000 + k) :: addr) = 0x70000000 + k" using that by (intro unat64) simp
    then have "\<not> unat (0xF0000000 + of_nat k - 0x80000000 :: addr) < 4 * (1280 * 720)" unfolding e by simp
    then show ?thesis by (simp only: in_frame_def within_def screen_simps) (simp add: demo_console_def)
  qed
  then show ?thesis unfolding font_ok_def by (simp add: demo_console_def)
qed

lemma print_shows_text_witness:
  "PrintRow (fst (print 0 (bytes ''OK'') 0xFF00FF00 (demo_console, \<lambda>_. 0))) = 5"
proof -
  have s: "bytes ''OK'' \<noteq> []" "0 \<notin> set (bytes ''OK'')" "9 \<notin> set (bytes ''OK'')" "10 \<notin> set (bytes ''OK'')"
    by (simp_all add: bytes_def)
  have "length (bytes ''OK'') = 2" by (simp add: bytes_def)
  then show ?thesis
    using print_shows_text [OF font_ok_demo s refl refl, where prev = 0 and color = "0xFF00FF00" and m = "\<lambda>_. 0"]
    by (simp add: demo_console_def)
qed

section \<open>Lines below the screen\<close>

text \<open>A line takes 18 pixels, but the line number is put back only when it passes the height divided by
  16.  On the lines in between everything is drawn below the screen.\<close>

lemma DrawPoint_below: "ScreenHeigth c \<le> y \<Longrightarrow> DrawPoint c x y color m = m"
  by (simp add: DrawPoint_def)

lemma fold_same: "(\<And>i. i \<in> set is \<Longrightarrow> f i m = m) \<Longrightarrow> fold f is m = m"
  by (induction "is") auto

lemma put_char1_below:
  assumes l: "unat (PrintLine c) = l" "unat (ScreenHeigth c) \<le> 18 * l" "18 * l + 16 \<le> 65536"
    and x: "10 * r + 10 \<le> unat (ScreenWidth c)" and ch: "ch \<noteq> 10" "ch \<noteq> 9"
  shows "put_char1 startX color ch (int (10 * r), int (18 * l), c, m) =
    (int (10 * (r + 1)), int (18 * l), c\<lparr>PrintRow := PrintRow c + 1\<rparr>, m)"
proof -
  have cursor: "UpdateCursor c col m = m" for col
    unfolding UpdateCursor_def
  proof (rule fold_same)
    fix i assume "i \<in> set [0..<16]"
    then have "unat (PrintLine c * 18 + of_nat i) = 18 * l + i"
      using l by (simp add: unat_word_ariths unat_of_nat take_bit_nat_eq_self)
    then have "ScreenHeigth c \<le> PrintLine c * 18 + of_nat i" using l(2) by (simp add: word_le_nat_alt)
    then show "DrawPoint c (PrintRow c * 10) (PrintLine c * 18 + of_nat i) col m = m" by (rule DrawPoint_below)
  qed
  have char: "DrawChar c ch X (int (18 * l)) color m = m" for X
    unfolding DrawChar_def DrawChar_row_def Let_def
  proof (intro fold_same)
    fix row col :: nat assume "row \<in> set [0..<16]"
    have e: "word_of_int (int (18 * l) + int row) = (of_nat (18 * l + row) :: u16)" by simp
    have "unat (word_of_int (int (18 * l) + int row) :: u16) = 18 * l + row"
      unfolding e using l(3) \<open>row \<in> _\<close> by (simp add: unat_of_nat take_bit_nat_eq_self del: of_nat_add of_nat_mult)
    then have "ScreenHeigth c \<le> word_of_int (int (18 * l) + int row)" using l(2) by (simp add: word_le_nat_alt)
    then show "(if row_data c m ch row AND drop_bit col 0x8000 \<noteq> 0
        then DrawPoint c (word_of_int (X + int col)) (word_of_int (int (18 * l) + int row)) color m else m) = m"
      by (simp add: DrawPoint_below)
  qed
  show ?thesis
    unfolding put_char1_def Let_def prod.case cursor no_wrap [OF x] char using ch by simp
qed

lemma fold_put_char1_below:
  assumes l: "unat (PrintLine c) = l" "unat (ScreenHeigth c) \<le> 18 * l" "18 * l + 16 \<le> 65536"
  shows "10 * (r + length s) \<le> unat (ScreenWidth c) \<Longrightarrow> 9 \<notin> set s \<Longrightarrow> 10 \<notin> set s \<Longrightarrow>
    fold (put_char1 startX color) s (int (10 * r), int (18 * l), c\<lparr>PrintRow := p\<rparr>, m) =
      (int (10 * (r + length s)), int (18 * l), c\<lparr>PrintRow := p + of_nat (length s)\<rparr>, m)"
proof (induction s arbitrary: r p)
  case (Cons ch s)
  have "put_char1 startX color ch (int (10 * r), int (18 * l), c\<lparr>PrintRow := p\<rparr>, m) =
      (int (10 * (r + 1)), int (18 * l), c\<lparr>PrintRow := p + 1\<rparr>, m)"
    using put_char1_below [of "c\<lparr>PrintRow := p\<rparr>" l r ch startX color m] l Cons.prems by simp
  then show ?case using Cons.IH [of "r + 1" "p + 1"] Cons.prems by (simp add: add.assoc)
qed simp

text \<open>A text printed on a line below the screen is lost, though the cursor moves on: on a screen of
  720 rows the lines 40 to 45 lie below it, and only after line 45 does printing start again at
  the top.\<close>

theorem text_below_screen_lost:
  "s \<noteq> [] \<Longrightarrow> 0 \<notin> set s \<Longrightarrow> 9 \<notin> set s \<Longrightarrow> 10 \<notin> set s \<Longrightarrow>
   10 * (unat (PrintRow c) + length s) \<le> unat (ScreenWidth c) \<Longrightarrow> unat (PrintLine c) \<le> 3640 \<Longrightarrow>
   unat (ScreenHeigth c) \<le> 18 * unat (PrintLine c) \<Longrightarrow> PrintLine c \<le> ScreenHeigth c div 16 \<Longrightarrow>
   print prev s color (c, m) = (c\<lparr>PrintRow := PrintRow c + of_nat (length s)\<rparr>, m)"
proof -
  assume s: "s \<noteq> []" "0 \<notin> set s" "9 \<notin> set s" "10 \<notin> set s"
    and r: "10 * (unat (PrintRow c) + length s) \<le> unat (ScreenWidth c)"
    and l: "unat (PrintLine c) \<le> 3640" "unat (ScreenHeigth c) \<le> 18 * unat (PrintLine c)" "PrintLine c \<le> ScreenHeigth c div 16"
  have "fold (put_char1 (int (10 * unat (PrintRow c))) color) s (int (10 * unat (PrintRow c)), int (18 * unat (PrintLine c)), c, m) =
      (int (10 * (unat (PrintRow c) + length s)), int (18 * unat (PrintLine c)), c\<lparr>PrintRow := PrintRow c + of_nat (length s)\<rparr>, m)"
    using fold_put_char1_below [OF refl l(2) _ r s(3,4), of "int (10 * unat (PrintRow c))" color "PrintRow c" m] l(1) by simp
  from print_plain [OF s(1,2,4) l(3) this] show ?thesis .
qed

lemma text_below_screen_lost_witness:
  "print 0 (bytes ''OK'') 0xFF00FF00 (demo_console\<lparr>PrintLine := 42\<rparr>, \<lambda>_. 0) = (demo_console\<lparr>PrintLine := 42, PrintRow := 5\<rparr>, \<lambda>_. 0)"
proof -
  have s: "bytes ''OK'' \<noteq> []" "0 \<notin> set (bytes ''OK'')" "9 \<notin> set (bytes ''OK'')" "10 \<notin> set (bytes ''OK'')"
    by (simp_all add: bytes_def)
  have "length (bytes ''OK'') = 2" by (simp add: bytes_def)
  then show ?thesis
    using text_below_screen_lost [OF s, of "demo_console\<lparr>PrintLine := 42\<rparr>" 0 "0xFF00FF00" "\<lambda>_. 0"]
    by (simp add: demo_console_def word_le_nat_alt)
qed

text \<open>A text that is wrapped goes on under its first character, but \<^verbatim>\<open>PrintRow\<close> starts at 0: the
  next text is printed at another column.\<close>

theorem wrap_moves_cursor_elsewhere:
  "int x + 10 > uint (ScreenWidth c) \<Longrightarrow> ch \<noteq> 10 \<Longrightarrow> ch \<noteq> 9 \<Longrightarrow>
   \<exists>m'. put_char1 startX color ch (int x, y, c, m) =
     (startX + 10, y + 18, c\<lparr>PrintLine := PrintLine c + 1, PrintRow := 1\<rparr>, m')"
  by (simp add: put_char1_def Let_def wrap_line_def next_line_def)

section \<open>Clearing the screen\<close>

text \<open>With a driver on the same frame buffer every pixel gets the background color.\<close>

theorem ClearScreen_clears:
  "g_display_driver c = Some (info, True) \<Longrightarrow> framebuffer info = FrameBuffer c \<Longrightarrow> width info = ScreenWidth c \<Longrightarrow>
   height info = ScreenHeigth c \<Longrightarrow>
   \<exists>m'. ClearScreen (c, m) = Some (c\<lparr>PrintLine := 0, PrintRow := 0\<rparr>, m') \<and>
     (\<forall>x<unat (ScreenWidth c). \<forall>y<unat (ScreenHeigth c). pixel (screen c) m' x y = BgColor c)"
proof -
  assume d: "g_display_driver c = Some (info, True)" and i: "framebuffer info = FrameBuffer c" "width info = ScreenWidth c"
    "height info = ScreenHeigth c"
  let ?m = "bochs_fill_rect info (ucast (0 :: u16)) (ucast (0 :: u16)) (ucast (ScreenWidth c)) (ucast (ScreenHeigth c)) (BgColor c) m"
  have "painted info ({0..<unat (ScreenWidth c)} \<times> {0..<unat (ScreenHeigth c)}) (BgColor c) m ?m"
    using fill_rect_exact [of 0 "ucast (ScreenWidth c)" 0 "ucast (ScreenHeigth c)" info "BgColor c" m]
      unat_u16 [of "ScreenWidth c"] unat_u16 [of "ScreenHeigth c"] by simp
  then have p: "\<forall>x<unat (ScreenWidth c). \<forall>y<unat (ScreenHeigth c). pixel (screen c) ?m x y = BgColor c"
    using i by (simp add: painted_def pixel_def px_addr_def)
  have "\<forall>x<unat (ScreenWidth c). \<forall>y<unat (ScreenHeigth c). pixel (screen c) (f m') x y = BgColor c"
    if "\<forall>x<unat (ScreenWidth c). \<forall>y<unat (ScreenHeigth c). pixel (screen c) m' x y = BgColor c"
      and "painted (screen c) S (BgColor c) m' (f m')" for f S m'
    using that by (simp add: painted_def)
  moreover have "painted (screen c) (\<Union>i\<in>set [0..<16]. {(unat (PrintRow c * 10), unat (PrintLine c * 18 + of_nat i))}) (BgColor c) ?m
      (UpdateCursor c (BgColor c) ?m)"
    unfolding UpdateCursor_def by (rule painted_fold) (rule DrawPoint_painted)
  ultimately have "\<forall>x<unat (ScreenWidth c). \<forall>y<unat (ScreenHeigth c). pixel (screen c) (UpdateCursor c (BgColor c) ?m) x y = BgColor c"
    using p by blast
  then show ?thesis by (simp add: ClearScreen_def fillRect_def d)
qed

theorem clear_needs_driver: "g_display_driver c = None \<Longrightarrow> ClearScreen (c, m) = None"
  by (simp add: ClearScreen_def fillRect_def)

end
