(* ===== verification/Pci.thy ===== *)
theory Pci
  imports Hw
begin

text \<open>
  The PCI bus, \<^verbatim>\<open>Kernel/drives/pci.c\<close>: the configuration space behind two ports and the scans
  for storage controllers and display adapters.  The locale \<open>config_space\<close> is what the code relies
  on in the host bridge: a register that is addressed through the one port is read through the other.
\<close>

unbundle bit_operations_syntax

section \<open>Configuration space\<close>

definition PCI_CONFIG_ADDR :: u16 where "PCI_CONFIG_ADDR = 0xCF8"
definition PCI_CONFIG_DATA :: u16 where "PCI_CONFIG_DATA = 0xCFC"
definition PCI_CLASS_MASS_STORAGE :: u8 where "PCI_CLASS_MASS_STORAGE = 1"
definition PCI_CLASS_DISPLAY :: u8 where "PCI_CLASS_DISPLAY = 3"

definition config_address :: "u8 \<Rightarrow> u8 \<Rightarrow> u8 \<Rightarrow> u8 \<Rightarrow> u32" where
  "config_address bus dev fn offset =
     push_bit 31 1 OR push_bit 16 (ucast bus) OR push_bit 11 (ucast dev) OR push_bit 8 (ucast fn) OR ucast (offset AND 0xFC)"

definition pci_config_read :: "'d hw \<Rightarrow> u8 \<Rightarrow> u8 \<Rightarrow> u8 \<Rightarrow> u8 \<Rightarrow> 'd \<Rightarrow> u32 \<times> 'd" where
  "pci_config_read hw bus dev fn offset d =
     inl hw PCI_CONFIG_DATA (outl hw PCI_CONFIG_ADDR (config_address bus dev fn offset) d)"

definition pci_config_write :: "'d hw \<Rightarrow> u8 \<Rightarrow> u8 \<Rightarrow> u8 \<Rightarrow> u8 \<Rightarrow> u32 \<Rightarrow> 'd \<Rightarrow> 'd" where
  "pci_config_write hw bus dev fn offset v d =
     outl hw PCI_CONFIG_DATA v (outl hw PCI_CONFIG_ADDR (config_address bus dev fn offset) d)"

definition pci_device_exists :: "'d hw \<Rightarrow> u8 \<Rightarrow> u8 \<Rightarrow> u8 \<Rightarrow> 'd \<Rightarrow> bool \<times> 'd" where
  "pci_device_exists hw bus dev fn d =
     (let (vendor, d) = pci_config_read hw bus dev fn 0 d in (vendor AND 0xFFFF \<noteq> 0xFFFF, d))"

section \<open>Devices\<close>

record pci_function =
  bus :: u8
  device :: u8
  func :: u8
  vendor_id :: u16
  device_id :: u16
  class_code :: u8
  sub_class :: u8
  prog_if :: u8
  revision :: u8
  bar :: "u32 list"
  irq_line :: u8

record pci_device = pci_function +
  header_type :: u8

record gpu_device = pci_function +
  gpu_type :: u8
  capabilities :: u32
  vbe_version :: u16

fun read_bars :: "'d hw \<Rightarrow> u8 \<Rightarrow> u8 \<Rightarrow> u8 \<Rightarrow> nat list \<Rightarrow> 'd \<Rightarrow> u32 list \<times> 'd" where
  "read_bars hw b dev fn [] d = ([], d)"
| "read_bars hw b dev fn (i # is) d =
     (let (v, d) = pci_config_read hw b dev fn (0x10 + of_nat i * 4) d; (vs, d) = read_bars hw b dev fn is d
      in (v # vs, d))"

definition PCI_Read_Device_Info :: "'d hw \<Rightarrow> u8 \<Rightarrow> u8 \<Rightarrow> u8 \<Rightarrow> 'd \<Rightarrow> pci_device \<times> 'd" where
  "PCI_Read_Device_Info hw b dev fn d =
     (let (id_reg, d) = pci_config_read hw b dev fn 0x00 d;
          (class_reg, d) = pci_config_read hw b dev fn 0x08 d;
          (htype_reg, d) = pci_config_read hw b dev fn 0x0C d;
          (bars, d) = read_bars hw b dev fn [0..<6] d;
          (irq_reg, d) = pci_config_read hw b dev fn 0x3C d
      in (\<lparr>bus = b, device = dev, func = fn, vendor_id = ucast (id_reg AND 0xFFFF),
           device_id = ucast (drop_bit 16 id_reg AND 0xFFFF), class_code = byte_at 24 class_reg,
           sub_class = byte_at 16 class_reg, prog_if = byte_at 8 class_reg, revision = byte_at 0 class_reg,
           bar = bars, irq_line = byte_at 0 irq_reg, header_type = byte_at 16 htype_reg\<rparr>, d))"

section \<open>Scans\<close>

text \<open>Whether the scan goes on after a function: after function 0 of a device with one function it
  does not.\<close>

definition goes_on :: "'d hw \<Rightarrow> u8 \<Rightarrow> u8 \<Rightarrow> 'd \<Rightarrow> bool \<times> 'd" where
  "goes_on hw dev fn d =
     (if fn = 0
      then let (htype_reg, d) = pci_config_read hw 0 dev 0 0x0C d in (byte_at 16 htype_reg AND 0x80 \<noteq> 0, d)
      else (True, d))"

fun storage_funcs :: "'d hw \<Rightarrow> int \<Rightarrow> u8 \<Rightarrow> u8 list \<Rightarrow> pci_device list \<Rightarrow> 'd \<Rightarrow> pci_device list \<times> 'd" where
  "storage_funcs hw max_count dev [] result d = (result, d)"
| "storage_funcs hw max_count dev (fn # fns) result d =
     (let (ex, d) = pci_device_exists hw 0 dev fn d
      in if \<not> ex
         then let (on, d) = goes_on hw dev fn d
              in if on then storage_funcs hw max_count dev fns result d else (result, d)
         else let (class_reg, d) = pci_config_read hw 0 dev fn 0x08 d
              in if byte_at 24 class_reg \<noteq> PCI_CLASS_MASS_STORAGE
                 then let (on, d) = goes_on hw dev fn d
                      in if on then storage_funcs hw max_count dev fns result d else (result, d)
                 else let (result, d) =
                            (if int (length result) < max_count
                             then let (info, d) = PCI_Read_Device_Info hw 0 dev fn d in (result @ [info], d)
                             else (result, d));
                          (on, d) = goes_on hw dev fn d
                      in if on then storage_funcs hw max_count dev fns result d else (result, d))"

fun storage_devs :: "'d hw \<Rightarrow> int \<Rightarrow> u8 list \<Rightarrow> pci_device list \<Rightarrow> 'd \<Rightarrow> pci_device list \<times> 'd" where
  "storage_devs hw max_count [] result d = (result, d)"
| "storage_devs hw max_count (dev # devs) result d =
     (let (result, d) = storage_funcs hw max_count dev [0, 1, 2, 3, 4, 5, 6, 7] result d
      in storage_devs hw max_count devs result d)"

definition pci_find_storage_controllers :: "'d hw \<Rightarrow> int \<Rightarrow> 'd \<Rightarrow> pci_device list \<times> 'd" where
  "pci_find_storage_controllers hw max_count d = storage_devs hw max_count (map of_nat [0..<32]) [] d"

text \<open>The scan for display adapters returns at once when the array is full: \<open>True\<close>.\<close>

definition gpu_of :: "pci_device \<Rightarrow> gpu_device" where
  "gpu_of pci = \<lparr>bus = bus pci, device = device pci, func = func pci, vendor_id = vendor_id pci, device_id = device_id pci,
     class_code = class_code pci, sub_class = sub_class pci, prog_if = prog_if pci, revision = revision pci, bar = bar pci,
     irq_line = irq_line pci, gpu_type = 0, capabilities = 0, vbe_version = 0\<rparr>"

fun gpu_funcs :: "'d hw \<Rightarrow> int \<Rightarrow> u8 \<Rightarrow> u8 list \<Rightarrow> gpu_device list \<Rightarrow> 'd \<Rightarrow> bool \<times> gpu_device list \<times> 'd" where
  "gpu_funcs hw max_count dev [] result d = (False, result, d)"
| "gpu_funcs hw max_count dev (fn # fns) result d =
     (let (ex, d) = pci_device_exists hw 0 dev fn d
      in if \<not> ex
         then let (on, d) = goes_on hw dev fn d
              in if on then gpu_funcs hw max_count dev fns result d else (False, result, d)
         else let (class_reg, d) = pci_config_read hw 0 dev fn 0x08 d
              in if byte_at 24 class_reg \<noteq> PCI_CLASS_DISPLAY
                 then let (on, d) = goes_on hw dev fn d
                      in if on then gpu_funcs hw max_count dev fns result d else (False, result, d)
                 else if max_count \<le> int (length result) then (True, result, d)
                 else let (pci, d) = PCI_Read_Device_Info hw 0 dev fn d;
                          result = result @ [gpu_of pci];
                          (on, d) = goes_on hw dev fn d
                      in if on then gpu_funcs hw max_count dev fns result d else (False, result, d))"

fun gpu_devs :: "'d hw \<Rightarrow> int \<Rightarrow> u8 list \<Rightarrow> gpu_device list \<Rightarrow> 'd \<Rightarrow> gpu_device list \<times> 'd" where
  "gpu_devs hw max_count [] result d = (result, d)"
| "gpu_devs hw max_count (dev # devs) result d =
     (let (stop, result, d) = gpu_funcs hw max_count dev [0, 1, 2, 3, 4, 5, 6, 7] result d
      in if stop then (result, d) else gpu_devs hw max_count devs result d)"

definition pci_scan_gpu :: "'d hw \<Rightarrow> int \<Rightarrow> 'd \<Rightarrow> gpu_device list \<times> 'd" where
  "pci_scan_gpu hw max_count d = gpu_devs hw max_count (map of_nat [0..<32]) [] d"

section \<open>What is on the bus\<close>

text \<open>The functions on bus 0, read off the registers.\<close>

definition reg :: "(u32 \<Rightarrow> u32) \<Rightarrow> u8 \<Rightarrow> u8 \<Rightarrow> u8 \<Rightarrow> u32" where
  "reg c dev fn offset = c (config_address 0 dev fn offset)"

definition present :: "(u32 \<Rightarrow> u32) \<Rightarrow> u8 \<Rightarrow> u8 \<Rightarrow> bool" where
  "present c dev fn \<longleftrightarrow> reg c dev fn 0 AND 0xFFFF \<noteq> 0xFFFF"

definition multi_function :: "(u32 \<Rightarrow> u32) \<Rightarrow> u8 \<Rightarrow> bool" where
  "multi_function c dev \<longleftrightarrow> byte_at 16 (reg c dev 0 0x0C) AND 0x80 \<noteq> 0"

definition function_info :: "(u32 \<Rightarrow> u32) \<Rightarrow> u8 \<Rightarrow> u8 \<Rightarrow> pci_device" where
  "function_info c dev fn =
     \<lparr>bus = 0, device = dev, func = fn, vendor_id = ucast (reg c dev fn 0 AND 0xFFFF),
      device_id = ucast (drop_bit 16 (reg c dev fn 0) AND 0xFFFF), class_code = byte_at 24 (reg c dev fn 8),
      sub_class = byte_at 16 (reg c dev fn 8), prog_if = byte_at 8 (reg c dev fn 8), revision = byte_at 0 (reg c dev fn 8),
      bar = map (\<lambda>i. reg c dev fn (0x10 + of_nat i * 4)) [0..<6], irq_line = byte_at 0 (reg c dev fn 0x3C),
      header_type = byte_at 16 (reg c dev fn 0x0C)\<rparr>"

definition of_class :: "u8 \<Rightarrow> (u32 \<Rightarrow> u32) \<Rightarrow> u8 \<Rightarrow> u8 list \<Rightarrow> pci_device list" where
  "of_class cl c dev fns = filter (\<lambda>p. class_code p = cl) (map (function_info c dev) (filter (present c dev) fns))"

text \<open>A device with one function has function 0 only.\<close>

definition scanned :: "(u32 \<Rightarrow> u32) \<Rightarrow> u8 \<Rightarrow> u8 list" where
  "scanned c dev = (if multi_function c dev then [0, 1, 2, 3, 4, 5, 6, 7] else [0])"

definition bus_scan :: "u8 \<Rightarrow> (u32 \<Rightarrow> u32) \<Rightarrow> pci_device list" where
  "bus_scan cl c = concat (map (\<lambda>dev. of_class cl c dev (scanned c dev)) (map of_nat [0..<32]))"

text \<open>What an array for \<open>n\<close> entries holds after more are offered.\<close>

definition fill :: "int \<Rightarrow> 'a list \<Rightarrow> 'a list \<Rightarrow> 'a list" where
  "fill n result xs = result @ take (nat n - length result) xs"

lemma fill_Nil [simp]: "fill n result [] = result"
  by (simp add: fill_def)

lemma fill_Cons: "fill n result (x # xs) = fill n (if int (length result) < n then result @ [x] else result) xs"
proof (cases "int (length result) < n")
  case True
  then have "nat n - length result = Suc (nat n - Suc (length result))" by linarith
  then show ?thesis using True by (simp add: fill_def)
next
  case False
  then have "nat n - length result = 0" by linarith
  then show ?thesis using False by (simp add: fill_def)
qed

lemma fill_append: "fill n result (xs @ ys) = fill n (fill n result xs) ys"
  by (induction xs arbitrary: result) (simp_all add: fill_Cons)

lemma fill_full: "n \<le> int (length result) \<Longrightarrow> fill n result xs = result"
proof -
  assume "n \<le> int (length result)"
  then have "nat n - length result = 0" by linarith
  then show ?thesis by (simp add: fill_def)
qed

lemma of_class_append: "of_class cl c dev (fns @ gns) = of_class cl c dev fns @ of_class cl c dev gns"
  by (simp add: of_class_def)

lemma of_class_Cons:
  "of_class cl c dev (fn # fns) =
     (if present c dev fn \<and> byte_at 24 (reg c dev fn 8) = cl then [function_info c dev fn] else []) @ of_class cl c dev fns"
  by (simp add: of_class_def function_info_def)

section \<open>The scans on a configuration space\<close>

locale config_space =
  fixes hw :: "'d hw" and cfg :: "'d \<Rightarrow> u32 \<Rightarrow> u32"
  assumes read_value: "fst (inl hw PCI_CONFIG_DATA (outl hw PCI_CONFIG_ADDR a d)) = cfg d a"
    and read_keeps: "cfg (snd (inl hw PCI_CONFIG_DATA (outl hw PCI_CONFIG_ADDR a d))) = cfg d"
begin

lemma config_read:
  "fst (pci_config_read hw b dev fn off d) = cfg d (config_address b dev fn off)"
  "cfg (snd (pci_config_read hw b dev fn off d)) = cfg d"
  by (simp_all add: pci_config_read_def read_value read_keeps)

lemma config_readE:
  obtains d' where "pci_config_read hw 0 dev fn off d = (reg (cfg d) dev fn off, d')" "cfg d' = cfg d"
  using config_read [of 0 dev fn off d] by (cases "pci_config_read hw 0 dev fn off d") (auto simp: reg_def)

lemma existsE:
  obtains d' where "pci_device_exists hw 0 dev fn d = (present (cfg d) dev fn, d')" "cfg d' = cfg d"
proof -
  obtain d' where "pci_config_read hw 0 dev fn 0 d = (reg (cfg d) dev fn 0, d')" "cfg d' = cfg d" by (rule config_readE)
  then show ?thesis using that by (simp add: pci_device_exists_def present_def)
qed

lemma goes_onE:
  obtains d' where "goes_on hw dev fn d = (fn = 0 \<longrightarrow> multi_function (cfg d) dev, d')" "cfg d' = cfg d"
proof -
  obtain d' where "pci_config_read hw 0 dev 0 0x0C d = (reg (cfg d) dev 0 0x0C, d')" "cfg d' = cfg d" by (rule config_readE)
  then show ?thesis using that by (cases "fn = 0") (auto simp: goes_on_def multi_function_def)
qed

lemma barsE:
  obtains d' where "read_bars hw 0 dev fn is d = (map (\<lambda>i. reg (cfg d) dev fn (0x10 + of_nat i * 4)) is, d')" "cfg d' = cfg d"
proof -
  have "\<exists>d'. read_bars hw 0 dev fn is d = (map (\<lambda>i. reg (cfg d) dev fn (0x10 + of_nat i * 4)) is, d') \<and> cfg d' = cfg d"
  proof (induction "is" arbitrary: d)
    case (Cons i "is")
    obtain d1 where d1: "pci_config_read hw 0 dev fn (0x10 + of_nat i * 4) d = (reg (cfg d) dev fn (0x10 + of_nat i * 4), d1)"
      "cfg d1 = cfg d" by (rule config_readE)
    then show ?case using Cons [of d1] by (auto simp: Let_def)
  qed simp
  then show ?thesis using that by blast
qed

lemma infoE:
  obtains d' where "PCI_Read_Device_Info hw 0 dev fn d = (function_info (cfg d) dev fn, d')" "cfg d' = cfg d"
proof -
  obtain d1 where 1: "pci_config_read hw 0 dev fn 0x00 d = (reg (cfg d) dev fn 0x00, d1)" "cfg d1 = cfg d" by (rule config_readE)
  obtain d2 where 2: "pci_config_read hw 0 dev fn 0x08 d1 = (reg (cfg d1) dev fn 0x08, d2)" "cfg d2 = cfg d1" by (rule config_readE)
  obtain d3 where 3: "pci_config_read hw 0 dev fn 0x0C d2 = (reg (cfg d2) dev fn 0x0C, d3)" "cfg d3 = cfg d2" by (rule config_readE)
  obtain d4 where 4: "read_bars hw 0 dev fn [0..<6] d3 = (map (\<lambda>i. reg (cfg d3) dev fn (0x10 + of_nat i * 4)) [0..<6], d4)"
    "cfg d4 = cfg d3" by (rule barsE)
  obtain d5 where 5: "pci_config_read hw 0 dev fn 0x3C d4 = (reg (cfg d4) dev fn 0x3C, d5)" "cfg d5 = cfg d4" by (rule config_readE)
  have "PCI_Read_Device_Info hw 0 dev fn d = (function_info (cfg d) dev fn, d5)"
    unfolding PCI_Read_Device_Info_def function_info_def Let_def 1 2 3 4 5 prod.case ..
  then show ?thesis using that 1 2 3 4 5 by simp
qed

lemma storage_step:
  "\<exists>d'. cfg d' = cfg d \<and> storage_funcs hw n dev (fn # fns) result d =
     (let result = fill n result (of_class PCI_CLASS_MASS_STORAGE (cfg d) dev [fn])
      in if fn = 0 \<longrightarrow> multi_function (cfg d) dev then storage_funcs hw n dev fns result d' else (result, d'))"
proof -
  obtain d1 where e1: "pci_device_exists hw 0 dev fn d = (present (cfg d) dev fn, d1)" "cfg d1 = cfg d" by (rule existsE)
  obtain d2 where e2: "goes_on hw dev fn d1 = (fn = 0 \<longrightarrow> multi_function (cfg d1) dev, d2)" "cfg d2 = cfg d1" by (rule goes_onE)
  obtain d3 where e3: "pci_config_read hw 0 dev fn 8 d1 = (reg (cfg d1) dev fn 8, d3)" "cfg d3 = cfg d1" by (rule config_readE)
  obtain d4 where e4: "goes_on hw dev fn d3 = (fn = 0 \<longrightarrow> multi_function (cfg d3) dev, d4)" "cfg d4 = cfg d3" by (rule goes_onE)
  obtain d5 where e5: "PCI_Read_Device_Info hw 0 dev fn d3 = (function_info (cfg d3) dev fn, d5)" "cfg d5 = cfg d3" by (rule infoE)
  obtain d6 where e6: "goes_on hw dev fn d5 = (fn = 0 \<longrightarrow> multi_function (cfg d5) dev, d6)" "cfg d6 = cfg d5" by (rule goes_onE)
  let ?c = "byte_at 24 (reg (cfg d) dev fn 8) = PCI_CLASS_MASS_STORAGE"
  consider "\<not> present (cfg d) dev fn" | "present (cfg d) dev fn" "\<not> ?c"
    | "present (cfg d) dev fn" ?c "int (length result) < n" | "present (cfg d) dev fn" ?c "\<not> int (length result) < n" by blast
  then show ?thesis
  proof cases
    case 1
    then show ?thesis using e1 goes_onE [of dev fn d1] e2 by (intro exI [of _ d2]) (simp add: of_class_def)
  next
    case 2
    then show ?thesis using e1 e3 e4 by (intro exI [of _ d4]) (simp add: of_class_Cons, simp add: of_class_def)
  next
    case 3
    then show ?thesis using e1 e3 e5 e6
      by (intro exI [of _ d6]) (simp add: of_class_Cons fill_Cons, simp add: of_class_def)
  next
    case 4
    then show ?thesis using e1 e3 e4
      by (intro exI [of _ d4]) (simp add: of_class_Cons fill_Cons, simp add: of_class_def)
  qed
qed

lemma storage_rest:
  "0 \<notin> set fns \<Longrightarrow>
   \<exists>d'. cfg d' = cfg d \<and> storage_funcs hw n dev fns result d = (fill n result (of_class PCI_CLASS_MASS_STORAGE (cfg d) dev fns), d')"
proof (induction fns arbitrary: result d)
  case Nil
  then show ?case by (auto simp: of_class_def)
next
  case (Cons fn fns)
  let ?r = "fill n result (of_class PCI_CLASS_MASS_STORAGE (cfg d) dev [fn])"
  obtain d1 where 1: "cfg d1 = cfg d" "storage_funcs hw n dev (fn # fns) result d = storage_funcs hw n dev fns ?r d1"
    using storage_step [of d n dev fn fns result] Cons.prems by (auto simp: Let_def)
  obtain d2 where "cfg d2 = cfg d1"
    "storage_funcs hw n dev fns ?r d1 = (fill n ?r (of_class PCI_CLASS_MASS_STORAGE (cfg d1) dev fns), d2)"
    using Cons.IH [of d1 ?r] Cons.prems by auto
  then show ?case using 1 of_class_append [of _ _ _ "[fn]" fns] by (auto simp: fill_append)
qed

lemma storage_device:
  "\<exists>d'. cfg d' = cfg d \<and> storage_funcs hw n dev [0, 1, 2, 3, 4, 5, 6, 7] result d =
     (fill n result (of_class PCI_CLASS_MASS_STORAGE (cfg d) dev (scanned (cfg d) dev)), d')"
proof -
  let ?r = "fill n result (of_class PCI_CLASS_MASS_STORAGE (cfg d) dev [0])"
  obtain d1 where 1: "cfg d1 = cfg d" "storage_funcs hw n dev [0, 1, 2, 3, 4, 5, 6, 7] result d =
      (if multi_function (cfg d) dev then storage_funcs hw n dev [1, 2, 3, 4, 5, 6, 7] ?r d1 else (?r, d1))"
    using storage_step [of d n dev 0 "[1, 2, 3, 4, 5, 6, 7]" result] by (auto simp: Let_def)
  obtain d2 where 2: "cfg d2 = cfg d1" "storage_funcs hw n dev [1, 2, 3, 4, 5, 6, 7] ?r d1 =
      (fill n ?r (of_class PCI_CLASS_MASS_STORAGE (cfg d1) dev [1, 2, 3, 4, 5, 6, 7]), d2)"
    using storage_rest [of "[1, 2, 3, 4, 5, 6, 7]" d1 n dev ?r] by auto
  show ?thesis
    using 1 2 of_class_append [of PCI_CLASS_MASS_STORAGE "cfg d" dev "[0]" "[1, 2, 3, 4, 5, 6, 7]"]
    by (cases "multi_function (cfg d) dev") (auto simp: scanned_def fill_append)
qed

lemma storage_all:
  "\<exists>d'. cfg d' = cfg d \<and> storage_devs hw n devs result d =
     (fill n result (concat (map (\<lambda>dev. of_class PCI_CLASS_MASS_STORAGE (cfg d) dev (scanned (cfg d) dev)) devs)), d')"
proof (induction devs arbitrary: result d)
  case (Cons dev devs)
  let ?r = "fill n result (of_class PCI_CLASS_MASS_STORAGE (cfg d) dev (scanned (cfg d) dev))"
  obtain d1 where 1: "cfg d1 = cfg d" "storage_funcs hw n dev [0, 1, 2, 3, 4, 5, 6, 7] result d = (?r, d1)"
    using storage_device by blast
  then show ?case using Cons [of d1 ?r] by (auto simp: fill_append)
qed auto

lemma storage_scan:
  "\<exists>d'. cfg d' = cfg d \<and> pci_find_storage_controllers hw n d = (take (nat n) (bus_scan PCI_CLASS_MASS_STORAGE (cfg d)), d')"
  using storage_all [of d n "map of_nat [0..<32]" "[]"] by (simp add: pci_find_storage_controllers_def bus_scan_def fill_def)

text \<open>The same for display adapters; the scan may stop early, but only with a full array.\<close>

lemma gpu_step:
  "\<exists>d'. cfg d' = cfg d \<and> gpu_funcs hw n dev (fn # fns) result d =
     (let new = map gpu_of (of_class PCI_CLASS_DISPLAY (cfg d) dev [fn])
      in if new \<noteq> [] \<and> n \<le> int (length result) then (True, result, d')
         else if fn = 0 \<longrightarrow> multi_function (cfg d) dev then gpu_funcs hw n dev fns (result @ new) d' else (False, result @ new, d'))"
proof -
  obtain d1 where e1: "pci_device_exists hw 0 dev fn d = (present (cfg d) dev fn, d1)" "cfg d1 = cfg d" by (rule existsE)
  obtain d2 where e2: "goes_on hw dev fn d1 = (fn = 0 \<longrightarrow> multi_function (cfg d1) dev, d2)" "cfg d2 = cfg d1" by (rule goes_onE)
  obtain d3 where e3: "pci_config_read hw 0 dev fn 8 d1 = (reg (cfg d1) dev fn 8, d3)" "cfg d3 = cfg d1" by (rule config_readE)
  obtain d4 where e4: "goes_on hw dev fn d3 = (fn = 0 \<longrightarrow> multi_function (cfg d3) dev, d4)" "cfg d4 = cfg d3" by (rule goes_onE)
  obtain d5 where e5: "PCI_Read_Device_Info hw 0 dev fn d3 = (function_info (cfg d3) dev fn, d5)" "cfg d5 = cfg d3" by (rule infoE)
  obtain d6 where e6: "goes_on hw dev fn d5 = (fn = 0 \<longrightarrow> multi_function (cfg d5) dev, d6)" "cfg d6 = cfg d5" by (rule goes_onE)
  let ?c = "byte_at 24 (reg (cfg d) dev fn 8) = PCI_CLASS_DISPLAY"
  consider "\<not> present (cfg d) dev fn" | "present (cfg d) dev fn" "\<not> ?c"
    | "present (cfg d) dev fn" ?c "n \<le> int (length result)" | "present (cfg d) dev fn" ?c "\<not> n \<le> int (length result)" by blast
  then show ?thesis
  proof cases
    case 1
    then show ?thesis using e1 e2 by (intro exI [of _ d2]) (simp add: of_class_def)
  next
    case 2
    then show ?thesis using e1 e3 e4 by (intro exI [of _ d4]) (simp add: of_class_Cons, simp add: of_class_def)
  next
    case 3
    then show ?thesis using e1 e3 by (intro exI [of _ d3]) (simp add: of_class_Cons)
  next
    case 4
    then show ?thesis using e1 e3 e5 e6 by (intro exI [of _ d6]) (simp add: of_class_Cons Let_def, simp add: of_class_def)
  qed
qed

lemma gpu_rest:
  "0 \<notin> set fns \<Longrightarrow>
   \<exists>stop d'. cfg d' = cfg d \<and> (stop \<longrightarrow> n \<le> int (length (fill n result (map gpu_of (of_class PCI_CLASS_DISPLAY (cfg d) dev fns))))) \<and>
     gpu_funcs hw n dev fns result d = (stop, fill n result (map gpu_of (of_class PCI_CLASS_DISPLAY (cfg d) dev fns)), d')"
proof (induction fns arbitrary: result d)
  case Nil
  then show ?case by (auto simp: of_class_def)
next
  case (Cons fn fns)
  let ?new = "map gpu_of (of_class PCI_CLASS_DISPLAY (cfg d) dev [fn])"
  have all: "map gpu_of (of_class PCI_CLASS_DISPLAY (cfg d) dev (fn # fns)) = ?new @ map gpu_of (of_class PCI_CLASS_DISPLAY (cfg d) dev fns)"
    using of_class_append [of PCI_CLASS_DISPLAY "cfg d" dev "[fn]" fns] by simp
  obtain d1 where 1: "cfg d1 = cfg d" "gpu_funcs hw n dev (fn # fns) result d =
      (if ?new \<noteq> [] \<and> n \<le> int (length result) then (True, result, d1) else gpu_funcs hw n dev fns (result @ ?new) d1)"
    using gpu_step [of d n dev fn fns result] Cons.prems by (auto simp: Let_def)
  show ?case
  proof (cases "?new \<noteq> [] \<and> n \<le> int (length result)")
    case True
    then show ?thesis using 1 by (intro exI [of _ True] exI [of _ d1]) (simp add: fill_full)
  next
    case False
    have "fill n result ?new = result @ ?new"
      using False by (auto simp: of_class_Cons fill_Cons of_class_def)
    then show ?thesis using 1 False Cons.IH [of d1 "result @ ?new"] Cons.prems unfolding all fill_append by auto
  qed
qed

lemma gpu_device:
  "\<exists>stop d'. cfg d' = cfg d \<and>
     (stop \<longrightarrow> n \<le> int (length (fill n result (map gpu_of (of_class PCI_CLASS_DISPLAY (cfg d) dev (scanned (cfg d) dev)))))) \<and>
     gpu_funcs hw n dev [0, 1, 2, 3, 4, 5, 6, 7] result d =
       (stop, fill n result (map gpu_of (of_class PCI_CLASS_DISPLAY (cfg d) dev (scanned (cfg d) dev))), d')"
proof -
  let ?all = "map gpu_of (of_class PCI_CLASS_DISPLAY (cfg d) dev (scanned (cfg d) dev))"
  let ?new = "map gpu_of (of_class PCI_CLASS_DISPLAY (cfg d) dev [0])"
  let ?rest = "map gpu_of (of_class PCI_CLASS_DISPLAY (cfg d) dev [1, 2, 3, 4, 5, 6, 7])"
  have all: "?all = (if multi_function (cfg d) dev then ?new @ ?rest else ?new)"
    using of_class_append [of PCI_CLASS_DISPLAY "cfg d" dev "[0]" "[1, 2, 3, 4, 5, 6, 7]"] by (simp add: scanned_def)
  obtain d1 where 1: "cfg d1 = cfg d" "gpu_funcs hw n dev [0, 1, 2, 3, 4, 5, 6, 7] result d =
      (if ?new \<noteq> [] \<and> n \<le> int (length result) then (True, result, d1)
       else if multi_function (cfg d) dev then gpu_funcs hw n dev [1, 2, 3, 4, 5, 6, 7] (result @ ?new) d1
       else (False, result @ ?new, d1))"
    using gpu_step [of d n dev 0 "[1, 2, 3, 4, 5, 6, 7]" result] by (auto simp: Let_def simp del: gpu_funcs.simps)
  show ?thesis
  proof (cases "?new \<noteq> [] \<and> n \<le> int (length result)")
    case True
    then show ?thesis using 1 by (intro exI [of _ True] exI [of _ d1]) (simp add: fill_full del: gpu_funcs.simps)
  next
    case False
    have new: "fill n result ?new = result @ ?new"
      using False by (auto simp: of_class_Cons fill_Cons of_class_def)
    obtain stop d2 where 2: "cfg d2 = cfg d1" "stop \<longrightarrow> n \<le> int (length (fill n (result @ ?new) ?rest))"
      "gpu_funcs hw n dev [1, 2, 3, 4, 5, 6, 7] (result @ ?new) d1 = (stop, fill n (result @ ?new) ?rest, d2)"
      using gpu_rest [of "[1, 2, 3, 4, 5, 6, 7]" d1 n "result @ ?new" dev] 1(1) by (auto simp del: gpu_funcs.simps)
    show ?thesis
    proof (cases "multi_function (cfg d) dev")
      case True
      then show ?thesis using 1 2 False unfolding all
        by (intro exI [of _ stop] exI [of _ d2]) (auto simp: fill_append new simp del: gpu_funcs.simps)
    next
      case single: False
      then show ?thesis using 1 False unfolding all
        by (intro exI [of _ False] exI [of _ d1]) (auto simp: new simp del: gpu_funcs.simps)
    qed
  qed
qed

lemma gpu_all:
  "\<exists>d'. cfg d' = cfg d \<and> gpu_devs hw n devs result d =
     (fill n result (map gpu_of (concat (map (\<lambda>dev. of_class PCI_CLASS_DISPLAY (cfg d) dev (scanned (cfg d) dev)) devs))), d')"
proof (induction devs arbitrary: result d)
  case (Cons dev devs)
  let ?r = "fill n result (map gpu_of (of_class PCI_CLASS_DISPLAY (cfg d) dev (scanned (cfg d) dev)))"
  obtain stop d1 where 1: "cfg d1 = cfg d" "stop \<longrightarrow> n \<le> int (length ?r)"
    "gpu_funcs hw n dev [0, 1, 2, 3, 4, 5, 6, 7] result d = (stop, ?r, d1)"
    using gpu_device [of d n result dev] by blast
  show ?case
  proof (cases stop)
    case True
    then show ?thesis using 1 by (intro exI [of _ d1]) (simp add: fill_append fill_full del: gpu_funcs.simps)
  next
    case False
    then show ?thesis using 1 Cons [of d1 ?r] by (auto simp: fill_append simp del: gpu_funcs.simps)
  qed
qed auto

lemma gpu_scan:
  "\<exists>d'. cfg d' = cfg d \<and> pci_scan_gpu hw n d = (take (nat n) (map gpu_of (bus_scan PCI_CLASS_DISPLAY (cfg d))), d')"
  using gpu_all [of d n "map of_nat [0..<32]" "[]"] by (simp add: pci_scan_gpu_def bus_scan_def fill_def)

end

section \<open>A host bridge\<close>

text \<open>Configuration mechanism 1: the last address written to \<^verbatim>\<open>0xCF8\<close> selects the register that
  \<^verbatim>\<open>0xCFC\<close> reads and writes; the devices' registers are a map, the other ports float.\<close>

record bridge =
  latch :: u32
  regs :: "u32 \<Rightarrow> u32"

definition bridge_ports :: "'a bridge_scheme hw" where
  "bridge_ports = \<lparr>inb = (\<lambda>_ d. (0xFF, d)), inw = (\<lambda>_ d. (0xFFFF, d)),
     inl = (\<lambda>p d. (if p = PCI_CONFIG_DATA then regs d (latch d) else 0xFFFFFFFF, d)),
     outb = (\<lambda>_ _ d. d), outw = (\<lambda>_ _ d. d),
     outl = (\<lambda>p v d. if p = PCI_CONFIG_ADDR then d\<lparr>latch := v\<rparr>
                     else if p = PCI_CONFIG_DATA then d\<lparr>regs := (regs d)(latch d := v)\<rparr> else d),
     rdtsc = (\<lambda>d. (0, d)), SYSTEM_CPU_Frequency = 0\<rparr>"

interpretation host: config_space bridge_ports regs
  by unfold_locales (simp_all add: bridge_ports_def PCI_CONFIG_ADDR_def PCI_CONFIG_DATA_def)

section \<open>Addresses\<close>

text \<open>An address names bus, device, function and register: for a device below 32 and a function below 8 no
  field runs into another.\<close>

lemma bit_config_address:
  "n < 32 \<Longrightarrow> bit (config_address b dev fn off) n \<longleftrightarrow>
     n = 31 \<or> 16 \<le> n \<and> bit b (n - 16) \<or> 11 \<le> n \<and> bit dev (n - 11) \<or> 8 \<le> n \<and> bit fn (n - 8) \<or> bit (off AND 0xFC) n"
  by (simp only: config_address_def bit_or_iff bit_push_bit_iff bit_1_iff bit_ucast_iff) (auto dest: bit_imp_le_length)

lemma config_address_fields:
  assumes "dev < 32" "fn < 8"
  shows "drop_bit 8 (config_address b dev fn off) AND 7 = ucast fn"
    "drop_bit 11 (config_address b dev fn off) AND 31 = ucast dev" "drop_bit 16 (config_address b dev fn off) AND 255 = ucast b"
    "config_address b dev fn off AND 0xFF = ucast (off AND 0xFC)"
proof -
  have d: "bit dev n \<Longrightarrow> n < 5" and f: "bit fn n \<Longrightarrow> n < 3" for n
    using assms low_bits [of dev n 5] low_bits [of fn n 3] by (simp_all add: word_less_nat_alt)
  have len: "bit (w :: u8) n \<Longrightarrow> n < 8" for w n using bit_imp_le_length [of w n] by simp
  have m: "(7 :: u32) = mask 3" "(31 :: u32) = mask 5" "(255 :: u32) = mask 8"
    by (simp_all add: mask_eq_exp_minus_1)
  show "drop_bit 8 (config_address b dev fn off) AND 7 = ucast fn"
    unfolding m by (rule bit_word_eqI, rename_tac n, case_tac "n < 8")
      (auto simp: bit_and_iff bit_drop_bit_eq bit_mask_iff bit_config_address bit_ucast_iff dest: d f len)
  show "drop_bit 11 (config_address b dev fn off) AND 31 = ucast dev"
    unfolding m by (rule bit_word_eqI, rename_tac n, case_tac "n < 8")
      (auto simp: bit_and_iff bit_drop_bit_eq bit_mask_iff bit_config_address bit_ucast_iff dest: d f len)
  show "drop_bit 16 (config_address b dev fn off) AND 255 = ucast b"
    unfolding m by (rule bit_word_eqI, rename_tac n, case_tac "n < 8")
      (auto simp: bit_and_iff bit_drop_bit_eq bit_mask_iff bit_config_address bit_ucast_iff dest: d f len)
  show "config_address b dev fn off AND 0xFF = ucast (off AND 0xFC)"
    unfolding m by (rule bit_word_eqI)
      (auto simp: bit_and_iff bit_mask_iff bit_config_address bit_ucast_iff simp del: word_and_le2 dest: len)
qed

section \<open>Properties\<close>

lemma scanned_iff: "fn \<in> set (scanned c dev) \<longleftrightarrow> fn < 8 \<and> (fn = 0 \<or> multi_function c dev)"
proof -
  have "fn < 8 \<longleftrightarrow> fn \<in> set [0, 1, 2, 3, 4, 5, 6, 7 :: u8]"
  proof
    assume "fn < 8"
    then have "unat fn \<in> {0, 1, 2, 3, 4, 5, 6, 7}" by (auto simp: word_less_nat_alt)
    then show "fn \<in> set [0, 1, 2, 3, 4, 5, 6, 7]" by (auto simp: word_unat_eq_iff)
  qed auto
  then show ?thesis by (auto simp: scanned_def)
qed

lemma device_numbers: "of_nat ` {0..<32} = {dev :: u8. dev < 32}"
proof -
  have "dev \<in> of_nat ` {0..<32}" if "dev < 32" for dev :: u8
    using that by (intro image_eqI [of _ _ "unat dev"]) (simp_all add: word_less_nat_alt)
  moreover have "(of_nat n :: u8) < 32" if "n < 32" for n
    using that by (simp add: word_less_nat_alt unat_of_nat)
  ultimately show ?thesis by auto
qed

lemma set_bus_scan:
  "set (bus_scan cl c) = {function_info c dev fn | dev fn. dev < 32 \<and> fn < 8 \<and> present c dev fn \<and>
     class_code (function_info c dev fn) = cl \<and> (fn = 0 \<or> multi_function c dev)}"
proof -
  have "set (bus_scan cl c) = (\<Union>dev \<in> of_nat ` {0..<32}. set (of_class cl c dev (scanned c dev)))"
    by (simp add: bus_scan_def)
  also have "\<dots> = (\<Union>dev \<in> {dev. dev < 32}. {function_info c dev fn | fn. fn \<in> set (scanned c dev) \<and> present c dev fn \<and>
      class_code (function_info c dev fn) = cl})"
    unfolding device_numbers of_class_def by auto
  finally show ?thesis by (auto simp: scanned_iff)
qed

lemma distinct_pairs:
  "distinct xs \<Longrightarrow> (\<And>x. distinct (f x)) \<Longrightarrow> distinct (concat (map (\<lambda>x. map (Pair x) (f x)) xs))"
  by (induction xs) (auto simp: distinct_map inj_on_def)

lemma distinct_bus_scan: "distinct (map (\<lambda>p. (device p, func p)) (bus_scan cl c))"
proof -
  let ?fs = "\<lambda>dev. filter (\<lambda>fn. present c dev fn \<and> class_code (function_info c dev fn) = cl) (scanned c dev)"
  have "map (\<lambda>p. (device p, func p)) (of_class cl c dev (scanned c dev)) = map (Pair dev) (?fs dev)" for dev
    unfolding of_class_def by (simp add: filter_map filter_filter comp_def conj_commute) (simp add: function_info_def)
  then have "map (\<lambda>p. (device p, func p)) (bus_scan cl c) = concat (map (\<lambda>dev. map (Pair dev) (?fs dev)) (map of_nat [0..<32]))"
    by (simp add: bus_scan_def map_concat comp_def)
  moreover have "distinct (map of_nat [0..<32] :: u8 list)"
    by (auto simp: distinct_map inj_on_def word_unat_eq_iff unat_of_nat)
  moreover have "distinct (?fs dev)" for dev by (simp add: scanned_def)
  ultimately show ?thesis by (simp only: distinct_pairs)
qed

lemma length_bus_scan: "length (bus_scan cl c) \<le> 256"
proof -
  have one: "length (of_class cl c dev (scanned c dev)) \<le> 8" for dev
  proof -
    have "length (of_class cl c dev (scanned c dev)) \<le> length (scanned c dev)"
      unfolding of_class_def by (metis length_filter_le length_map order_trans)
    then show ?thesis by (simp add: scanned_def split: if_splits)
  qed
  have "length (bus_scan cl c) = (\<Sum>dev \<leftarrow> map of_nat [0..<32]. length (of_class cl c dev (scanned c dev)))"
    by (simp only: bus_scan_def length_concat map_map comp_def)
  also have "\<dots> \<le> (\<Sum>dev \<leftarrow> (map of_nat [0..<32] :: u8 list). 8)"
    by (rule sum_list_mono) (rule one)
  finally show ?thesis by (simp add: comp_def sum_list_triv)
qed

text \<open>The two scans of the bus are the same scan for two classes: on a host bridge whose data port reads the register
  that the address port selects, each returns, in the order of the bus, the first \<open>n\<close> controllers of its class,
  and leaves every register as it was.  The scan for adapters gives up at the first adapter that has no place, the other
  one goes on to the end without storing.\<close>

theorem pci_scans_bus:
  assumes "\<And>a d. fst (inl hw PCI_CONFIG_DATA (outl hw PCI_CONFIG_ADDR a d)) = cfg d a"
    and "\<And>a d. cfg (snd (inl hw PCI_CONFIG_DATA (outl hw PCI_CONFIG_ADDR a d))) = cfg d"
  shows "fst (pci_find_storage_controllers hw n d) = take (nat n) (bus_scan PCI_CLASS_MASS_STORAGE (cfg d)) \<and>
    fst (pci_scan_gpu hw n d) = take (nat n) (map gpu_of (bus_scan PCI_CLASS_DISPLAY (cfg d))) \<and>
    cfg (snd (pci_find_storage_controllers hw n d)) = cfg d \<and> cfg (snd (pci_scan_gpu hw n d)) = cfg d"
proof -
  have cs: "config_space hw cfg" using assms by (rule config_space.intro)
  show ?thesis using config_space.storage_scan [OF cs, of d n] config_space.gpu_scan [OF cs, of d n] by auto
qed

text \<open>A bus with a bridge chip of two functions, the second an IDE controller, and a display adapter of one function.\<close>

definition two_controllers :: "u32 \<Rightarrow> u32" where
  "two_controllers a = (if a = 0x80000800 then 0x70008086 else if a = 0x80000808 then 0x06010000 else if a = 0x8000080C then 0x00800000
     else if a = 0x80000900 then 0x70108086 else if a = 0x80000908 then 0x01018000
     else if a = 0x80001000 then 0x11111234 else if a = 0x80001008 then 0x03000002 else if a = 0x8000100C then 0
     else if a = 0x80001010 then 0xFD000008 else 0xFFFFFFFF)"

lemma two_controllers_found:
  "function_info two_controllers 1 1 \<in> set (bus_scan 1 two_controllers)"
  "function_info two_controllers 2 0 \<in> set (bus_scan 3 two_controllers)"
proof -
  have "present two_controllers 1 1 \<and> class_code (function_info two_controllers 1 1) = 1 \<and> multi_function two_controllers 1"
    by code_simp
  then show "function_info two_controllers 1 1 \<in> set (bus_scan 1 two_controllers)"
    unfolding set_bus_scan by (intro CollectI exI [of _ 1]) simp
  have "present two_controllers 2 0 \<and> class_code (function_info two_controllers 2 0) = 3"
    by code_simp
  then show "function_info two_controllers 2 0 \<in> set (bus_scan 3 two_controllers)"
    unfolding set_bus_scan by (intro CollectI exI [of _ 2] exI [of _ 0]) simp
qed

lemma pci_scans_bus_witness:
  "let d = \<lparr>latch = 0, regs = two_controllers\<rparr>
   in function_info two_controllers 1 1 \<in> set (fst (pci_find_storage_controllers bridge_ports 256 d)) \<and>
      gpu_of (function_info two_controllers 2 0) \<in> set (fst (pci_scan_gpu bridge_ports 256 d))"
  using pci_scans_bus [of bridge_ports regs 256 "\<lparr>latch = 0, regs = two_controllers\<rparr>", OF host.read_value host.read_keeps]
    two_controllers_found length_bus_scan [of 1 two_controllers] length_bus_scan [of 3 two_controllers]
  by (simp add: PCI_CLASS_MASS_STORAGE_def PCI_CLASS_DISPLAY_def)

text \<open>C26: No storage controller is missed and none is found twice: with room for all of them the scan returns exactly
  the functions below 8 of the devices below 32 that answer and have class 1, where a device whose header type has no
  multi-function bit counts with function 0 only.\<close>

theorem scan_finds_controllers:
  assumes "256 \<le> n"
  shows "set (fst (pci_find_storage_controllers bridge_ports n d)) =
      {function_info (regs d) dev fn | dev fn. dev < 32 \<and> fn < 8 \<and> present (regs d) dev fn \<and>
         class_code (function_info (regs d) dev fn) = 1 \<and> (fn = 0 \<or> multi_function (regs d) dev)} \<and>
    distinct (map (\<lambda>p. (device p, func p)) (fst (pci_find_storage_controllers bridge_ports n d)))"
proof -
  have "length (bus_scan 1 (regs d)) \<le> nat n" using assms length_bus_scan [of 1 "regs d"] by linarith
  then have "fst (pci_find_storage_controllers bridge_ports n d) = bus_scan 1 (regs d)"
    using host.storage_scan [of d n] by (auto simp: PCI_CLASS_MASS_STORAGE_def)
  then show ?thesis by (simp only: set_bus_scan distinct_bus_scan)
qed

lemma scan_finds_controllers_witness:
  "function_info two_controllers 1 1 \<in> set (fst (pci_find_storage_controllers bridge_ports 256 \<lparr>latch = 0, regs = two_controllers\<rparr>))"
  using scan_finds_controllers [of 256 "\<lparr>latch = 0, regs = two_controllers\<rparr>"] two_controllers_found(1)
  by (simp add: set_bus_scan)

end
