(* ===== verification/Machine.thy ===== *)
theory Machine
  imports Console Thread AtaDev Pci Traps
begin

text \<open>
  The machine the commands of the kernel run on, the reports the components print
  (\<^verbatim>\<open>PrintMemoryDescriptor\<close> of \<^verbatim>\<open>mm/EfiMemDesc.c\<close>, \<^verbatim>\<open>PrintRunningThreads\<close> and
  \<^verbatim>\<open>CleanAllThreads\<close> of \<^verbatim>\<open>kernel/Thread.c\<close>, \<^verbatim>\<open>ATAPrintInfo\<close> of \<^verbatim>\<open>drives/ata.c\<close>,
  \<^verbatim>\<open>PCI_Print_Device\<close> of \<^verbatim>\<open>drives/pci.c\<close>), the timer interrupt \<^verbatim>\<open>irq_0\<close> and
  \<^verbatim>\<open>Init_Interrupt\<close>.  The record \<open>machine\<close> joins the threads with the memory, the console and the
  devices; what is printed later is read from memory as the printing before has left it.
\<close>

unbundle bit_operations_syntax

section \<open>The machine\<close>

record 'd machine =
  sched :: sched
  con :: console
  dev :: 'd

abbreviation mem_of :: "('d, 'z) machine_scheme \<Rightarrow> mem" where "mem_of s \<equiv> ram (mm (sched s))"

definition with_screen :: "console \<times> mem \<Rightarrow> ('d, 'z) machine_scheme \<Rightarrow> ('d, 'z) machine_scheme" where
  "with_screen cm s = s\<lparr>con := fst cm, sched := (sched s)\<lparr>mm := (mm (sched s))\<lparr>ram := snd cm\<rparr>\<rparr>\<rparr>"

definition prints :: "(console \<times> mem \<Rightarrow> console \<times> mem) \<Rightarrow> ('d, 'z) machine_scheme \<Rightarrow> ('d, 'z) machine_scheme" where
  "prints f s = with_screen (f (con s, mem_of s)) s"

text \<open>\<^verbatim>\<open>printf\<close>; the byte in front of its buffer is taken to be no newline.\<close>

definition printm :: "u8 list \<Rightarrow> arg list \<Rightarrow> ('d, 'z) machine_scheme \<Rightarrow> ('d, 'z) machine_scheme option" where
  "printm format args s = map_option (\<lambda>cm. with_screen cm s) (printf 0 format args (con s, mem_of s))"

definition on_dev :: "('d \<Rightarrow> 'd option) \<Rightarrow> ('d, 'z) machine_scheme \<Rightarrow> ('d, 'z) machine_scheme option" where
  "on_dev f s = map_option (\<lambda>d. s\<lparr>dev := d\<rparr>) (f (dev s))"

definition line :: "string \<Rightarrow> u8 list" where
  "line s = bytes s @ [10]"

text \<open>Columns with tabs in between.\<close>

fun columns :: "string list \<Rightarrow> u8 list" where
  "columns [] = []"
| "columns [s] = bytes s"
| "columns (s # rest) = bytes s @ [9] @ columns rest"

definition interrupts_set :: "bool \<Rightarrow> ('d, 'z) machine_scheme \<Rightarrow> ('d, 'z) machine_scheme" where
  "interrupts_set b s = s\<lparr>sched := (sched s)\<lparr>interrupts := b\<rparr>\<rparr>"

section \<open>Memory descriptors\<close>

text \<open>The attributes with the separator; \<^verbatim>\<open>hasValidAttribute\<close> is the negation of \<^verbatim>\<open>first\<close>.\<close>

fun show_attributes :: "u64 \<Rightarrow> (u64 \<times> string) list \<Rightarrow> bool \<Rightarrow> ('d, 'z) machine_scheme \<Rightarrow> (bool \<times> ('d, 'z) machine_scheme) option" where
  "show_attributes attr [] first s = Some (first, s)"
| "show_attributes attr ((b, name) # bs) first s =
     (if attr AND b \<noteq> 0
      then Option.bind (printm (bytes (''%s'' @ name)) [Text (bytes (if first then '''' else '' | ''))] s) (show_attributes attr bs False)
      else show_attributes attr bs first s)"

definition PrintMemoryAttributes_out :: "u64 \<Rightarrow> ('d, 'z) machine_scheme \<Rightarrow> ('d, 'z) machine_scheme option" where
  "PrintMemoryAttributes_out attr s = do {
     s \<leftarrow> printm (columns [''Attribute:    '', ''%X ('']) [Val attr] s;
     (first, s) \<leftarrow> show_attributes attr attribute_names True s;
     s \<leftarrow> (if first then printm (bytes ''None/Unknown'') [] s else Some s);
     printm (line '')'') [] s }"

definition PrintMemoryDescriptor :: "UEFI_MEMORY_MAP \<Rightarrow> addr \<Rightarrow> ('d, 'z) machine_scheme \<Rightarrow> ('d, 'z) machine_scheme option" where
  "PrintMemoryDescriptor mmap d s = do {
     let sizekb = (ucast (ud_NumberOfPages (mem_of s) d * 4096 div 1024) :: u32);
     s \<leftarrow> printm (line ''Memory descriptor at %X'') [Val d] s;
     s \<leftarrow> printm (columns [''Type:         '', ''%d''] @ [10]) [Val (ucast (ud_Type (mem_of s) d))] s;
     s \<leftarrow> printm (columns [''PhysicalStart:'', ''%x''] @ [10]) [Val (ud_PhysicalStart (mem_of s) d)] s;
     s \<leftarrow> printm (columns [''VirtualStart: '', ''%x''] @ [10]) [Val (ud_VirtualStart (mem_of s) d)] s;
     s \<leftarrow> printm (columns [''Pages:        '', ''%d''] @ [10]) [Val (ud_NumberOfPages (mem_of s) d)] s;
     s \<leftarrow> (if sizekb <s 1024 then printm (columns [''Size:         '', ''%dKB''] @ [10]) [Val (ucast sizekb)] s
           else printm (columns [''Size:         '', ''%dMB''] @ [10]) [Val (ucast (sizekb div 1024))] s);
     s \<leftarrow> printm (columns [''Available:    '', ''%s''] @ [10])
           [Text (bytes (if IsMemoryAvailable mmap (mem_of s) d then ''True'' else ''False''))] s;
     PrintMemoryAttributes_out (ud_Attribute (mem_of s) d) s }"

definition AnalysisMemoryMap_out :: "UEFI_MEMORY_MAP \<Rightarrow> u32 \<Rightarrow> ('d, 'z) machine_scheme \<Rightarrow> addr \<times> ('d, 'z) machine_scheme" where
  "AnalysisMemoryMap_out mmap num s =
     (AnalysisMemoryMap mmap num,
      if maxDescriptors mmap \<le> num then prints (out_error 0 (line ''Index out of bounds'')) s else s)"

section \<open>Threads\<close>

definition state_number :: "thread_state \<Rightarrow> u64" where
  "state_number t = (case t of THREAD_READY \<Rightarrow> 0 | THREAD_RUNNING \<Rightarrow> 1 | THREAD_BLOCKED \<Rightarrow> 2 | THREAD_TERMINATED \<Rightarrow> 3)"

fun show_threads :: "nat list \<Rightarrow> ('d, 'z) machine_scheme \<Rightarrow> ('d, 'z) machine_scheme option" where
  "show_threads [] s = Some s"
| "show_threads (i # is) s =
     (let t = tcb (sched s) (TORT (sched s) ! i)
      in if TORT (sched s) ! i = 0 then show_threads is s
         else Option.bind (printm (columns [''%d  '', ''%d      '', ''%dKB   '', ''%p''] @ [10])
                [Val (tid t), Val (state_number (t_state t)), Val (stack_size t div 1024), Val (stack t)] s) (show_threads is))"

definition PrintRunningThreads :: "('d, 'z) machine_scheme \<Rightarrow> ('d, 'z) machine_scheme option" where
  "PrintRunningThreads s = do {
     s \<leftarrow> printm (columns [''ID '', ''Status '', ''Stack Size   '', ''Stack Address''] @ [10]) [] s;
     s \<leftarrow> printm (line (replicate 48 (CHR ''-''))) [] s;
     let t = tcb (sched s) (current_thread (sched s));
     s \<leftarrow> printm (columns [''%d  '', ''%d      '', ''?KB   '', ''%p''] @ [10])
           [Val (tid t), Val (state_number (t_state t)), Val (kernel_stack t)] s;
     show_threads [0..<TORT_SIZE] s }"

text \<open>The number of a thread is printed from its block after the block was given back.\<close>

fun clean_loop :: "nat list \<Rightarrow> ('d, 'z) machine_scheme \<Rightarrow> ('d, 'z) machine_scheme option" where
  "clean_loop [] s = Some s"
| "clean_loop (i # is) s =
     (let t = TORT (sched s) ! i
      in if t = 0 \<or> tid (tcb (sched s) t) = 0 \<or> tid (tcb (sched s) t) = 1 then clean_loop is s
         else do {
           k \<leftarrow> KillThread (sched s) t;
           let s = prints (out_ok 0 (bytes ''Thread '') 0) (s\<lparr>sched := k\<rparr>);
           s \<leftarrow> printm (line ''%d is over.'') [Val (tid (tcb (sched s) t))] s;
           clean_loop is s })"

definition CleanAllThreads :: "('d, 'z) machine_scheme \<Rightarrow> ('d, 'z) machine_scheme option" where
  "CleanAllThreads s = clean_loop [0..<TORT_SIZE] s"

section \<open>Disks and the bus\<close>

definition slot_names :: "string list" where
  "slot_names = [''Primary   Master'', ''Primary   Slave '', ''Secondary Master'', ''Secondary Slave '']"

definition COLOR_CYAN :: u32 where "COLOR_CYAN = 0xFF00FFEE"

definition show_slot :: "ata_drive \<Rightarrow> string \<Rightarrow> ('d, 'z) machine_scheme \<Rightarrow> ('d, 'z) machine_scheme option" where
  "show_slot dr name s =
     (if \<not> ata_drive.present dr then printm (line ''  [%s] (none)'') [Text (bytes name)] s
      else if is_atapi dr
      then map_option (prints (print 0 (line '' ATAPI Device (CD/DVD)'') COLOR_CYAN)) (printm (bytes ''  [%s]'') [Text (bytes name)] s)
      else do {
        s \<leftarrow> printm (line ''  [%s]'') [Text (bytes name)] s;
        s \<leftarrow> printm (line ''    Model:  %s'') [Text (model dr)] s;
        s \<leftarrow> printm (line ''    S/N:    %s'') [Text (serial dr)] s;
        s \<leftarrow> printm (bytes ''    Size:   %d MB'') [Val (ucast (ucast (size_in_mb dr) :: u32))] s;
        let s = (if lba48_supported dr then prints (print 0 (bytes ''  (LBA48)'') COLOR_GREEN) s
                 else prints (print 0 (bytes ''  (LBA28)'') COLOR_YELLOW) s);
        printm [10] [] s })"

fun show_slots :: "(ata_drive \<times> string) list \<Rightarrow> ('d, 'z) machine_scheme \<Rightarrow> ('d, 'z) machine_scheme option" where
  "show_slots [] s = Some s"
| "show_slots ((dr, name) # xs) s = Option.bind (show_slot dr name s) (show_slots xs)"

definition ATAPrintInfo :: "ata_controller_info \<Rightarrow> ('d, 'z) machine_scheme \<Rightarrow> ('d, 'z) machine_scheme option" where
  "ATAPrintInfo info s =
     show_slots (zip (drives info) slot_names)
       (if drive_count info = 0 \<and> \<not> (\<exists>dr \<in> set (drives info). ata_drive.present dr \<and> is_atapi dr)
        then prints (print 0 (line ''  No drives detected.'') COLOR_YELLOW) s else s)"

definition subclass_name :: "u8 \<Rightarrow> string" where
  "subclass_name c =
     (if c = 1 then ''IDE Controller'' else if c = 6 then ''SATA/AHCI Ctrl'' else if c = 8 then ''NVMe Ctrl''
      else if c = 0 then ''SCSI Ctrl'' else if c = 4 then ''Raid Ctrl'' else ''Storage Ctrl'')"

definition PCI_Print_Device :: "pci_device \<Rightarrow> ('d, 'z) machine_scheme \<Rightarrow> ('d, 'z) machine_scheme option" where
  "PCI_Print_Device p s =
     printm (line ''  %X:%X  %s  Bus%d Dev%d Func%d'')
       [Val (ucast (vendor_id p)), Val (ucast (device_id p)), Text (bytes (subclass_name (sub_class p))), Val (ucast (bus p)),
        Val (ucast (device p)), Val (ucast (func p))] s"

section \<open>Interrupts\<close>

text \<open>What \<^verbatim>\<open>schedule\<close> gives is the thread to switch to.\<close>

definition irq_0 :: "'d hw \<Rightarrow> ('d, 'z) machine_scheme \<Rightarrow> (u64 option \<times> ('d, 'z) machine_scheme) option" where
  "irq_0 hw s =
     (let s = s\<lparr>sched := (sched s)\<lparr>SYSTEM_TimerTicks := irq_0_ticks (SYSTEM_TimerTicks (sched s))\<rparr>\<rparr>;
          s = prints (\<lambda>(c, m). (c, UpdateCursor c (TextColor c) m)) s;
          s = s\<lparr>dev := PIC_sendEOI hw 0 (dev s)\<rparr>
      in map_option (\<lambda>(t, k). (t, s\<lparr>sched := k\<rparr>)) (schedule_select (sched s)))"

text \<open>The table, what \<^verbatim>\<open>lidt\<close> loads, and the machine; \<open>fn\<close> gives the addresses of the entries.\<close>

definition Init_Interrupt ::
  "'d hw \<Rightarrow> u16 \<Rightarrow> (string \<Rightarrow> addr) \<Rightarrow> addr \<Rightarrow> (nat \<Rightarrow> gate) \<times> ('d, 'z) machine_scheme \<Rightarrow>
   (nat \<Rightarrow> gate) \<times> (u16 \<times> u32 \<times> u32) \<times> ('d, 'z) machine_scheme" where
  "Init_Interrupt hw UEFI_CS fn idt_table = (\<lambda>(idt, s).
     let idt = set_irq UEFI_CS fn (Init_IDT UEFI_CS fn idt);
         (ticks, d) = Init_PIC hw (dev s);
         d = io_wait hw d;
         s = s\<lparr>dev := d, sched := (sched s)\<lparr>SYSTEM_TimerTicks := ticks\<rparr>\<rparr>
     in (idt, lidt idt_table (256 * 16), interrupts_set True s))"

section \<open>What reports leave alone\<close>

text \<open>Reports move the cursor and draw, and do nothing else to the machine.\<close>

definition only_output :: "('d, 'z) machine_scheme \<Rightarrow> ('d, 'z) machine_scheme \<Rightarrow> bool" where
  "only_output s s' \<longleftrightarrow> draws (con s, mem_of s) (con s', mem_of s') \<and> s' = with_screen (con s', mem_of s') s"

named_theorems output_intros

lemma with_screen_simps [simp]:
  "con (with_screen cm s) = fst cm" "dev (with_screen cm s) = dev s"
  "with_screen cm (with_screen cm' s) = with_screen cm s" "with_screen (con s, mem_of s) s = s"
  "sched (with_screen cm s) = (sched s)\<lparr>mm := (mm (sched s))\<lparr>ram := snd cm\<rparr>\<rparr>"
  by (simp_all add: with_screen_def)

lemma draws_refl: "draws cm cm" by (cases cm) (simp add: draws_def)

lemma only_output_refl: "only_output s s"
  unfolding only_output_def by (metis draws_refl with_screen_simps(4))

lemma only_output_trans: "only_output s t \<Longrightarrow> only_output t u \<Longrightarrow> only_output s u"
proof -
  assume st: "only_output s t" and tu: "only_output t u"
  have "with_screen cm t = with_screen cm s" for cm
  proof -
    have t: "t = with_screen (con t, mem_of t) s" using st by (simp add: only_output_def)
    show ?thesis by (subst t) (rule with_screen_simps(3))
  qed
  then have "u = with_screen (con u, mem_of u) s" using tu by (simp add: only_output_def)
  moreover have "draws (con s, mem_of s) (con u, mem_of u)"
    using st tu draws_trans by (simp add: only_output_def) blast
  ultimately show ?thesis by (simp add: only_output_def)
qed

lemma prints_output: "(\<And>cm. draws cm (f cm)) \<Longrightarrow> only_output s (prints f s)"
  by (auto simp: only_output_def prints_def intro: exI [of _ "f (con s, mem_of s)"])

lemma only_output_sched:
  assumes "only_output s s'"
  obtains m where "sched s' = (sched s)\<lparr>mm := (mm (sched s))\<lparr>ram := m\<rparr>\<rparr>" "dev s' = dev s" "layout (con s') = layout (con s)"
proof -
  have s': "s' = with_screen (con s', mem_of s') s" using assms by (simp add: only_output_def)
  have "sched s' = (sched s)\<lparr>mm := (mm (sched s))\<lparr>ram := mem_of s'\<rparr>\<rparr>" by (subst s') simp
  moreover have "dev s' = dev s" by (subst s') simp
  moreover have "layout (con s') = layout (con s)" using assms by (simp add: only_output_def draws_def)
  ultimately show ?thesis by (rule that)
qed

lemma message_output [output_intros]:
  "only_output s (prints (print prev t color) s)" "only_output s (prints (out_error prev t) s)"
  "only_output s (prints (out_waring prev t) s)" "only_output s (prints (out_ok prev t mode) s)"
  by (rule prints_output, simp add: print_draws out_error_def out_waring_def out_ok_def message_draws)+

lemma printm_output: "printm f args s = Some s' \<Longrightarrow> only_output s s'"
proof -
  assume "printm f args s = Some s'"
  moreover from this obtain t where "printf_text f args = Some t" by (auto simp: printm_def printf_def)
  ultimately have "s' = prints (print 0 t (TextColor (con s))) s" by (simp add: printm_def printf_def prints_def)
  then show ?thesis by (simp add: message_output)
qed

text \<open>A report returns and only draws.\<close>

definition reports :: "('d, 'z) machine_scheme \<Rightarrow> ('d, 'z) machine_scheme option \<Rightarrow> bool" where
  "reports s r \<longleftrightarrow> (\<exists>s'. r = Some s' \<and> only_output s s')"

lemma reports_Some [output_intros]: "only_output s s' \<Longrightarrow> reports s (Some s')" by (simp add: reports_def)

lemma reports_bind [output_intros]: "reports s r \<Longrightarrow> (\<And>s'. only_output s s' \<Longrightarrow> reports s' (g s')) \<Longrightarrow> reports s (Option.bind r g)"
  unfolding reports_def by (metis Option.bind.bind_lunit only_output_trans)

lemma reports_from: "only_output s s' \<Longrightarrow> reports s' r \<Longrightarrow> reports s r"
  by (auto simp: reports_def intro: only_output_trans)

lemma reports_map: "reports s r \<Longrightarrow> (\<And>s'. only_output s' (f s')) \<Longrightarrow> reports s (map_option f r)"
  by (auto simp: reports_def intro: only_output_trans)

lemma reports_if [output_intros]: "(b \<Longrightarrow> reports s x) \<Longrightarrow> (\<not> b \<Longrightarrow> reports s y) \<Longrightarrow> reports s (if b then x else y)"
  by simp

text \<open>A bound on the length of what a format gives; a number has up to 21 characters.  An argument is \<open>None\<close>
  for a number and a bound on its length for a text.\<close>

definition kind_ok :: "arg \<Rightarrow> nat option \<Rightarrow> bool" where
  "kind_ok a k \<longleftrightarrow> (case a of Val v \<Rightarrow> k = None | Text t \<Rightarrow> (case k of None \<Rightarrow> False | Some n \<Rightarrow> length t \<le> n))"

lemma kind_ok_simps [simp]: "kind_ok (Val v) k = (k = None)" "kind_ok (Text t) (Some n) = (length t \<le> n)" "\<not> kind_ok (Text t) None"
  by (simp_all add: kind_ok_def)

fun cost :: "u8 list \<Rightarrow> nat option list \<Rightarrow> nat option" where
  "cost [] args = Some 0"
| "cost (c # f) args =
     (if c = 0 then Some 0
      else if c = 37
      then (case f of [] \<Rightarrow> None
            | d # f' \<Rightarrow> if d = 0 then None
                else if takes_arg d
                then (case args of [] \<Rightarrow> None
                      | None # args' \<Rightarrow> if d = 115 then None else map_option ((+) 21) (cost f' args')
                      | Some n # args' \<Rightarrow> if d = 115 then map_option ((+) n) (cost f' args') else None)
                else map_option ((+) 2) (cost f' args))
      else map_option Suc (cost f args))"

lemma hex_rev_length: "unat v < 16 ^ n \<Longrightarrow> length (hex_rev v) \<le> n"
proof (induction n arbitrary: v)
  case (Suc n)
  have "unat (drop_bit 4 v) = unat v div 16" by (simp add: drop_bit_eq_div unat_div)
  then have "length (hex_rev (drop_bit 4 v)) \<le> n" using Suc.prems by (intro Suc.IH) (simp add: less_mult_imp_div_less)
  then show ?case by (cases "v = 0") (simp_all add: hex_rev.simps [of v])
qed (simp add: unat_eq_0)

lemma number_length: "length (fst (utoa_dec v)) \<le> 20" "length (fst (itoa_dec v)) \<le> 21" "length (fst (itoa_hex v)) \<le> 18"
  using dec_rev_temp [of v] dec_rev_temp [of "- v"] hex_rev_length [of v 16] unsigned_less [of v]
  by (auto simp: utoa_dec_def itoa_dec_def itoa_hex_def Let_def)

lemma format_value_length: "takes_arg d \<Longrightarrow> d \<noteq> 115 \<Longrightarrow> \<exists>t. format_value d v = Some t \<and> length t \<le> 21"
  using number_length(1) [of v] number_length(2) [of "scast (ucast v :: u32)"] number_length(3) [of v]
    number_length(3) [of "ucast (ucast v :: u32)"]
  by (auto simp: format_value_def takes_arg_def lower_from_2_def)

lemma cost_bound: "cost f ks = Some n \<Longrightarrow> list_all2 kind_ok args ks \<Longrightarrow> \<exists>t. vsprintf f args = Some t \<and> length t \<le> n"
proof (induction f ks arbitrary: n args rule: cost.induct)
  case (2 c f ks)
  show ?case
  proof (cases "c = 37")
    case True
    then obtain d f' where f: "f = d # f'" "d \<noteq> 0" using 2(5) by (cases f) (auto split: if_splits)
    show ?thesis
    proof (cases "takes_arg d")
      case t: True
      then obtain k ks' where ks: "ks = k # ks'" using 2(5) True f by (cases ks) auto
      then obtain a as where as: "args = a # as" "kind_ok a k" "list_all2 kind_ok as ks'" using 2(6) by (auto simp: list_all2_Cons2)
      show ?thesis
      proof (cases k)
        case None
        then obtain v where a: "a = Val v" using as(2) by (cases a) auto
        obtain m where m: "cost f' ks' = Some m" "n = 21 + m" "d \<noteq> 115"
          using 2(5) True f t ks None by (auto split: if_splits)
        have "\<exists>x. vsprintf f' as = Some x \<and> length x \<le> m" using 2(1) m True f t ks None as(3) by auto
        then show ?thesis using True f t as(1) a m(2) format_value_length [OF t m(3), of v] by (auto simp: directive_def)
      next
        case (Some l)
        then obtain u where a: "a = Text u" "length u \<le> l" using as(2) by (cases a) auto
        obtain m where m: "cost f' ks' = Some m" "n = l + m" "d = 115"
          using 2(5) True f t ks Some by (auto split: if_splits)
        have "\<exists>x. vsprintf f' as = Some x \<and> length x \<le> m" using 2(2) m True f t ks Some as(3) by auto
        then show ?thesis using True f t as(1) a m(2,3) length_takeWhile_le [of "\<lambda>c. c \<noteq> 0" u]
          by (auto simp: directive_def)
      qed
    next
      case t: False
      then obtain k where k: "cost f' ks = Some k" "n = 2 + k" using 2(5) True f by auto
      have "\<exists>x. vsprintf f' args = Some x \<and> length x \<le> k" using 2(3) k(1) True f t 2(6) by auto
      then show ?thesis using True f t k(2) by (auto simp: directive_def)
    qed
  next
    case False
    show ?thesis
    proof (cases "c = 0")
      case nz: False
      then obtain k where "cost f ks = Some k" "n = Suc k" using 2(5) False by auto
      then show ?thesis using 2(4) [of k args] False nz 2(6) by auto
    qed (use 2(5) in auto)
  qed
qed simp

definition fits_buffer :: "u8 list \<Rightarrow> nat option list \<Rightarrow> bool" where
  "fits_buffer f ks \<longleftrightarrow> (case cost f ks of None \<Rightarrow> False | Some n \<Rightarrow> n < 512)"

lemma printm_reports:
  assumes "fits_buffer f ks" "list_all2 kind_ok args ks"
  shows "reports s (printm f args s)"
proof -
  obtain n where n: "cost f ks = Some n" "n < 512" using assms(1) by (auto simp: fits_buffer_def split: option.splits)
  obtain t where "vsprintf f args = Some t" "length t \<le> n" using cost_bound [OF n(1) assms(2)] by blast
  then have "printf_text f args = Some (takeWhile (\<lambda>c. c \<noteq> 0) t)" using n(2) by (simp add: printf_text_spec)
  then show ?thesis
    using message_output(1) [of s 0 "takeWhile (\<lambda>c. c \<noteq> 0) t" "TextColor (con s)"]
    by (simp add: reports_def printm_def printf_def prints_def)
qed

lemma report_formats:
  "fits_buffer (columns [''ID '', ''Status '', ''Stack Size   '', ''Stack Address''] @ [10]) []"
  "fits_buffer (line (replicate 48 (CHR ''-''))) []"
  "fits_buffer (columns [''%d  '', ''%d      '', ''?KB   '', ''%p''] @ [10]) [None, None, None]"
  "fits_buffer (columns [''%d  '', ''%d      '', ''%dKB   '', ''%p''] @ [10]) [None, None, None, None]"
  "fits_buffer (line ''  %X:%X  %s  Bus%d Dev%d Func%d'') [None, None, Some 20, None, None, None]"
  by code_simp+

lemma show_threads_reports: "reports s (show_threads is s)"
proof (induction "is" arbitrary: s)
  case (Cons i "is")
  then show ?case by (auto simp: Let_def intro!: reports_bind printm_reports [OF report_formats(4)] simp del: columns.simps)
qed (simp add: reports_Some only_output_refl)

lemma threads_report: "reports s (PrintRunningThreads s)"
  unfolding PrintRunningThreads_def Let_def
  by (intro reports_bind printm_reports [OF report_formats(1)] printm_reports [OF report_formats(2)]
      printm_reports [OF report_formats(3)] show_threads_reports) simp_all

lemma device_report: "reports s (PCI_Print_Device p s)"
  unfolding PCI_Print_Device_def
  by (rule printm_reports [OF report_formats(5)]) (simp add: subclass_name_def bytes_def)

lemma descriptor_formats:
  "fits_buffer (columns [''Attribute:    '', ''%X ('']) [None]" "fits_buffer (bytes ''None/Unknown'') []" "fits_buffer (line '')'') []"
  "fits_buffer (line ''Memory descriptor at %X'') [None]"
  "fits_buffer (columns [''Type:         '', ''%d''] @ [10]) [None]"
  "fits_buffer (columns [''PhysicalStart:'', ''%x''] @ [10]) [None]"
  "fits_buffer (columns [''VirtualStart: '', ''%x''] @ [10]) [None]"
  "fits_buffer (columns [''Pages:        '', ''%d''] @ [10]) [None]"
  "fits_buffer (columns [''Size:         '', ''%dKB''] @ [10]) [None]"
  "fits_buffer (columns [''Size:         '', ''%dMB''] @ [10]) [None]"
  "fits_buffer (columns [''Available:    '', ''%s''] @ [10]) [Some 5]"
  by code_simp+

lemma attribute_formats: "(b, name) \<in> set attribute_names \<Longrightarrow> fits_buffer (bytes (''%s'' @ name)) [Some 3]"
proof -
  have "list_all (\<lambda>(b, name). fits_buffer (bytes (''%s'' @ name)) [Some 3]) attribute_names" by code_simp
  then show "(b, name) \<in> set attribute_names \<Longrightarrow> fits_buffer (bytes (''%s'' @ name)) [Some 3]" by (auto simp: list_all_iff)
qed

lemma attributes_report:
  "set as \<subseteq> set attribute_names \<Longrightarrow> \<exists>r s'. show_attributes attr as first s = Some (r, s') \<and> only_output s s'"
proof (induction attr as first s rule: show_attributes.induct)
  case (1 attr first s)
  then show ?case by (simp add: only_output_refl)
next
  case (2 attr b name bs first s)
  have "reports s (printm (bytes (''%s'' @ name)) [Text (bytes (if first then '''' else '' | ''))] s)"
    by (rule printm_reports [OF attribute_formats [of b]]) (use 2(3) in \<open>simp_all add: bytes_def\<close>)
  then obtain s1 where s1: "printm (bytes (''%s'' @ name)) [Text (bytes (if first then '''' else '' | ''))] s = Some s1" "only_output s s1"
    by (auto simp: reports_def)
  show ?case
  proof (cases "attr AND b \<noteq> 0")
    case True
    then have "\<exists>r s'. show_attributes attr bs False s1 = Some (r, s') \<and> only_output s1 s'" using 2(1) [OF True s1(1)] 2(3) by simp
    then show ?thesis using True s1 only_output_trans [OF s1(2)] by auto
  next
    case False
    then show ?thesis using 2(2) 2(3) by simp
  qed
qed

lemma PrintMemoryAttributes_report: "reports s (PrintMemoryAttributes_out attr s)"
proof -
  have "reports s1 (do { (first, s) \<leftarrow> show_attributes attr attribute_names True s1;
     s \<leftarrow> (if first then printm (bytes ''None/Unknown'') [] s else Some s); printm (line '')'') [] s })" for s1 :: "('a, 'b) machine_scheme"
  proof -
    obtain r s2 where s2: "show_attributes attr attribute_names True s1 = Some (r, s2)" "only_output s1 s2"
      using attributes_report [of attribute_names attr True s1] by blast
    have "reports s2 (Option.bind (if r then printm (bytes ''None/Unknown'') [] s2 else Some s2) (printm (line '')'') []))"
      by (intro reports_bind reports_if printm_reports [OF descriptor_formats(2)] printm_reports [OF descriptor_formats(3)]
          reports_Some only_output_refl) simp_all
    then show ?thesis using s2 by (simp add: reports_from)
  qed
  then show ?thesis unfolding PrintMemoryAttributes_out_def
    by (intro reports_bind printm_reports [OF descriptor_formats(1)]) simp_all
qed

lemma descriptor_report: "reports s (PrintMemoryDescriptor mmap d s)"
  unfolding PrintMemoryDescriptor_def Let_def
  by (intro reports_bind reports_if PrintMemoryAttributes_report
      printm_reports [OF descriptor_formats(4)] printm_reports [OF descriptor_formats(5)] printm_reports [OF descriptor_formats(6)]
      printm_reports [OF descriptor_formats(7)] printm_reports [OF descriptor_formats(8)] printm_reports [OF descriptor_formats(9)]
      printm_reports [OF descriptor_formats(10)] printm_reports [OF descriptor_formats(11)]) (simp_all add: bytes_def)

lemma disk_formats:
  "fits_buffer (line ''  [%s] (none)'') [Some 16]" "fits_buffer (bytes ''  [%s]'') [Some 16]" "fits_buffer (line ''  [%s]'') [Some 16]"
  "fits_buffer (line ''    Model:  %s'') [Some 41]" "fits_buffer (line ''    S/N:    %s'') [Some 21]"
  "fits_buffer (bytes ''    Size:   %d MB'') [None]" "fits_buffer [10] []"
  by code_simp+

lemma slot_report:
  "length (model dr) \<le> 41 \<Longrightarrow> length (serial dr) \<le> 21 \<Longrightarrow> length name \<le> 16 \<Longrightarrow> reports s (show_slot dr name s)"
  unfolding show_slot_def Let_def
  by (intro reports_if reports_map reports_bind printm_reports [OF disk_formats(1)] printm_reports [OF disk_formats(2)]
      printm_reports [OF disk_formats(3)] printm_reports [OF disk_formats(4)] printm_reports [OF disk_formats(5)]
      printm_reports [OF disk_formats(6)] reports_from [OF _ printm_reports [OF disk_formats(7)]])
    (auto simp: bytes_def intro: output_intros)

lemma slots_report:
  "\<forall>(dr, name) \<in> set xs. length (model dr) \<le> 41 \<and> length (serial dr) \<le> 21 \<and> length name \<le> 16 \<Longrightarrow> reports s (show_slots xs s)"
  by (induction xs arbitrary: s) (auto intro!: reports_bind slot_report intro: reports_Some only_output_refl)

lemma disks_report:
  assumes "\<forall>dr \<in> set (drives info). length (model dr) \<le> 41 \<and> length (serial dr) \<le> 21"
  shows "reports s (ATAPrintInfo info s)"
proof -
  have "\<forall>(dr, name) \<in> set (zip (drives info) slot_names). length (model dr) \<le> 41 \<and> length (serial dr) \<le> 21 \<and> length name \<le> 16"
  proof (intro ballI)
    fix x assume x: "x \<in> set (zip (drives info) slot_names)"
    obtain dr name where e: "x = (dr, name)" by (cases x)
    have "list_all (\<lambda>n. length n \<le> 16) slot_names" by code_simp
    then have "length name \<le> 16" using x by (auto simp: e list_all_iff dest: set_zip_rightD)
    then show "case x of (dr, name) \<Rightarrow> length (model dr) \<le> 41 \<and> length (serial dr) \<le> 21 \<and> length name \<le> 16"
      using assms x by (auto simp: e dest: set_zip_leftD)
  qed
  then show ?thesis unfolding ATAPrintInfo_def
    by (rule reports_from [OF _ slots_report, rotated]) (simp add: message_output only_output_refl)
qed

text \<open>The reports of the components return whatever the state they describe: no line overruns the 512 bytes of
  \<^verbatim>\<open>printf\<close>, and nothing but the frame buffer and the place of the cursor changes.  The strings of a drive
  are bounded by the arrays that hold them.\<close>

theorem reports_return:
  assumes "\<forall>dr \<in> set (drives info). length (model dr) \<le> 41 \<and> length (serial dr) \<le> 21"
    and "r \<in> {PrintRunningThreads s, PrintMemoryDescriptor mmap d s, PCI_Print_Device p s, ATAPrintInfo info s}"
  shows "\<exists>s'. r = Some s' \<and> s' = with_screen (con s', mem_of s') s \<and> only_frame (con s) (mem_of s) (mem_of s') \<and>
    layout (con s') = layout (con s)"
proof -
  have "reports s r"
    using assms(2) threads_report [of s] descriptor_report [of s mmap d] device_report [of s p] disks_report [OF assms(1), of s] by blast
  then show ?thesis by (auto simp: reports_def only_output_def draws_def)
qed

section \<open>Cleaning up\<close>

definition table_kept :: "sched \<Rightarrow> sched \<Rightarrow> bool" where
  "table_kept s s' \<longleftrightarrow> TORT s' = TORT s \<and> current_thread s' = current_thread s \<and>
     (\<forall>u. PositionInTable (tcb s' u) = PositionInTable (tcb s u) \<and> tid (tcb s' u) = tid (tcb s u))"

lemma table_kept_trans: "table_kept s t \<Longrightarrow> table_kept t u \<Longrightarrow> table_kept s u" by (simp add: table_kept_def)

lemma table_kept_steps:
  "remove_from_sleep_queue s t = Some (x, s') \<Longrightarrow> table_kept s s'"
  "kill_reclaim s t = Some s' \<Longrightarrow> table_kept s s'"
  "ready_unlink s t = Some s' \<Longrightarrow> table_kept s s'"
  "put_free_tcb s t = Some s' \<Longrightarrow> table_kept s s'"
  subgoal by (auto simp: remove_from_sleep_queue_def sleep_dequeue_def Let_def table_kept_def upd_thread_def split: if_splits Option.bind_splits)
  subgoal by (auto simp: kill_reclaim_def Let_def table_kept_def upd_thread_def split: if_splits Option.bind_splits prod.splits)
  subgoal by (auto simp: ready_unlink_def Let_def table_kept_def upd_thread_def split: if_splits Option.bind_splits)
  subgoal by (auto simp: put_free_tcb_def Let_def table_kept_def split: if_splits)
  done

lemma KillThread_table:
  assumes "KillThread s t = Some s'" "t \<noteq> 0" "t \<noteq> current_thread s"
  shows "TORT s' = (TORT s)[PositionInTable (tcb s t) := 0] \<and> current_thread s' = current_thread s \<and>
    (\<forall>u. PositionInTable (tcb s' u) = PositionInTable (tcb s u) \<and> tid (tcb s' u) = tid (tcb s u))"
proof -
  let ?s0 = "set_state t THREAD_TERMINATED (s\<lparr>interrupts := False\<rparr>)"
  have k0: "table_kept s ?s0" by (simp add: table_kept_def upd_thread_def)
  obtain x s1 where s1: "remove_from_sleep_queue ?s0 t = Some (x, s1)"
    using assms(1,2) by (auto simp: KillThread_def Let_def split: Option.bind_splits)
  obtain s2 where s2: "kill_reclaim s1 t = Some s2"
    using assms(1,2) s1 by (auto simp: KillThread_def Let_def split: Option.bind_splits)
  have k2: "table_kept s s2" using table_kept_trans [OF k0 table_kept_trans [OF table_kept_steps(1) [OF s1] table_kept_steps(2) [OF s2]]] .
  then have "t \<noteq> current_thread s2" using assms(3) by (simp add: table_kept_def)
  then obtain s3 s4 where s34: "ready_unlink s2 t = Some s3" "put_free_tcb s3 t = Some s4" "s' = (clear_TORT s4 t)\<lparr>interrupts := True\<rparr>"
    using assms(1,2) s1 s2 by (auto simp: KillThread_def Let_def split: Option.bind_splits if_splits)
  have "table_kept s s4"
    using table_kept_trans [OF k2 table_kept_trans [OF table_kept_steps(3) [OF s34(1)] table_kept_steps(4) [OF s34(2)]]] .
  then show ?thesis by (simp add: s34(3) clear_TORT_def table_kept_def)
qed

lemma clean_loop_dev: "clean_loop is s = Some s' \<Longrightarrow> dev s' = dev s \<and> layout (con s') = layout (con s)"
proof (induction "is" s rule: clean_loop.induct)
  case (2 i "is" s)
  let ?t = "TORT (sched s) ! i"
  show ?case
  proof (cases "?t = 0 \<or> tid (tcb (sched s) ?t) = 0 \<or> tid (tcb (sched s) ?t) = 1")
    case True
    have "clean_loop (i # is) s = clean_loop is s" unfolding clean_loop.simps Let_def if_P [OF True] ..
    with 2(1) [OF refl True] 2(3) show ?thesis by simp
  next
    case False
    obtain k where k: "KillThread (sched s) ?t = Some k"
      using 2(3) unfolding clean_loop.simps Let_def if_not_P [OF False] by (cases "KillThread (sched s) ?t") simp_all
    let ?s1 = "prints (out_ok 0 (bytes ''Thread '') 0) (s\<lparr>sched := k\<rparr>)"
    obtain s2 where s2: "printm (line ''%d is over.'') [Val (tid (tcb (sched ?s1) ?t))] ?s1 = Some s2" "clean_loop is s2 = Some s'"
      using 2(3) unfolding clean_loop.simps Let_def if_not_P [OF False] k Option.bind.bind_lunit
      by (cases "printm (line ''%d is over.'') [Val (tid (tcb (sched ?s1) ?t))] ?s1") simp_all
    have "only_output (s\<lparr>sched := k\<rparr>) s2" using only_output_trans [OF message_output(4) printm_output [OF s2(1)]] .
    then have "dev s2 = dev s" "layout (con s2) = layout (con s)" by (auto elim: only_output_sched)
    with 2(2) [OF refl False k refl s2(1) s2(2)] show ?thesis by simp
  qed
qed simp

text \<open>Threads know their place in the table.\<close>

definition table_ok :: "sched \<Rightarrow> bool" where
  "table_ok s \<longleftrightarrow> length (TORT s) = TORT_SIZE \<and>
     (\<forall>i<TORT_SIZE. TORT s ! i \<noteq> 0 \<longrightarrow> PositionInTable (tcb s (TORT s ! i)) = i) \<and> tid (tcb s (current_thread s)) \<le> 1"

definition cleaned :: "sched \<Rightarrow> nat \<Rightarrow> bool" where
  "cleaned s i \<longleftrightarrow> TORT s ! i = 0 \<or> tid (tcb s (TORT s ! i)) \<le> 1"

lemma le_one: "(w :: u64) \<le> 1 \<longleftrightarrow> w = 0 \<or> w = 1"
proof -
  have "unat w \<le> 1 \<longleftrightarrow> unat w = 0 \<or> unat w = 1" by auto
  then show ?thesis by (simp add: word_le_nat_alt word_unat_eq_iff)
qed

lemma clean_loop_cleans:
  "clean_loop is s = Some s' \<Longrightarrow> table_ok (sched s) \<Longrightarrow> set is \<subseteq> {..<TORT_SIZE} \<Longrightarrow>
   table_ok (sched s') \<and> dev s' = dev s \<and> layout (con s') = layout (con s) \<and> (\<forall>i \<in> set is. cleaned (sched s') i) \<and>
   (\<forall>i<TORT_SIZE. cleaned (sched s) i \<longrightarrow> TORT (sched s') ! i = TORT (sched s) ! i \<and> cleaned (sched s') i)"
proof (induction "is" s rule: clean_loop.induct)
  case (2 i "is" s)
  let ?t = "TORT (sched s) ! i"
  have i: "i < TORT_SIZE" using 2(5) by simp
  show ?case
  proof (cases "?t = 0 \<or> tid (tcb (sched s) ?t) = 0 \<or> tid (tcb (sched s) ?t) = 1")
    case True
    then have ci: "cleaned (sched s) i" unfolding cleaned_def le_one .
    have c: "clean_loop (i # is) s = clean_loop is s" unfolding clean_loop.simps Let_def if_P [OF True] ..
    have "set is \<subseteq> {..<TORT_SIZE}" using 2(5) by simp
    from 2(1) [OF refl True 2(3) [unfolded c] 2(4) this] show ?thesis using ci i by simp
  next
    case False
    then have t: "?t \<noteq> current_thread (sched s)" "?t \<noteq> 0" using 2(4) by (auto simp: table_ok_def le_one)
    have c: "clean_loop (i # is) s = Option.bind (KillThread (sched s) ?t) (\<lambda>k.
        let s = prints (out_ok 0 (bytes ''Thread '') 0) (s\<lparr>sched := k\<rparr>)
        in Option.bind (printm (line ''%d is over.'') [Val (tid (tcb (sched s) ?t))] s) (clean_loop is))"
      unfolding clean_loop.simps Let_def if_not_P [OF False] ..
    obtain k where k: "KillThread (sched s) ?t = Some k"
      using 2(3) unfolding c by (cases "KillThread (sched s) ?t") simp_all
    let ?s1 = "prints (out_ok 0 (bytes ''Thread '') 0) (s\<lparr>sched := k\<rparr>)"
    obtain s2 where s2: "printm (line ''%d is over.'') [Val (tid (tcb (sched ?s1) ?t))] ?s1 = Some s2"
      using 2(3) unfolding c k Let_def by (cases "printm (line ''%d is over.'') [Val (tid (tcb (sched ?s1) ?t))] ?s1") simp_all
    have r: "clean_loop is s2 = Some s'" using 2(3) unfolding c k Let_def Option.bind.bind_lunit s2 .
    have "only_output (s\<lparr>sched := k\<rparr>) ?s1" by (rule message_output)
    moreover have "only_output ?s1 s2" using s2 by (rule printm_output)
    ultimately have o2: "only_output (s\<lparr>sched := k\<rparr>) s2" by (rule only_output_trans)
    obtain m where e: "sched s2 = k\<lparr>mm := (mm k)\<lparr>ram := m\<rparr>\<rparr>" "dev s2 = dev s" "layout (con s2) = layout (con s)"
      using only_output_sched [OF o2] by auto
    have p: "PositionInTable (tcb (sched s) ?t) = i" using 2(4) i t by (simp add: table_ok_def)
    note kt = KillThread_table [OF k t(2,1), unfolded p]
    have pt: "PositionInTable (tcb (sched s2) u) = PositionInTable (tcb (sched s) u)" "tid (tcb (sched s2) u) = tid (tcb (sched s) u)"
      and tt: "TORT (sched s2) = (TORT (sched s))[i := 0]" "current_thread (sched s2) = current_thread (sched s)" for u
      using kt by (simp_all add: e(1))
    have ok: "table_ok (sched s2)"
    proof -
      have "PositionInTable (tcb (sched s) (TORT (sched s2) ! j)) = j" if "j < TORT_SIZE" "TORT (sched s2) ! j \<noteq> 0" for j
        using 2(4) that by (cases "j = i") (simp_all add: table_ok_def tt)
      moreover have "length (TORT (sched s)) = TORT_SIZE" "tid (tcb (sched s) (current_thread (sched s))) \<le> 1"
        using 2(4) by (simp_all add: table_ok_def)
      ultimately show ?thesis unfolding table_ok_def pt tt(2) by (simp add: tt(1))
    qed
    have IH: "table_ok (sched s') \<and> dev s' = dev s2 \<and> layout (con s') = layout (con s2) \<and> (\<forall>i \<in> set is. cleaned (sched s') i) \<and>
       (\<forall>i<TORT_SIZE. cleaned (sched s2) i \<longrightarrow> TORT (sched s') ! i = TORT (sched s2) ! i \<and> cleaned (sched s') i)"
      by (rule 2(2) [OF refl False k refl s2 r ok]) (use 2(5) in simp)
    have ci: "cleaned (sched s2) i" using 2(4) i by (simp add: cleaned_def table_ok_def tt)
    have cj: "TORT (sched s2) ! j = TORT (sched s) ! j \<and> cleaned (sched s2) j" if "j < TORT_SIZE" "cleaned (sched s) j" for j
    proof -
      have "j \<noteq> i" using that(2) False by (auto simp: cleaned_def le_one)
      then show ?thesis using that(2) by (simp add: cleaned_def tt pt)
    qed
    have "TORT (sched s') ! j = TORT (sched s) ! j \<and> cleaned (sched s') j" if "j < TORT_SIZE" "cleaned (sched s) j" for j
      using cj [OF that] IH that(1) by simp
    then show ?thesis using IH ci i e(2,3) by simp
  qed
qed (simp add: cleaned_def)

text \<open>C19: After \<^verbatim>\<open>CleanAllThreads\<close> the table of threads holds the main thread and the idle thread and no other,
  and those two have kept their places; the devices are untouched.\<close>

theorem only_system_threads_left:
  assumes "CleanAllThreads s = Some s'" "table_ok (sched s)" "i < TORT_SIZE"
  shows "(TORT (sched s') ! i = 0 \<or> tid (tcb (sched s') (TORT (sched s') ! i)) \<in> {0, 1}) \<and>
    (tid (tcb (sched s) (TORT (sched s) ! i)) \<in> {0, 1} \<longrightarrow> TORT (sched s') ! i = TORT (sched s) ! i) \<and> dev s' = dev s"
proof -
  have c: "clean_loop [0..<TORT_SIZE] s = Some s'" using assms(1) by (simp add: CleanAllThreads_def)
  have "set [0..<TORT_SIZE] \<subseteq> {..<TORT_SIZE}" by auto
  note all = clean_loop_cleans [OF c assms(2) this]
  then have "cleaned (sched s') i" using assms(3) by simp
  then have "TORT (sched s') ! i = 0 \<or> tid (tcb (sched s') (TORT (sched s') ! i)) \<in> {0, 1}" by (simp add: cleaned_def le_one)
  moreover have "TORT (sched s') ! i = TORT (sched s) ! i" if "tid (tcb (sched s) (TORT (sched s) ! i)) \<in> {0, 1}"
  proof -
    have "cleaned (sched s) i" using that by (auto simp: cleaned_def le_one)
    then show ?thesis using all assms(3) by blast
  qed
  ultimately show ?thesis using all by blast
qed

lemma clean_loop_done: "\<forall>i \<in> set is. cleaned (sched s) i \<Longrightarrow> clean_loop is s = Some s"
  by (induction "is") (auto simp: cleaned_def le_one Let_def)

text \<open>A machine with the main thread, the idle thread and one more.\<close>

definition demo_table :: sched where
  "demo_table = demo_sched\<lparr>tcb := (\<lambda>_. zero_thread)
       (0x1000 := zero_thread\<lparr>tid := 0, t_state := THREAD_RUNNING\<rparr>, 0x2000 := zero_thread\<lparr>tid := 1, PositionInTable := 1\<rparr>,
        0x3000 := zero_thread\<lparr>tid := 2, PositionInTable := 2\<rparr>),
     TORT := [0x1000, 0x2000, 0x3000] @ replicate 13 0, sleep_queue_head := 0, sleep_queue_tail := 0,
     ready_queue_head := 0x3000, ready_queue_tail := 0x3000\<rparr>"

definition demo_machine :: "unit machine" where
  "demo_machine = \<lparr>sched = demo_table, con = demo_console, dev = ()\<rparr>"

lemma update_third: "(a # b # c # r)[2 := x] = a # b # x # r" by (simp add: numeral_2_eq_2)

lemma demo_table_kill:
  "\<exists>k. KillThread demo_table 0x3000 = Some k \<and> TORT k = [0x1000, 0x2000, 0] @ replicate 13 0 \<and> (\<forall>u. tid (tcb k u) = tid (tcb demo_table u))"
  by (simp add: KillThread_def demo_table_def demo_sched_def Let_def remove_from_sleep_queue_def kill_reclaim_def ready_unlink_def
      put_free_tcb_def clear_TORT_def FREE_TCB_LIST_SIZE_def upd_thread_def zero_thread_def update_third)

lemma demo_machine_cleans: "\<exists>s'. CleanAllThreads demo_machine = Some s'"
proof -
  obtain k where k: "KillThread demo_table 0x3000 = Some k" "TORT k = [0x1000, 0x2000, 0] @ replicate 13 0"
      "\<And>u. tid (tcb k u) = tid (tcb demo_table u)"
    using demo_table_kill by blast
  let ?s1 = "prints (out_ok 0 (bytes ''Thread '') 0) (demo_machine\<lparr>sched := k\<rparr>)"
  have "fits_buffer (line ''%d is over.'') [None]" by code_simp
  then have "reports ?s1 (printm (line ''%d is over.'') [Val (tid (tcb (sched ?s1) 0x3000))] ?s1)"
    by (rule printm_reports) simp
  then obtain s2 where s2: "printm (line ''%d is over.'') [Val (tid (tcb (sched ?s1) 0x3000))] ?s1 = Some s2" "only_output ?s1 s2"
    by (auto simp: reports_def)
  have "only_output (demo_machine\<lparr>sched := k\<rparr>) s2" using only_output_trans [OF message_output(4) s2(2)] .
  then obtain m where "sched s2 = (sched (demo_machine\<lparr>sched := k\<rparr>))\<lparr>mm := (mm (sched (demo_machine\<lparr>sched := k\<rparr>)))\<lparr>ram := m\<rparr>\<rparr>"
    by (rule only_output_sched)
  then have m: "sched s2 = k\<lparr>mm := (mm k)\<lparr>ram := m\<rparr>\<rparr>" by simp
  have t: "TORT demo_table ! 0 = 0x1000" "TORT demo_table ! 1 = 0x2000" "TORT demo_table ! 2 = 0x3000"
    "tid (tcb demo_table 0x1000) = 0" "tid (tcb demo_table 0x2000) = 1" "tid (tcb demo_table 0x3000) = 2"
    by (simp_all add: demo_table_def demo_sched_def zero_thread_def)
  have "\<forall>i \<in> set [3..<TORT_SIZE]. cleaned (sched s2) i"
  proof
    fix i assume i: "i \<in> set [3..<TORT_SIZE]"
    then have "TORT (sched s2) ! i = replicate 13 0 ! (i - 3)" by (simp add: m k(2) numeral_3_eq_3)
    moreover have "i - 3 < 13" using i unfolding set_upt atLeastLessThan_iff TORT_SIZE_def by linarith
    ultimately show "cleaned (sched s2) i" by (simp add: cleaned_def)
  qed
  then have "clean_loop [3..<TORT_SIZE] s2 = Some s2" by (rule clean_loop_done)
  then have "clean_loop (0 # 1 # 2 # [3..<TORT_SIZE]) demo_machine = Some s2"
  proof -
    let ?d = demo_machine
    have d: "sched ?d = demo_table" by (simp add: demo_machine_def)
    have c: "clean_loop (2 # [3..<TORT_SIZE]) ?d = Some s2"
      unfolding clean_loop.simps Let_def d t k(1) Option.bind.bind_lunit
      using s2(1) \<open>clean_loop [3..<TORT_SIZE] s2 = Some s2\<close> by simp
    show ?thesis unfolding clean_loop.simps(2) [of 0] clean_loop.simps(2) [of 1] Let_def d t using c by simp
  qed
  moreover have "[0..<TORT_SIZE] = 0 # 1 # 2 # [3..<TORT_SIZE]" by (simp add: TORT_SIZE_def upt_conv_Cons)
  ultimately show ?thesis by (auto simp: CleanAllThreads_def)
qed

lemma demo_table_ok: "table_ok demo_table"
proof -
  have "PositionInTable (tcb demo_table (TORT demo_table ! i)) = i" if "i < TORT_SIZE" "TORT demo_table ! i \<noteq> 0" for i
  proof -
    consider "i = 0" | "i = 1" | "i = 2" | "3 \<le> i" by linarith
    then show ?thesis
    proof cases
      case 4
      then have "TORT demo_table ! i = replicate 13 0 ! (i - 3)" by (simp add: demo_table_def numeral_3_eq_3)
      then show ?thesis using that 4 by (simp add: TORT_SIZE_def)
    qed (simp_all add: demo_table_def demo_sched_def zero_thread_def)
  qed
  then show ?thesis by (simp add: table_ok_def) (simp add: demo_table_def demo_sched_def zero_thread_def TORT_SIZE_def)
qed

lemma only_system_threads_left_witness:
  "\<exists>s'. CleanAllThreads demo_machine = Some s' \<and> TORT (sched demo_machine) ! 2 = 0x3000 \<and>
     (TORT (sched s') ! 2 = 0 \<or> tid (tcb (sched s') (TORT (sched s') ! 2)) \<in> {0, 1})"
proof -
  obtain s' where s': "CleanAllThreads demo_machine = Some s'" using demo_machine_cleans by blast
  have "table_ok (sched demo_machine)" by (simp add: demo_machine_def demo_table_ok)
  from only_system_threads_left [OF s' this, of 2] s' show ?thesis
    by (simp add: TORT_SIZE_def) (simp add: demo_machine_def demo_table_def)
qed

lemma reports_return_witness: "\<exists>s'. PrintRunningThreads demo_machine = Some s' \<and> only_frame (con demo_machine) (mem_of demo_machine) (mem_of s')"
  using reports_return [of "\<lparr>drives = replicate 4 no_drive, drive_count = 0\<rparr>" "PrintRunningThreads demo_machine" demo_machine]
  by (auto simp: no_drive_def)

section \<open>The timer\<close>

text \<open>A timer interrupt counts, signals its end to the controller before it leaves for another thread, and draws at most
  the cursor.\<close>

lemma timer_interrupt:
  assumes "irq_0 hw s = Some (t, s')"
  shows "dev s' = PIC_sendEOI hw 0 (dev s) \<and> con s' = con s \<and>
    (\<exists>k. schedule_select k = Some (t, sched s') \<and> SYSTEM_TimerTicks k = SYSTEM_TimerTicks (sched s) + 1 \<and>
       only_frame (con s) (mem_of s) (ram (mm k)))"
proof -
  have t: "irq_0_ticks w = w + 1" for w
  proof -
    have "w = 0xFFFFFFFFFFFFFFFF" if "0xFFFFFFFFFFFFFFFF \<le> w"
      using that unsigned_less [of w, where ?'a = nat] by (simp add: word_le_nat_alt word_unat_eq_iff)
    then show ?thesis by (auto simp: irq_0_ticks_def)
  qed
  show ?thesis using assms by (auto simp: irq_0_def prints_def t Let_def)
qed

end
