(* ===== verification/Acpi.thy ===== *)
theory Acpi
  imports Machine
begin

text \<open>
  ACPI tables and power control, \<^verbatim>\<open>Kernel/acpi/tables.c\<close> and \<^verbatim>\<open>Kernel/acpi/power.c\<close>.
  Tables are read from memory at the offsets the structures of \<^verbatim>\<open>Kernel/include/tables.h\<close> have
  under the calling convention of the compiler: those structures are not packed, so some of their fields
  do not lie where ACPI puts them.
\<close>

unbundle bit_operations_syntax

section \<open>Tables\<close>

record acpi =
  SYSTEM_RSDP_ADDR :: addr
  SYSTEM_XSDT_ADDR :: addr
  SYSTEM_FADT_ADDR :: addr

definition signature_is :: "mem \<Rightarrow> addr \<Rightarrow> string \<Rightarrow> bool" where
  "signature_is m a s \<longleftrightarrow> memcmp [m a, m (a + 1), m (a + 2), m (a + 3)] (bytes s) 4 = 0"

fun xsdt_loop :: "mem \<Rightarrow> addr \<Rightarrow> nat \<Rightarrow> nat \<Rightarrow> addr option" where
  "xsdt_loop m xsdt i 0 = None"
| "xsdt_loop m xsdt i (Suc n) =
     (let table_phys_addr = drop_bit 32 (rd64 m (xsdt + 32 + 8 * of_nat i))
      in if table_phys_addr = 0 then xsdt_loop m xsdt (i + 1) n
         else if signature_is m table_phys_addr ''FACP'' then Some table_phys_addr
         else xsdt_loop m xsdt (i + 1) n)"

fun rsdt_loop :: "mem \<Rightarrow> addr \<Rightarrow> nat \<Rightarrow> nat \<Rightarrow> addr option" where
  "rsdt_loop m rsdt i 0 = None"
| "rsdt_loop m rsdt i (Suc n) =
     (let table_phys_addr = ucast (rd64 m (rsdt + 32 + 8 * of_nat i)) :: u32
      in if table_phys_addr = 0 then rsdt_loop m rsdt (i + 1) n
         else if signature_is m (ucast table_phys_addr) ''FACP'' then Some (ucast table_phys_addr)
         else rsdt_loop m rsdt (i + 1) n)"

definition find_FADT :: "mem \<Rightarrow> acpi \<Rightarrow> addr" where
  "find_FADT m s =
     (let xsdt = SYSTEM_XSDT_ADDR s;
          found = (if signature_is m xsdt ''XSDT'' then xsdt_loop m xsdt 0 (unat ((rd32 m (xsdt + 4) - 28) div 8)) else None)
      in case found of Some a \<Rightarrow> a
         | None \<Rightarrow>
             let rsdt = ucast (rd32 m (SYSTEM_RSDP_ADDR s + 16))
             in if signature_is m rsdt ''RSDT''
                then (case rsdt_loop m rsdt 0 (unat ((rd32 m (rsdt + 4) - 32) div 4)) of Some a \<Rightarrow> a | None \<Rightarrow> 0)
                else 0)"

definition init_ACPI :: "mem \<Rightarrow> addr \<Rightarrow> acpi \<Rightarrow> bool \<times> acpi" where
  "init_ACPI m RSDP s =
     (if RSDP = 0 then (False, s)
      else if m (RSDP + 15) = 0 then (False, s)
      else let s = s\<lparr>SYSTEM_RSDP_ADDR := RSDP\<rparr>;
               s = s\<lparr>SYSTEM_XSDT_ADDR := rd64 m (RSDP + 24)\<rparr>;
               s = s\<lparr>SYSTEM_FADT_ADDR := find_FADT m s\<rparr>
           in (SYSTEM_XSDT_ADDR s \<noteq> 0 \<and> SYSTEM_FADT_ADDR s \<noteq> 0, s))"

section \<open>Power\<close>

definition poweroff_acpi :: "'d hw \<Rightarrow> acpi \<Rightarrow> ('d, 'z) machine_scheme \<Rightarrow> (int \<times> ('d, 'z) machine_scheme) option" where
  "poweroff_acpi hw a s =
     (let FADT = SYSTEM_FADT_ADDR a; m = ram (mm (sched s))
      in if FADT = 0 then Some (1, prints (out_error 0 (line ''ACPI FADT not found!'')) s)
         else let pm1a_cnt_addr = rd32 m (FADT + 64)
              in if pm1a_cnt_addr = 0 then Some (2, prints (out_error 0 (line ''PM1a control block not found'')) s)
                 else let slp_typa = m (FADT + 0x8C);
                          pm1a_value = (push_bit 9 1 OR push_bit 10 (ucast (slp_typa AND 0x5)) OR push_bit 13 1) :: u16;
                          pm1b = rd32 m (FADT + 68);
                          d = (if pm1b \<noteq> 0 then outw hw (ucast pm1b) pm1a_value (dev s) else dev s);
                          d = outw hw (ucast pm1a_cnt_addr) pm1a_value d
                      in Option.bind (delay_ms hw 10 d) (\<lambda>d.
                           let pm1a_value = push_bit 10 (ucast (slp_typa AND 0x7)) OR push_bit 13 1
                           in Some (3, s\<lparr>dev := outw hw (ucast pm1a_cnt_addr) pm1a_value d\<rparr>)))"

definition reboot_acpi :: "'d hw \<Rightarrow> acpi \<Rightarrow> ('d, 'z) machine_scheme \<Rightarrow> (int \<times> ('d, 'z) machine_scheme) option" where
  "reboot_acpi hw a s =
     (let FADT = SYSTEM_FADT_ADDR a; m = ram (mm (sched s))
      in if FADT = 0 then Some (1, prints (out_error 0 (line ''ACPI FADT not found!'')) s)
         else Option.bind (delay_ms hw 10 (outb hw (ucast (rd64 m (FADT + 128))) (m (FADT + 136)) (dev s)))
                (\<lambda>d. Some (0, s\<lparr>dev := d\<rparr>)))"

partial_function (option) reset_wait :: "'d hw \<Rightarrow> 'd \<Rightarrow> 'd option" where
  "reset_wait hw d = (let (good, d) = inb hw 0x64 d in if good AND 0x02 \<noteq> 0 then reset_wait hw d else Some d)"

definition reboot_legacy :: "'d hw \<Rightarrow> 'd \<Rightarrow> 'd option" where
  "reboot_legacy hw d = Option.bind (reset_wait hw d) (\<lambda>d. Some (io_wait hw (outb hw 0x64 0xFE d)))"

definition SYSTEM_SHUTDOWN :: "'d hw \<Rightarrow> acpi \<Rightarrow> ('d, 'z) machine_scheme \<Rightarrow> ('d, 'z) machine_scheme option" where
  "SYSTEM_SHUTDOWN hw a s = do {
     s \<leftarrow> CleanAllThreads s;
     let s = prints (print 0 (line ''The machine will turn off the power'') COLOR_CYAN) s;
     s \<leftarrow> on_dev (delay_ms hw 200) s;
     let s = interrupts_set False s;
     (_, s) \<leftarrow> poweroff_acpi hw a s;
     let s = prints (out_waring 0 (line ''ACPI power off failed, try legacy power off...'')) s;
     s \<leftarrow> on_dev (delay_ms hw 500) s;
     let d = outw hw 0xB004 0x2000 (dev s);
     let d = outw hw 0x604 0x2000 d;
     let d = outw hw 0x4004 0x3400 d;
     let d = outw hw 0x600 0x34 d;
     d \<leftarrow> reboot_legacy hw (io_wait hw d);
     let s = prints (out_error 0 (line ''Shutdown failed!'')) (s\<lparr>dev := d\<rparr>);
     Some (interrupts_set True s) }"

definition SYSTEM_REBOOT :: "'d hw \<Rightarrow> acpi \<Rightarrow> ('d, 'z) machine_scheme \<Rightarrow> ('d, 'z) machine_scheme option" where
  "SYSTEM_REBOOT hw a s = do {
     s \<leftarrow> CleanAllThreads s;
     let s = prints (print 0 (line ''The machine will restart'') COLOR_CYAN) s;
     s \<leftarrow> on_dev (delay_ms hw 200) s;
     let s = interrupts_set False s;
     (_, s) \<leftarrow> reboot_acpi hw a s;
     let s = prints (out_waring 0 (line ''ACPI reboot failed, try legacy reboot...'')) s;
     s \<leftarrow> on_dev (delay_ms hw 500) s;
     d \<leftarrow> reboot_legacy hw (dev s);
     let s = prints (out_error 0 (line ''Reboot failed!'')) (s\<lparr>dev := d\<rparr>);
     Some (interrupts_set True s) }"

section \<open>Where tables are found\<close>

text \<open>The entries of an extended table, where ACPI puts them.\<close>

definition sdt_entry :: "mem \<Rightarrow> addr \<Rightarrow> nat \<Rightarrow> addr" where
  "sdt_entry m sdt i = rd64 m (sdt + 36 + 8 * of_nat i)"

lemma upper_half: "drop_bit 32 (rd64 m a) = ucast (rd32 m (a + 4))"
  by (rule bit_word_eqI) (auto simp: rd64_def bit_drop_bit_eq bit_le64 bit_ucast_iff dest: bit_imp_le_length)

lemma lower_half: "rd64 m a < 2 ^ 32 \<Longrightarrow> ucast (rd32 m a) = rd64 m a"
proof (rule bit_word_eqI)
  fix n assume "rd64 m a < 2 ^ 32"
  then have "bit (rd64 m a) n \<Longrightarrow> n < 32" using low_bits [of "rd64 m a" n 32] by (simp add: word_less_nat_alt)
  then show "bit (ucast (rd32 m a) :: addr) n = bit (rd64 m a) n"
    by (auto simp: rd64_def bit_le64 bit_ucast_iff dest: bit_imp_le_length)
qed

lemma xsdt_word:
  assumes "sdt_entry m xsdt i < 2 ^ 32"
  shows "drop_bit 32 (rd64 m (xsdt + 32 + 8 * of_nat i)) = sdt_entry m xsdt i"
proof -
  have "xsdt + 32 + 8 * of_nat i + 4 = xsdt + 36 + 8 * of_nat i" by simp
  then show ?thesis using assms lower_half [of m "xsdt + 36 + 8 * of_nat i"] unfolding upper_half sdt_entry_def by metis
qed

lemma xsdt_loop_find:
  assumes "\<forall>j < n. sdt_entry m xsdt (i + j) < 2 ^ 32 \<and> sdt_entry m xsdt (i + j) \<noteq> 0" "n \<le> k"
    "List.find (\<lambda>a. signature_is m a ''FACP'') (map (sdt_entry m xsdt) [i..<i + n]) = Some a"
  shows "xsdt_loop m xsdt i k = Some a"
  using assms
proof (induction n arbitrary: i k)
  case (Suc n)
  obtain k' where k: "k = Suc k'" "n \<le> k'" using Suc.prems(2) by (cases k) auto
  have l: "[i..<i + Suc n] = i # [Suc i..<Suc i + n]" using upt_conv_Cons [of i "i + Suc n"] by simp
  have e: "drop_bit 32 (rd64 m (xsdt + 32 + 8 * of_nat i)) = sdt_entry m xsdt i" "sdt_entry m xsdt i \<noteq> 0"
    using Suc.prems(1) xsdt_word [of m xsdt i] by (auto dest: spec [of _ 0])
  show ?case
  proof (cases "signature_is m (sdt_entry m xsdt i) ''FACP''")
    case True
    then show ?thesis using Suc.prems(3) e unfolding l k(1) by simp
  next
    case False
    have "xsdt_loop m xsdt (Suc i) k' = Some a"
    proof (rule Suc.IH [OF _ k(2)])
      show "\<forall>j<n. sdt_entry m xsdt (Suc i + j) < 2 ^ 32 \<and> sdt_entry m xsdt (Suc i + j) \<noteq> 0"
        using Suc.prems(1) by (metis add_Suc_shift Suc_less_eq)
      show "List.find (\<lambda>a. signature_is m a ''FACP'') (map (sdt_entry m xsdt) [Suc i..<Suc i + n]) = Some a"
        using Suc.prems(3) [unfolded l] False by simp
    qed
    then show ?thesis using e False by (simp add: k(1))
  qed
qed simp

lemma table_count: "n < 2 ^ 28 \<Longrightarrow> unat (((of_nat (36 + 8 * n) :: u32) - 28) div 8) = Suc n"
proof -
  assume n: "n < 2 ^ 28"
  have "(of_nat (36 + 8 * n) :: u32) - 28 = of_nat (8 + 8 * n)" by simp
  moreover have k: "unat (of_nat k :: u32) = k" if "k < 2 ^ 32" for k
    using that by (simp add: unat_of_nat)
  have "8 + 8 * n < 2 ^ 32" using n by simp
  note k [OF this]
  ultimately show ?thesis by (simp only: unat_div) simp
qed

text \<open>C30: On a machine with an extended table the search finds the table it looks for: although the structure of the
  code puts the entries 4 bytes too low, shifting what it reads there by 32 bits gives the low half of
  the entry, which is the entry for tables below 4 GiB, so the first entry with the signature is returned.\<close>

theorem fadt_found_in_xsdt:
  assumes "signature_is m (SYSTEM_XSDT_ADDR s) ''XSDT''" "rd32 m (SYSTEM_XSDT_ADDR s + 4) = of_nat (36 + 8 * n)" "n < 2 ^ 28"
    and "\<forall>i<n. sdt_entry m (SYSTEM_XSDT_ADDR s) i < 2 ^ 32 \<and> sdt_entry m (SYSTEM_XSDT_ADDR s) i \<noteq> 0"
    and "List.find (\<lambda>a. signature_is m a ''FACP'') (map (sdt_entry m (SYSTEM_XSDT_ADDR s)) [0..<n]) = Some a"
  shows "find_FADT m s = a"
proof -
  have "xsdt_loop m (SYSTEM_XSDT_ADDR s) 0 (Suc n) = Some a"
    using xsdt_loop_find [of n m "SYSTEM_XSDT_ADDR s" 0 "Suc n" a] assms(4,5) by simp
  then show ?thesis using assms(1,2) table_count [OF assms(3)] by (simp add: find_FADT_def)
qed

text \<open>The bound of the loop is one entry too high: without such a table the bytes after the last
  entry are taken for an address.\<close>

lemma ucast_zero: "ucast (w :: u32) = (0 :: addr) \<longleftrightarrow> w = 0"
  by (simp add: word_unat_eq_iff)

lemma xsdt_read_past_end:
  assumes "\<forall>i<n. \<not> signature_is m (drop_bit 32 (rd64 m (xsdt + 32 + 8 * of_nat (k + i)))) ''FACP''"
    "rd32 m (xsdt + 36 + 8 * of_nat (k + n)) = w" "w \<noteq> 0" "signature_is m (ucast w) ''FACP''"
  shows "xsdt_loop m xsdt k (Suc n) = Some (ucast w)"
  using assms
proof (induction n arbitrary: k)
  case 0
  have "xsdt + 32 + 8 * of_nat k + 4 = xsdt + 36 + 8 * of_nat k" by simp
  then show ?case using 0 by (auto simp: upper_half ac_simps Let_def ucast_zero)
next
  case (Suc n)
  have "xsdt_loop m xsdt (Suc k) (Suc n) = Some (ucast w)"
    using Suc.prems by (intro Suc.IH) (auto simp del: xsdt_loop.simps dest: spec [of _ "Suc _"])
  moreover have "\<not> signature_is m (drop_bit 32 (rd64 m (xsdt + 32 + 8 * of_nat k))) ''FACP''"
    using Suc.prems(1) by (auto dest: spec [of _ 0])
  ultimately show ?case by (subst xsdt_loop.simps) (simp add: Let_def del: xsdt_loop.simps)
qed

text \<open>In a root table of the first kind the entries are 32 bits wide.  The code steps over them by 64 bits
  and starts 4 bytes too low, so the first entry is not looked at: here it is the table, and
  initialisation fails.\<close>

definition old_tables :: mem where
  "old_tables = (\<lambda>_. 0)(0x100F := 2, 0x1011 := 0x20,
     0x2000 := 0x52, 0x2001 := 0x53, 0x2002 := 0x44, 0x2003 := 0x54, 0x2004 := 40, 0x2020 := 1, 0x2025 := 0x30,
     0x3000 := 0x46, 0x3001 := 0x41, 0x3002 := 0x43, 0x3003 := 0x50)"

theorem rsdt_first_entry_missed:
  "let m = old_tables; rsdt = ucast (rd32 m 0x1010)
   in signature_is m rsdt ''RSDT'' \<and> rd32 m (rsdt + 4) = 36 + 4 \<and> signature_is m (ucast (rd32 m (rsdt + 36))) ''FACP'' \<and>
      init_ACPI m 0x1000 \<lparr>SYSTEM_RSDP_ADDR = 0, SYSTEM_XSDT_ADDR = 0, SYSTEM_FADT_ADDR = 0\<rparr> =
        (False, \<lparr>SYSTEM_RSDP_ADDR = 0x1000, SYSTEM_XSDT_ADDR = 0, SYSTEM_FADT_ADDR = 0\<rparr>)"
  by code_simp

text \<open>The reset register of ACPI is the 12 bytes from offset 116 and its value the byte at 128.  The code reads the
  bytes from 128 on as the port and the byte at 136 as the value, whatever the register is.\<close>

lemma reboot_ignores_reset_register:
  assumes "dev s' = dev s" "\<forall>k. 128 \<le> k \<and> k \<le> 136 \<longrightarrow>
      ram (mm (sched s')) (SYSTEM_FADT_ADDR a + of_nat k) = ram (mm (sched s)) (SYSTEM_FADT_ADDR a + of_nat k)"
  shows "map_option (\<lambda>(r, s). (r, dev s)) (reboot_acpi hw a s') = map_option (\<lambda>(r, s). (r, dev s)) (reboot_acpi hw a s)"
proof -
  have e: "ram (mm (sched s')) (SYSTEM_FADT_ADDR a + w) = ram (mm (sched s)) (SYSTEM_FADT_ADDR a + w)" if "128 \<le> w" "w \<le> 136" for w
    using assms(2) [rule_format, of "unat w"] that by (simp add: word_le_nat_alt)
  have "rd64 (ram (mm (sched s'))) (SYSTEM_FADT_ADDR a + 128) = rd64 (ram (mm (sched s))) (SYSTEM_FADT_ADDR a + 128)"
    by (simp add: rd64_def rd32_def add.assoc e)
  then show ?thesis
    using e [of 136] assms(1) by (cases "SYSTEM_FADT_ADDR a = 0") (simp_all add: reboot_acpi_def Let_def prints_def split: option.splits prod.splits Option.bind_split)
qed

section \<open>Shutting down\<close>

text \<open>Ports that keep a record of what is written and a keyboard controller that is ready after a while.\<close>

record port_log =
  now :: u64
  written :: "(u16 \<times> u16) list"
  kbc_busy :: nat

definition log_ports :: "port_log hw" where
  "log_ports = \<lparr>inb = (\<lambda>p d. if p = 0x64 \<and> 0 < kbc_busy d then (2, d\<lparr>kbc_busy := kbc_busy d - 1\<rparr>) else (0, d)),
     inw = (\<lambda>_ d. (0, d)), inl = (\<lambda>_ d. (0, d)),
     outb = (\<lambda>p v d. d\<lparr>written := written d @ [(p, ucast v)]\<rparr>), outw = (\<lambda>p v d. d\<lparr>written := written d @ [(p, v)]\<rparr>),
     outl = (\<lambda>_ _ d. d), rdtsc = (\<lambda>d. (now d, d\<lparr>now := now d + 1\<rparr>)), SYSTEM_CPU_Frequency = 2000000000\<rparr>"

interpretation log_clock: ticking log_ports now
  by unfold_locales (auto simp: log_ports_def)

lemma log_rdtsc: "rdtsc log_ports d = (now d, d\<lparr>now := now d + 1\<rparr>)"
  by (simp add: log_ports_def)

lemma delay_loop_quiet:
  assumes "delay_loop hw t c d = Some d'" "\<And>d. rdtsc hw d = (now d, d\<lparr>now := now d + 1\<rparr>)"
  shows "written d' = written d \<and> kbc_busy d' = kbc_busy d"
proof -
  let ?P = "\<lambda>hw t c d d'. (\<forall>d. rdtsc hw d = (now d, d\<lparr>now := now d + 1\<rparr>)) \<longrightarrow> written d' = written d \<and> kbc_busy d' = kbc_busy d"
  have "?P hw t c d d'"
  proof (rule delay_loop.raw_induct [of ?P, OF _ assms(1)])
    fix f hw t c d d'
    assume IH: "\<And>hw t c d d'. f hw t c d = Some d' \<Longrightarrow> ?P hw t c d d'"
      and e: "(let (t', d) = rdtsc hw d in if t' - t < c then f hw t c d else Some d) = Some d'"
    show "?P hw t c d d'"
    proof
      assume hw: "\<forall>d. rdtsc hw d = (now d, d\<lparr>now := now d + 1\<rparr>)"
      then show "written d' = written d \<and> kbc_busy d' = kbc_busy d"
        using e IH [of hw t c "d\<lparr>now := now d + 1\<rparr>" d'] by (auto simp: Let_def split: if_splits)
    qed
  qed
  then show ?thesis using assms(2) by simp
qed

lemma delay_quiet:
  obtains d' where "delay_ms log_ports ms d = Some d'" "written d' = written d" "kbc_busy d' = kbc_busy d"
proof -
  obtain d' where d': "delay_ms log_ports ms d = Some d'"
    using log_clock.delay_ms_returns [of ms d] by (auto simp: returns_def)
  then have "delay_loop log_ports (now d) (ucast ms * (SYSTEM_CPU_Frequency log_ports div 1000)) (d\<lparr>now := now d + 1\<rparr>) = Some d'"
    by (simp add: delay_ms_def Let_def log_rdtsc)
  from delay_loop_quiet [OF this log_rdtsc] show ?thesis using that d' by simp
qed

lemma reset_wait_quiet:
  obtains d' where "reset_wait log_ports d = Some d'" "written d' = written d"
proof -
  have "\<exists>d'. reset_wait log_ports d = Some d' \<and> written d' = written d"
  proof (induction "kbc_busy d" arbitrary: d)
    case 0
    then show ?case by (subst reset_wait.simps) (auto simp: log_ports_def)
  next
    case (Suc n)
    have "inb log_ports 0x64 d = (2, d\<lparr>kbc_busy := kbc_busy d - 1\<rparr>)" using Suc(2) by (simp add: log_ports_def)
    moreover have "\<exists>d'. reset_wait log_ports (d\<lparr>kbc_busy := kbc_busy d - 1\<rparr>) = Some d' \<and> written d' = written (d\<lparr>kbc_busy := kbc_busy d - 1\<rparr>)"
      by (rule Suc(1)) (simp add: Suc(2) [symmetric])
    ultimately show ?case by (subst reset_wait.simps) (auto simp: Let_def)
  qed
  then show ?thesis using that by blast
qed

text \<open>What \<^verbatim>\<open>poweroff_acpi\<close> writes.\<close>

definition poweroff_writes :: "mem \<Rightarrow> addr \<Rightarrow> (u16 \<times> u16) list" where
  "poweroff_writes m FADT =
     (let typ = m (FADT + 0x8C); v = 0x200 OR push_bit 10 (ucast (typ AND 5)) OR 0x2000; a = ucast (rd32 m (FADT + 64));
          b = rd32 m (FADT + 68)
      in (if b = 0 then [] else [(ucast b, v)]) @ [(a, v), (a, push_bit 10 (ucast (typ AND 7)) OR 0x2000)])"

lemma written_outb: "written (outb log_ports p b d) = written d @ [(p, ucast b)]"
  by (simp add: log_ports_def)

lemma written_outw: "written (outw log_ports p v d) = written d @ [(p, v)]"
  by (simp add: log_ports_def)

lemma poweroff_log:
  assumes "SYSTEM_FADT_ADDR a = FADT" "FADT \<noteq> 0" "m = ram (mm (sched s))" "rd32 m (FADT + 64) \<noteq> 0"
  obtains d where "poweroff_acpi log_ports a s = Some (3, s\<lparr>dev := d\<rparr>)" "written d = written (dev s) @ poweroff_writes m FADT"
proof -
  let ?v = "0x200 OR push_bit 10 (ucast (m (FADT + 0x8C) AND 5)) OR 0x2000 :: u16"
  let ?a = "ucast (rd32 m (FADT + 64))"
  let ?b = "rd32 m (FADT + 68)"
  let ?d0 = "outw log_ports ?a ?v (if ?b \<noteq> 0 then outw log_ports (ucast ?b) ?v (dev s) else dev s)"
  obtain d where d: "delay_ms log_ports 10 ?d0 = Some d" "written d = written ?d0" by (rule delay_quiet)
  let ?d1 = "outw log_ports ?a (push_bit 10 (ucast (m (FADT + 0x8C) AND 7)) OR 0x2000) d"
  have p: "push_bit 9 1 = (0x200 :: u16)" "push_bit 13 1 = (0x2000 :: u16)" by simp_all
  have "poweroff_acpi log_ports a s = Some (3, s\<lparr>dev := ?d1\<rparr>)"
    unfolding poweroff_acpi_def Let_def p assms(1) assms(3) [symmetric] if_not_P [OF assms(2)] if_not_P [OF assms(4)] d(1) by simp
  moreover have "written ?d1 = written (dev s) @ poweroff_writes m FADT"
    by (simp only: written_outw d(2) poweroff_writes_def Let_def) (simp add: written_outw)
  ultimately show ?thesis by (rule that)
qed

lemma prints_simps [simp]: "dev (prints f s) = dev s" "interrupts (sched (prints f s)) = interrupts (sched s)"
  by (simp_all add: prints_def split: prod.split)

text \<open>C29: When the power stays on, \<^verbatim>\<open>SYSTEM_SHUTDOWN\<close> tries everything in order and returns: the ACPI registers
  with the sleep type and the enable bit, the ports of four emulators, then the reset line of the keyboard controller,
  however long that is busy; interrupts are on again at the end.  The table is read after the first
  message is printed and must not lie in the frame buffer.\<close>

theorem shutdown_sequence:
  assumes "CleanAllThreads s = Some t" "SYSTEM_FADT_ADDR a \<noteq> 0"
    and "rd32 (mem_of t) (SYSTEM_FADT_ADDR a + 64) \<noteq> 0"
    and "\<forall>k<0x90. \<not> in_frame (screen (con s)) (SYSTEM_FADT_ADDR a + of_nat k)"
  shows "\<exists>s'. SYSTEM_SHUTDOWN log_ports a s = Some s' \<and> interrupts (sched s') \<and>
    written (dev s') = written (dev s) @ poweroff_writes (mem_of t) (SYSTEM_FADT_ADDR a) @
      [(0xB004, 0x2000), (0x604, 0x2000), (0x4004, 0x3400), (0x600, 0x34), (0x80, 0), (0x64, 0xFE), (0x80, 0)]"
proof -
  let ?F = "SYSTEM_FADT_ADDR a"
  let ?off = "print 0 (line ''The machine will turn off the power'') COLOR_CYAN"
  obtain c m where p: "?off (con t, mem_of t) = (c, m)" by fastforce
  have ct: "dev t = dev s" "layout (con t) = layout (con s)"
    using clean_loop_dev assms(1) by (auto simp: CleanAllThreads_def)
  have "draws (con t, mem_of t) (c, m)" unfolding p [symmetric] by (rule print_draws)
  then have m: "m (?F + of_nat k) = mem_of t (?F + of_nat k)" if "k < 0x90" for k
    using assms(4) that by (simp add: draws_def only_frame_def layout_D(1) [OF ct(2)])
  have w: "m (?F + w) = mem_of t (?F + w)" if "w < 0x90" for w
    using m [of "unat w"] that by (simp add: word_less_nat_alt)
  let ?s1 = "prints ?off t"
  have r1: "ram (mm (sched ?s1)) = m" by (simp add: prints_def p)
  obtain d2 where d2: "delay_ms log_ports 200 (dev t) = Some d2" "written d2 = written (dev s)" using delay_quiet [of 200 "dev t"] ct(1) by metis
  let ?s2 = "interrupts_set False (?s1\<lparr>dev := d2\<rparr>)"
  have r2: "m = ram (mm (sched ?s2))" by (simp add: interrupts_set_def r1)
  have "rd32 m (?F + 64) \<noteq> 0" and pw: "poweroff_writes m ?F = poweroff_writes (mem_of t) ?F"
    using assms(3) by (simp_all add: poweroff_writes_def rd32_def w add.assoc)
  then obtain d3 where d3: "poweroff_acpi log_ports a ?s2 = Some (3, ?s2\<lparr>dev := d3\<rparr>)"
      "written d3 = written (dev ?s2) @ poweroff_writes m ?F"
    using poweroff_log [OF refl assms(2) r2] by blast
  obtain d4 where d4: "delay_ms log_ports 500 d3 = Some d4" "written d4 = written d3" by (rule delay_quiet)
  let ?d5 = "outw log_ports 0x600 0x34 (outw log_ports 0x4004 0x3400 (outw log_ports 0x604 0x2000 (outw log_ports 0xB004 0x2000 d4)))"
  obtain d6 where d6: "reset_wait log_ports (io_wait log_ports ?d5) = Some d6" "written d6 = written (io_wait log_ports ?d5)"
    by (rule reset_wait_quiet)
  let ?d7 = "io_wait log_ports (outb log_ports 0x64 0xFE d6)"
  have d7: "reboot_legacy log_ports (io_wait log_ports ?d5) = Some ?d7" by (simp add: reboot_legacy_def d6)
  have w7: "written ?d7 = written (dev s) @ poweroff_writes m ?F @
      [(0xB004, 0x2000), (0x604, 0x2000), (0x4004, 0x3400), (0x600, 0x34), (0x80, 0), (0x64, 0xFE), (0x80, 0)]"
    by (simp add: io_wait_def written_outb written_outw d2 d3 d4 d6 interrupts_set_def)
  have "\<exists>s'. SYSTEM_SHUTDOWN log_ports a s = Some s' \<and> interrupts (sched s') \<and> written (dev s') = written ?d7"
    by (simp add: SYSTEM_SHUTDOWN_def on_dev_def Let_def assms(1) d2 d3 d4 d7) (simp add: interrupts_set_def)
  then show ?thesis by (simp only: w7 pw)
qed

lemma frame_above: "in_frame info a \<Longrightarrow> unat (framebuffer info) + 4 * (cols info * rows info) \<le> 2 ^ 64 \<Longrightarrow> framebuffer info \<le> a"
  by (rule ccontr) (simp add: in_frame_def within_def unat_sub_if_size word_le_nat_alt word_size)

definition power_tables :: mem where
  "power_tables = (\<lambda>_. 0)(0x3040 := 0xB2, 0x308C := 7)"

lemma shutdown_sequence_witness:
  "\<exists>(s :: port_log machine) s'. SYSTEM_SHUTDOWN log_ports \<lparr>SYSTEM_RSDP_ADDR = 0, SYSTEM_XSDT_ADDR = 0, SYSTEM_FADT_ADDR = 0x3000\<rparr> s = Some s' \<and>
     take 2 (written (dev s')) = [(0xB2, 0x3600), (0xB2, 0x3C00)]"
proof -
  let ?a = "\<lparr>SYSTEM_RSDP_ADDR = 0, SYSTEM_XSDT_ADDR = 0, SYSTEM_FADT_ADDR = 0x3000\<rparr>"
  let ?t = "demo_sched\<lparr>mm := demo_boot\<lparr>ram := power_tables\<rparr>\<rparr>"
  let ?s = "\<lparr>sched = ?t, con = demo_console, dev = \<lparr>now = 0, written = [], kbc_busy = 3\<rparr>\<rparr>"
  have c: "CleanAllThreads ?s = Some ?s"
    unfolding CleanAllThreads_def by (rule clean_loop_done) (simp add: cleaned_def demo_sched_def)
  have f: "\<not> in_frame (screen (con ?s)) (SYSTEM_FADT_ADDR ?a + of_nat k)" if "k < 0x90" for k
  proof -
    have "(0x3000 :: addr) + of_nat k < 0x80000000"
      using that by (simp add: word_less_nat_alt unat_word_ariths unat_of_nat)
    moreover have "in_frame (screen demo_console) a \<Longrightarrow> 0x80000000 \<le> a" for a
      using frame_above [of "screen demo_console" a] by (simp add: demo_console_def)
    ultimately show ?thesis by (fastforce simp: not_le)
  qed
  have r: "rd32 (mem_of ?s) (SYSTEM_FADT_ADDR ?a + 64) = 0xB2"
    "poweroff_writes (mem_of ?s) (SYSTEM_FADT_ADDR ?a) = [(0xB2, 0x3600), (0xB2, 0x3C00)]"
    by (simp_all add: poweroff_writes_def rd32_def power_tables_def le32_def)
  obtain s' where s': "SYSTEM_SHUTDOWN log_ports ?a ?s = Some s'" "written (dev s') = written (dev ?s) @
      poweroff_writes (mem_of ?s) (SYSTEM_FADT_ADDR ?a) @
      [(0xB004, 0x2000), (0x604, 0x2000), (0x4004, 0x3400), (0x600, 0x34), (0x80, 0), (0x64, 0xFE), (0x80, 0)]"
    using shutdown_sequence [OF c, of ?a] f r(1) by auto
  have "take 2 (written (dev s')) = [(0xB2, 0x3600), (0xB2, 0x3C00)]" unfolding s'(2) r(2) by simp
  with s'(1) show ?thesis by blast
qed

definition new_tables :: mem where
  "new_tables = (\<lambda>_. 0)(0x2000 := 0x58, 0x2001 := 0x53, 0x2002 := 0x44, 0x2003 := 0x54, 0x2004 := 52,
     0x2025 := 0x30, 0x202D := 0x40, 0x3000 := 0x41, 0x4000 := 0x46, 0x4001 := 0x41, 0x4002 := 0x43, 0x4003 := 0x50)"

lemma new_tables_words:
  "rd32 new_tables 0x2004 = 52" "sdt_entry new_tables 0x2000 0 = 0x3000" "sdt_entry new_tables 0x2000 1 = 0x4000"
  by (simp_all add: new_tables_def sdt_entry_def rd64_def le64_def rd32_def le32_def)

lemma memcmp4: "memcmp [a, b, c, d] [a', b', c', d'] 4 = 0 \<longleftrightarrow> a = a' \<and> b = b' \<and> c = c' \<and> d = d'"
  by (simp add: eval_nat_numeral word_uint_eq_iff)

lemma new_tables_names:
  "signature_is new_tables 0x2000 ''XSDT''" "\<not> signature_is new_tables 0x3000 ''FACP''" "signature_is new_tables 0x4000 ''FACP''"
  by (simp_all add: signature_is_def new_tables_def bytes_def memcmp4)

lemma fadt_found_in_xsdt_witness:
  "find_FADT new_tables \<lparr>SYSTEM_RSDP_ADDR = 0, SYSTEM_XSDT_ADDR = 0x2000, SYSTEM_FADT_ADDR = 0\<rparr> = 0x4000"
proof -
  let ?s = "\<lparr>SYSTEM_RSDP_ADDR = 0, SYSTEM_XSDT_ADDR = 0x2000, SYSTEM_FADT_ADDR = 0\<rparr>"
  have l: "[0..<2] = [0, 1]" by (simp add: upt_rec)
  show ?thesis
  proof (rule fadt_found_in_xsdt [where n = 2])
    show "rd32 new_tables (SYSTEM_XSDT_ADDR ?s + 4) = of_nat (36 + 8 * 2)" using new_tables_words(1) by simp
    show "\<forall>i<2. sdt_entry new_tables (SYSTEM_XSDT_ADDR ?s) i < 2 ^ 32 \<and> sdt_entry new_tables (SYSTEM_XSDT_ADDR ?s) i \<noteq> 0"
      using new_tables_words(2,3) by (auto simp: less_2_cases_iff)
    show "List.find (\<lambda>a. signature_is new_tables a ''FACP'') (map (sdt_entry new_tables (SYSTEM_XSDT_ADDR ?s)) [0..<2]) = Some 0x4000"
      using new_tables_words(2,3) new_tables_names(2,3) unfolding l by simp
  qed (use new_tables_names(1) in simp_all)
qed

end
