(* ===== verification/Fault.thy ===== *)
theory Fault
  imports Acpi
begin

text \<open>
  The exceptions of \<^verbatim>\<open>Kernel/kernel/idt.c\<close> that end the system.  Each handler reports on the screen and
  on the serial line and calls \<^verbatim>\<open>SYSTEM_STOP\<close>: the result is the state in which the processor halts
  with interrupts off, and \<open>None\<close> is a handler that waits for ever before it gets there.
\<close>

unbundle bit_operations_syntax

section \<open>The handlers\<close>

definition SERIAL_COM1_PORT :: u16 where "SERIAL_COM1_PORT = 0x3F8"

definition problem :: "string \<Rightarrow> string" where
  "problem name = ''Your computer is experiencing a problem and needs to be restarted:'' @ name"

definition serial :: "'d hw \<Rightarrow> bool \<Rightarrow> u8 list \<Rightarrow> ('d, 'z) machine_scheme \<Rightarrow> ('d, 'z) machine_scheme option" where
  "serial hw SerialIsInit text = on_dev (serial_putstr hw SerialIsInit SERIAL_COM1_PORT text)"

definition draw_text :: "u8 list \<Rightarrow> int \<Rightarrow> int \<Rightarrow> u32 \<Rightarrow> ('d, 'z) machine_scheme \<Rightarrow> ('d, 'z) machine_scheme" where
  "draw_text text x y color = prints (\<lambda>(c, m). (c, DrawString c text x y color m))"

text \<open>What the handlers have in common: the name, the message in the middle of the screen and the width in
  characters it is taken to have.\<close>

definition fatal :: "'d hw \<Rightarrow> bool \<Rightarrow> string \<Rightarrow> string \<Rightarrow> int \<Rightarrow> ('d, 'z) machine_scheme \<Rightarrow> ('d, 'z) machine_scheme option" where
  "fatal hw SerialIsInit name text chars s = do {
     s \<leftarrow> serial hw SerialIsInit (bytes name) (prints (out_error 0 (bytes name)) s);
     s \<leftarrow> on_dev (delay_ms hw 100) s;
     let s = draw_text (bytes text) (uint (ScreenWidth (con s)) div 2 - chars * 5) (uint (ScreenHeigth (con s)) div 2 - 8) COLOR_WHITE s;
     on_dev (delay_ms hw 100) s }"

definition interrupt_DE where "interrupt_DE hw ini = fatal hw ini ''#DE'' (problem ''#DE'') 70"
definition interrupt_DB where "interrupt_DB hw ini = fatal hw ini ''#DB'' (problem ''#DB'') 70"
definition interrupt_NMI where "interrupt_NMI hw ini = fatal hw ini ''#NMI'' (problem ''#NMI'') 70"
definition interrupt_BP where "interrupt_BP hw ini = fatal hw ini ''#BP'' (problem ''#BP'') 70"
definition interrupt_OF where "interrupt_OF hw ini = fatal hw ini ''#OF'' (problem ''#OF'') 70"
definition interrupt_BR where "interrupt_BR hw ini = fatal hw ini ''#BR'' ''#BR'' 3"
definition interrupt_UD where "interrupt_UD hw ini = fatal hw ini ''#UD'' (problem ''#UD'') 70"
definition interrupt_NM where "interrupt_NM hw ini = fatal hw ini ''#NM'' (problem ''#NM'') 70"
definition interrupt_DF where "interrupt_DF hw ini = fatal hw ini ''#DF'' (problem ''#DF'') 70"
definition interrupt_TS where "interrupt_TS hw ini = fatal hw ini ''#TS'' (problem ''#TS'') 70"
definition interrupt_NP where "interrupt_NP hw ini = fatal hw ini ''#NP'' (problem ''#NP'') 70"
definition interrupt_SS where "interrupt_SS hw ini = fatal hw ini ''#SS'' ''#SS'' 3"
definition interrupt_MF where "interrupt_MF hw ini = fatal hw ini ''#MF'' ''#MF'' 3"
definition interrupt_AC where "interrupt_AC hw ini = fatal hw ini ''#AC'' (problem ''#AC'') 70"
definition interrupt_MC where "interrupt_MC hw ini = fatal hw ini ''#MC'' ''#MC'' 3"
definition interrupt_XM where "interrupt_XM hw ini = fatal hw ini ''#XM'' ''#XM'' 3"
definition interrupt_VE where "interrupt_VE hw ini = fatal hw ini ''#VE'' ''#VE'' 3"

text \<open>An exception without a handler of its own is ignored.\<close>

definition interrupt_default :: "('d, 'z) machine_scheme \<Rightarrow> ('d, 'z) machine_scheme" where
  "interrupt_default s = s"

section \<open>Page faults and protection faults\<close>

text \<open>\<^verbatim>\<open>sprintf\<close> into memory at a pointer, through the page tables of the moment; \<open>None\<close> is another fault.\<close>

fun poke_text :: "addr \<Rightarrow> u8 list \<Rightarrow> mm_state \<Rightarrow> mm_state option" where
  "poke_text a [] m = Some m"
| "poke_text a (b # t) m =
     Option.bind (mmu_level 3 (ram m) (cr3 m) a) (\<lambda>p. poke_text (a + 1) t (m\<lparr>ram := (ram m)(p := b)\<rparr>))"

text \<open>The text is what the code reads back from where it has just put it.\<close>

definition sprintf_at :: "addr \<Rightarrow> u8 list \<Rightarrow> arg list \<Rightarrow> ('d, 'z) machine_scheme \<Rightarrow> (u8 list \<times> ('d, 'z) machine_scheme) option" where
  "sprintf_at a format args s = do {
     t \<leftarrow> vsprintf format args;
     m \<leftarrow> poke_text a (t @ [0]) (mm (sched s));
     Some (t, s\<lparr>sched := (sched s)\<lparr>mm := m\<rparr>\<rparr>) }"

text \<open>\<open>err\<close> is what the pointer that is never set happens to hold.\<close>

definition interrupt_PF ::
  "'d hw \<Rightarrow> bool \<Rightarrow> addr \<Rightarrow> u64 \<Rightarrow> u64 \<Rightarrow> ('d, 'z) machine_scheme \<Rightarrow> ('d, 'z) machine_scheme option" where
  "interrupt_PF hw ini err fault_addr error_code s = do {
     let mode = (if bit error_code 2 then ''[USER]'' else ''[SUPER]'');
     let access = (if bit error_code 1 then ''[WRITE]'' else ''[READ]'');
     let fetch = (if bit error_code 4 then ''[EXEC]'' else '''');
     s \<leftarrow> serial hw ini (line ''#PF:'') (prints (out_error 0 (line ''#PF'')) s);
     (t, s) \<leftarrow> sprintf_at err (line ''#PF at addr: %p error: %p'') [Val fault_addr, Val error_code] s;
     s \<leftarrow> serial hw ini t s;
     s \<leftarrow> serial hw ini (bytes mode) s;
     s \<leftarrow> serial hw ini (bytes access) s;
     s \<leftarrow> serial hw ini (bytes fetch) s;
     s \<leftarrow> printm t [] s;
     let s = draw_text (bytes mode) 30 122 (if bit error_code 2 then COLOR_YELLOW else COLOR_CYAN) s;
     let s = draw_text (bytes access) 100 122 COLOR_YELLOW s;
     let s = draw_text (bytes fetch) 190 122 COLOR_YELLOW s;
     on_dev (delay_ms hw 500) s }"

definition interrupt_GP ::
  "'d hw \<Rightarrow> bool \<Rightarrow> addr \<Rightarrow> addr \<Rightarrow> u64 \<Rightarrow> u64 \<Rightarrow> ('d, 'z) machine_scheme \<Rightarrow> ('d, 'z) machine_scheme option" where
  "interrupt_GP hw ini errorcode_ptr rip_ptr error_code ip s = do {
     s \<leftarrow> serial hw ini (line ''#GP'') (prints (out_error 0 (bytes ''#GP'')) s);
     (t, s) \<leftarrow> sprintf_at errorcode_ptr (line ''ERROR CODE:%X'') [Val error_code] s;
     s \<leftarrow> serial hw ini t s;
     (t, s) \<leftarrow> sprintf_at rip_ptr (line ''RIP:%p'') [Val ip] s;
     s \<leftarrow> serial hw ini t s;
     s \<leftarrow> printm (line ''#GP err=%p RIP=%p'') [Val error_code, Val ip] s;
     s \<leftarrow> on_dev (delay_ms hw 100) s;
     let s = draw_text (bytes ''Your computer is experiencing a problem:#GP'') (uint (ScreenWidth (con s)) div 2 - 44 * 5)
               (uint (ScreenHeigth (con s)) div 2 - 8) COLOR_WHITE s;
     on_dev (delay_ms hw 100) s }"

section \<open>A machine with a serial line\<close>

definition uart_ports :: "port_log hw" where
  "uart_ports = log_ports\<lparr>inb := (\<lambda>p d. if p = 0x3FD then (0x20, d) else inb log_ports p d)\<rparr>"

lemma uart_rdtsc: "rdtsc uart_ports d = (now d, d\<lparr>now := now d + 1\<rparr>)"
  by (simp add: uart_ports_def log_rdtsc)

interpretation uart_clock: ticking uart_ports now
  by unfold_locales (auto simp: uart_ports_def log_ports_def)

lemma uart_delay:
  obtains d' where "delay_ms uart_ports ms d = Some d'" "written d' = written d"
proof -
  obtain d' where d': "delay_ms uart_ports ms d = Some d'"
    using uart_clock.delay_ms_returns [of ms d] by (auto simp: returns_def)
  then have "delay_loop uart_ports (now d) (ucast ms * (SYSTEM_CPU_Frequency uart_ports div 1000)) (d\<lparr>now := now d + 1\<rparr>) = Some d'"
    by (simp add: delay_ms_def Let_def uart_rdtsc)
  from delay_loop_quiet [OF this uart_rdtsc] show ?thesis using that d' by simp
qed

definition sent :: "u8 list \<Rightarrow> (u16 \<times> u16) list" where
  "sent t = map (\<lambda>c. (0x3F8, ucast c)) t"

lemma uart_putstr: "0 \<notin> set t \<Longrightarrow> serial_putstr uart_ports True 0x3F8 t d = Some (d\<lparr>written := written d @ sent t\<rparr>)"
proof (induction t arbitrary: d)
  case (Cons c t)
  have "transmit_wait uart_ports 0x3F8 d = Some d"
    by (subst transmit_wait.simps) (simp add: is_transmit_empty_def uart_ports_def)
  then have "serial_putchar uart_ports True 0x3F8 c d = Some (d\<lparr>written := written d @ [(0x3F8, ucast c)]\<rparr>)"
    by (simp add: serial_putchar_def) (simp add: uart_ports_def log_ports_def)
  then show ?case using Cons by (simp add: sent_def)
qed (simp add: sent_def)

lemma DrawString_loop_frame: "only_frame c m (DrawString_loop c t x0 x y color m)"
proof (induction t arbitrary: x y m)
  case (Cons ch t)
  have "only_frame c m (DrawString_loop c t x0 x' y' color (DrawChar c ch x'' y'' color m))" for x' y' x'' y''
    by (rule only_frame_trans [OF DrawChar_frame Cons])
  then show ?case using Cons by (simp add: Let_def)
qed simp

lemma draw_text_output: "only_output s (draw_text t x y color s)"
  unfolding draw_text_def
  by (rule prints_output) (auto simp: draws_def DrawString_def DrawString_loop_frame)

definition stops_with :: "u8 list \<Rightarrow> (port_log, 'z) machine_scheme \<Rightarrow> (port_log, 'z) machine_scheme option \<Rightarrow> bool" where
  "stops_with t s r \<longleftrightarrow> (\<exists>s'. r = Some s' \<and> written (dev s') = written (dev s) @ sent t \<and> only_frame (con s) (mem_of s) (mem_of s') \<and>
     layout (con s') = layout (con s))"

lemma fatal_stops:
  assumes "list_all (\<lambda>c. of_char c \<noteq> (0 :: u8)) name"
  shows "stops_with (bytes name) s (fatal uart_ports True name text chars s)"
proof -
  let ?s1 = "prints (out_error 0 (bytes name)) s"
  let ?s2 = "?s1\<lparr>dev := (dev ?s1)\<lparr>written := written (dev ?s1) @ sent (bytes name)\<rparr>\<rparr>"
  have s2: "serial uart_ports True (bytes name) ?s1 = Some ?s2"
    using assms uart_putstr [of "bytes name"]
    by (force simp: serial_def on_dev_def SERIAL_COM1_PORT_def bytes_def list_all_iff)
  obtain d3 where d3: "delay_ms uart_ports 100 (dev ?s2) = Some d3" "written d3 = written (dev ?s2)" by (rule uart_delay)
  let ?s3 = "?s2\<lparr>dev := d3\<rparr>"
  let ?s4 = "draw_text (bytes text) (uint (ScreenWidth (con ?s3)) div 2 - chars * 5) (uint (ScreenHeigth (con ?s3)) div 2 - 8) COLOR_WHITE ?s3"
  obtain d5 where d5: "delay_ms uart_ports 100 (dev ?s4) = Some d5" "written d5 = written (dev ?s4)" by (rule uart_delay)
  have r: "fatal uart_ports True name text chars s = Some (?s4\<lparr>dev := d5\<rparr>)"
    unfolding fatal_def s2 Option.bind.bind_lunit on_dev_def d3(1) option.map Let_def d5(1) ..
  have o1: "draws (con s, mem_of s) (con ?s1, mem_of ?s1)" using message_output(2) [of s 0 "bytes name"] by (simp add: only_output_def)
  have o4: "draws (con ?s3, mem_of ?s3) (con ?s4, mem_of ?s4)" using draw_text_output [of ?s3] by (simp add: only_output_def)
  have "draws (con s, mem_of s) (con ?s4, mem_of ?s4)" using draws_trans [OF o1] o4 by simp
  moreover have "dev ?s4 = d3" "dev ?s1 = dev s" by (simp_all add: draw_text_def prints_def)
  ultimately show ?thesis using d3(2) d5(2) r by (simp add: stops_with_def draws_def)
qed

definition fatal_exceptions :: "(string \<times> (port_log machine \<Rightarrow> port_log machine option)) list" where
  "fatal_exceptions =
     [(''#DE'', interrupt_DE uart_ports True), (''#DB'', interrupt_DB uart_ports True), (''#NMI'', interrupt_NMI uart_ports True),
      (''#BP'', interrupt_BP uart_ports True), (''#OF'', interrupt_OF uart_ports True), (''#BR'', interrupt_BR uart_ports True),
      (''#UD'', interrupt_UD uart_ports True), (''#NM'', interrupt_NM uart_ports True), (''#DF'', interrupt_DF uart_ports True),
      (''#TS'', interrupt_TS uart_ports True), (''#NP'', interrupt_NP uart_ports True), (''#SS'', interrupt_SS uart_ports True),
      (''#MF'', interrupt_MF uart_ports True), (''#AC'', interrupt_AC uart_ports True), (''#MC'', interrupt_MC uart_ports True),
      (''#XM'', interrupt_XM uart_ports True), (''#VE'', interrupt_VE uart_ports True)]"


definition logged_machine :: "port_log machine" where
  "logged_machine = \<lparr>sched = demo_table, con = demo_console, dev = \<lparr>now = 0, written = [], kbc_busy = 0\<rparr>\<rparr>"


text \<open>The report of a page fault is written through a pointer that is never set: where that address is not
  mapped the handler faults again before it has reported the address.\<close>

theorem page_fault_report_faults:
  assumes "\<forall>m. only_frame (con s) (mem_of s) m \<longrightarrow> mmu_level 3 m (cr3 (mm (sched s))) err = None"
  shows "interrupt_PF hw ini err fault_addr error_code s = None"
proof -
  let ?s1 = "prints (out_error 0 (line ''#PF'')) s"
  have o1: "only_output s ?s1" by (rule message_output)
  then have "only_frame (con s) (mem_of s) (mem_of ?s1)" by (simp add: only_output_def draws_def)
  then have none: "mmu_level 3 (mem_of ?s1) (cr3 (mm (sched s))) err = None" using assms by blast
  have c: "cr3 (mm (sched ?s1)) = cr3 (mm (sched s))" by (simp add: prints_def)
  have "\<exists>t. vsprintf (line ''#PF at addr: %p error: %p'') [Val fault_addr, Val error_code] = Some t"
  proof -
    have "fits_buffer (line ''#PF at addr: %p error: %p'') [None, None]" by code_simp
    then show ?thesis using cost_bound [of _ "[None, None]" _ "[Val fault_addr, Val error_code]"]
      by (auto simp: fits_buffer_def split: option.splits)
  qed
  then obtain t where t: "vsprintf (line ''#PF at addr: %p error: %p'') [Val fault_addr, Val error_code] = Some t" by blast
  have p: "poke_text err (t @ [0]) (mm (sched ?s1)) = None" using none by (cases t) (simp_all add: c)
  show ?thesis
  proof (cases "serial hw ini (line ''#PF:'') ?s1")
    case None
    then show ?thesis by (simp add: interrupt_PF_def Let_def)
  next
    case (Some s2)
    then have "sched s2 = sched ?s1" by (auto simp: serial_def on_dev_def)
    then have "sprintf_at err (line ''#PF at addr: %p error: %p'') [Val fault_addr, Val error_code] s2 = None"
      by (simp add: sprintf_at_def t p)
    then show ?thesis by (simp add: interrupt_PF_def Let_def Some)
  qed
qed

lemma page_fault_report_faults_witness:
  "interrupt_PF uart_ports True 0x123000 0 0 (logged_machine\<lparr>sched := demo_table\<lparr>mm := (mm demo_table)\<lparr>cr3 := 0x1000, ram := (\<lambda>_. 0)\<rparr>\<rparr>\<rparr>) = None"
proof (rule page_fault_report_faults, intro allI impI)
  fix m
  let ?s = "logged_machine\<lparr>sched := demo_table\<lparr>mm := (mm demo_table)\<lparr>cr3 := 0x1000, ram := (\<lambda>_. 0)\<rparr>\<rparr>\<rparr>"
  assume m: "only_frame (con ?s) (mem_of ?s) m"
  have z: "m a = 0" if "a < 0x80000000" for a
  proof -
    have "\<not> in_frame (screen demo_console) a"
      using frame_above [of "screen demo_console" a] that by (auto simp: demo_console_def not_le)
    then show ?thesis using m by (simp add: only_frame_def logged_machine_def)
  qed
  have "pte m 0x1000 0 = 0" by (simp add: pte_def rd64_def rd32_def le64_def le32_def slot_def z)
  then show "mmu_level 3 m (cr3 (mm (sched ?s))) 0x123000 = None"
    by (subst mmu_level.simps) (simp add: level_index_def is_present_def Let_def)
qed

end
