(* ===== verification/Display.thy ===== *)
theory Display
  imports Acpi Pci
begin

text \<open>
  The display drivers of \<^verbatim>\<open>Kernel/drives/display.c\<close>: the registers of the Bochs adapter and of the
  VMware adapter, the probe that binds a driver and the routines that set a mode.  The one driver of the
  code, a static variable of the probe, is the record \<open>drv\<close>; the console sees what is bound.
\<close>

unbundle bit_operations_syntax

section \<open>Bochs registers\<close>

definition VBE_INDEX :: u16 where "VBE_INDEX = 0x1CE"
definition VBE_DATA :: u16 where "VBE_DATA = 0x1CF"
definition VBE_REG_ID :: u16 where "VBE_REG_ID = 0"
definition VBE_REG_XRES :: u16 where "VBE_REG_XRES = 1"
definition VBE_REG_YRES :: u16 where "VBE_REG_YRES = 2"
definition VBE_REG_BPP :: u16 where "VBE_REG_BPP = 3"
definition VBE_REG_ENABLE :: u16 where "VBE_REG_ENABLE = 4"
definition VBE_REG_VIRT_WIDTH :: u16 where "VBE_REG_VIRT_WIDTH = 6"
definition VBE_ENABLE :: u16 where "VBE_ENABLE = 0x01"
definition VBE_LFB_ENABLED :: u16 where "VBE_LFB_ENABLED = 0x40"
definition VBE_NOCLEAR :: u16 where "VBE_NOCLEAR = 0x80"
definition GPU_CAP_BOCHS_VBE :: u32 where "GPU_CAP_BOCHS_VBE = 2"
definition GPU_CAP_VMWARE_SVGA :: u32 where "GPU_CAP_VMWARE_SVGA = 4"
definition GPU_TYPE_VMWARE :: u8 where "GPU_TYPE_VMWARE = 2"
definition VENDOR_VMWARE :: u16 where "VENDOR_VMWARE = 0x15AD"

lemmas vbe_defs = VBE_INDEX_def VBE_DATA_def VBE_REG_ID_def VBE_REG_XRES_def VBE_REG_YRES_def VBE_REG_BPP_def
  VBE_REG_ENABLE_def VBE_REG_VIRT_WIDTH_def VBE_ENABLE_def VBE_LFB_ENABLED_def VBE_NOCLEAR_def

definition vbe_r :: "'d hw \<Rightarrow> u16 \<Rightarrow> 'd \<Rightarrow> u16 \<times> 'd" where
  "vbe_r hw index d = inw hw VBE_DATA (outw hw VBE_INDEX index d)"

definition vbe_w :: "'d hw \<Rightarrow> u16 \<Rightarrow> u16 \<Rightarrow> 'd \<Rightarrow> 'd" where
  "vbe_w hw index val d = outw hw VBE_DATA val (outw hw VBE_INDEX index d)"

section \<open>The driver\<close>

datatype init_op = NO_INIT | INIT_BOCHS
datatype mode_op = NO_MODE | MODE_BOCHS | MODE_VMWARE

record display_driver =
  drv_name :: string
  drv_init :: init_op
  drv_set_mode :: mode_op
  drv_hw :: gpu_device
  drv_info :: display_info

text \<open>The kernel's state with the driver, whether \<^verbatim>\<open>g_display_driver\<close> points to it, and the port
  of the VMware adapter.\<close>

record 'd kernel = "'d machine" +
  drv :: display_driver
  bound :: bool
  g_svga_io_base :: u16

definition publish :: "('d, 'z) kernel_scheme \<Rightarrow> ('d, 'z) kernel_scheme" where
  "publish s = s\<lparr>con := (con s)\<lparr>g_display_driver := if bound s then Some (drv_info (drv s), True) else None\<rparr>\<rparr>"

definition bochs_init :: "'d hw \<Rightarrow> display_driver \<Rightarrow> gpu_device \<Rightarrow> 'd \<Rightarrow> int \<times> display_driver \<times> gpu_device \<times> 'd" where
  "bochs_init hw self gpu d =
     (let d = vbe_w hw VBE_REG_ID 0xB0C0 d; (id, d) = vbe_r hw VBE_REG_ID d
      in if id < 0xB0C0 \<or> 0xB0C5 < id then (1, self, gpu, d)
         else let gpu = gpu\<lparr>capabilities := capabilities gpu OR GPU_CAP_BOCHS_VBE, vbe_version := id\<rparr>
              in (0, self\<lparr>drv_hw := gpu\<rparr>, gpu, d))"

text \<open>The state both modes end with: the driver's record of the mode and the old global variables.\<close>

definition mode_set :: "addr \<Rightarrow> u16 \<Rightarrow> u16 \<Rightarrow> u8 \<Rightarrow> ('d, 'z) kernel_scheme \<Rightarrow> ('d, 'z) kernel_scheme" where
  "mode_set fb w h b s =
     publish (s\<lparr>drv := (drv s)\<lparr>drv_info := \<lparr>framebuffer = fb, width = w, height = h, pitch = w * ucast (b div 8), bpp = b div 8\<rparr>\<rparr>,
                con := (con s)\<lparr>FrameBuffer := fb, ScreenWidth := w, ScreenHeigth := h\<rparr>\<rparr>)"

definition bochs_set_mode :: "'d hw \<Rightarrow> u16 \<Rightarrow> u16 \<Rightarrow> u8 \<Rightarrow> ('d, 'z) kernel_scheme \<Rightarrow> int \<times> ('d, 'z) kernel_scheme" where
  "bochs_set_mode hw w h b s =
     (let d = vbe_w hw VBE_REG_ENABLE 0 (dev s);
          d = io_wait hw d;
          d = vbe_w hw VBE_REG_XRES w d;
          d = vbe_w hw VBE_REG_YRES h d;
          d = vbe_w hw VBE_REG_BPP (ucast b) d;
          d = vbe_w hw VBE_REG_VIRT_WIDTH 0 d;
          d = vbe_w hw VBE_REG_ENABLE (VBE_ENABLE OR VBE_LFB_ENABLED OR VBE_NOCLEAR) d;
          d = io_wait hw d;
          lfb_phys = bar (drv_hw (drv s)) ! 0 AND NOT 0xF;
          lfb_phys = (if lfb_phys = 0 then 0xE0000000 else lfb_phys)
      in (0, mode_set (ucast lfb_phys) w h b (s\<lparr>dev := d\<rparr>)))"

section \<open>VMware\<close>

definition SVGA_ID_2 :: u32 where "SVGA_ID_2 = 0x90000000"
definition PCI_COMMAND :: u8 where "PCI_COMMAND = 4"
definition VMWARE_FIFO_BASE :: addr where "VMWARE_FIFO_BASE = 0xFFFFF40000000000"

definition svga_r :: "'d hw \<Rightarrow> u16 \<Rightarrow> u32 \<Rightarrow> 'd \<Rightarrow> u32 \<times> 'd" where
  "svga_r hw base index d = (if base = 0 then (0, d) else inl hw (base + 1) (outl hw base index d))"

definition svga_w :: "'d hw \<Rightarrow> u16 \<Rightarrow> u32 \<Rightarrow> u32 \<Rightarrow> 'd \<Rightarrow> 'd" where
  "svga_w hw base index val d = (if base = 0 then d else outl hw (base + 1) val (outl hw base index d))"

text \<open>The status, the port and the adapter's record.\<close>

definition vmware_init :: "'d hw \<Rightarrow> u16 \<Rightarrow> gpu_device \<Rightarrow> 'd \<Rightarrow> int \<times> u16 \<times> gpu_device \<times> 'd" where
  "vmware_init hw base gpu d =
     (if vendor_id gpu \<noteq> VENDOR_VMWARE then (1, base, gpu, d)
      else let io_base = (if bar gpu ! 0 AND 1 \<noteq> 0 then ucast (bar gpu ! 0 AND NOT 3) else 0) :: u16;
               fb_phys = bar gpu ! 1 AND NOT 0xF;
               fifo_phys = bar gpu ! 2 AND NOT 0xF
           in if io_base = 0 \<or> fb_phys = 0 \<or> fifo_phys = 0 then (1, base, gpu, d)
              else let (cmd, d) = pci_config_read hw (bus gpu) (device gpu) (func gpu) PCI_COMMAND d;
                       d = pci_config_write hw (bus gpu) (device gpu) (func gpu) PCI_COMMAND (cmd OR 6) d;
                       d = io_wait hw d;
                       base = io_base;
                       d = svga_w hw base 0 SVGA_ID_2 d;
                       d = io_wait hw d;
                       (id, d) = svga_r hw base 0 d
                   in if id < SVGA_ID_2 then (1, base, gpu, d)
                      else (0, base, gpu\<lparr>bar := (bar gpu)[0 := ucast io_base, 1 := fb_phys, 2 := fifo_phys],
                              capabilities := capabilities gpu OR GPU_CAP_VMWARE_SVGA, gpu_type := GPU_TYPE_VMWARE\<rparr>, d))"

text \<open>A write through the page tables; \<open>None\<close> is a page fault.\<close>

definition poke32 :: "addr \<Rightarrow> u32 \<Rightarrow> mm_state \<Rightarrow> mm_state option" where
  "poke32 va v m =
     (if virt_to_phys m va = 0 then None else Some (m\<lparr>ram := wr32 (ram m) (virt_to_phys m va) v\<rparr>))"

definition vmware_set_mode :: "'d hw \<Rightarrow> u16 \<Rightarrow> u16 \<Rightarrow> u8 \<Rightarrow> ('d, 'z) kernel_scheme \<Rightarrow> (int \<times> ('d, 'z) kernel_scheme) option" where
  "vmware_set_mode hw w h b s =
     (let base = g_svga_io_base s;
          fifo_phys = ucast (bar (drv_hw (drv s)) ! 2) :: addr;
          d = io_wait hw (svga_w hw base 0 SVGA_ID_2 (dev s));
          (id, d) = svga_r hw base 0 d;
          (vram, d) = svga_r hw base 12 d;
          (cap, d) = svga_r hw base 36 d;
          d = svga_w hw base 2 (ucast w) d;
          d = svga_w hw base 3 (ucast h) d;
          d = io_wait hw (svga_w hw base 7 (ucast b) d);
          fifo_size = 64 * 1024 :: u32;
          d = svga_w hw base 14 0 d;
          d = io_wait hw (svga_w hw base 15 fifo_size d);
          m = fold (\<lambda>p m. map_page m (VMWARE_FIFO_BASE + of_nat p * 0x1000) (fifo_phys + of_nat p * 0x1000)
                            (PTE_PRESENT OR PTE_WRITABLE OR 0x10)) [0..<16] (mm (sched s))
      in Option.bind (poke32 VMWARE_FIFO_BASE 0 m) (\<lambda>m.
         Option.bind (poke32 (VMWARE_FIFO_BASE + 4) (fifo_size - 4) m) (\<lambda>m.
         Option.bind (poke32 (VMWARE_FIFO_BASE + 8) 16 m) (\<lambda>m.
         Option.bind (poke32 (VMWARE_FIFO_BASE + 12) 16 m) (\<lambda>m.
           let d = io_wait hw (svga_w hw base 1 1 d);
               d = io_wait hw (svga_w hw base 25 1 d);
               (rb_w, d) = svga_r hw base 2 d;
               (rb_h, d) = svga_r hw base 3 d;
               (rb_bpp, d) = svga_r hw base 7 d;
               (rb_fb, d) = svga_r hw base 9 d
           in Some (0, mode_set (FrameBuffer (con s)) w h b (s\<lparr>sched := (sched s)\<lparr>mm := m\<rparr>, dev := d\<rparr>)))))))"

section \<open>Probing\<close>

fun probe_loop :: "'d hw \<Rightarrow> gpu_device list \<Rightarrow> ('d, 'z) kernel_scheme \<Rightarrow> int \<times> ('d, 'z) kernel_scheme" where
  "probe_loop hw [] s = (1, s)"
| "probe_loop hw (gpu # gpus) s =
     (let (st, base, gpu, d) = vmware_init hw (g_svga_io_base s) gpu (dev s);
          s = s\<lparr>g_svga_io_base := base, dev := d\<rparr>
      in if vendor_id gpu = VENDOR_VMWARE \<and> capabilities gpu AND GPU_CAP_VMWARE_SVGA \<noteq> 0
         then (0, publish (s\<lparr>drv := (drv s)\<lparr>drv_name := ''VMware SVGA II'', drv_set_mode := MODE_VMWARE, drv_hw := gpu\<rparr>, bound := True\<rparr>))
         else let d = vbe_w hw VBE_REG_ID 0xB0C0 (dev s); (id, d) = vbe_r hw VBE_REG_ID d; s = s\<lparr>dev := d\<rparr>
              in if id < 0xB0C0 \<or> 0xB0C5 < id then probe_loop hw gpus s
                 else let gpu = gpu\<lparr>capabilities := capabilities gpu OR GPU_CAP_BOCHS_VBE, vbe_version := id\<rparr>
                      in (0, publish (s\<lparr>drv := (drv s)\<lparr>drv_name := ''Bochs VBE (BGA)'', drv_init := INIT_BOCHS,
                               drv_set_mode := MODE_BOCHS, drv_hw := gpu\<rparr>, bound := True\<rparr>)))"

definition display_probe :: "'d hw \<Rightarrow> ('d, 'z) kernel_scheme \<Rightarrow> int \<times> ('d, 'z) kernel_scheme" where
  "display_probe hw s =
     (let (gpus, d) = pci_scan_gpu hw 4 (dev s)
      in if gpus = [] then (1, s\<lparr>dev := d\<rparr>) else probe_loop hw gpus (s\<lparr>dev := d\<rparr>))"

definition display_get_info :: "('d, 'z) kernel_scheme \<Rightarrow> display_info option" where
  "display_get_info s = (if bound s then Some (drv_info (drv s)) else None)"

text \<open>\<open>g_display_driver->set_mode(g_display_driver, w, h, bpp)\<close>; \<open>None\<close> is a call through a null pointer or a fault.\<close>

definition display_set_mode :: "'d hw \<Rightarrow> u16 \<Rightarrow> u16 \<Rightarrow> u8 \<Rightarrow> ('d, 'z) kernel_scheme \<Rightarrow> (int \<times> ('d, 'z) kernel_scheme) option" where
  "display_set_mode hw w h b s =
     (if \<not> bound s then None
      else case drv_set_mode (drv s) of NO_MODE \<Rightarrow> None | MODE_BOCHS \<Rightarrow> Some (bochs_set_mode hw w h b s)
           | MODE_VMWARE \<Rightarrow> vmware_set_mode hw w h b s)"

section \<open>An adapter on the bus\<close>

text \<open>The Bochs adapter behind the host bridge of \<open>Pci\<close>, as its registers are documented: the identification takes
  the versions that exist, and the geometry can only be written while the display is off.\<close>

record bga = bridge +
  vbe_index :: u16
  vbe_reg :: "u16 \<Rightarrow> u16"

definition dispi_write :: "u16 \<Rightarrow> bga \<Rightarrow> bga" where
  "dispi_write v d =
     (if vbe_index d = 0 \<and> \<not> (0xB0C0 \<le> v \<and> v \<le> 0xB0C5) then d
      else if vbe_index d \<in> {1, 2, 3} \<and> vbe_reg d 4 AND 1 \<noteq> 0 then d
      else d\<lparr>vbe_reg := (vbe_reg d)(vbe_index d := v)\<rparr>)"

definition bga_ports :: "bga hw" where
  "bga_ports = bridge_ports\<lparr>
     outw := \<lambda>p v d. if p = VBE_INDEX then d\<lparr>vbe_index := v\<rparr> else if p = VBE_DATA then dispi_write v d else d,
     inw := \<lambda>p d. (if p = VBE_DATA then vbe_reg d (vbe_index d) else 0xFFFF, d)\<rparr>"

interpretation bga_bus: config_space bga_ports regs
  by unfold_locales (simp_all add: bga_ports_def bridge_ports_def PCI_CONFIG_ADDR_def PCI_CONFIG_DATA_def)

lemma bga_vbe:
  "vbe_w bga_ports index v d = dispi_write v (d\<lparr>vbe_index := index\<rparr>)"
  "vbe_r bga_ports index d = (vbe_reg d index, d\<lparr>vbe_index := index\<rparr>)"
  "io_wait bga_ports d = d"
  by (simp_all add: vbe_w_def vbe_r_def io_wait_def bga_ports_def bridge_ports_def vbe_defs)

section \<open>What is bound\<close>

text \<open>The console sees the driver that is bound, and a driver that is bound can set a mode.\<close>

definition driver_ok :: "('d, 'z) kernel_scheme \<Rightarrow> bool" where
  "driver_ok s \<longleftrightarrow> g_display_driver (con s) = (if bound s then Some (drv_info (drv s), True) else None) \<and>
     (bound s \<longrightarrow> drv_set_mode (drv s) \<noteq> NO_MODE)"

lemma mode_set_ok: "driver_ok s \<Longrightarrow> driver_ok (mode_set fb w h b s)"
  by (simp add: driver_ok_def mode_set_def publish_def)

lemma probe_loop_binds:
  "driver_ok s \<Longrightarrow> \<not> bound s \<Longrightarrow> probe_loop hw gpus s = (st, s') \<Longrightarrow> driver_ok s' \<and> (st = 0 \<longleftrightarrow> bound s') \<and> st \<in> {0, 1}"
proof (induction gpus arbitrary: s)
  case (Cons gpu gpus)
  obtain i base g d where v: "vmware_init hw (g_svga_io_base s) gpu (dev s) = (i, base, g, d)" by (metis prod_cases4)
  obtain id d' where r: "vbe_r hw VBE_REG_ID (vbe_w hw VBE_REG_ID 0xB0C0 d) = (id, d')" by fastforce
  have "driver_ok (s\<lparr>g_svga_io_base := base, dev := d'\<rparr>)" using Cons.prems(1) by (simp add: driver_ok_def)
  then show ?case
    using Cons.IH [of "s\<lparr>g_svga_io_base := base, dev := d'\<rparr>"] Cons.prems(2,3)
    by (auto simp: v r Let_def driver_ok_def publish_def split: if_splits)
qed simp

text \<open>The probe returns 0 exactly when it has bound a driver, the console then uses that driver, and the driver can set a
  mode: the start-up code, which calls the mode routine after a probe that returned 0, never calls a null pointer.\<close>

theorem probe_binds_driver:
  assumes "driver_ok s" "\<not> bound s" "display_probe hw s = (st, s')"
  shows "driver_ok s' \<and> (st = 0 \<longleftrightarrow> bound s') \<and> st \<in> {0, 1} \<and> (st = 0 \<longrightarrow> drv_set_mode (drv s') \<noteq> NO_MODE)"
proof -
  obtain gpus d where g: "pci_scan_gpu hw 4 (dev s) = (gpus, d)" by fastforce
  have "driver_ok (s\<lparr>dev := d\<rparr>)" using assms(1) by (simp add: driver_ok_def)
  then have "driver_ok s' \<and> (st = 0 \<longleftrightarrow> bound s') \<and> st \<in> {0, 1}"
    using probe_loop_binds [of "s\<lparr>dev := d\<rparr>" hw gpus st s'] assms(2,3)
    by (auto simp: display_probe_def g Let_def split: if_splits)
  then show ?thesis by (auto simp: driver_ok_def)
qed

section \<open>Modes\<close>

lemma bochs_mode_registers:
  "bochs_set_mode bga_ports w h b s = (0, s') \<Longrightarrow>
   vbe_reg (dev s') = (vbe_reg (dev s))(1 := w, 2 := h, 3 := ucast b, 6 := 0, 4 := 0xC1)"
  by (auto simp: bochs_set_mode_def Let_def bga_vbe dispi_write_def mode_set_def publish_def vbe_defs fun_eq_iff)

lemma probe_first_bochs:
  assumes "vendor_id gpu \<noteq> VENDOR_VMWARE"
  shows "\<exists>s'. probe_loop bga_ports (gpu # gpus) s = (0, s') \<and> bound s' \<and> drv_set_mode (drv s') = MODE_BOCHS \<and>
    bar (drv_hw (drv s')) = bar gpu \<and> regs (dev s') = regs (dev s)"
  using assms
  by (simp add: vmware_init_def Let_def bga_vbe dispi_write_def publish_def vbe_defs)

text \<open>C28: The display comes up: when the first adapter on the bus is a Bochs adapter, the probe binds it and setting a mode
  programs its geometry while the display is off and then switches it on; the console draws from then on with that geometry
  into the frame buffer the adapter's first base address names.\<close>

theorem display_comes_up:
  assumes "bus_scan PCI_CLASS_DISPLAY (regs (dev s)) = p # ps" "vendor_id p \<noteq> VENDOR_VMWARE" "bar p ! 0 AND NOT 0xF \<noteq> 0"
  shows "\<exists>s1 s2. display_probe bga_ports s = (0, s1) \<and> display_set_mode bga_ports w h 32 s1 = Some (0, s2) \<and>
    vbe_reg (dev s2) 1 = w \<and> vbe_reg (dev s2) 2 = h \<and> vbe_reg (dev s2) 3 = 32 \<and> vbe_reg (dev s2) 4 = 0xC1 \<and>
    FrameBuffer (con s2) = ucast (bar p ! 0 AND NOT 0xF) \<and> ScreenWidth (con s2) = w \<and> ScreenHeigth (con s2) = h \<and>
    g_display_driver (con s2) = Some (\<lparr>framebuffer = FrameBuffer (con s2), width = w, height = h, pitch = 4 * w, bpp = 4\<rparr>, True)"
proof -
  obtain d where d: "regs d = regs (dev s)" "pci_scan_gpu bga_ports 4 (dev s) = (gpu_of p # take 3 (map gpu_of ps), d)"
    using bga_bus.gpu_scan [of "dev s" 4] assms(1) by (auto simp: eval_nat_numeral)
  have "vendor_id (gpu_of p) \<noteq> VENDOR_VMWARE" "bar (gpu_of p) = bar p" using assms(2) by (simp_all add: gpu_of_def)
  with probe_first_bochs [of "gpu_of p" "take 3 (map gpu_of ps)" "s\<lparr>dev := d\<rparr>"] obtain s1 where
    s1: "probe_loop bga_ports (gpu_of p # take 3 (map gpu_of ps)) (s\<lparr>dev := d\<rparr>) = (0, s1)" "bound s1"
      "drv_set_mode (drv s1) = MODE_BOCHS" "bar (drv_hw (drv s1)) = bar p"
    by auto
  have probe: "display_probe bga_ports s = (0, s1)" by (simp add: display_probe_def d(2) Let_def s1(1) del: probe_loop.simps)
  obtain s2 where s2: "bochs_set_mode bga_ports w h 32 s1 = (0, s2)" by (simp add: bochs_set_mode_def Let_def)
  have "display_set_mode bga_ports w h 32 s1 = Some (0, s2)" by (simp add: display_set_mode_def s1 s2)
  moreover have "FrameBuffer (con s2) = ucast (bar p ! 0 AND NOT 0xF) \<and> ScreenWidth (con s2) = w \<and> ScreenHeigth (con s2) = h \<and>
      g_display_driver (con s2) = Some (\<lparr>framebuffer = FrameBuffer (con s2), width = w, height = h, pitch = 4 * w, bpp = 4\<rparr>, True)"
    using s2 assms(3) by (auto simp: bochs_set_mode_def Let_def mode_set_def publish_def s1)
  ultimately show ?thesis using probe bochs_mode_registers [OF s2] by (intro exI [of _ s1] exI [of _ s2]) simp
qed

text \<open>A kernel before its display is probed, and the bus of \<open>Pci\<close> with a Bochs adapter.\<close>

definition dark :: "bga kernel" where
  "dark = \<lparr>sched = demo_sched, con = demo_console,
     dev = \<lparr>latch = 0, regs = two_controllers, vbe_index = 0, vbe_reg = \<lambda>_. 0\<rparr>,
     drv = \<lparr>drv_name = [], drv_init = NO_INIT, drv_set_mode = NO_MODE,
       drv_hw = gpu_of (function_info two_controllers 2 0),
       drv_info = \<lparr>framebuffer = 0, width = 0, height = 0, pitch = 0, bpp = 0\<rparr>\<rparr>, bound = False, g_svga_io_base = 0\<rparr>"

lemma probe_binds_driver_witness: "fst (display_probe bga_ports dark) \<in> {0, 1}"
proof -
  have "driver_ok dark" "\<not> bound dark" by (simp_all add: driver_ok_def dark_def demo_console_def)
  from probe_binds_driver [OF this prod.collapse [symmetric], of bga_ports] show ?thesis by blast
qed

text \<open>The adapter is the only one on that bus.\<close>

lemma two_controllers_present:
  assumes "v < 32" "fn < 8" "present two_controllers v fn"
  shows "(v, fn) \<in> {(1, 0), (1, 1), (2, 0)}"
proof -
  let ?a = "config_address 0 v fn 0"
  note f = config_address_fields [OF assms(1,2), of 0 0]
  have z: "?a AND 0xFF = 0" using f(4) by simp
  have "?a \<in> {0x80000800, 0x80000900, 0x80001000}"
    using assms(3) z by (auto simp: present_def reg_def two_controllers_def split: if_splits)
  then have "(ucast v :: u32, ucast fn :: u32) \<in> {(1, 0), (1, 1), (2, 0)}"
    unfolding f(1) [symmetric] f(2) [symmetric] by auto
  then show ?thesis by (auto simp: word_unat_eq_iff)
qed

lemma two_controllers_adapter: "bus_scan 3 two_controllers = [function_info two_controllers 2 0]"
proof -
  have c: "class_code (function_info two_controllers 1 0) = 6" "class_code (function_info two_controllers 1 1) = 1"
    "class_code (function_info two_controllers 2 0) = 3" "present two_controllers 2 0" by code_simp+
  let ?p = "function_info two_controllers 2 0"
  have "x = ?p" if x: "x \<in> set (bus_scan 3 two_controllers)" for x
  proof -
    obtain v fn where v: "x = function_info two_controllers v fn" "v < 32" "fn < 8" "present two_controllers v fn" "class_code x = 3"
      using x unfolding set_bus_scan by auto
    from two_controllers_present [OF v(2-4)] consider "v = 1" "fn = 0" | "v = 1" "fn = 1" | "v = 2" "fn = 0" by auto
    then show ?thesis using v(1,5) c(1,2) by cases simp_all
  qed
  moreover have "?p \<in> set (bus_scan 3 two_controllers)" by (rule two_controllers_found(2))
  ultimately have "set (bus_scan 3 two_controllers) = {?p}" by blast
  moreover have "distinct (bus_scan 3 two_controllers)" using distinct_bus_scan [of 3 two_controllers] by (simp only: distinct_map)
  ultimately have "length (bus_scan 3 two_controllers) = 1" by (metis distinct_card card_1_singleton_iff One_nat_def)
  then obtain q where q: "bus_scan 3 two_controllers = [q]" by (metis One_nat_def Suc_length_conv length_0_conv)
  then show ?thesis using two_controllers_found(2) by simp
qed

lemma display_comes_up_witness:
  "\<exists>s1 s2. display_probe bga_ports dark = (0, s1) \<and> display_set_mode bga_ports 1280 720 32 s1 = Some (0, s2) \<and>
     FrameBuffer (con s2) = 0xFD000000 \<and> vbe_reg (dev s2) 1 = 1280"
proof -
  have "bus_scan PCI_CLASS_DISPLAY (regs (dev dark)) = function_info two_controllers 2 0 # []"
    by (simp add: dark_def PCI_CLASS_DISPLAY_def two_controllers_adapter)
  moreover have "vendor_id (function_info two_controllers 2 0) \<noteq> VENDOR_VMWARE" "bar (function_info two_controllers 2 0) ! 0 = 0xFD000008"
    by (code_simp, code_simp)
  ultimately show ?thesis
    using display_comes_up [of dark "function_info two_controllers 2 0" "[]" 1280 720] by fastforce
qed

text \<open>After a mode is set the console's own drawing of a point and the driver's agree on every point, on the screen
  and off it.\<close>

theorem console_and_driver_agree:
  assumes "s' = mode_set fb w h b s"
  shows "DrawPoint (con s') x y color m = bochs_pixel (drv_info (drv s')) (ucast x) (ucast y) color m"
proof -
  have e: "framebuffer (drv_info (drv s')) = FrameBuffer (con s')" "width (drv_info (drv s')) = ScreenWidth (con s')"
    "height (drv_info (drv s')) = ScreenHeigth (con s')"
    by (simp_all add: assms mode_set_def publish_def)
  have n: "unat (ucast y * ucast (ScreenWidth (con s')) + ucast x :: u32) = unat y * unat (ScreenWidth (con s')) + unat x"
  proof -
    have "unat y * unat (ScreenWidth (con s')) + unat x \<le> 65535 * 65535 + 65535"
      using unat_u16 [of y] unat_u16 [of x] unat_u16 [of "ScreenWidth (con s')"] by (intro add_mono mult_le_mono) simp_all
    then show ?thesis by (simp add: unat_word_ariths)
  qed
  have "(4 :: addr) * ucast (ucast y * ucast (ScreenWidth (con s')) + ucast x :: u32) =
      of_nat (4 * (unat y * unat (ScreenWidth (con s')) + unat x))"
    unfolding n [symmetric] by simp
  then show ?thesis
    by (auto simp: DrawPoint_def bochs_pixel_def pixel_addr_def e not_le word_less_nat_alt word_le_nat_alt)
qed

lemma console_and_driver_agree_witness:
  "let s' = mode_set 0xFD000000 1280 720 32 dark
   in DrawPoint (con s') 7 5 0xFF00FF00 (\<lambda>_. 0) = bochs_pixel (drv_info (drv s')) (ucast (7 :: u16)) (ucast (5 :: u16)) 0xFF00FF00 (\<lambda>_. 0)"
  using console_and_driver_agree [of _ "0xFD000000" 1280 720 32 dark 7 5] by (simp only: Let_def)

text \<open>The row pitch is kept in 16 bits: for 32 bits per pixel it is the length of a row up to a width of 16383, and
  wraps around for wider screens.\<close>

theorem pitch_bound: "unat (pitch (drv_info (drv (mode_set fb w h 32 s)))) = 4 * unat w \<longleftrightarrow> w < 16384"
proof -
  have p: "pitch (drv_info (drv (mode_set fb w h 32 s))) = w * 4" by (simp add: mode_set_def publish_def)
  show ?thesis unfolding p using unat_u16 [of w] by (auto simp: unat_word_ariths word_less_nat_alt)
qed

end
