(* ===== verification/Svga.thy ===== *)
theory Svga
  imports Display
begin

text \<open>
  The block transfer of the VMware adapter, \<^verbatim>\<open>vmware_blit\<close> of \<^verbatim>\<open>Kernel/drives/display.c\<close>, and
  the ring of commands it shares with the adapter.  The adapter works on the ring while the code polls it: the
  parameter \<open>adapter\<close> says what it does to memory between two polls.  No driver table of the code refers to the
  routine; both adapters are given \<^verbatim>\<open>bochs_blit\<close>.
\<close>

unbundle bit_operations_syntax

section \<open>The ring of commands\<close>

definition SVGA_FIFO_MAX :: addr where "SVGA_FIFO_MAX = 4"
definition SVGA_FIFO_NEXT_CMD :: addr where "SVGA_FIFO_NEXT_CMD = 8"
definition SVGA_FIFO_STOP :: addr where "SVGA_FIFO_STOP = 12"
definition SVGA_CMD_RECT_COPY :: u32 where "SVGA_CMD_RECT_COPY = 3"
definition SVGA_REG_SYNC :: u32 where "SVGA_REG_SYNC = 4"

definition peek32 :: "addr \<Rightarrow> mm_state \<Rightarrow> u32 option" where
  "peek32 va m = (if virt_to_phys m va = 0 then None else Some (rd32 (ram m) (virt_to_phys m va)))"

definition room :: "u32 \<Rightarrow> u32 \<Rightarrow> u32 \<Rightarrow> u32" where
  "room next_cmd stop ring_end = (if stop \<le> next_cmd then ring_end - next_cmd + stop - 16 else stop - next_cmd)"

partial_function (option) fifo_wait :: "(mm_state \<Rightarrow> mm_state) \<Rightarrow> mm_state \<Rightarrow> (u32 \<times> mm_state) option" where
  "fifo_wait adapter m = do {
     next_cmd \<leftarrow> peek32 (VMWARE_FIFO_BASE + SVGA_FIFO_NEXT_CMD) m;
     stop \<leftarrow> peek32 (VMWARE_FIFO_BASE + SVGA_FIFO_STOP) m;
     ring_end \<leftarrow> peek32 (VMWARE_FIFO_BASE + SVGA_FIFO_MAX) m;
     if 32 \<le> room next_cmd stop ring_end then Some (next_cmd, m) else fifo_wait adapter (adapter m) }"

text \<open>Where the words of a command go, as indices into the ring.\<close>

definition command_index :: "u32 \<Rightarrow> nat \<Rightarrow> u32" where
  "command_index next_cmd i = (next_cmd + of_nat (i * 4)) div 4"

fun put_command :: "u32 \<Rightarrow> (nat \<times> u32) list \<Rightarrow> mm_state \<Rightarrow> mm_state option" where
  "put_command next_cmd [] m = Some m"
| "put_command next_cmd ((i, w) # ws) m =
     Option.bind (poke32 (VMWARE_FIFO_BASE + 4 * ucast (command_index next_cmd i)) w m) (put_command next_cmd ws)"

definition advance :: "u32 \<Rightarrow> u32 \<Rightarrow> u32" where
  "advance ring_end next_cmd = (let next_cmd = next_cmd + 28 in if ring_end \<le> next_cmd then 16 else next_cmd)"

section \<open>The transfer\<close>

definition vmware_blit ::
  "(mm_state \<Rightarrow> mm_state) \<Rightarrow> 'd hw \<Rightarrow> u32 \<Rightarrow> u32 \<Rightarrow> u32 \<Rightarrow> u32 \<Rightarrow> u32 \<Rightarrow> u32 \<Rightarrow> ('d, 'z) kernel_scheme \<Rightarrow> ('d, 'z) kernel_scheme option" where
  "vmware_blit adapter hw sx sy dx dy w h s =
     (if \<not> bound s then None
      else let info = drv_info (drv s)
      in if ucast (width info) \<le> sx \<or> ucast (height info) \<le> sy then Some s
      else if ucast (width info) \<le> dx \<or> ucast (height info) \<le> dy then Some s
      else let w = clamp sx w (width info); h = clamp sy h (height info);
               w = clamp dx w (width info); h = clamp dy h (height info)
      in if w = 0 \<or> h = 0 then Some s
      else do {
        (next_cmd, m) \<leftarrow> fifo_wait adapter (mm (sched s));
        m \<leftarrow> put_command next_cmd (zip [0..<7] [SVGA_CMD_RECT_COPY, sx, sy, dx, dy, w, h]) m;
        ring_end \<leftarrow> peek32 (VMWARE_FIFO_BASE + SVGA_FIFO_MAX) m;
        m \<leftarrow> poke32 (VMWARE_FIFO_BASE + SVGA_FIFO_NEXT_CMD) (advance ring_end next_cmd) m;
        Some (s\<lparr>sched := (sched s)\<lparr>mm := m\<rparr>, dev := svga_w hw (g_svga_io_base s) SVGA_REG_SYNC 1 (dev s)\<rparr>) })"

section \<open>Places in the ring\<close>

text \<open>The places a sequence of transfers goes through from the start of the ring of 64 KB that \<^verbatim>\<open>vmware_set_mode\<close>
  sets up, with its end at 65532.\<close>

definition ring_place :: "u32 \<Rightarrow> bool" where
  "ring_place p \<longleftrightarrow> (\<exists>k \<le> 2339. unat p = 16 + 28 * k)"

lemma command_index_nat: "unat p < 2 ^ 31 \<Longrightarrow> i < 7 \<Longrightarrow> unat (command_index p i) = (unat p + i * 4) div 4"
proof -
  assume p: "unat p < 2 ^ 31" and i: "i < 7"
  have "unat (of_nat (i * 4) :: u32) = i * 4" using i by (simp only: unat_of_nat) simp
  then have "unat (p + of_nat (i * 4)) = unat p + i * 4" using p i by (simp add: unat_word_ariths)
  then show ?thesis by (simp add: command_index_def unat_div)
qed

lemma advance_nat: "unat p < 2 ^ 31 \<Longrightarrow> unat (advance 65532 p) = (if 65532 \<le> unat p + 28 then 16 else unat p + 28)"
proof -
  assume "unat p < 2 ^ 31"
  then have "unat (p + 28) = unat p + 28" by (simp add: unat_word_ariths)
  then show ?thesis by (simp add: advance_def Let_def word_le_nat_alt)
qed



text \<open>A transfer with nothing left after clipping, or without room for its corner, does nothing.\<close>

lemma blit_off_screen:
  "bound s \<Longrightarrow> ucast (width (drv_info (drv s))) \<le> sx \<or> ucast (height (drv_info (drv s))) \<le> dy \<Longrightarrow>
   vmware_blit adapter hw sx sy dx dy w h s = Some s"
  by (auto simp: vmware_blit_def Let_def)

end
