(* ===== verification/Boot.thy ===== *)
theory Boot
  imports Console EfiMem "HOL-Library.Multiset"
begin

text \<open>
  The boot loader, \<^verbatim>\<open>Bootloader/src/lib.c\<close> and \<^verbatim>\<open>Bootloader/src/main.c\<close>, and
  \<^verbatim>\<open>LoadBootShare\<close> of \<^verbatim>\<open>Kernel/kernel/kernel.c\<close>, which takes over from it.  The firmware and the
  library the loader is linked with are the record \<open>firmware\<close>, a function for each call; a call that returns through
  a pointer returns the new value, and gets the old one where a failing call leaves it as it was.
  The locale \<open>boot_services\<close> has what the loader relies on in the calls that hand out handles and memory.
\<close>

unbundle bit_operations_syntax

section \<open>Firmware\<close>

type_synonym guid = "u32 \<times> u16 \<times> u16 \<times> u8 list"

definition gEfiLoadedImageProtocolGuid :: guid where
  "gEfiLoadedImageProtocolGuid = (0x5B1B31A1, 0x9562, 0x11d2, [0x8E, 0x3F, 0x00, 0xA0, 0xC9, 0x69, 0x72, 0x3B])"
definition gEfiSimpleFileSystemProtocolGuid :: guid where
  "gEfiSimpleFileSystemProtocolGuid = (0x964e5b22, 0x6459, 0x11d2, [0x8e, 0x39, 0x0, 0xa0, 0xc9, 0x69, 0x72, 0x3b])"
definition ACPI_20_TABLE_GUID :: guid where
  "ACPI_20_TABLE_GUID = (0x8868e871, 0xe4f1, 0x11d3, [0xbc, 0x22, 0x0, 0x80, 0xc7, 0x3c, 0x88, 0x81])"
definition ACPI_TABLE_GUID :: guid where
  "ACPI_TABLE_GUID = (0xeb9d2d30, 0x2d88, 0x11d3, [0x9a, 0x16, 0x0, 0x90, 0x27, 0x3f, 0xc1, 0x4d])"

datatype reset_type = EfiResetWarm | EfiResetShutdown

record gop_mode =
  HorizontalResolution :: u32
  VerticalResolution :: u32
  PixelsPerScanLine :: u32
  FrameBufferBase :: u64

record 'f firmware =
  memory :: "'f \<Rightarrow> mem"
  poke :: "addr \<Rightarrow> u32 \<Rightarrow> 'f \<Rightarrow> 'f"
  HandleProtocol :: "addr \<Rightarrow> guid \<Rightarrow> 'f \<Rightarrow> u64 \<times> addr \<times> 'f"
  DeviceHandle :: "addr \<Rightarrow> 'f \<Rightarrow> addr"
  OpenVolume :: "addr \<Rightarrow> 'f \<Rightarrow> u64 \<times> addr \<times> 'f"
  OpenF :: "addr \<Rightarrow> string \<Rightarrow> 'f \<Rightarrow> u64 \<times> addr \<times> 'f"
  CloseF :: "addr \<Rightarrow> 'f \<Rightarrow> 'f"
  AllocatePool :: "u64 \<Rightarrow> addr \<Rightarrow> 'f \<Rightarrow> u64 \<times> addr \<times> 'f"
  FreePool :: "addr \<Rightarrow> 'f \<Rightarrow> 'f"
  GetInfo :: "addr \<Rightarrow> u64 \<Rightarrow> addr \<Rightarrow> 'f \<Rightarrow> u64 \<times> 'f"
  ReadF :: "addr \<Rightarrow> u64 \<Rightarrow> addr \<Rightarrow> 'f \<Rightarrow> u64 \<times> u64 \<times> 'f"
  LocateGOP :: "'f \<Rightarrow> u64 \<times> 'f"
  MaxMode :: "'f \<Rightarrow> u32"
  QueryMode :: "nat \<Rightarrow> 'f \<Rightarrow> u64 \<times> addr \<times> 'f"
  SetMode :: "nat \<Rightarrow> 'f \<Rightarrow> 'f"
  Mode :: "'f \<Rightarrow> gop_mode"
  ConfigurationTable :: "'f \<Rightarrow> (guid \<times> addr) list"
  CompareGuid :: "guid \<Rightarrow> guid \<Rightarrow> int"
  Stall :: "int \<Rightarrow> 'f \<Rightarrow> 'f"
  SetAttribute :: "u64 \<Rightarrow> 'f \<Rightarrow> 'f"
  Print :: "string \<Rightarrow> 'f \<Rightarrow> 'f"
  ResetSystem :: "reset_type \<Rightarrow> 'f \<Rightarrow> 'f"
  GetMemoryMap :: "u64 \<Rightarrow> addr \<Rightarrow> 'f \<Rightarrow> u64 \<times> (u64 \<times> u64 \<times> u64 \<times> u32) \<times> 'f"
  ExitBootServices :: "u64 \<Rightarrow> 'f \<Rightarrow> u64 \<times> 'f"

definition EFI_ERROR :: "u64 \<Rightarrow> bool" where "EFI_ERROR status \<longleftrightarrow> status <s 0"
definition EFI_INVALID_PARAMETER :: u64 where "EFI_INVALID_PARAMETER = 0x8000000000000002"

lemma invalid_error: "EFI_ERROR EFI_INVALID_PARAMETER" by code_simp

section \<open>Reading a file\<close>

text \<open>The status, the values behind \<^verbatim>\<open>Buffer\<close> and \<^verbatim>\<open>BufferSize\<close> and the firmware's state.  The first
  argument says whether a pointer among the arguments is null; then nothing is written.\<close>

definition ReadFileToBuffer ::
  "'f firmware \<Rightarrow> bool \<Rightarrow> addr \<Rightarrow> string \<Rightarrow> addr \<times> u64 \<Rightarrow> u64 \<Rightarrow> 'f \<Rightarrow> u64 \<times> (addr \<times> u64) \<times> 'f" where
  "ReadFileToBuffer fw null ImageHandle FilePath out MaxBytes f =
     (if null then (EFI_INVALID_PARAMETER, out, f)
      else let (Status, LoadedImage, f) = HandleProtocol fw ImageHandle gEfiLoadedImageProtocolGuid f
      in if EFI_ERROR Status then (Status, (0, 0), f)
      else let (Status, FileSystem, f) = HandleProtocol fw (DeviceHandle fw LoadedImage f) gEfiSimpleFileSystemProtocolGuid f
      in if EFI_ERROR Status then (Status, (0, 0), f)
      else let (Status, RootVolume, f) = OpenVolume fw FileSystem f
      in if EFI_ERROR Status then (Status, (0, 0), f)
      else let (Status, FileHandle, f) = OpenF fw RootVolume FilePath f
      in if EFI_ERROR Status then (Status, (0, 0), CloseF fw RootVolume f)
      else let (Status, FileInfo, f) = AllocatePool fw (88 + 128) 0 f
      in if EFI_ERROR Status then (Status, (0, 0), CloseF fw RootVolume (CloseF fw FileHandle f))
      else let (Status, f) = GetInfo fw FileHandle (88 + 128) FileInfo f
      in if EFI_ERROR Status
         then (Status, (0, 0), CloseF fw RootVolume (CloseF fw FileHandle (FreePool fw FileInfo f)))
      else let FileSize = rd64 (memory fw f) (FileInfo + 8);
               BytesToRead = (if 0 < MaxBytes \<and> MaxBytes < FileSize then MaxBytes else FileSize);
               (Status, Buffer, f) = AllocatePool fw BytesToRead 0 f
      in if EFI_ERROR Status
         then (Status, (Buffer, 0), CloseF fw RootVolume (CloseF fw FileHandle (FreePool fw FileInfo f)))
      else let (Status, BytesRead, f) = ReadF fw FileHandle BytesToRead Buffer f;
               f = CloseF fw RootVolume (CloseF fw FileHandle (FreePool fw FileInfo f))
      in if EFI_ERROR Status then (Status, (0, 0), FreePool fw Buffer f)
      else (0, (Buffer, BytesRead), f))"

section \<open>Other library routines\<close>

definition ms_to_us :: "int \<Rightarrow> int" where "ms_to_us ms = ms * 1000"
definition s_to_us :: "int \<Rightarrow> int" where "s_to_us s = s * 1000000"
definition B_to_MB :: "int \<Rightarrow> int" where "B_to_MB b = (if 0 \<le> b then b div 1048576 else - (- b div 1048576))"

definition SetColor :: "'f firmware \<Rightarrow> u64 \<Rightarrow> u64 \<Rightarrow> 'f \<Rightarrow> 'f" where
  "SetColor fw textc bgc f = SetAttribute fw (textc OR bgc) f"

text \<open>The wide string of the printable bytes, after a null check and an allocation that may fail.\<close>

definition wide_char :: "u8 \<Rightarrow> u16" where
  "wide_char b = (if 32 \<le> b \<and> b \<le> 126 then ucast b else 46)"

definition HexToChar :: "u8 list option \<Rightarrow> bool \<Rightarrow> u16 list option" where
  "HexToChar fileData allocated =
     (case fileData of None \<Rightarrow> None
      | Some data \<Rightarrow> if data = [] then None else if \<not> allocated then None else Some (map wide_char data @ [0]))"

fun Memcmp :: "u8 list \<Rightarrow> u8 list \<Rightarrow> nat \<Rightarrow> u64" where
  "Memcmp (a # s1) (b # s2) (Suc n) = (if a \<noteq> b then word_of_int (uint a - uint b) else Memcmp s1 s2 n)"
| "Memcmp _ _ _ = 0"

fun set_size_loop :: "'f firmware \<Rightarrow> u32 \<Rightarrow> u32 \<Rightarrow> nat list \<Rightarrow> 'f \<Rightarrow> 'f" where
  "set_size_loop fw wide high [] f = f"
| "set_size_loop fw wide high (i # is) f =
     (let (Status, info, f) = QueryMode fw i f
      in if EFI_ERROR Status then set_size_loop fw wide high is f
         else if rd32 (memory fw f) (info + 4) = wide \<and> rd32 (memory fw f) (info + 8) = high
         then FreePool fw info (SetMode fw i f)
         else set_size_loop fw wide high is (FreePool fw info f))"

definition SetScreenSize :: "'f firmware \<Rightarrow> u32 \<Rightarrow> u32 \<Rightarrow> 'f \<Rightarrow> 'f" where
  "SetScreenSize fw wide high f = set_size_loop fw wide high [0..<unat (MaxMode fw f)] f"

definition InitGraphics :: "'f firmware \<Rightarrow> 'f \<Rightarrow> u64 \<times> 'f" where
  "InitGraphics fw f = (let (status, f) = LocateGOP fw f in if EFI_ERROR status then (status, f) else (0, f))"

definition SetPixel :: "'f firmware \<Rightarrow> bool \<Rightarrow> u64 \<Rightarrow> u64 \<Rightarrow> u32 \<Rightarrow> 'f \<Rightarrow> 'f" where
  "SetPixel fw GlobalGOP x y color f =
     (if \<not> GlobalGOP then f
      else if ucast (HorizontalResolution (Mode fw f)) \<le> x \<or> ucast (VerticalResolution (Mode fw f)) \<le> y then f
      else poke fw (FrameBufferBase (Mode fw f) + 4 * (y * ucast (PixelsPerScanLine (Mode fw f)) + x)) color f)"

definition ClearScreenGraphics :: "'f firmware \<Rightarrow> 'f \<Rightarrow> 'f" where
  "ClearScreenGraphics fw f =
     (let ScreenWidth = unat (HorizontalResolution (Mode fw f)); ScreenHeight = unat (VerticalResolution (Mode fw f));
          FrameBuffer = FrameBufferBase (Mode fw f)
      in fold (\<lambda>y. fold (\<lambda>x. poke fw (FrameBuffer + 4 * of_nat (y * ScreenWidth + x)) 0) [0..<ScreenWidth]) [0..<ScreenHeight] f)"

definition find_table :: "'f firmware \<Rightarrow> guid \<Rightarrow> (guid \<times> addr) list \<Rightarrow> addr option" where
  "find_table fw g ts = map_option snd (List.find (\<lambda>t. CompareGuid fw (fst t) g = 0) ts)"

definition GetRSDP :: "'f firmware \<Rightarrow> 'f \<Rightarrow> addr" where
  "GetRSDP fw f =
     (case find_table fw ACPI_20_TABLE_GUID (ConfigurationTable fw f) of Some a \<Rightarrow> a
      | None \<Rightarrow> (case find_table fw ACPI_TABLE_GUID (ConfigurationTable fw f) of Some a \<Rightarrow> a | None \<Rightarrow> 0))"

section \<open>The loader\<close>

record SCREEN_DATA =
  sd_FrameBuffer :: u64
  SW :: u16
  SH :: u16

text \<open>What the kernel gets; \<open>MemoryMap = None\<close> is a pointer that was never set.\<close>

record SHARE_KERNEL =
  ScreenData :: SCREEN_DATA
  CPUF :: u64
  FONTADDR :: u32
  RSDP :: addr
  MemoryMap :: "UEFI_MEMORY_MAP option"

datatype boot_result = Returned u64 | Jumped addr addr SHARE_KERNEL

definition Kernel_Path :: string where "Kernel_Path = [CHR 0x5C] @ ''SYS'' @ [CHR 0x5C] @ ''kernel''"
definition Fonts_Path :: string where "Fonts_Path = [CHR 0x5C] @ ''SYS'' @ [CHR 0x5C] @ ''Fonts10x16.bin''"

text \<open>The file header, packed: a signature of 5 bytes, a version of 4, 32 bytes in all.\<close>

definition header_ok :: "mem \<Rightarrow> addr \<Rightarrow> bool" where
  "header_ok m a \<longleftrightarrow> \<not> (Memcmp [m a, m (a + 1), m (a + 2), m (a + 3), m (a + 4)] (bytes ''KNL64'') 5 \<noteq> 0 \<or> rd32 m (a + 5) \<noteq> 0)"

definition fail_boot :: "'f firmware \<Rightarrow> string \<Rightarrow> reset_type \<Rightarrow> 'f \<Rightarrow> 'f" where
  "fail_boot fw text reset f =
     ResetSystem fw reset (Stall fw (s_to_us 30) (Print fw text (SetColor fw 4 0 f)))"

text \<open>\<open>junk\<close> is what the uninitialised variable \<^verbatim>\<open>StackBase\<close> holds.\<close>

definition efi_main :: "'f firmware \<Rightarrow> addr \<Rightarrow> addr \<Rightarrow> 'f \<Rightarrow> boot_result \<times> 'f" where
  "efi_main fw junk ImageHandle f =
     (let (Status, f) = InitGraphics fw f
      in if EFI_ERROR Status then (Returned Status, fail_boot fw ''[ERROR]InitGraphics failed:%r'' EfiResetWarm f)
      else let f = Stall fw (ms_to_us 20) (SetScreenSize fw 1280 720 (Stall fw (ms_to_us 100) f));
               Screen_Width = HorizontalResolution (Mode fw f); Screen_Height = VerticalResolution (Mode fw f);
               (Status, (Kernel_Buffer, Kernel_Size), f) = ReadFileToBuffer fw False ImageHandle Kernel_Path (0, 0) 0 f
      in if EFI_ERROR Status then (Returned Status, fail_boot fw ''[ERROR]The kernel faild to load:%r'' EfiResetWarm f)
      else if \<not> header_ok (memory fw f) Kernel_Buffer
      then (Returned Status, fail_boot fw ''[ERROR]Kernel damage!'' EfiResetShutdown f)
      else let (Status, (Font_Buffer, Font_Size), f) = ReadFileToBuffer fw False ImageHandle Fonts_Path (0, 0) 0 f;
               f = Stall fw (ms_to_us 50) f;
               sd = \<lparr>sd_FrameBuffer = FrameBufferBase (Mode fw f), SW = ucast Screen_Width, SH = ucast Screen_Height\<rparr>;
               Rsdp = GetRSDP fw f
      in if Rsdp = 0 then (Returned Status, fail_boot fw ''[ERROR]Rsdp not found!'' EfiResetShutdown f)
      else let (_, StackBase, f) = AllocatePool fw 0x80000 junk f;
               StackPointer = (StackBase + 0x80000) AND NOT 0xF;
               (_, OsDesc, f) = AllocatePool fw (64 * 1024) 0 f;
               (Status, Buf, f) = AllocatePool fw 8192 0 f;
               (mm, f) = (if EFI_ERROR Status then (None, f)
                 else let (_, (MapSz, MapKey, DescSize, DescVersion), f) = GetMemoryMap fw 8192 Buf f;
                          (_, f) = ExitBootServices fw MapKey f
                      in (Some \<lparr>MapSize = MapSz, DescriptorSize = DescSize, DescriptorVersion = DescVersion,
                            StackAddr = StackPointer, Buffer = Buf, OsDescAddr = OsDesc\<rparr>, f))
      in (Jumped (Kernel_Buffer + 32) StackPointer
            \<lparr>ScreenData = sd, CPUF = 2000000000, FONTADDR = ucast Font_Buffer, RSDP = Rsdp, MemoryMap = mm\<rparr>, f))"

section \<open>The kernel takes over\<close>

record boot_globals =
  bg_console :: console
  SYSTEM_BootShare :: "SHARE_KERNEL option"
  bg_CPU_Frequency :: u64
  bg_MemoryMap :: "UEFI_MEMORY_MAP option"

text \<open>The argument \<open>None\<close> is a null pointer.  \<open>MemoryMap = None\<close> counts as null here: when the pointer was never
  set, what the check sees is whatever the loader's stack held.\<close>

definition LoadBootShare :: "SHARE_KERNEL option \<Rightarrow> boot_globals \<Rightarrow> bool \<times> boot_globals" where
  "LoadBootShare BootShare g =
     (case BootShare of None \<Rightarrow> (False, g)
      | Some b \<Rightarrow>
          if MemoryMap b = None \<or> FONTADDR b = 0 \<or> RSDP b = 0 \<or> FONTADDR b = 0 then (False, g)
          else (True, g\<lparr>SYSTEM_BootShare := Some b, bg_CPU_Frequency := CPUF b, bg_MemoryMap := MemoryMap b,
                        bg_console := (bg_console g)\<lparr>FrameBuffer := sd_FrameBuffer (ScreenData b),
                          ScreenHeigth := SH (ScreenData b), ScreenWidth := SW (ScreenData b),
                          font_data := ucast (FONTADDR b)\<rparr>\<rparr>))"

section \<open>Handles and memory\<close>

locale boot_services =
  fixes fw :: "'f firmware" and handles :: "'f \<Rightarrow> addr multiset" and pools :: "'f \<Rightarrow> addr multiset"
  assumes protocol: "HandleProtocol fw h g f = (st, a, f') \<Longrightarrow> handles f' = handles f \<and> pools f' = pools f"
    and open_volume: "OpenVolume fw a f = (st, h, f') \<Longrightarrow>
      pools f' = pools f \<and> handles f' = (if EFI_ERROR st then handles f else add_mset h (handles f))"
    and open_file: "OpenF fw a p f = (st, h, f') \<Longrightarrow>
      pools f' = pools f \<and> handles f' = (if EFI_ERROR st then handles f else add_mset h (handles f))"
    and close: "handles (CloseF fw h f) = handles f - {#h#}" "pools (CloseF fw h f) = pools f"
    and alloc: "AllocatePool fw n old f = (st, a, f') \<Longrightarrow> handles f' = handles f \<and>
      (if EFI_ERROR st then a = old \<and> pools f' = pools f else pools f' = add_mset a (pools f))"
    and free: "handles (FreePool fw a f) = handles f" "pools (FreePool fw a f) = pools f - {#a#}"
    and get_info: "GetInfo fw h n a f = (st, f') \<Longrightarrow> handles f' = handles f \<and> pools f' = pools f"
    and read: "ReadF fw h n a f = (st, k, f') \<Longrightarrow> handles f' = handles f \<and> pools f' = pools f"
    and query: "QueryMode fw i f = (st, a, f') \<Longrightarrow>
      handles f' = handles f \<and> pools f' = (if EFI_ERROR st then pools f else add_mset a (pools f))"
    and set_mode: "handles (SetMode fw i f) = handles f" "pools (SetMode fw i f) = pools f"
begin

text \<open>Every path of the routine gives back what it took, save the buffer it returns.\<close>

lemma read_file_resources:
  assumes "ReadFileToBuffer fw null ih path (0, 0) mx f = (st, (b, n), f')"
  shows "handles f' = handles f \<and>
    (if EFI_ERROR st then b = 0 \<and> n = 0 \<and> pools f' = pools f else pools f' = add_mset b (pools f))"
proof (cases null)
  case True
  then show ?thesis using assms invalid_error by (auto simp: ReadFileToBuffer_def)
next
  case False
  obtain s1 li f1 where 1: "HandleProtocol fw ih gEfiLoadedImageProtocolGuid f = (s1, li, f1)" by (metis prod_cases3)
  obtain s2 fs f2 where 2: "HandleProtocol fw (DeviceHandle fw li f1) gEfiSimpleFileSystemProtocolGuid f1 = (s2, fs, f2)" by (metis prod_cases3)
  obtain s3 r f3 where 3: "OpenVolume fw fs f2 = (s3, r, f3)" by (metis prod_cases3)
  obtain s4 h f4 where 4: "OpenF fw r path f3 = (s4, h, f4)" by (metis prod_cases3)
  obtain s5 i f5 where 5: "AllocatePool fw (88 + 128) 0 f4 = (s5, i, f5)" by (metis prod_cases3)
  obtain s6 f6 where 6: "GetInfo fw h (88 + 128) i f5 = (s6, f6)" by fastforce
  let ?n = "if 0 < mx \<and> mx < rd64 (memory fw f6) (i + 8) then mx else rd64 (memory fw f6) (i + 8)"
  obtain s7 u f7 where 7: "AllocatePool fw ?n 0 f6 = (s7, u, f7)" by (metis prod_cases3)
  obtain s8 k f8 where 8: "ReadF fw h ?n u f7 = (s8, k, f8)" by (metis prod_cases3)
  note laws = protocol [OF 1] protocol [OF 2] open_volume [OF 3] open_file [OF 4] alloc [OF 5] get_info [OF 6] alloc [OF 7] read [OF 8]
  note eq = assms [unfolded ReadFileToBuffer_def Let_def 1 2 3 4 prod.case]
  consider "EFI_ERROR s1" | "\<not> EFI_ERROR s1" "EFI_ERROR s2" | "\<not> EFI_ERROR s1" "\<not> EFI_ERROR s2" "EFI_ERROR s3"
    | "\<not> EFI_ERROR s1" "\<not> EFI_ERROR s2" "\<not> EFI_ERROR s3" by blast
  then show ?thesis
  proof cases
    case 4
    note ok = 4
    have zero: "\<not> EFI_ERROR 0" by (simp add: EFI_ERROR_def)
    show ?thesis
      using eq laws ok False zero unfolding 5 6 7 8 prod.case
      by (cases "EFI_ERROR s4"; cases "EFI_ERROR s5"; cases "EFI_ERROR s6"; cases "EFI_ERROR s7"; cases "EFI_ERROR s8")
        (auto simp: close free 5 6 7 8 Let_def)
  qed (use eq laws False in \<open>auto simp: close\<close>)
qed

lemma set_size_resources: "handles (set_size_loop fw w h is f) = handles f \<and> pools (set_size_loop fw w h is f) = pools f"
proof (induction "is" arbitrary: f)
  case (Cons i "is")
  obtain st a f1 where q: "QueryMode fw i f = (st, a, f1)" by (metis prod_cases3)
  show ?case using query [OF q] Cons by (auto simp: q free set_mode)
qed simp

end

section \<open>A firmware\<close>

text \<open>A firmware with a volume of files that can fail: each entry of \<open>faults\<close> says whether the next call that reports
  a status fails.  Memory is handed out upwards and never reused.\<close>

record uefi =
  files :: "(string \<times> u8 list) list"
  opened :: "(addr \<times> string) list"
  pool :: "addr list"
  fresh :: nat
  faults :: "bool list"
  umem :: mem
  modes :: "gop_mode list"
  mode_no :: nat
  tables :: "(guid \<times> addr) list"
  resets :: "reset_type list"

definition faulty :: "uefi \<Rightarrow> bool \<times> uefi" where
  "faulty s = (case faults s of [] \<Rightarrow> (False, s) | b # bs \<Rightarrow> (b, s\<lparr>faults := bs\<rparr>))"

definition device_error :: u64 where "device_error = 0x8000000000000007"

definition call :: "(uefi \<Rightarrow> addr \<times> uefi) \<Rightarrow> addr \<Rightarrow> uefi \<Rightarrow> u64 \<times> addr \<times> uefi" where
  "call ok old s = (case faulty s of (True, s) \<Rightarrow> (device_error, old, s) | (False, s) \<Rightarrow> (0, ok s))"

definition hand_out :: "nat \<Rightarrow> uefi \<Rightarrow> addr \<times> uefi" where
  "hand_out n s = (of_nat (fresh s), s\<lparr>fresh := fresh s + n + 1\<rparr>)"

definition open_as :: "string \<Rightarrow> uefi \<Rightarrow> addr \<times> uefi" where
  "open_as p s = (case hand_out 0 s of (h, s) \<Rightarrow> (h, s\<lparr>opened := (h, p) # opened s\<rparr>))"

definition allocate :: "nat \<Rightarrow> uefi \<Rightarrow> addr \<times> uefi" where
  "allocate n s = (case hand_out n s of (a, s) \<Rightarrow> (a, s\<lparr>pool := a # pool s\<rparr>))"

fun drop_handle :: "addr \<Rightarrow> (addr \<times> string) list \<Rightarrow> (addr \<times> string) list" where
  "drop_handle h [] = []"
| "drop_handle h (x # xs) = (if fst x = h then xs else x # drop_handle h xs)"

definition contents :: "addr \<Rightarrow> uefi \<Rightarrow> u8 list" where
  "contents h s = (case map_of (opened s) h of None \<Rightarrow> []
     | Some p \<Rightarrow> (case map_of (files s) p of None \<Rightarrow> [] | Some bs \<Rightarrow> bs))"

fun store :: "mem \<Rightarrow> addr \<Rightarrow> u8 list \<Rightarrow> mem" where
  "store m a [] = m"
| "store m a (b # bs) = store (m(a := b)) (a + 1) bs"

definition open_file :: "string \<Rightarrow> uefi \<Rightarrow> u64 \<times> addr \<times> uefi" where
  "open_file p s = (if map_of (files s) p = None then (device_error, 0, s) else call (open_as p) 0 s)"

definition query_mode :: "nat \<Rightarrow> uefi \<Rightarrow> u64 \<times> addr \<times> uefi" where
  "query_mode i s = call (\<lambda>s. case allocate 36 s of (a, s) \<Rightarrow>
     (a, s\<lparr>umem := wr32 (wr32 (umem s) (a + 4) (HorizontalResolution (modes s ! i))) (a + 8) (VerticalResolution (modes s ! i))\<rparr>)) 0 s"

definition uefi_fw :: "uefi firmware" where
  "uefi_fw = \<lparr>memory = umem, poke = (\<lambda>a v s. s\<lparr>umem := wr32 (umem s) a v\<rparr>),
     HandleProtocol = (\<lambda>h g. call (\<lambda>s. (1, s)) 0), DeviceHandle = (\<lambda>a s. 2),
     OpenVolume = (\<lambda>a. call (open_as []) 0), OpenF = (\<lambda>r. open_file), CloseF = (\<lambda>h s. s\<lparr>opened := drop_handle h (opened s)\<rparr>),
     AllocatePool = (\<lambda>n. call (allocate (unat n))), FreePool = (\<lambda>a s. s\<lparr>pool := remove1 a (pool s)\<rparr>),
     GetInfo = (\<lambda>h n a s. case call (\<lambda>s. (0, s\<lparr>umem := wr64 (umem s) (a + 8) (of_nat (length (contents h s)))\<rparr>)) 0 s of
       (st, _, s) \<Rightarrow> (st, s)),
     ReadF = (\<lambda>h n a s. case call (\<lambda>s. (of_nat (min (unat n) (length (contents h s))),
       s\<lparr>umem := store (umem s) a (take (unat n) (contents h s))\<rparr>)) 0 s of (st, k, s) \<Rightarrow> (st, k, s)),
     LocateGOP = (\<lambda>s. case call (\<lambda>s. (0, s)) 0 s of (st, _, s) \<Rightarrow> (st, s)), MaxMode = (\<lambda>s. of_nat (length (modes s))),
     QueryMode = query_mode, SetMode = (\<lambda>i s. s\<lparr>mode_no := i\<rparr>), Mode = (\<lambda>s. modes s ! mode_no s),
     ConfigurationTable = tables, CompareGuid = (\<lambda>a b. if a = b then 0 else 1),
     Stall = (\<lambda>_ s. s), SetAttribute = (\<lambda>_ s. s), Print = (\<lambda>_ s. s), ResetSystem = (\<lambda>r s. s\<lparr>resets := r # resets s\<rparr>),
     GetMemoryMap = (\<lambda>n a s. (0, (n, 1, 48, 1), s)), ExitBootServices = (\<lambda>k s. (0, s))\<rparr>"

lemma device_error: "EFI_ERROR device_error" "\<not> EFI_ERROR 0" by (code_simp, code_simp)

lemma call_cases:
  assumes "call ok old s = (st, a, s')"
  obtains bs where "EFI_ERROR st" "a = old" "s' = s\<lparr>faults := bs\<rparr>"
  | bs where "\<not> EFI_ERROR st" "st = 0" "ok (s\<lparr>faults := bs\<rparr>) = (a, s')"
proof -
  have f: "s = s\<lparr>faults := faults s\<rparr>" by simp
  show ?thesis
    using assms that(1) [of "tl (faults s)"] that(2) [of "tl (faults s)"] that(2) [of "faults s"] device_error
    by (auto simp: call_def faulty_def split: list.splits bool.splits)
qed

lemma call_ok:
  assumes "call ok old s = (st, a, s')" "\<not> EFI_ERROR st"
  obtains bs where "st = 0" "ok (s\<lparr>faults := bs\<rparr>) = (a, s')" "faults s = [] \<Longrightarrow> bs = []"
proof -
  have f: "s = s\<lparr>faults := faults s\<rparr>" by simp
  show ?thesis
    using assms that [of "tl (faults s)"] that [of "faults s"] device_error
    by (auto simp: call_def faulty_def split: list.splits bool.splits)
qed

lemma mset_drop_handle: "image_mset fst (mset (drop_handle h xs)) = image_mset fst (mset xs) - {#h#}"
  by (induction xs) auto

interpretation uefi: boot_services uefi_fw "\<lambda>s. mset (map fst (opened s))" "\<lambda>s. mset (pool s)"
proof unfold_locales
  fix h g f st a f' assume "HandleProtocol uefi_fw h g f = (st, a, f')"
  then have "call (\<lambda>s. (1, s)) 0 f = (st, a, f')" by (simp add: uefi_fw_def)
  then show "mset (map fst (opened f')) = mset (map fst (opened f)) \<and> mset (pool f') = mset (pool f)"
    by (cases rule: call_cases) auto
qed (auto simp: uefi_fw_def mset_drop_handle open_file_def query_mode_def open_as_def allocate_def hand_out_def device_error
  elim!: call_cases split: prod.splits if_splits)

lemma store_other: "(\<And>i. i < length bs \<Longrightarrow> x \<noteq> a + of_nat i) \<Longrightarrow> store m a bs x = m x"
proof (induction bs arbitrary: m a)
  case (Cons b bs)
  have "store (m(a := b)) (a + 1) bs x = (m(a := b)) x"
    by (rule Cons.IH) (use Cons.prems [of "Suc _"] in \<open>auto simp: add.assoc\<close>)
  then show ?case using Cons.prems [of 0] by simp
qed simp

lemma store_at: "length bs \<le> 2 ^ 64 \<Longrightarrow> i < length bs \<Longrightarrow> store m a bs (a + of_nat i) = bs ! i"
proof (induction bs arbitrary: m a i)
  case (Cons b bs)
  show ?case
  proof (cases i)
    case 0
    have "store (m(a := b)) (a + 1) bs a = (m(a := b)) a"
    proof (rule store_other)
      fix j assume j: "j < length bs"
      then have "unat (of_nat (Suc j) :: addr) = Suc j" using Cons.prems(1) by (simp add: unat_of_nat del: of_nat_Suc)
      then have "of_nat (Suc j) \<noteq> (0 :: addr)" by (metis nat.distinct(1) unat_0)
      then show "a \<noteq> a + 1 + of_nat j" by (simp add: add.assoc)
    qed
    then show ?thesis by (simp add: 0)
  next
    case (Suc k)
    have "store (m(a := b)) (a + 1) bs (a + 1 + of_nat k) = bs ! k"
      using Cons.prems by (intro Cons.IH) (simp_all add: Suc)
    then show ?thesis by (simp add: Suc add.assoc)
  qed
qed simp

text \<open>What a call to read a file that reports success has done, on the firmware of this section.\<close>

definition quiet :: "uefi \<Rightarrow> uefi \<Rightarrow> bool" where
  "quiet s s' \<longleftrightarrow> files s' = files s \<and> modes s' = modes s \<and> mode_no s' = mode_no s \<and> tables s' = tables s \<and> resets s' = resets s"

definition wanted :: "u64 \<Rightarrow> u8 list \<Rightarrow> u64" where
  "wanted mx data = (if 0 < mx \<and> mx < of_nat (length data) then mx else of_nat (length data))"

lemma uefi_calls:
  "HandleProtocol uefi_fw h g = call (\<lambda>s. (1, s)) 0" "DeviceHandle uefi_fw a s = 2" "OpenVolume uefi_fw a = call (open_as []) 0"
  "OpenF uefi_fw r = open_file" "CloseF uefi_fw h s = s\<lparr>opened := drop_handle h (opened s)\<rparr>"
  "AllocatePool uefi_fw n = call (allocate (unat n))" "FreePool uefi_fw a s = s\<lparr>pool := remove1 a (pool s)\<rparr>"
  "QueryMode uefi_fw = query_mode" "SetMode uefi_fw j s = s\<lparr>mode_no := j\<rparr>"
  by (simp_all add: uefi_fw_def)

lemma uefi_reads:
  "memory uefi_fw = umem" "Stall uefi_fw k s = s" "SetAttribute uefi_fw w s = s" "Print uefi_fw t s = s"
  "MaxMode uefi_fw s = of_nat (length (modes s))" "Mode uefi_fw s = modes s ! mode_no s" "ConfigurationTable uefi_fw = tables"
  "CompareGuid uefi_fw x y = (if x = y then 0 else 1)" "GetMemoryMap uefi_fw n a s = (0, (n, 1, 48, 1), s)"
  "ExitBootServices uefi_fw n s = (0, s)"
  by (simp_all add: uefi_fw_def)

lemma uefi_open: "open_file p s = (st, h, s') \<Longrightarrow> \<not> EFI_ERROR st \<Longrightarrow> \<exists>data. map_of (files s) p = Some data \<and> call (open_as p) 0 s = (st, h, s')"
  using device_error by (auto simp: open_file_def split: if_splits)

lemma contents_simps [simp]:
  "contents h (s\<lparr>faults := bs\<rparr>) = contents h s" "contents h (s\<lparr>umem := m\<rparr>) = contents h s" "contents h (s\<lparr>pool := ps\<rparr>) = contents h s"
  "contents h (s\<lparr>fresh := k\<rparr>) = contents h s"
  by (simp_all add: contents_def cong: option.case_cong)

lemma uefi_GetInfo:
  assumes "GetInfo uefi_fw h n a s = (st, s')" "\<not> EFI_ERROR st"
  obtains bs where "s' = s\<lparr>faults := bs, umem := wr64 (umem s) (a + 8) (of_nat (length (contents h s)))\<rparr>" "faults s = [] \<Longrightarrow> bs = []"
proof -
  obtain k where "call (\<lambda>s. (0, s\<lparr>umem := wr64 (umem s) (a + 8) (of_nat (length (contents h s)))\<rparr>)) 0 s = (st, k, s')"
    using assms(1) by (auto simp: uefi_fw_def split: prod.splits)
  then obtain bs where h: "s\<lparr>faults := bs, umem := wr64 (umem s) (a + 8) (of_nat (length (contents h s)))\<rparr> = s'"
    "faults s = [] \<Longrightarrow> bs = []" by (rule call_ok [OF _ assms(2)]) auto
  show ?thesis by (rule that [OF h(1) [symmetric] h(2)])
qed

lemma uefi_ReadF:
  assumes "ReadF uefi_fw h n a s = (st, k, s')" "\<not> EFI_ERROR st"
  obtains bs where "s' = s\<lparr>faults := bs, umem := store (umem s) a (take (unat n) (contents h s))\<rparr>" "faults s = [] \<Longrightarrow> bs = []"
    "k = of_nat (min (unat n) (length (contents h s)))"
proof -
  have "call (\<lambda>s. (of_nat (min (unat n) (length (contents h s))), s\<lparr>umem := store (umem s) a (take (unat n) (contents h s))\<rparr>)) 0 s =
      (st, k, s')"
    using assms(1) by (auto simp: uefi_fw_def split: prod.splits)
  then obtain bs where h: "s\<lparr>faults := bs, umem := store (umem s) a (take (unat n) (contents h s))\<rparr> = s'"
    "faults s = [] \<Longrightarrow> bs = []" "k = of_nat (min (unat n) (length (contents h s)))"
    by (rule call_ok [OF _ assms(2)]) auto
  show ?thesis by (rule that [OF h(1) [symmetric] h(2,3)])
qed

lemma read_file_loads:
  assumes "ReadFileToBuffer uefi_fw False ih path (0, 0) mx s = (st, (b, n), s')" "\<not> EFI_ERROR st"
  obtains data where "map_of (files s) path = Some data" "b = of_nat (fresh s + 219)" "fresh s' = fresh s + 220 + unat (wanted mx data)"
    "n = of_nat (min (unat (wanted mx data)) (length data))" "st = 0" "quiet s s'" "faults s = [] \<Longrightarrow> faults s' = []"
    "\<And>i. i < min (unat (wanted mx data)) (length data) \<Longrightarrow> umem s' (b + of_nat i) = data ! i"
    "\<And>x. unat x < fresh s \<Longrightarrow> fresh s' \<le> 2 ^ 64 \<Longrightarrow> umem s' x = umem s x"
proof -
  obtain s1 li f1 where 1: "call (\<lambda>s. (1, s)) 0 s = (s1, li, f1)" by (metis prod_cases3)
  obtain s2 fs f2 where 2: "call (\<lambda>s. (1, s)) 0 f1 = (s2, fs, f2)" by (metis prod_cases3)
  obtain s3 r f3 where 3: "call (open_as []) 0 f2 = (s3, r, f3)" by (metis prod_cases3)
  obtain s4 h f4 where 4: "open_file path f3 = (s4, h, f4)" by (metis prod_cases3)
  obtain s5 i f5 where 5: "call (allocate (unat (88 + 128 :: u64))) 0 f4 = (s5, i, f5)" by (metis prod_cases3)
  obtain s6 f6 where 6: "GetInfo uefi_fw h (88 + 128) i f5 = (s6, f6)" by fastforce
  let ?n = "if 0 < mx \<and> mx < rd64 (umem f6) (i + 8) then mx else rd64 (umem f6) (i + 8)"
  obtain s7 u f7 where 7: "call (allocate (unat ?n)) 0 f6 = (s7, u, f7)" by (metis prod_cases3)
  obtain s8 k f8 where 8: "ReadF uefi_fw h ?n u f7 = (s8, k, f8)" by (metis prod_cases3)
  note eq = assms(1) [unfolded ReadFileToBuffer_def Let_def uefi_calls uefi_reads if_False 1 2 3 4 5 6 7 8 prod.case]
  have ok: "\<not> EFI_ERROR s1" "\<not> EFI_ERROR s2" "\<not> EFI_ERROR s3" "\<not> EFI_ERROR s4" "\<not> EFI_ERROR s5" "\<not> EFI_ERROR s6"
    "\<not> EFI_ERROR s7" "\<not> EFI_ERROR s8"
    using eq assms(2) by (auto split: if_splits)
  note e = eq [unfolded if_not_P [OF ok(1)] if_not_P [OF ok(2)] if_not_P [OF ok(3)] if_not_P [OF ok(4)] if_not_P [OF ok(5)]
    if_not_P [OF ok(6)] if_not_P [OF ok(7)] if_not_P [OF ok(8)]]
  obtain b1 where b1: "f1 = s\<lparr>faults := b1\<rparr>" "faults s = [] \<Longrightarrow> b1 = []" by (rule call_ok [OF 1 ok(1)]) auto
  obtain b2 where b2: "f2 = s\<lparr>faults := b2\<rparr>" "faults s = [] \<Longrightarrow> b2 = []" by (rule call_ok [OF 2 ok(2)]) (cases s, auto simp: b1)
  obtain b3 where b3: "f3 = s\<lparr>faults := b3, opened := (r, []) # opened s, fresh := fresh s + 1\<rparr>" "faults s = [] \<Longrightarrow> b3 = []"
    by (rule call_ok [OF 3 ok(3)]) (cases s, auto simp: b2 open_as_def hand_out_def)
  obtain data where d: "map_of (files f3) path = Some data" and 4: "call (open_as path) 0 f3 = (s4, h, f4)"
    using uefi_open [OF 4 ok(4)] by blast
  obtain b4 where b4: "f4 = s\<lparr>faults := b4, opened := (h, path) # (r, []) # opened s, fresh := fresh s + 2\<rparr>" "faults s = [] \<Longrightarrow> b4 = []"
    by (rule call_ok [OF 4 ok(4)]) (cases s, auto simp: b3 open_as_def hand_out_def)
  obtain b5 where b5: "f5 = s\<lparr>faults := b5, opened := (h, path) # (r, []) # opened s, fresh := fresh s + 219, pool := i # pool s\<rparr>"
    "faults s = [] \<Longrightarrow> b5 = []"
    by (rule call_ok [OF 5 ok(5)]) (cases s, auto simp: b4 allocate_def hand_out_def)
  have q5: "faults f5 = b5" by (simp add: b5)
  have c: "contents h f5 = data" using d by (simp add: contents_def b5 b3)
  obtain b6 where b6: "f6 = f5\<lparr>faults := b6, umem := wr64 (umem f5) (i + 8) (of_nat (length data))\<rparr>" "faults s = [] \<Longrightarrow> b6 = []"
    by (rule uefi_GetInfo [OF 6 ok(6)]) (simp only: c, auto simp: b5(2) q5)
  have n: "?n = wanted mx data" by (simp add: b6 wanted_def mem_simps)
  obtain b7 where al: "allocate (unat (wanted mx data)) (f6\<lparr>faults := b7\<rparr>) = (u, f7)" "faults f6 = [] \<Longrightarrow> b7 = []"
    by (rule call_ok [OF 7 [unfolded n] ok(7)]) auto
  have b7: "u = of_nat (fresh s + 219)" "f7 = f6\<lparr>faults := b7, fresh := fresh s + 220 + unat (wanted mx data), pool := u # i # pool s\<rparr>"
    using al(1) by (auto simp: b6(1) b5(1) allocate_def hand_out_def)
  have e7: "faults s = [] \<Longrightarrow> b7 = []" using al(2) b6 by simp
  have q7: "faults f7 = b7" by (simp add: b7)
  have c7: "contents h f7 = data" using d by (simp add: contents_def b7(2) b6(1) b5(1) b3(1))
  obtain b8 where b8: "f8 = f7\<lparr>faults := b8, umem := store (umem f7) u (take (unat (wanted mx data)) data)\<rparr>" "faults s = [] \<Longrightarrow> b8 = []"
    "k = of_nat (min (unat (wanted mx data)) (length data))"
    by (rule uefi_ReadF [OF 8 [unfolded n] ok(8)]) (simp only: c7, insert e7 q7, auto)
  have r: "b = u" "n = k" "st = 0" "umem s' = umem f8" "fresh s' = fresh f8" "faults s' = b8" "quiet f8 s'"
    using e by (auto simp: quiet_def b8)
  have "umem s' (b + of_nat j) = data ! j" if "j < min (unat (wanted mx data)) (length data)" for j
  proof -
    have "unat (wanted mx data) < 2 ^ LENGTH(64)" by (rule unsigned_less)
    then have "length (take (unat (wanted mx data)) data) \<le> 2 ^ 64" by (simp add: min_le_iff_disj)
    from store_at [OF this] show ?thesis using that by (simp add: r b8)
  qed
  moreover have "umem s' x = umem s x" if x: "unat x < fresh s" "fresh s' \<le> 2 ^ 64" for x
  proof -
    have f: "fresh s + 220 + unat (wanted mx data) \<le> 2 ^ 64" using x(2) by (simp add: r b8 b7)
    have i: "i = of_nat (fresh s + 2)"
      by (rule call_ok [OF 5 ok(5)]) (auto simp: b4 allocate_def hand_out_def)
    have far: "x \<noteq> of_nat (fresh s + k)" if "k < 220 + unat (wanted mx data)" for k
    proof
      assume e: "x = of_nat (fresh s + k)"
      have "fresh s + k < 2 ^ 64" using f that by linarith
      then have "unat x = fresh s + k" unfolding e by (simp add: unat_of_nat del: of_nat_add)
      then show False using x(1) by simp
    qed
    have "store (umem f7) u (take (unat (wanted mx data)) data) x = umem f7 x"
    proof (rule store_other)
      fix j assume "j < length (take (unat (wanted mx data)) data)"
      then show "x \<noteq> u + of_nat j" using far [of "219 + j"] by (simp add: b7 ac_simps)
    qed
    moreover have "umem f7 x = umem s x"
    proof -
      have "\<not> within (i + 8) 8 x"
      proof
        assume "within (i + 8) 8 x"
        then obtain k where k: "k < 8" "x - (i + 8) = of_nat k" by (metis within_def of_nat_unat ucast_id)
        then have "x = of_nat (fresh s + (10 + k))" by (simp add: i algebra_simps)
        then show False using far [of "10 + k"] k(1) by simp
      qed
      then show ?thesis by (simp add: b7(2) b6(1) b5(1) wr64_other)
    qed
    ultimately show ?thesis by (simp add: r b8)
  qed
  moreover have "quiet s s'" using r(7) by (simp add: quiet_def b8 b7 b6 b5)
  ultimately show ?thesis
    using that [of data] d r b7 b8 by (simp add: b3)
qed

lemma call_no_fault: "faults s = [] \<Longrightarrow> call ok old s = (0, ok s)"
  by (simp add: call_def faulty_def)

lemma uefi_no_fault:
  "faults s = [] \<Longrightarrow> GetInfo uefi_fw h n a s = (0, s\<lparr>umem := wr64 (umem s) (a + 8) (of_nat (length (contents h s)))\<rparr>)"
  "faults s = [] \<Longrightarrow> ReadF uefi_fw h n a s = (0, of_nat (min (unat n) (length (contents h s))),
     s\<lparr>umem := store (umem s) a (take (unat n) (contents h s))\<rparr>)"
  by (simp_all add: uefi_fw_def call_no_fault)

lemma read_file_no_fault:
  assumes "faults s = []" "map_of (files s) path = Some data"
  shows "\<not> EFI_ERROR (fst (ReadFileToBuffer uefi_fw False ih path (0, 0) mx s))"
  using assms device_error(2)
  by (simp add: ReadFileToBuffer_def uefi_calls uefi_reads Let_def call_no_fault uefi_no_fault open_file_def open_as_def hand_out_def allocate_def)

section \<open>Loading files\<close>

text \<open>C22: However the firmware fails, the routine that reads a file leaves no handle open and no memory allocated, save the
  buffer it returns with a status of success; with an error it returns no buffer and size 0.\<close>

theorem load_releases_everything:
  assumes "ReadFileToBuffer uefi_fw null ih path (0, 0) mx s = (st, (b, n), s')"
  shows "mset (map fst (opened s')) = mset (map fst (opened s)) \<and>
    (if EFI_ERROR st then b = 0 \<and> n = 0 \<and> mset (pool s') = mset (pool s) else mset (pool s') = add_mset b (mset (pool s)))"
  using uefi.read_file_resources [OF assms] .

text \<open>A machine with a kernel of 40 bytes, a font and two modes.\<close>

definition demo_uefi :: uefi where
  "demo_uefi = \<lparr>files = [(Kernel_Path, bytes ''KNL64'' @ replicate 35 0), (Fonts_Path, replicate 64 255)], opened = [], pool = [], fresh = 0x100000,
     faults = [], umem = (\<lambda>_. 0),
     modes = [\<lparr>HorizontalResolution = 800, VerticalResolution = 600, PixelsPerScanLine = 800, FrameBufferBase = 0x80000000\<rparr>,
              \<lparr>HorizontalResolution = 1280, VerticalResolution = 720, PixelsPerScanLine = 1280, FrameBufferBase = 0x80000000\<rparr>],
     mode_no = 0, tables = [(ACPI_TABLE_GUID, 0x7000), (ACPI_20_TABLE_GUID, 0x8000)], resets = []\<rparr>"

lemma load_releases_everything_witness:
  "opened (snd (snd (ReadFileToBuffer uefi_fw False 1 Fonts_Path (0, 0) 0 (demo_uefi\<lparr>faults := [False, False, False, False, False, True]\<rparr>)))) = []"
proof -
  let ?s = "demo_uefi\<lparr>faults := [False, False, False, False, False, True]\<rparr>"
  obtain st b n s' where r: "ReadFileToBuffer uefi_fw False 1 Fonts_Path (0, 0) 0 ?s = (st, (b, n), s')" by (metis prod.collapse)
  have "opened ?s = []" by (simp add: demo_uefi_def)
  then show ?thesis using load_releases_everything [OF r] by (simp add: r)
qed

text \<open>Without faults a file is loaded: the buffer holds its first bytes, all of them when no limit is given.\<close>

theorem file_loaded:
  assumes "faults s = []" "map_of (files s) path = Some data" "length data < 2 ^ 64"
  shows "\<exists>b s'. ReadFileToBuffer uefi_fw False ih path (0, 0) mx s =
      (0, (b, of_nat (if mx = 0 then length data else min (unat mx) (length data))), s') \<and>
    (\<forall>i < (if mx = 0 then length data else min (unat mx) (length data)). umem s' (b + of_nat i) = data ! i)"
proof -
  obtain st b n s' where r: "ReadFileToBuffer uefi_fw False ih path (0, 0) mx s = (st, (b, n), s')" by (metis prod.collapse)
  have "\<not> EFI_ERROR st" using read_file_no_fault [OF assms(1,2), of ih mx] r by simp
  then obtain data' where d: "map_of (files s) path = Some data'" "n = of_nat (min (unat (wanted mx data')) (length data'))" "st = 0"
    "\<And>i. i < min (unat (wanted mx data')) (length data') \<Longrightarrow> umem s' (b + of_nat i) = data' ! i"
    by (rule read_file_loads [OF r]) blast
  have l: "unat (of_nat (length data) :: u64) = length data" using assms(3) by (simp add: unat_of_nat)
  have "min (unat (wanted mx data)) (length data) = (if mx = 0 then length data else min (unat mx) (length data))"
    using l by (auto simp: wanted_def word_less_nat_alt unat_gt_0)
  then show ?thesis using r d assms(2) by auto
qed

lemma file_loaded_witness:
  "\<exists>b s'. ReadFileToBuffer uefi_fw False 1 Fonts_Path (0, 0) 16 demo_uefi = (0, (b, 16), s') \<and> (\<forall>i<16. umem s' (b + of_nat i) = 255)"
proof -
  have f: "faults demo_uefi = []" "map_of (files demo_uefi) Fonts_Path = Some (replicate 64 255)"
    by (simp_all add: demo_uefi_def Fonts_Path_def Kernel_Path_def)
  show ?thesis using file_loaded [OF f, of 1 16] by simp
qed

section \<open>Starting the kernel\<close>

lemma byte_difference: "(word_of_int (uint (a :: u8) - uint b) :: u64) = 0 \<longleftrightarrow> a = b"
proof -
  have "(word_of_int (uint a - uint b) :: u64) = 0 \<longleftrightarrow> ucast a = (ucast b :: u64)" by simp
  also have "\<dots> \<longleftrightarrow> a = b" by (simp only: word_unat_eq_iff) simp
  finally show ?thesis .
qed

lemma memcmp_five: "Memcmp [a, b, c, d, e] [a', b', c', d', e'] 5 = 0 \<longleftrightarrow> [a, b, c, d, e] = [a', b', c', d', e']"
  by (simp add: eval_nat_numeral byte_difference del: of_int_diff word_of_int_minus)

lemma le32_zero: "le32 a b c d = 0 \<longleftrightarrow> a = 0 \<and> b = 0 \<and> c = 0 \<and> d = 0"
proof
  assume "le32 a b c d = 0"
  then have z: "\<not> bit (le32 a b c d) n" for n by simp
  have "\<not> bit a n" for n using z [of n] bit_imp_le_length [of a n] by (auto simp: bit_le32)
  moreover have "\<not> bit b n" for n using z [of "8 + n"] bit_imp_le_length [of b n] by (auto simp: bit_le32)
  moreover have "\<not> bit c n" for n using z [of "16 + n"] bit_imp_le_length [of c n] by (auto simp: bit_le32)
  moreover have "\<not> bit d n" for n using z [of "24 + n"] bit_imp_le_length [of d n] by (auto simp: bit_le32)
  ultimately show "a = 0 \<and> b = 0 \<and> c = 0 \<and> d = 0" by (auto intro!: bit_word_eqI)
qed (simp add: le32_def)

lemma header_bytes:
  assumes "\<And>i. i < 9 \<Longrightarrow> m (a + of_nat i) = data ! i" "9 \<le> length data"
  shows "header_ok m a \<longleftrightarrow> take 9 data = bytes ''KNL64'' @ [0, 0, 0, 0]"
proof -
  have "m a = data ! 0" "m (a + 1) = data ! 1" "m (a + 2) = data ! 2" "m (a + 3) = data ! 3" "m (a + 4) = data ! 4"
    "m (a + 5) = data ! 5" "m (a + 6) = data ! 6" "m (a + 7) = data ! 7" "m (a + 8) = data ! 8"
    using assms(1) [of 0] assms(1) [of 1] assms(1) [of 2] assms(1) [of 3] assms(1) [of 4] assms(1) [of 5] assms(1) [of 6]
      assms(1) [of 7] assms(1) [of 8] by simp_all
  note m = this
  have "take 9 data = [data ! 0, data ! 1, data ! 2, data ! 3, data ! 4, data ! 5, data ! 6, data ! 7, data ! 8]"
    using assms(2) by (auto simp: Suc_le_length_iff eval_nat_numeral)
  then show ?thesis
    by (auto simp: header_ok_def m memcmp_five rd32_def le32_zero add.assoc bytes_def)
qed

lemma set_size_files: "files (set_size_loop uefi_fw w h is s) = files s"
proof (induction "is" arbitrary: s)
  case (Cons i "is")
  obtain st a s1 where q: "query_mode i s = (st, a, s1)" by (metis prod_cases3)
  have "files s1 = files s"
    using q unfolding query_mode_def by (cases rule: call_cases) (auto simp: allocate_def hand_out_def)
  moreover have "QueryMode uefi_fw = query_mode" "files (FreePool uefi_fw b x) = files x" "files (SetMode uefi_fw k x) = files x" for b x k
    by (simp_all add: uefi_fw_def)
  ultimately show ?case using Cons by (simp add: q Let_def)
qed simp

lemma fail_boot_resets: "resets (fail_boot uefi_fw t r s) \<noteq> []"
  by (simp add: fail_boot_def uefi_fw_def)

text \<open>C27: A kernel file with another signature or version is never started, whatever else fails: the loader asks the firmware
  for a reset and, when that returns, gives the status back.\<close>

theorem bad_kernel_not_started:
  assumes "map_of (files s) Kernel_Path = Some data" "9 \<le> length data" "length data < 2 ^ 64"
    "take 9 data \<noteq> bytes ''KNL64'' @ [0, 0, 0, 0]"
  shows "\<exists>st s'. efi_main uefi_fw junk ih s = (Returned st, s') \<and> resets s' \<noteq> []"
proof -
  obtain st1 s1 where 1: "InitGraphics uefi_fw s = (st1, s1)" by fastforce
  let ?s2 = "Stall uefi_fw (ms_to_us 20) (SetScreenSize uefi_fw 1280 720 (Stall uefi_fw (ms_to_us 100) s1))"
  obtain st2 b n s3 where 2: "ReadFileToBuffer uefi_fw False ih Kernel_Path (0, 0) 0 ?s2 = (st2, (b, n), s3)" by (metis prod.collapse)
  consider "EFI_ERROR st1" | "\<not> EFI_ERROR st1" "EFI_ERROR st2" | "\<not> EFI_ERROR st1" "\<not> EFI_ERROR st2" by blast
  then show ?thesis
  proof cases
    case 1
    then show ?thesis using \<open>InitGraphics uefi_fw s = (st1, s1)\<close> by (simp add: efi_main_def fail_boot_resets)
  next
    case 3
    have "files s1 = files s"
      using 1 by (auto simp: InitGraphics_def uefi_fw_def split: prod.splits if_splits elim!: call_cases)
    then have f: "map_of (files ?s2) Kernel_Path = Some data"
      using assms(1) by (simp add: SetScreenSize_def set_size_files uefi_calls uefi_reads)
    obtain data' where d: "map_of (files ?s2) Kernel_Path = Some data'"
      "\<And>i. i < min (unat (wanted 0 data')) (length data') \<Longrightarrow> umem s3 (b + of_nat i) = data' ! i"
      by (rule read_file_loads [OF 2 3(2)]) blast
    have "unat (wanted 0 data) = length data" using assms(3) by (simp add: wanted_def unat_of_nat)
    then have "\<not> header_ok (umem s3) b"
      using header_bytes [of "umem s3" b data] d f assms(2,4) by auto
    then show ?thesis
      using 1 2 3 by (simp add: efi_main_def fail_boot_resets Let_def uefi_calls uefi_reads)
  qed (simp add: efi_main_def fail_boot_resets Let_def 1 2)
qed

lemma bad_kernel_not_started_witness:
  "\<exists>st s'. efi_main uefi_fw 0 1 (demo_uefi\<lparr>files := [(Kernel_Path, replicate 16 0)], faults := [False, False, True]\<rparr>) = (Returned st, s') \<and>
     resets s' \<noteq> []"
proof (rule bad_kernel_not_started [of _ "replicate 16 0"])
  show "take 9 (replicate 16 0) \<noteq> bytes ''KNL64'' @ [0, 0, 0, 0]"
    by (rule notI, drule arg_cong [of _ _ hd]) (simp add: bytes_def)
qed simp_all

lemma mode_info:
  "rd32 (wr32 (wr32 m (a + 4) v) (a + 8) w) (a + 4) = v" "rd32 (wr32 (wr32 m (a + 4) v) (a + 8) w) (a + 8) = w"
proof -
  have "disj (a + 8) 4 (a + 4) 4" by (simp add: disj_iff within_def)
  then show "rd32 (wr32 (wr32 m (a + 4) v) (a + 8) w) (a + 4) = v" by (simp add: mem_simps)
qed (simp add: mem_simps)

lemma set_size_no_fault:
  assumes "faults s = []" "s' = set_size_loop uefi_fw w h is s"
  shows "faults s' = [] \<and> files s' = files s \<and> tables s' = tables s \<and> modes s' = modes s \<and> resets s' = resets s \<and>
    fresh s \<le> fresh s' \<and> fresh s' \<le> fresh s + 37 * length is \<and>
    mode_no s' = (case List.find (\<lambda>i. HorizontalResolution (modes s ! i) = w \<and> VerticalResolution (modes s ! i) = h) is of
      Some i \<Rightarrow> i | None \<Rightarrow> mode_no s)"
  using assms
proof (induction "is" arbitrary: s)
  case (Cons i "is")
  let ?a = "of_nat (fresh s)"
  let ?m = "wr32 (wr32 (umem s) (?a + 4) (HorizontalResolution (modes s ! i))) (?a + 8) (VerticalResolution (modes s ! i))"
  let ?s1 = "s\<lparr>fresh := fresh s + 37, pool := ?a # pool s, umem := ?m\<rparr>"
  have q: "query_mode i s = (0, ?a, ?s1)"
    using Cons.prems(1) by (simp add: query_mode_def call_no_fault allocate_def hand_out_def)
  let ?here = "HorizontalResolution (modes s ! i) = w \<and> VerticalResolution (modes s ! i) = h"
  show ?case
  proof (cases ?here)
    case True
    then show ?thesis using Cons.prems by (simp add: uefi_calls uefi_reads q device_error mode_info Let_def)
  next
    case False
    then have "s' = set_size_loop uefi_fw w h is (FreePool uefi_fw ?a ?s1)"
      using Cons.prems by (auto simp: uefi_calls uefi_reads q device_error mode_info Let_def)
    from Cons.IH [OF _ this] Cons.prems(1) False show ?thesis by (auto simp: uefi_calls uefi_reads cong: option.case_cong)
  qed
qed simp

text \<open>C13: The loader hands over a machine the kernel accepts.  When nothing fails, the kernel file has the right header, the font is
  there, the firmware lists an ACPI table and one of its modes is 1280 by 720, the loader jumps behind the header of the kernel, whose
  bytes are in memory as in the file; and \<^verbatim>\<open>LoadBootShare\<close> takes what it is given and draws with that mode.\<close>

theorem boot_hands_over:
  assumes "faults s = []"
    and kernel: "map_of (files s) Kernel_Path = Some knl" "32 \<le> length knl" "take 9 knl = bytes ''KNL64'' @ [0, 0, 0, 0]"
    and font: "map_of (files s) Fonts_Path = Some font"
    and room: "0 < fresh s" "fresh s + 37 * length (modes s) + length knl + length font + 1000 < 2 ^ 32"
    and rsdp: "GetRSDP uefi_fw s \<noteq> 0"
    and mode: "length (modes s) < 2 ^ 32" "List.find (\<lambda>i. HorizontalResolution (modes s ! i) = 1280 \<and> VerticalResolution (modes s ! i) = 720)
      [0..<length (modes s)] = Some i"
  shows "\<exists>entry stack sh s' g'. efi_main uefi_fw junk ih s = (Jumped entry stack sh, s') \<and>
    (\<forall>k < length knl - 32. umem s' (entry + of_nat k) = knl ! (32 + k)) \<and>
    LoadBootShare (Some sh) g = (True, g') \<and> RSDP sh = GetRSDP uefi_fw s \<and> FrameBuffer (bg_console g') = FrameBufferBase (modes s ! i) \<and>
    ScreenWidth (bg_console g') = 1280 \<and> ScreenHeigth (bg_console g') = 720"
proof -
  have 1: "InitGraphics uefi_fw s = (0, s)"
    using assms(1) by (simp add: InitGraphics_def uefi_fw_def call_no_fault device_error)
  define s2 where "s2 = SetScreenSize uefi_fw 1280 720 s"
  have i: "HorizontalResolution (modes s ! i) = 1280" "VerticalResolution (modes s ! i) = 720"
    using mode(2) by (auto simp: find_Some_iff)
  have 2: "faults s2 = []" "files s2 = files s" "tables s2 = tables s" "modes s2 = modes s" "mode_no s2 = i" "fresh s \<le> fresh s2"
      "fresh s2 \<le> fresh s + 37 * length (modes s)"
    using set_size_no_fault [OF assms(1) s2_def [unfolded SetScreenSize_def]] mode
    by (simp_all add: uefi_calls uefi_reads unat_of_nat)
  obtain st3 b n s3 where 3: "ReadFileToBuffer uefi_fw False ih Kernel_Path (0, 0) 0 s2 = (st3, (b, n), s3)" by (metis prod.collapse)
  have e3: "\<not> EFI_ERROR st3" using read_file_no_fault [OF 2(1), of Kernel_Path knl ih 0] 2(2) kernel(1) 3 by simp
  have wk: "unat (wanted 0 knl) = length knl" and wf: "unat (wanted 0 font) = length font"
    using room(2) by (simp_all add: wanted_def unat_of_nat)
  have l3: "b = of_nat (fresh s2 + 219)" "fresh s3 = fresh s2 + 220 + length knl" "st3 = 0" "quiet s2 s3" "faults s3 = []"
    "\<And>j. j < length knl \<Longrightarrow> umem s3 (b + of_nat j) = knl ! j"
    by (rule read_file_loads [OF 3 e3]; use 2 kernel(1) wk in simp)+
  have h3: "header_ok (umem s3) b" using header_bytes [of "umem s3" b knl] l3(6) kernel(2,3) by auto
  obtain st4 c k s4 where 4: "ReadFileToBuffer uefi_fw False ih Fonts_Path (0, 0) 0 s3 = (st4, (c, k), s4)" by (metis prod.collapse)
  have f3: "files s3 = files s" "tables s3 = tables s" "modes s3 = modes s" "mode_no s3 = i" using l3(4) 2 by (auto simp: quiet_def)
  have e4: "\<not> EFI_ERROR st4" using read_file_no_fault [OF l3(5), of Fonts_Path font ih 0] f3(1) font 4 by simp
  have l4: "c = of_nat (fresh s3 + 219)" "fresh s4 = fresh s3 + 220 + length font" "quiet s3 s4" "faults s4 = []"
    "\<And>x. unat x < fresh s3 \<Longrightarrow> umem s4 x = umem s3 x"
    by (rule read_file_loads [OF 4 e4]; use l3 2 f3 font wf room in simp)+
  have f4: "tables s4 = tables s" "modes s4 = modes s" "mode_no s4 = i" using l4(3) f3 by (auto simp: quiet_def)
  have g: "GetRSDP uefi_fw s4 = GetRSDP uefi_fw s" unfolding GetRSDP_def by (simp only: uefi_calls uefi_reads f4)
  have small: "fresh s3 + 219 < 2 ^ 32" using l3(2) 2(7) room(2) by linarith
  have "unat (ucast c :: u32) = fresh s3 + 219"
    using small by (simp add: l4(1) unsigned_ucast_eq unat_of_nat take_bit_nat_eq_self del: of_nat_add)
  then have c: "ucast c \<noteq> (0 :: u32)" by auto
  obtain sb s5 where 5: "AllocatePool uefi_fw 0x80000 junk s4 = (0, sb, s5)" "umem s5 = umem s4" "faults s5 = []"
    using l4(4) by (simp add: uefi_calls uefi_reads call_no_fault allocate_def hand_out_def)
  obtain od s6 where 6: "AllocatePool uefi_fw 65536 0 s5 = (0, od, s6)" "umem s6 = umem s5" "faults s6 = []"
    using 5(3) by (simp add: uefi_calls uefi_reads call_no_fault allocate_def hand_out_def)
  obtain buf s7 where 7: "AllocatePool uefi_fw 8192 0 s6 = (0, buf, s7)" "umem s7 = umem s6"
    using 6(3) by (simp add: uefi_calls uefi_reads call_no_fault allocate_def hand_out_def)
  let ?stack = "(sb + 0x80000) AND NOT 0xF"
  let ?sh = "\<lparr>ScreenData = \<lparr>sd_FrameBuffer = FrameBufferBase (modes s ! i), SW = 1280, SH = 720\<rparr>, CPUF = 2000000000,
     FONTADDR = ucast c, RSDP = GetRSDP uefi_fw s,
     MemoryMap = Some \<lparr>MapSize = 8192, DescriptorSize = 48, DescriptorVersion = 1, StackAddr = ?stack, Buffer = buf, OsDescAddr = od\<rparr>\<rparr>"
  have "efi_main uefi_fw junk ih s = (Jumped (b + 32) ?stack ?sh, s7)"
    unfolding efi_main_def Let_def 1 prod.case uefi_reads s2_def [symmetric] if_not_P [OF device_error(2)] 3 if_not_P [OF e3]
    by (simp add: h3 4 e4 uefi_reads f4 g rsdp 5 6 7 device_error i 2)
  moreover have "umem s7 (b + 32 + of_nat k) = knl ! (32 + k)" if k: "k < length knl - 32" for k
  proof -
    have "unat (of_nat (fresh s2 + 219 + (32 + k)) :: addr) = fresh s2 + 219 + (32 + k)"
      using room(2) 2(7) k by (simp add: unat_of_nat del: of_nat_add)
    then have "unat (b + of_nat (32 + k)) < fresh s3" using k by (simp add: l3(1,2) add.assoc)
    from l4(5) [OF this] have "umem s4 (b + of_nat (32 + k)) = knl ! (32 + k)" using l3(6) [of "32 + k"] k by simp
    then show ?thesis by (simp add: 5 6 7 add.assoc)
  qed
  ultimately show ?thesis using rsdp c by (intro exI [of _ "b + 32"] exI [of _ ?stack] exI [of _ ?sh] exI [of _ s7]) (simp add: LoadBootShare_def)
qed

lemma boot_hands_over_witness:
  "\<exists>entry stack sh s' g'. efi_main uefi_fw 0 1 demo_uefi = (Jumped entry stack sh, s') \<and>
     LoadBootShare (Some sh) \<lparr>bg_console = demo_console, SYSTEM_BootShare = None, bg_CPU_Frequency = 0, bg_MemoryMap = None\<rparr> = (True, g') \<and>
     ScreenWidth (bg_console g') = 1280"
proof -
  let ?g = "\<lparr>bg_console = demo_console, SYSTEM_BootShare = None, bg_CPU_Frequency = 0, bg_MemoryMap = None\<rparr>"
  have f: "faults demo_uefi = []" "map_of (files demo_uefi) Kernel_Path = Some (bytes ''KNL64'' @ replicate 35 0)"
    "map_of (files demo_uefi) Fonts_Path = Some (replicate 64 255)" "0 < fresh demo_uefi" "length (modes demo_uefi) < 2 ^ 32"
    "GetRSDP uefi_fw demo_uefi \<noteq> 0"
    by (simp_all add: demo_uefi_def Fonts_Path_def Kernel_Path_def GetRSDP_def find_table_def uefi_reads ACPI_TABLE_GUID_def ACPI_20_TABLE_GUID_def)
  have h: "32 \<le> length (bytes ''KNL64'' @ replicate 35 0)" "take 9 (bytes ''KNL64'' @ replicate 35 0) = bytes ''KNL64'' @ [0, 0, 0, 0]"
    by (simp_all add: bytes_def numeral_eq_Suc)
  have r: "fresh demo_uefi + 37 * length (modes demo_uefi) + length (bytes ''KNL64'' @ replicate 35 0) + length (replicate 64 (255 :: u8)) + 1000 < 2 ^ 32"
    by (simp add: demo_uefi_def bytes_def)
  have m: "List.find (\<lambda>i. HorizontalResolution (modes demo_uefi ! i) = 1280 \<and> VerticalResolution (modes demo_uefi ! i) = 720)
      [0..<length (modes demo_uefi)] = Some 1"
    by (simp add: demo_uefi_def upt_rec)
  show ?thesis using boot_hands_over [OF f(1,2) h f(3,4) r f(6,5) m, of 0 1 ?g] by blast
qed

text \<open>Of the ACPI tables the firmware lists, the first of the second version is taken, and one of the first version only when there is
  no other.\<close>

theorem newest_acpi_first:
  assumes "\<And>a b. CompareGuid fw a b = 0 \<longleftrightarrow> a = b"
  shows "GetRSDP fw f =
    (if ACPI_20_TABLE_GUID \<in> fst ` set (ConfigurationTable fw f) then the (map_of (ConfigurationTable fw f) ACPI_20_TABLE_GUID)
     else if ACPI_TABLE_GUID \<in> fst ` set (ConfigurationTable fw f) then the (map_of (ConfigurationTable fw f) ACPI_TABLE_GUID) else 0)"
proof -
  have "find_table fw g ts = map_of ts g" for g ts
    unfolding find_table_def by (induction ts) (auto simp: assms)
  moreover have "g \<in> fst ` set ts \<longleftrightarrow> map_of ts g \<noteq> None" for g and ts :: "(guid \<times> addr) list"
    by (simp add: map_of_eq_None_iff)
  ultimately show ?thesis by (simp only: GetRSDP_def) (simp split: option.split)
qed

lemma newest_acpi_first_witness: "GetRSDP uefi_fw demo_uefi = 0x8000"
  using newest_acpi_first [of uefi_fw demo_uefi]
  by (simp add: uefi_reads demo_uefi_def ACPI_TABLE_GUID_def ACPI_20_TABLE_GUID_def)

text \<open>Choosing a mode releases the description of every mode it looks at, and takes the first with the size asked for.\<close>

lemma mode_chosen:
  "mset (pool (SetScreenSize uefi_fw w h s)) = mset (pool s)"
  using uefi.set_size_resources [of w h "[0..<unat (MaxMode uefi_fw s)]" s] by (simp add: SetScreenSize_def)

end
