(* ===== verification/Os.thy ===== *)
theory Os
  imports Fs Keyboard Display
begin

text \<open>
  The state the shell of \<^verbatim>\<open>Kernel/kernel/kernel.c\<close> works on: the kernel with its display, the
  keyboard, the tables of ACPI, the disks and the system partition.  \<open>env\<close> is what the code gets from
  outside: the ports, the addresses of its functions, the time written into new directory entries, and
  what interrupts do to the state while the code waits.
\<close>

unbundle bit_operations_syntax

section \<open>State\<close>

record 'd os = "'d kernel" +
  kbd :: keyboard
  tables :: acpi
  gATAInfo :: ata_controller_info
  part_disk :: ata_disk
  part_start :: u64
  part_info :: fat32_info
  cpu_frequency :: u64
  test_thread :: addr

record 'd env =
  ports :: "'d hw"
  entry_of :: "string \<Rightarrow> addr"
  stamp :: "'d os \<Rightarrow> rtc_time"
  arrive :: "'d os \<Rightarrow> 'd os"

text \<open>The ports with the frequency the delays count by.\<close>

definition io :: "'d env \<Rightarrow> 'd os \<Rightarrow> 'd hw" where
  "io e s = (ports e)\<lparr>SYSTEM_CPU_Frequency := cpu_frequency s\<rparr>"

section \<open>Parts of the state\<close>

definition on_screen :: "(console \<times> mem \<Rightarrow> (console \<times> mem) option) \<Rightarrow> 'd os \<Rightarrow> 'd os option" where
  "on_screen f s = map_option (\<lambda>cm. with_screen cm s) (f (con s, mem_of s))"

definition reads :: "('d \<Rightarrow> ('a \<times> 'd) option) \<Rightarrow> 'd os \<Rightarrow> ('a \<times> 'd os) option" where
  "reads f s = map_option (\<lambda>(r, d). (r, s\<lparr>dev := d\<rparr>)) (f (dev s))"

definition on_sched :: "(sched \<Rightarrow> ('a \<times> sched) option) \<Rightarrow> 'd os \<Rightarrow> ('a \<times> 'd os) option" where
  "on_sched f s = map_option (\<lambda>(r, k). (r, s\<lparr>sched := k\<rparr>)) (f (sched s))"

definition on_mm :: "(mm_state \<Rightarrow> ('a \<times> mm_state) option) \<Rightarrow> 'd os \<Rightarrow> ('a \<times> 'd os) option" where
  "on_mm f = on_sched (\<lambda>k. map_option (\<lambda>(r, m). (r, k\<lparr>mm := m\<rparr>)) (f (mm k)))"

definition take_pages :: "u32 \<Rightarrow> 'd os \<Rightarrow> (addr \<times> 'd os) option" where
  "take_pages n = on_mm (\<lambda>m. Some (Pmm_Malloc m n))"

definition give_pages :: "addr \<Rightarrow> u32 \<Rightarrow> 'd os \<Rightarrow> 'd os" where
  "give_pages p n s = s\<lparr>sched := (sched s)\<lparr>mm := Pmm_Free (mm (sched s)) p n\<rparr>\<rparr>"

text \<open>The file system on the system partition.\<close>

definition disk_of :: "'d env \<Rightarrow> 'd os \<Rightarrow> ata_disk \<Rightarrow> u64 \<Rightarrow> 'd volume" where
  "disk_of e s disk first = disk_io.extend (ata_disk_io (io e s) (dk_channel disk)) (volume.fields (dk_master disk) first)"

definition as_fs :: "'d env \<Rightarrow> 'd os \<Rightarrow> 'd fs" where
  "as_fs e s = \<lparr>fs_vol = disk_of e s (part_disk s) (part_start s), fs_info = part_info s, fs_mem = mm (sched s), fs_dev = dev s\<rparr>"

definition with_fs :: "'d fs \<Rightarrow> 'd os \<Rightarrow> 'd os" where
  "with_fs S s = s\<lparr>part_info := fs_info S, sched := (sched s)\<lparr>mm := fs_mem S\<rparr>, dev := fs_dev S\<rparr>"

definition on_fs :: "'d env \<Rightarrow> ('d fs \<Rightarrow> ('a \<times> 'd fs) option) \<Rightarrow> 'd os \<Rightarrow> ('a \<times> 'd os) option" where
  "on_fs e f s = map_option (\<lambda>(r, S). (r, with_fs S s)) (f (as_fs e s))"

text \<open>A delay, with what the interrupts and the other threads do meanwhile.\<close>

definition pausing :: "'d env \<Rightarrow> ('d \<Rightarrow> 'd option) \<Rightarrow> 'd os \<Rightarrow> 'd os option" where
  "pausing e f s = map_option (arrive e) (on_dev f s)"

section \<open>Bytes of memory\<close>

definition peek_bytes :: "mem \<Rightarrow> addr \<Rightarrow> nat \<Rightarrow> u8 list" where
  "peek_bytes m p n = map (\<lambda>i. m (p + of_nat i)) [0..<n]"

definition put_mem :: "addr \<Rightarrow> u8 list \<Rightarrow> mem \<Rightarrow> mem" where
  "put_mem p bs m = fold (\<lambda>(i, b) m. m(p + of_nat i := b)) (enumerate 0 bs) m"

text \<open>A string that ends in the bytes given; \<open>None\<close> goes on past them.\<close>

definition c_string :: "u8 list \<Rightarrow> u8 list option" where
  "c_string b = (if 0 \<in> set b then Some (takeWhile (\<lambda>c. c \<noteq> 0) b) else None)"

definition page_of_bytes :: "addr \<Rightarrow> 'd os \<Rightarrow> u8 list" where
  "page_of_bytes p s = peek_bytes (mem_of s) p (unat PAGE_SIZE)"

text \<open>\<^verbatim>\<open>ReadFile\<close> into a page.\<close>

definition read_into :: "'d env \<Rightarrow> file_t \<Rightarrow> addr \<Rightarrow> 'd os \<Rightarrow> 'd os option" where
  "read_into e file p s =
     (if p = 0 then None
      else do {
        (b, s) \<leftarrow> on_fs e (\<lambda>S. map_option (\<lambda>(n, b, S). (b, S)) (ReadFile S file (page_of_bytes p s))) s;
        Some (with_screen (con s, put_mem p b (mem_of s)) s) })"

end
