(* ===== verification/Commands.thy ===== *)
theory Commands
  imports Os FatProps
begin

text \<open>
  The commands of the shell, \<^verbatim>\<open>execute\<close>, \<^verbatim>\<open>cmd_clear\<close> and \<^verbatim>\<open>cmd_clock\<close> of
  \<^verbatim>\<open>Kernel/kernel/kernel.c\<close>, one definition for each branch.  A command returns the number
  \<^verbatim>\<open>execute\<close> returns; \<open>None\<close> is the use of a null pointer or of a variable that was not set,
  a fault, a text longer than the buffer of \<^verbatim>\<open>printf\<close>, and waiting for ever.  The threads a
  command starts run later; what they do is not part of the command.
\<close>

unbundle bit_operations_syntax

section \<open>Screen, power and clock\<close>

definition ended :: "'d os option \<Rightarrow> (int \<times> 'd os) option" where
  "ended r = map_option (Pair 0) r"

definition OS_NAME :: string where "OS_NAME = ''OS003''"
definition COLOR_GREY :: u32 where "COLOR_GREY = 0xFF222222"

definition cmd_clear :: "'d os \<Rightarrow> 'd os option" where
  "cmd_clear s = on_screen ClearScreen s"

definition cmd_status :: "'d os \<Rightarrow> 'd os option" where
  "cmd_status s = do {
     s \<leftarrow> printm (line ''Operating System:   %s'') [Text (bytes OS_NAME)] s;
     s \<leftarrow> printm (line ''CPU Frequency:      %u'') [Val (cpu_frequency s)] s;
     s \<leftarrow> printm (line ''Screen Size:        %dx%d'') [Val (ucast (ScreenWidth (con s))), Val (ucast (ScreenHeigth (con s)))] s;
     s \<leftarrow> printm (line ''Fonts Addr:         %p'') [Val (font_data (con s))] s;
     s \<leftarrow> printm (line ''ACPI RSDP Addr:     %p'') [Val (SYSTEM_RSDP_ADDR (tables s))] s;
     s \<leftarrow> printm (line ''Total Memory:       %dMB'') [Val (GetMemoryTotalSize (mm (sched s)) div 1024)] s;
     printm (line ''PML4:               %p'') [Val (cr3 (mm (sched s)))] s }"

definition leaving :: "'d env \<Rightarrow> string \<Rightarrow> 'd os \<Rightarrow> 'd os option" where
  "leaving e text s = do {
     s \<leftarrow> pausing e (delay_ms (io e s) 100) s;
     s \<leftarrow> on_screen ClearScreen s;
     pausing e (delay_seconds (io e s) 1) (prints (print 0 (line text) COLOR_CYAN) s) }"

definition cmd_shutdown :: "'d env \<Rightarrow> 'd os \<Rightarrow> 'd os option" where
  "cmd_shutdown e s = do { s \<leftarrow> leaving e ''[POWER]Shutting down...'' s; SYSTEM_SHUTDOWN (io e s) (tables s) s }"

definition cmd_reboot :: "'d env \<Rightarrow> 'd os \<Rightarrow> 'd os option" where
  "cmd_reboot e s = do { s \<leftarrow> leaving e ''[POWER]Reboot...'' s; SYSTEM_REBOOT (io e s) (tables s) s }"

definition time_values :: "rtc_time \<Rightarrow> arg list" where
  "time_values t = map (\<lambda>v. Val (ucast v)) [year t, month t, day t, hour t, minute t, second t]"

definition cmd_time :: "'d env \<Rightarrow> 'd os \<Rightarrow> 'd os option" where
  "cmd_time e s = do {
     (t, s) \<leftarrow> reads (get_rtc_time (io e s)) s;
     printm (line ''20%d/%d/%d'' @ line ''%d:%d:%d'') (time_values t) s }"

text \<open>The face of the clock, and one turn of it: whether a key has ended it.\<close>

definition clock_face :: "'d env \<Rightarrow> 'd os \<Rightarrow> 'd os option" where
  "clock_face e s = do {
     s \<leftarrow> on_screen (\<lambda>(c, m). map_option (\<lambda>m. (c\<lparr>PrintLine := 2, PrintRow := 2\<rparr>, m))
            (fillRect c 0 0 (ScreenWidth c) (ScreenHeigth c) COLOR_GREY m)) s;
     cmd_time e s }"

definition clock_turn :: "'d env \<Rightarrow> 'd os \<Rightarrow> (bool \<times> 'd os) option" where
  "clock_turn e s = do {
     s \<leftarrow> clock_face e s;
     let (key, kb) = GetKey_NoBlock (kbd s);
     if key = 101 then Some (True, s\<lparr>kbd := kb\<rparr>)
     else do {
       let (key, kb) = GetKey_NoBlock kb;
       if key = 69 then Some (True, s\<lparr>kbd := kb\<rparr>)
       else do { s \<leftarrow> pausing e (delay_ms (io e s) 600) (s\<lparr>kbd := kb\<rparr>); Some (False, s) } } }"

partial_function (option) cmd_clock :: "'d env \<Rightarrow> 'd os \<Rightarrow> 'd os option" where
  "cmd_clock e s = Option.bind (clock_turn e s) (\<lambda>(ends, s). if ends then Some s else cmd_clock e s)"

section \<open>Memory\<close>

definition cmd_UEFImd :: "'d os \<Rightarrow> 'd os option" where
  "cmd_UEFImd s = do {
     let mmap = SYSTEM_MemoryMap (mm (sched s));
     let (d, s) = AnalysisMemoryMap_out mmap 0 s;
     s \<leftarrow> (if d = 0 then Some (prints (out_error 0 (line ''AnalysisMemoryDescriptor failed'')) s)
           else PrintMemoryDescriptor mmap d s);
     printm (line ''Total Memory: %dMB'') [Val (GetMemoryTotalSize (mm (sched s)) div 1024)] s }"

fun show_regions :: "nat list \<Rightarrow> u64 \<Rightarrow> 'd os \<Rightarrow> (u64 \<times> 'd os) option" where
  "show_regions [] sz s = Some (sz, s)"
| "show_regions (a # as) sz s =
     (let d = md (mm (sched s)) a; kb = md_PageSize (mem_of s) d * 4
      in Option.bind (printm (line ''%d: Addr:%p  Size:%dKB %s'')
             [Val (of_nat a), Val (md_PhysicalStart (mem_of s) d), Val kb,
              Text (bytes (if md_Type (mem_of s) d = OS_AVAILABLE_MEMORY then ''AVAILABLE'' else ''UNAVAILABLE''))] s)
           (show_regions as (sz + kb)))"

definition cmd_pmm :: "'d os \<Rightarrow> 'd os option" where
  "cmd_pmm s = do {
     s \<leftarrow> printm (line ''%p'') [Val (MemDescAddr (mm (sched s)))] s;
     s \<leftarrow> printm (line ''%d  %d'') [Val (ucast (maxDescriptors (SYSTEM_MemoryMap (mm (sched s))))), Val (of_int (MemDescNum (mm (sched s))))] s;
     (sz, s) \<leftarrow> show_regions [0..<nat (MemDescNum (mm (sched s)))] 0 s;
     printm (line ''Total %dMB'') [Val (sz div 1024)] s }"

definition cmd_acpmm :: "'d os \<Rightarrow> 'd os option" where
  "cmd_acpmm s = do {
     (a, s) \<leftarrow> take_pages 2 s;
     (b, s) \<leftarrow> take_pages 4 s;
     s \<leftarrow> printm (line ''%p %p'') [Val a, Val b] s;
     (b, s) \<leftarrow> take_pages 4 (give_pages b 4 s);
     s \<leftarrow> printm (line ''%p %p'') [Val a, Val b] s;
     Some (give_pages b 4 (give_pages a 2 s)) }"

definition cmd_vmm :: "'d os \<Rightarrow> 'd os option" where
  "cmd_vmm s = do {
     let v = Current_VMM_Desc (mm (sched s));
     s \<leftarrow> printm (line ''VMM:'') [] s;
     s \<leftarrow> printm (line '' table at %p'') [Val v] s;
     s \<leftarrow> printm (line '' PML4 at %p'') [Val (vmm_Pml4 (mem_of s) v)] s;
     s \<leftarrow> printm (line '' desc at %p'') [Val (vmm_Descriptor (mem_of s) v)] s;
     s \<leftarrow> printm (line ''VMM Desc:'') [] s;
     s \<leftarrow> printm (line '' VMM Descriptor at %p'') [Val (vmm_Descriptor (mem_of s) v)] s;
     a \<leftarrow> load64 (mm (sched s)) (vmm_Descriptor (mem_of s) v);
     s \<leftarrow> printm (line '' Start Addr:%p'') [Val a] s;
     b \<leftarrow> load64 (mm (sched s)) (vmm_Descriptor (mem_of s) v + 16);
     s \<leftarrow> printm (line '' Pagesize:%dB'') [Val b] s;
     s \<leftarrow> printm (line ''VMM_ERRORCODE:      %d'') [Val (of_int (VMM_ERRORCODE (mm (sched s))))] s;
     s \<leftarrow> printm (line ''Current VMM:        %p'') [Val (t_vmm (tcb (sched s) (current_thread (sched s))))] s;
     printm (line ''Allocated %d times'') [Val (ucast (vmm_AllocRecordNum (mem_of s) v))] s }"

definition cmd_acvmm :: "'d os \<Rightarrow> 'd os option" where
  "cmd_acvmm s = do {
     (virt, s) \<leftarrow> on_mm (\<lambda>m. Vmm_Malloc m 1024) s;
     (_, s) \<leftarrow> on_mm (\<lambda>m. map_option (\<lambda>p. ((), m\<lparr>ram := (ram m)(p := 97)\<rparr>)) (mmu_level 3 (ram m) (cr3 m) virt)) s;
     p \<leftarrow> mmu_level 3 (mem_of s) (cr3 (mm (sched s))) virt;
     s \<leftarrow> printm (line ''%c'') [Val (ucast (mem_of s p))] s;
     s \<leftarrow> printm (line ''%p'') [Val virt] s;
     (_, s) \<leftarrow> on_mm (\<lambda>m. map_option (Pair ()) (Vmm_Free m virt 1024)) s;
     Some s }"

section \<open>Threads\<close>

definition cmd_StartTest :: "'d env \<Rightarrow> 'd os \<Rightarrow> 'd os option" where
  "cmd_StartTest e s = do {
     (t, s) \<leftarrow> on_sched (\<lambda>k. CreateKernelThread (entry_of e ''thread_exit'') k (entry_of e ''thread_test'') 1024) s;
     Some (s\<lparr>test_thread := t\<rparr>) }"

definition cmd_KillTest :: "'d os \<Rightarrow> 'd os option" where
  "cmd_KillTest s = map_option (\<lambda>k. s\<lparr>sched := k\<rparr>) (KillThread (sched s) (test_thread s))"

text \<open>A thread in an address space of its own, with a stack from it.\<close>

definition cmd_uvmth :: "'d env \<Rightarrow> 'd os \<Rightarrow> 'd os option" where
  "cmd_uvmth e s = do {
     (vmm, s) \<leftarrow> on_mm (\<lambda>m. Init_Virtual_Memory_Manager m (PTE_PRESENT OR PTE_WRITABLE)) s;
     (old_vmm, s) \<leftarrow> on_mm (\<lambda>m. Some (Switch_Virtual_Mamanager m vmm)) s;
     (stk, s) \<leftarrow> on_mm (\<lambda>m. Vmm_Malloc m 4096) s;
     (_, s) \<leftarrow> on_mm (\<lambda>m. Some (Switch_Virtual_Mamanager m old_vmm)) s;
     s \<leftarrow> (if vmm = 0 then None
           else printm (line ''Stack(v) at %p,Stack(p) at %p'')
                  [Val stk, Val (virt_to_phys_on (mem_of s) (vmm_Pml4 (mem_of s) vmm) stk)] s);
     (_, s) \<leftarrow> on_sched (\<lambda>k. create_thread (entry_of e ''thread_exit'') k (entry_of e ''thread_uvmt'') stk 4096 True vmm) s;
     pausing e (delay_seconds (io e s) 1) s }"

definition cmd_uvltest :: "'d env \<Rightarrow> 'd os \<Rightarrow> 'd os option" where
  "cmd_uvltest e s = do {
     (t, s) \<leftarrow> on_sched (\<lambda>k. CreateUserThread (entry_of e ''thread_exit'') (entry_of e ''user_thread_bootstrap'') k
                           (entry_of e ''thread_usertest'') 4096) s;
     s \<leftarrow> pausing e (delay_ms (io e s) 2100) s;
     s \<leftarrow> (if t = 0 then None
           else printm (line ''[KERNEL]ID:%d,Stack at %p'') [Val (tid (tcb (sched s) t)), Val (stack (tcb (sched s) t))] s);
     pausing e (delay_ms (io e s) 1000) s }"

section \<open>Disks\<close>

definition ending_lba :: "u8 list \<Rightarrow> u64" where "ending_lba p = read_le64 p 0x28"
definition partition_name :: "u8 list \<Rightarrow> nat \<Rightarrow> u16" where "partition_name p i = read_le16 p (0x38 + 2 * i)"

fun show_name :: "u8 list \<Rightarrow> nat list \<Rightarrow> 'd os \<Rightarrow> 'd os option" where
  "show_name p [] s = Some s"
| "show_name p (i # is) s =
     (if partition_name p i = 0 then Some s
      else Option.bind (printm (bytes ''%c'') [Val (ucast (partition_name p i))] s) (show_name p is))"

definition find_on :: "'d env \<Rightarrow> ata_disk \<Rightarrow> u8 list \<Rightarrow> 'd os \<Rightarrow> ((int \<times> u8 list) \<times> 'd os) option" where
  "find_on e disk guid s =
     map_option (\<lambda>(st, p, d, m). ((st, p), s\<lparr>dev := d, sched := (sched s)\<lparr>mm := m\<rparr>\<rparr>))
       (FindPartition (ata_disk_io (io e s) (dk_channel disk)) (dk_master disk) guid (dev s) (mm (sched s)))"

definition cmd_findpart :: "'d env \<Rightarrow> 'd os \<Rightarrow> 'd os option" where
  "cmd_findpart e s = do {
     ((st, p), s) \<leftarrow> find_on e (FindFirstATADisk (gATAInfo s)) ESP_GUID s;
     if st = 0 then do {
       s \<leftarrow> printm (line ''Found ESP parttion:'') [] s;
       s \<leftarrow> printm (line ''Start:%d End:%d'' @ bytes ''Partition name:'') [Val (starting_lba p), Val (ending_lba p)] s;
       s \<leftarrow> show_name p [0..<36] s;
       s \<leftarrow> printm [10] [] s;
       printm (line ''Size:%d'') [Val (ending_lba p - starting_lba p)] s }
     else printm (line ''No ESP partition found:%d'') [Val (of_int st)] s }"

definition cmd_fat32info :: "'d env \<Rightarrow> 'd os \<Rightarrow> 'd os option" where
  "cmd_fat32info e s = do {
     let disk = FindFirstATADisk (gATAInfo s);
     ((st, p), s) \<leftarrow> find_on e disk ESP_GUID s;
     if st \<noteq> 0 then printm (line ''Find partition failed:%d'') [Val (of_int st)] s
     else do {
       ((st, info), s) \<leftarrow> reads (\<lambda>d. map_option (\<lambda>(st, info, d). ((st, info), d)) (FAT32_GetInfo (disk_of e s disk (starting_lba p)) d)) s;
       if st \<noteq> 0 then printm (line ''Get fat32 info failed:%d'') [Val (ucast st)] s
       else do {
         i \<leftarrow> info;
         s \<leftarrow> printm (line ''root_cluster:%d'') [Val (ucast (root_cluster i))] s;
         s \<leftarrow> printm (line ''FAT LBA:%d'') [Val (ucast (fat_region_lba i))] s;
         s \<leftarrow> printm (line ''Data LBA:%d'') [Val (ucast (data_region_lba i))] s;
         s \<leftarrow> printm (line ''Total Size:%dKB'') [Val (ucast (fi_total_sectors i * ucast (bytes_per_sector i) div 1024))] s;
         s \<leftarrow> printm (line ''Used Size:%dKB'')
               [Val (ucast ((fi_total_sectors i - free_clusters i * ucast (sectors_per_cluster i)) * 512 div 1024))] s;
         s \<leftarrow> printm (line ''VolumeLabel:%s'') [Text (volume_label i)] s;
         printm (line ''Volume ID:%X'') [Val (ucast (volume_id i))] s } } }"

section \<open>Files\<close>

definition test_txt :: "u8 list" where "test_txt = bytes ''/Test.txt''"

definition open_file :: "'d env \<Rightarrow> u8 list \<Rightarrow> int \<Rightarrow> 'd os \<Rightarrow> (file_t \<times> 'd os) option" where
  "open_file e path mode = on_fs e (\<lambda>S. OpenFile S path mode)"

definition date_values :: "u16 \<Rightarrow> arg list" where
  "date_values date = [Val (ucast (get_bits date 9 7) + 1980), Val (ucast (get_bits date 5 4)), Val (ucast (get_bits date 0 5))]"

definition cmd_readfile :: "'d env \<Rightarrow> 'd os \<Rightarrow> 'd os option" where
  "cmd_readfile e s = do {
     (file, s) \<leftarrow> open_file e test_txt FILE_READ s;
     (_, ent) \<leftarrow> f_entry file;
     name \<leftarrow> c_string ent;
     s \<leftarrow> printm (line ''Found file %s  Size:%d Bytes'') [Text name, Val (ucast (de_size ent))] s;
     let date = read_le16 ent 16;
     let clk = read_le16 ent 14;
     s \<leftarrow> printm (line ''Create:%d/%d/%d %d:%d:%d'')
           (date_values date @ [Val (ucast (get_bits clk 11 5)), Val (ucast (get_bits clk 5 6)), Val (ucast (get_bits clk 0 5) * 2)]) s;
     (buffer, s) \<leftarrow> take_pages 1 s;
     s \<leftarrow> read_into e file buffer s;
     text \<leftarrow> c_string (page_of_bytes buffer s);
     s \<leftarrow> printm text [] s;
     Some (give_pages buffer 1 s) }"

text \<open>What both test commands print of the file: the contents after a label, and the size.\<close>

definition show_file :: "string \<Rightarrow> addr \<Rightarrow> file_t \<Rightarrow> 'd os \<Rightarrow> 'd os option" where
  "show_file label buffer file s = do {
     s \<leftarrow> printm (line (label @ ''%s'')) [Text (page_of_bytes buffer s)] s;
     (_, ent) \<leftarrow> f_entry file;
     printm (line ''File Size:%dBytes'') [Val (ucast (de_size ent))] s }"

definition put_file ::
  "'d env \<Rightarrow> ('d fs \<Rightarrow> file_t \<Rightarrow> u8 list \<Rightarrow> u64 \<Rightarrow> (int \<times> file_t \<times> 'd fs) option) \<Rightarrow> file_t \<Rightarrow> u8 list \<Rightarrow> u64 \<Rightarrow> 'd os \<Rightarrow>
   (file_t \<times> 'd os) option" where
  "put_file e op file buf n = on_fs e (\<lambda>S. map_option (\<lambda>(_, file, S). (file, S)) (op S file buf n))"

definition cmd_writefile :: "'d env \<Rightarrow> 'd os \<Rightarrow> 'd os option" where
  "cmd_writefile e s = do {
     (file, s) \<leftarrow> open_file e test_txt (FILE_WRITE OR FILE_READ) s;
     (buffer, s) \<leftarrow> take_pages 1 s;
     s \<leftarrow> read_into e file buffer s;
     s \<leftarrow> show_file ''1: '' buffer file s;
     (file, s) \<leftarrow> put_file e WriteFile file (bytes ''ABCDE'') 5 s;
     (buffer2, s) \<leftarrow> take_pages 1 s;
     s \<leftarrow> read_into e file buffer2 s;
     s \<leftarrow> show_file ''2: '' buffer2 file s;
     let s = give_pages buffer2 1 s;
     let content = page_of_bytes buffer s;
     (_, s) \<leftarrow> put_file e WriteFile file content (of_nat (strlen content)) s;
     Some (give_pages buffer 1 s) }"

definition cmd_appendfile :: "'d env \<Rightarrow> 'd os \<Rightarrow> 'd os option" where
  "cmd_appendfile e s = do {
     (file, s) \<leftarrow> open_file e test_txt (FILE_WRITE OR FILE_READ) s;
     (buffer, s) \<leftarrow> take_pages 1 s;
     s \<leftarrow> read_into e file buffer s;
     s \<leftarrow> show_file ''1: '' buffer file s;
     (file, s) \<leftarrow> put_file e AppendFile file (bytes ''ABC'') 3 s;
     s \<leftarrow> read_into e file buffer s;
     s \<leftarrow> show_file ''2: '' buffer file s;
     Some (give_pages buffer 1 s) }"

section \<open>Directories\<close>

text \<open>The pages \<^verbatim>\<open>FAT32_ListDirectory\<close> takes for eight clusters of entries of 292 bytes.\<close>

definition list_pages :: "fat32_info \<Rightarrow> u32" where
  "list_pages info = (csize info div 32 * 8 * 292 + 4095) div 4096"

text \<open>The list, when it could be made, with its pages.\<close>

definition list_root :: "'d env \<Rightarrow> 'd os \<Rightarrow> (((u8 list \<times> u8 list) list option \<times> addr \<times> u32) \<times> 'd os) option" where
  "list_root e s = do {
     let n = list_pages (part_info s);
     (p, s) \<leftarrow> take_pages n s;
     (l, s) \<leftarrow> on_fs e (\<lambda>S. ListDirectory S [47]) s;
     if p = 0 \<and> l \<noteq> None \<and> l \<noteq> Some [] then None else Some ((l, p, n), s) }"

fun show_entries :: "(u8 list \<times> u8 list) list \<Rightarrow> 'd os \<Rightarrow> 'd os option" where
  "show_entries [] s = Some s"
| "show_entries ((ent, name) # xs) s =
     (let date = date_values (read_le16 ent 24); clk = read_le16 ent 22;
          time = [Val (ucast (get_bits clk 11 5)), Val (ucast (get_bits clk 5 6))]
      in Option.bind
           (if de_attr ent AND FAT32_ATTR_DIRECTORY \<noteq> 0
            then printm (line ''[DIR]  %s           %d/%d/%d %d:%d'') (Text name # date @ time) s
            else printm (line ''[FILE] %s  (%d KB)  %d/%d/%d %d:%d'') (Text name # Val (ucast ((de_size ent + 1023) div 1024)) # date @ time) s)
           (show_entries xs))"

text \<open>When the directory cannot be read the number of entries is a variable that was not set.\<close>

definition cmd_ls :: "'d env \<Rightarrow> 'd os \<Rightarrow> 'd os option" where
  "cmd_ls e s = do {
     ((l, p, n), s) \<leftarrow> list_root e s;
     entries \<leftarrow> l;
     s \<leftarrow> show_entries entries s;
     Some (give_pages p (if n < 1 then 1 else n) s) }"

definition cmd_rename :: "'d env \<Rightarrow> 'd os \<Rightarrow> 'd os option" where
  "cmd_rename e s = do {
     s \<leftarrow> cmd_ls e s;
     (_, s) \<leftarrow> on_fs e (\<lambda>S. RenameFile S test_txt (bytes ''ABC.TXT'')) s;
     s \<leftarrow> cmd_ls e s;
     (_, s) \<leftarrow> on_fs e (\<lambda>S. RenameFile S (bytes ''/ABC.TXT'') (bytes ''Test.txt'')) s;
     Some s }"

text \<open>Makes an entry, lists the directory and removes the entry again.\<close>

definition make_and_remove ::
  "'d env \<Rightarrow> ('d fs \<Rightarrow> (int \<times> 'd fs) option) \<Rightarrow> ('d fs \<Rightarrow> (int \<times> 'd fs) option) \<Rightarrow> 'd os \<Rightarrow> (int \<times> 'd os) option" where
  "make_and_remove e creates removes s = do {
     (st, s) \<leftarrow> on_fs e creates s;
     if st \<noteq> 0 then map_option (Pair 1) (printm (line ''Create failed:%d'') [Val (of_int st)] s)
     else do {
       s \<leftarrow> cmd_ls e s;
       (st, s) \<leftarrow> on_fs e removes s;
       ended (if st \<noteq> 0 then printm (line ''Remove failed:%d'') [Val (of_int st)] s else Some s) } }"

definition cmd_touch :: "'d env \<Rightarrow> 'd os \<Rightarrow> (int \<times> 'd os) option" where
  "cmd_touch e s = make_and_remove e (\<lambda>S. CreateFile (stamp e s) S (bytes ''/NewFile.txt'')) (\<lambda>S. DeleteFile S (bytes ''/NewFile.txt'')) s"

definition cmd_mkdir :: "'d env \<Rightarrow> 'd os \<Rightarrow> (int \<times> 'd os) option" where
  "cmd_mkdir e s = make_and_remove e (\<lambda>S. CreateDir (stamp e s) S (bytes ''/NewDir'')) (\<lambda>S. RemoveDir S (bytes ''/NewDir'')) s"

section \<open>Display\<close>

fun show_gpus :: "nat \<Rightarrow> gpu_device list \<Rightarrow> 'd os \<Rightarrow> 'd os option" where
  "show_gpus i [] s = Some s"
| "show_gpus i (g # gs) s = do {
     s \<leftarrow> printm (line ''GPU %d: %X:%X  Bus%d Dev%d Func%d'')
           [Val (of_nat i), Val (ucast (vendor_id g)), Val (ucast (device_id g)), Val (ucast (bus g)), Val (ucast (device g)), Val (ucast (func g))] s;
     s \<leftarrow> printm (line ''  BAR0: %X  IRQ: %d'') [Val (ucast (bar g ! 0 AND NOT 0xF)), Val (ucast (irq_line g))] s;
     show_gpus (i + 1) gs s }"

definition cmd_gpu :: "'d env \<Rightarrow> 'd os \<Rightarrow> (int \<times> 'd os) option" where
  "cmd_gpu e s = do {
     (gpus, s) \<leftarrow> reads (\<lambda>d. Some (pci_scan_gpu (io e s) 4 d)) s;
     if gpus = [] then map_option (Pair 1) (printm (line ''No GPU found'') [] s)
     else do {
       s \<leftarrow> show_gpus 0 gpus s;
       s \<leftarrow> printm (line ''Active driver: %s'') [Text (bytes (if bound s then drv_name (drv s) else ''none''))] s;
       i \<leftarrow> display_get_info s;
       ended (printm (line ''Current mode: %dx%d@%dbpp'') [Val (ucast (width i)), Val (ucast (height i)), Val (ucast (bpp i) * 8)] s) } }"

definition cmd_gpumode :: "'d env \<Rightarrow> 'd os \<Rightarrow> (int \<times> 'd os) option" where
  "cmd_gpumode e s =
     (if \<not> bound s \<or> drv_set_mode (drv s) = NO_MODE then map_option (Pair 1) (printm (line ''No GPU driver'') [] s)
      else do {
        s \<leftarrow> printm (line ''Switch to %dx%d...'') [Val 1920, Val 1080] s;
        (st, s) \<leftarrow> display_set_mode (io e s) 1920 1080 32 s;
        if st = 0 then do {
          s \<leftarrow> on_screen ClearScreen s;
          ended (printm (line ''Now %dx%d via %s'') [Val 1920, Val 1080, Text (bytes (drv_name (drv s)))] s) }
        else ended (printm (line ''Mode set failed'') [] s) })"

definition cmd_blit :: "'d os \<Rightarrow> 'd os option" where
  "cmd_blit s = do {
     i \<leftarrow> display_get_info s;
     let m = bochs_fill_rect i 20 20 60 60 COLOR_CYAN (mem_of s);
     let m = bochs_fill_rect i 80 40 40 80 COLOR_YELLOW m;
     m \<leftarrow> bochs_line i 20 20 120 120 COLOR_RED m;
     Some (with_screen (con s, bochs_blit i 20 20 250 20 100 100 m) s) }"

section \<open>The chain of comparisons\<close>

definition execute :: "'d env \<Rightarrow> u8 list \<Rightarrow> 'd os \<Rightarrow> (int \<times> 'd os) option" where
  "execute e cmd s =
     (if strcmp cmd (bytes ''clear'') = 0 then ended (cmd_clear s)
      else if strcmp cmd (bytes ''status'') = 0 then ended (cmd_status s)
      else if strcmp cmd (bytes ''shutdown'') = 0 then ended (cmd_shutdown e s)
      else if strcmp cmd (bytes ''reboot'') = 0 then ended (cmd_reboot e s)
      else if strcmp cmd (bytes ''time'') = 0 then ended (cmd_time e s)
      else if strcmp cmd (bytes ''clock'') = 0 then ended (cmd_clock e s)
      else if strcmp cmd (bytes ''UEFImd'') = 0 then ended (cmd_UEFImd s)
      else if strcmp cmd (bytes ''pmm'') = 0 then ended (cmd_pmm s)
      else if strcmp cmd (bytes ''acpmm'') = 0 then ended (cmd_acpmm s)
      else if strcmp cmd (bytes ''StartTest'') = 0 then ended (cmd_StartTest e s)
      else if strcmp cmd (bytes ''KillTest'') = 0 then ended (cmd_KillTest s)
      else if strcmp cmd (bytes ''ThreadLs'') = 0 then ended (PrintRunningThreads s)
      else if strcmp cmd (bytes ''vmm'') = 0 then ended (cmd_vmm s)
      else if strcmp cmd (bytes ''acvmm'') = 0 then ended (cmd_acvmm s)
      else if strcmp cmd (bytes ''uvmth'') = 0 then ended (cmd_uvmth e s)
      else if strcmp cmd (bytes ''uvltest'') = 0 then ended (cmd_uvltest e s)
      else if strcmp cmd (bytes ''disk'') = 0 then ended (ATAPrintInfo (gATAInfo s) s)
      else if strcmp cmd (bytes ''findpart'') = 0 then ended (cmd_findpart e s)
      else if strcmp cmd (bytes ''fat32info'') = 0 then ended (cmd_fat32info e s)
      else if strcmp cmd (bytes ''readfile'') = 0 then ended (cmd_readfile e s)
      else if strcmp cmd (bytes ''writefile'') = 0 then ended (cmd_writefile e s)
      else if strcmp cmd (bytes ''appendfile'') = 0 then ended (cmd_appendfile e s)
      else if strcmp cmd (bytes ''ls'') = 0 then ended (cmd_ls e s)
      else if strcmp cmd (bytes ''rename'') = 0 then ended (cmd_rename e s)
      else if strcmp cmd (bytes ''touch'') = 0 then cmd_touch e s
      else if strcmp cmd (bytes ''mkdir'') = 0 then cmd_mkdir e s
      else if strcmp cmd (bytes ''gpu'') = 0 then cmd_gpu e s
      else if strcmp cmd (bytes ''gpumode'') = 0 then cmd_gpumode e s
      else if strcmp cmd (bytes ''blit'') = 0 then ended (cmd_blit s)
      else ended (Some (prints (out_waring 0 (line ''Command not found'')) s)))"

section \<open>Which command a text means\<close>

text \<open>\<^verbatim>\<open>strcmp\<close> on a buffer looks at the text before the terminator only.\<close>

lemma strlen_terminated: "0 \<notin> set t \<Longrightarrow> strlen (t @ 0 # z) = length t"
  by (induction t) auto

lemma strcmp_terminated: "0 \<notin> set t \<Longrightarrow> strcmp (t @ 0 # z) w = strcmp t w"
  by (auto simp: strcmp_def Let_def strlen_terminated strlen_no_zero differ_iff nth_append)

definition command_table :: "'d env \<Rightarrow> 'd os \<Rightarrow> (u8 list \<times> (int \<times> 'd os) option) list" where
  "command_table e s = [
    (bytes ''clear'', ended (cmd_clear s)), (bytes ''status'', ended (cmd_status s)),
    (bytes ''shutdown'', ended (cmd_shutdown e s)), (bytes ''reboot'', ended (cmd_reboot e s)),
    (bytes ''time'', ended (cmd_time e s)), (bytes ''clock'', ended (cmd_clock e s)),
    (bytes ''UEFImd'', ended (cmd_UEFImd s)), (bytes ''pmm'', ended (cmd_pmm s)), (bytes ''acpmm'', ended (cmd_acpmm s)),
    (bytes ''StartTest'', ended (cmd_StartTest e s)), (bytes ''KillTest'', ended (cmd_KillTest s)),
    (bytes ''ThreadLs'', ended (PrintRunningThreads s)), (bytes ''vmm'', ended (cmd_vmm s)),
    (bytes ''acvmm'', ended (cmd_acvmm s)), (bytes ''uvmth'', ended (cmd_uvmth e s)),
    (bytes ''uvltest'', ended (cmd_uvltest e s)), (bytes ''disk'', ended (ATAPrintInfo (gATAInfo s) s)),
    (bytes ''findpart'', ended (cmd_findpart e s)), (bytes ''fat32info'', ended (cmd_fat32info e s)),
    (bytes ''readfile'', ended (cmd_readfile e s)), (bytes ''writefile'', ended (cmd_writefile e s)),
    (bytes ''appendfile'', ended (cmd_appendfile e s)), (bytes ''ls'', ended (cmd_ls e s)),
    (bytes ''rename'', ended (cmd_rename e s)), (bytes ''touch'', cmd_touch e s), (bytes ''mkdir'', cmd_mkdir e s),
    (bytes ''gpu'', cmd_gpu e s), (bytes ''gpumode'', cmd_gpumode e s), (bytes ''blit'', ended (cmd_blit s))]"

definition not_found :: "'d os \<Rightarrow> 'd os" where
  "not_found s = prints (out_waring 0 (line ''Command not found'')) s"

lemma inj_bytes: "inj bytes"
proof -
  have u: "unat (of_char c :: 8 word) = of_char c" for c :: char
  proof -
    have "unat (of_nat (of_char c) :: 8 word) = of_char c"
      using nat_of_char_less_256 [of c] unfolding unat_of_nat by simp
    then show ?thesis by (simp only: of_nat_of_char)
  qed
  have "inj (of_char :: char \<Rightarrow> 8 word)" by (rule injI) (metis u of_char_eq_iff)
  then show ?thesis unfolding bytes_def by (simp add: inj_map)
qed

definition command_names :: "string list" where
  "command_names = [''clear'', ''status'', ''shutdown'', ''reboot'', ''time'', ''clock'', ''UEFImd'', ''pmm'', ''acpmm'',
     ''StartTest'', ''KillTest'', ''ThreadLs'', ''vmm'', ''acvmm'', ''uvmth'', ''uvltest'', ''disk'', ''findpart'',
     ''fat32info'', ''readfile'', ''writefile'', ''appendfile'', ''ls'', ''rename'', ''touch'', ''mkdir'', ''gpu'',
     ''gpumode'', ''blit'']"

lemma distinct_names: "distinct (map bytes command_names)"
proof -
  have "distinct command_names" by (simp add: command_names_def)
  then show ?thesis unfolding distinct_map by (blast intro: inj_on_subset [OF inj_bytes])
qed

lemma table_names: "map fst (command_table e s) = map bytes command_names"
  by (simp only: command_table_def command_names_def list.map fst_conv)

lemma lookup_Cons:
  "(case map_of ((n, r) # xs) t of Some x \<Rightarrow> x | None \<Rightarrow> d) = (if t = n then r else case map_of xs t of Some x \<Rightarrow> x | None \<Rightarrow> d)"
  by simp

lemma lookup_Nil: "(case map_of [] t of Some x \<Rightarrow> x | None \<Rightarrow> d) = d"
  by simp

lemma execute_table:
  assumes "0 \<notin> set t"
  shows "execute e (t @ 0 # z) s = (case map_of (command_table e s) t of Some r \<Rightarrow> r | None \<Rightarrow> Some (0, not_found s))"
proof -
  have n: "list_all (\<lambda>n. list_all (\<lambda>c. c \<noteq> 0) (bytes n)) command_names" by code_simp
  have "list_all (\<lambda>n. (strcmp (t @ 0 # z) (bytes n) = 0) = (t = bytes n)) command_names"
    by (rule list.pred_mono_strong [OF n]) (use assms in \<open>auto simp: strcmp_terminated strcmp_zero list_all_iff\<close>)
  note c = this [unfolded command_names_def list.pred_inject]
  have w: "ended (Some (not_found s)) = Some (0, not_found s)" by (simp add: ended_def)
  show ?thesis
    unfolding execute_def command_table_def lookup_Cons lookup_Nil not_found_def [symmetric] w by (simp only: c)
qed

text \<open>C25: The chain of comparisons is a table: a text the user has typed runs the command of exactly that name, each name
  stands in the table once, and every other text gives a warning and changes nothing but the screen.\<close>

theorem execute_is_lookup:
  assumes "0 \<notin> set t"
  shows "execute e (t @ 0 # z) s = (case map_of (command_table e s) t of Some r \<Rightarrow> r | None \<Rightarrow> Some (0, not_found s)) \<and>
    distinct (map fst (command_table e s)) \<and> only_output s (not_found s)"
proof -
  have "only_output s (not_found s)" by (simp add: not_found_def message_output)
  then show ?thesis using execute_table [OF assms] distinct_names table_names by metis
qed

section \<open>The clock\<close>

text \<open>The clock looks at two keys in each turn, the first for a small letter and the second for a capital one.\<close>

definition clock_ends :: "u8 list \<Rightarrow> bool" where
  "clock_ends ks \<longleftrightarrow> (case ks of [] \<Rightarrow> False | k # ks' \<Rightarrow> k = 101 \<or> (ks' \<noteq> [] \<and> hd ks' = 69))"

definition clock_left :: "u8 list \<Rightarrow> u8 list" where
  "clock_left ks = (if ks \<noteq> [] \<and> hd ks = 101 then tl ks else drop 2 ks)"

lemma key_of_ring:
  assumes "ring_holds kb ks"
  shows "fst (GetKey_NoBlock kb) = (case ks of [] \<Rightarrow> 0 | k # _ \<Rightarrow> k) \<and> ring_holds (snd (GetKey_NoBlock kb)) (tl ks)"
proof (cases ks)
  case Nil
  then show ?thesis using assms by (simp add: GetKey_NoBlock_def ring_holds_def)
next
  case (Cons k ks')
  then have "kb_count kb \<noteq> 0" using assms by (simp add: ring_holds_def)
  then show ?thesis using kb.get_first [of kb k ks'] assms Cons by (simp add: GetKey_NoBlock_def)
qed

lemma screen_keeps_keys [simp]: "kbd (with_screen cm s) = kbd s"
  by (simp add: with_screen_def)

lemma face_keeps_keys: "clock_face e s = Some s' \<Longrightarrow> kbd s' = kbd s"
  by (auto simp: clock_face_def cmd_time_def on_screen_def reads_def printm_def bind_eq_Some_conv split: prod.splits)

text \<open>C23: The clock ends exactly when the first key that waits is \<^verbatim>\<open>e\<close> or the second is \<^verbatim>\<open>E\<close>: the keys it looked at
  are taken either way, so an \<^verbatim>\<open>E\<close> that comes alone, or an \<^verbatim>\<open>e\<close> that comes second, is lost.\<close>

theorem clock_takes_two_keys:
  assumes "clock_face e s = Some s'" "ring_holds (kbd s) ks"
  shows "\<exists>kb. ring_holds kb (clock_left ks) \<and>
    clock_turn e s = (if clock_ends ks then Some (True, s'\<lparr>kbd := kb\<rparr>)
      else map_option (\<lambda>s. (False, arrive e s)) (on_dev (delay_ms (io e s') 600) (s'\<lparr>kbd := kb\<rparr>)))"
proof -
  note k = face_keeps_keys [OF assms(1)]
  have d: "drop 2 ks = tl (tl ks)" by (simp add: drop_Suc numeral_2_eq_2)
  obtain a kb1 where a: "GetKey_NoBlock (kbd s') = (a, kb1)" by (cases "GetKey_NoBlock (kbd s')")
  obtain b kb2 where b: "GetKey_NoBlock kb1 = (b, kb2)" by (cases "GetKey_NoBlock kb1")
  have r1: "a = (case ks of [] \<Rightarrow> 0 | k # _ \<Rightarrow> k)" "ring_holds kb1 (tl ks)" using key_of_ring [OF assms(2)] a k by simp_all
  have r2: "b = (case tl ks of [] \<Rightarrow> 0 | k # _ \<Rightarrow> k)" "ring_holds kb2 (tl (tl ks))" using key_of_ring [OF r1(2)] b by simp_all
  have t: "clock_turn e s = (if a = 101 then Some (True, s'\<lparr>kbd := kb1\<rparr>) else if b = 69 then Some (True, s'\<lparr>kbd := kb2\<rparr>)
      else map_option (\<lambda>s. (False, arrive e s)) (on_dev (delay_ms (io e s') 600) (s'\<lparr>kbd := kb2\<rparr>)))"
    by (simp add: clock_turn_def assms(1) a b pausing_def map_conv_bind_option comp_def)
  show ?thesis
  proof (cases "a = 101")
    case True
    then show ?thesis using t r1 by (intro exI [of _ kb1]) (auto simp: clock_ends_def clock_left_def split: list.splits)
  next
    case False
    then show ?thesis using t r1 r2
      by (intro exI [of _ kb2]) (auto simp: clock_ends_def clock_left_def d split: list.splits)
  qed
qed

section \<open>Commands that only print\<close>

lemma info_formats:
  "fits_buffer (line ''Operating System:   %s'') [Some 5]" "fits_buffer (line ''CPU Frequency:      %u'') [None]"
  "fits_buffer (line ''Screen Size:        %dx%d'') [None, None]" "fits_buffer (line ''Fonts Addr:         %p'') [None]"
  "fits_buffer (line ''ACPI RSDP Addr:     %p'') [None]" "fits_buffer (line ''Total Memory:       %dMB'') [None]"
  "fits_buffer (line ''PML4:               %p'') [None]" "fits_buffer (line ''Total Memory: %dMB'') [None]"
  "fits_buffer (line ''%p'') [None]" "fits_buffer (line ''%d  %d'') [None, None]" "fits_buffer (line ''Total %dMB'') [None]"
  "fits_buffer (line ''%d: Addr:%p  Size:%dKB %s'') [None, None, None, Some 11]"
  by code_simp+

lemma status_report: "reports s (cmd_status s)"
  unfolding cmd_status_def
  by (intro reports_bind printm_reports [OF info_formats(1)] printm_reports [OF info_formats(2)] printm_reports [OF info_formats(3)]
      printm_reports [OF info_formats(4)] printm_reports [OF info_formats(5)] printm_reports [OF info_formats(6)]
      printm_reports [OF info_formats(7)]) (simp_all add: bytes_def OS_NAME_def)

lemma regions_report: "\<exists>n s'. show_regions as sz s = Some (n, s') \<and> only_output s s'"
proof (induction "as" arbitrary: sz s)
  case (Cons a "as")
  have "reports s (printm (line ''%d: Addr:%p  Size:%dKB %s'')
      [Val (of_nat a), Val (md_PhysicalStart (mem_of s) (md (mm (sched s)) a)), Val (md_PageSize (mem_of s) (md (mm (sched s)) a) * 4),
       Text (bytes (if md_Type (mem_of s) (md (mm (sched s)) a) = OS_AVAILABLE_MEMORY then ''AVAILABLE'' else ''UNAVAILABLE''))] s)"
    by (rule printm_reports [OF info_formats(12)]) (simp add: bytes_def)
  then obtain s1 where s1: "printm (line ''%d: Addr:%p  Size:%dKB %s'')
      [Val (of_nat a), Val (md_PhysicalStart (mem_of s) (md (mm (sched s)) a)), Val (md_PageSize (mem_of s) (md (mm (sched s)) a) * 4),
       Text (bytes (if md_Type (mem_of s) (md (mm (sched s)) a) = OS_AVAILABLE_MEMORY then ''AVAILABLE'' else ''UNAVAILABLE''))] s = Some s1"
    "only_output s s1" unfolding reports_def by blast
  obtain n s' where "show_regions as (sz + md_PageSize (mem_of s) (md (mm (sched s)) a) * 4) s1 = Some (n, s')" "only_output s1 s'"
    using Cons by blast
  then show ?case using s1 only_output_trans [OF s1(2)] by (auto simp: Let_def)
qed (simp add: only_output_refl)

lemma pmm_report: "reports s (cmd_pmm s)"
proof -
  have r: "reports s1 (do { (sz, s) \<leftarrow> show_regions as' 0 s1; printm (line ''Total %dMB'') [Val (sz div 1024)] s })" for s1 :: "'a os" and as'
  proof -
    obtain n s2 where s2: "show_regions as' 0 s1 = Some (n, s2)" "only_output s1 s2" using regions_report [of as' 0 s1] by blast
    then show ?thesis using reports_from [OF s2(2) printm_reports [OF info_formats(11)]] by simp
  qed
  show ?thesis unfolding cmd_pmm_def
    by (intro reports_bind r printm_reports [OF info_formats(9)] printm_reports [OF info_formats(10)]) simp_all
qed

lemma UEFImd_report: "reports s (cmd_UEFImd s)"
  unfolding cmd_UEFImd_def Let_def AnalysisMemoryMap_out_def prod.case
  by (intro reports_bind reports_if reports_Some printm_reports [OF info_formats(8)])
    (auto intro: reports_from [OF _ descriptor_report] only_output_trans message_output only_output_refl
      reports_from [OF _ reports_Some])

section \<open>Properties of the commands\<close>

lemma run_command:
  assumes "(bytes n, r) \<in> set (command_table e s)"
  shows "execute e (bytes n @ 0 # z) s = r"
proof -
  have "bytes n \<in> set (map fst (command_table e s))" using assms by force
  then have "n \<in> set command_names" unfolding table_names by (auto dest: injD [OF inj_bytes])
  moreover have "list_all (\<lambda>n. list_all (\<lambda>c. c \<noteq> 0) (bytes n)) command_names" by code_simp
  ultimately have "0 \<notin> set (bytes n)" by (auto simp: list_all_iff)
  moreover have "map_of (command_table e s) (bytes n) = Some r"
    using assms distinct_names table_names by (metis map_of_is_SomeI)
  ultimately show ?thesis by (simp add: execute_table)
qed

lemma table_entries:
  "(bytes ''status'', ended (cmd_status s)) \<in> set (command_table e s)"
  "(bytes ''UEFImd'', ended (cmd_UEFImd s)) \<in> set (command_table e s)"
  "(bytes ''pmm'', ended (cmd_pmm s)) \<in> set (command_table e s)"
  "(bytes ''ThreadLs'', ended (PrintRunningThreads s)) \<in> set (command_table e s)"
  "(bytes ''disk'', ended (ATAPrintInfo (gATAInfo s) s)) \<in> set (command_table e s)"
  "(bytes ''readfile'', ended (cmd_readfile e s)) \<in> set (command_table e s)"
  "(bytes ''writefile'', ended (cmd_writefile e s)) \<in> set (command_table e s)"
  "(bytes ''appendfile'', ended (cmd_appendfile e s)) \<in> set (command_table e s)"
  "(bytes ''clear'', ended (cmd_clear s)) \<in> set (command_table e s)"
  "(bytes ''shutdown'', ended (cmd_shutdown e s)) \<in> set (command_table e s)"
  "(bytes ''reboot'', ended (cmd_reboot e s)) \<in> set (command_table e s)"
  "(bytes ''clock'', ended (cmd_clock e s)) \<in> set (command_table e s)"
  "(bytes ''gpu'', cmd_gpu e s) \<in> set (command_table e s)"
  "(bytes ''blit'', ended (cmd_blit s)) \<in> set (command_table e s)"
  unfolding command_table_def list.set by (intro insertI1 insertI2)+

lemmas run_entry = table_entries [THEN run_command]

text \<open>The commands that look at the system change nothing but the picture: they return 0 for every state of the memory,
  the threads and the disks, and only the frame buffer and the cursor differ afterwards.\<close>

theorem inspection_only_draws:
  assumes "t \<in> {''status'', ''UEFImd'', ''pmm'', ''ThreadLs'', ''disk''}"
    and "\<forall>dr \<in> set (drives (gATAInfo s)). length (model dr) \<le> 41 \<and> length (serial dr) \<le> 21"
  shows "\<exists>s'. execute e (bytes t @ 0 # z) s = Some (0, s') \<and> only_output s s'"
proof -
  have "\<exists>r. execute e (bytes t @ 0 # z) s = ended r \<and> reports s r"
    using assms(1) status_report [of s] UEFImd_report [of s] pmm_report [of s] threads_report [of s] disks_report [OF assms(2), of s]
      run_entry(1-5) by blast
  then show ?thesis by (auto simp: reports_def ended_def)
qed

text \<open>A machine whose ports always read 1: a disk that reports an error, a clock that stands still.\<close>

definition dull_ports :: "unit hw" where
  "dull_ports = \<lparr>inb = (\<lambda>p d. (1, d)), inw = (\<lambda>p d. (1, d)), inl = (\<lambda>p d. (1, d)), outb = (\<lambda>p v d. d), outw = (\<lambda>p v d. d),
     outl = (\<lambda>p v d. d), rdtsc = (\<lambda>d. (0, d)), SYSTEM_CPU_Frequency = 0\<rparr>"

definition dull_env :: "unit env" where
  "dull_env = \<lparr>ports = dull_ports, entry_of = (\<lambda>_. 0), stamp = (\<lambda>_. \<lparr>second = 0, minute = 0, hour = 0, day = 0, month = 0, year = 0\<rparr>),
     arrive = (\<lambda>s. s)\<rparr>"

definition dull_os :: "unit os" where
  "dull_os = \<lparr>sched = demo_table, con = demo_console\<lparr>g_display_driver := Some (\<lparr>framebuffer = 0, width = 0, height = 0, pitch = 0, bpp = 4\<rparr>, True)\<rparr>,
     dev = (), drv = \<lparr>drv_name = '''', drv_init = NO_INIT, drv_set_mode = MODE_BOCHS, drv_hw = undefined,
        drv_info = \<lparr>framebuffer = 0, width = 0, height = 0, pitch = 0, bpp = 4\<rparr>\<rparr>, bound = True, g_svga_io_base = 0,
     kbd = kb_put demo_keyboard 69, tables = \<lparr>SYSTEM_RSDP_ADDR = 0, SYSTEM_XSDT_ADDR = 0, SYSTEM_FADT_ADDR = 0\<rparr>,
     gATAInfo = \<lparr>drives = replicate 4 no_drive, drive_count = 0\<rparr>, part_disk = disk_zero, part_start = 0, part_info = demo_info,
     cpu_frequency = 0, test_thread = 0\<rparr>"

lemma inspection_only_draws_witness:
  "\<exists>s'. execute dull_env (bytes ''status'' @ [0]) dull_os = Some (0, s') \<and> only_output dull_os s'"
  by (rule inspection_only_draws) (simp_all add: dull_os_def no_drive_def)

lemma execute_is_lookup_witness:
  "execute dull_env (bytes ''ls'' @ [0]) dull_os = ended (cmd_ls dull_env dull_os)"
  using execute_is_lookup [of "bytes ''ls''" dull_env "[]" dull_os] by (simp add: command_table_def bytes_def)

lemma dull_io: "io dull_env s = dull_ports\<lparr>SYSTEM_CPU_Frequency := cpu_frequency s\<rparr>"
  by (simp add: io_def dull_env_def)

lemma dull_time: "\<exists>t. get_rtc_time (io dull_env s) d = Some (t, d)"
  unfolding get_rtc_time_def dull_io
  by (subst rtc_wait.simps) (simp add: rtc_updating_def cmos_read_def dull_ports_def Let_def)

lemma time_report:
  assumes "get_rtc_time (io e s) (dev s) = Some (t, d)"
  shows "\<exists>s'. cmd_time e s = Some s'"
proof -
  have "fits_buffer (line ''20%d/%d/%d'' @ line ''%d:%d:%d'') [None, None, None, None, None, None]" by code_simp
  then have "reports (s\<lparr>dev := d\<rparr>) (printm (line ''20%d/%d/%d'' @ line ''%d:%d:%d'') (time_values t) (s\<lparr>dev := d\<rparr>))"
    by (rule printm_reports) (simp add: time_values_def)
  then show ?thesis by (auto simp: cmd_time_def reads_def assms reports_def)
qed

lemma clock_takes_two_keys_witness:
  "\<exists>s' kb. ring_holds (kbd dull_os) [69] \<and> ring_holds kb [] \<and>
     clock_turn dull_env dull_os = map_option (\<lambda>s. (False, s)) (on_dev (delay_ms (io dull_env s') 600) (s'\<lparr>kbd := kb\<rparr>))"
proof -
  have k: "ring_holds (kbd dull_os) [69]"
    using kb.put_room [OF demo_keyboard, of 69] by (simp add: dull_os_def KEYBOARD_BUFFER_SIZE_def)
  obtain s1 where s1: "on_screen (\<lambda>(c, m). map_option (\<lambda>m. (c\<lparr>PrintLine := 2, PrintRow := 2\<rparr>, m))
      (fillRect c 0 0 (ScreenWidth c) (ScreenHeigth c) COLOR_GREY m)) dull_os = Some s1"
    by (simp add: on_screen_def fillRect_def dull_os_def)
  obtain s' where s': "clock_face dull_env dull_os = Some s'"
    using time_report dull_time by (fastforce simp: clock_face_def s1)
  show ?thesis
    using clock_takes_two_keys [OF s' k] k by (auto simp: clock_ends_def clock_left_def dull_env_def)
qed

text \<open>The commands on the test file follow its entry without a look at whether there is one: when the file is not on the
  partition, reading, overwriting and appending all end in the use of a null pointer.\<close>

theorem missing_file_commands:
  assumes "\<And>mode. \<exists>s'. open_file e test_txt mode s = Some (no_file, s')"
    and "t \<in> {''readfile'', ''writefile'', ''appendfile''}"
  shows "execute e (bytes t @ 0 # z) s = None"
proof -
  have show_none: "show_file l b no_file s1 = None" for l b s1 by (cases "printm (line (l @ ''%s'')) [Text (page_of_bytes b s1)] s1")
    (simp_all add: show_file_def no_file_def)
  obtain s1 s2 where o: "open_file e test_txt FILE_READ s = Some (no_file, s1)" "open_file e test_txt (FILE_WRITE OR FILE_READ) s = Some (no_file, s2)"
    using assms(1) by blast
  have "cmd_readfile e s = None" "cmd_writefile e s = None" "cmd_appendfile e s = None"
    by (simp_all add: cmd_readfile_def cmd_writefile_def cmd_appendfile_def o show_none)
      (simp_all add: no_file_def Option.bind_eq_None_conv)
  then show ?thesis using assms(2) run_entry(6-8) [of e z s] by (auto simp: ended_def)
qed

lemma dull_simps [simp]:
  "rdtsc (io dull_env s) d = (0, d)" "inb (io dull_env s) p d = (1, d)" "outb (io dull_env s) p v d = d"
  "SYSTEM_CPU_Frequency (io dull_env s) = cpu_frequency s"
  by (simp_all add: dull_io dull_ports_def)

lemma dull_read:
  assumes "0 < n" "cpu_frequency s = 0"
  shows "\<exists>r b. ATA_Read (io dull_env s) ch m lba n buf () = Some (r, b, ()) \<and> r < 0"
proof -
  have "busy_loop (io dull_env s) ch c t () = Some (0, ())" for c t by (subst busy_loop.simps) (simp add: ATA_SR_BSY_def)
  then have b: "ATA_Wait_Busy (io dull_env s) ch t () = Some (0, ())" for t by (simp add: ATA_Wait_Busy_def)
  have "delay_loop (io dull_env s) 0 0 () = Some ()" by (subst delay_loop.simps) simp
  then have dl: "delay_ms (io dull_env s) 1 () = Some ()" by (simp add: delay_ms_def assms(2))
  obtain k where k: "unat n = Suc k" using assms(1) by (metis gr0_conv_Suc unat_gt_0 word_gt_0)
  have r: "Read_Sector (io dull_env s) ch n buf () = Some (-10, buf, ())"
    by (simp add: Read_Sector_def k b ATA_SR_ERR_def)
  have c: "\<exists>r. lba28_cmd (io dull_env s) ch m c l n () = Some (r, ()) \<and> r \<le> 0" "\<exists>r. lba48_cmd (io dull_env s) ch m c l' n () = Some (r, ()) \<and> r \<le> 0"
    for c l l' by (simp_all add: lba28_cmd_def lba48_cmd_def dl b Let_def)
  show ?thesis
  proof (cases "use_lba28 lba n")
    case True
    obtain r1 where "lba28_cmd (io dull_env s) ch m 0x20 (ucast lba) n () = Some (r1, ())" "r1 \<le> 0" using c(1) by blast
    then show ?thesis using True r by (cases "r1 = 0") (simp_all add: ATA_Read_def ATA_Read_LBA28_cmd_def)
  next
    case False
    obtain r1 where "lba48_cmd (io dull_env s) ch m 0x24 lba n () = Some (r1, ())" "r1 \<le> 0" using c(2) by blast
    then show ?thesis using False r by (cases "r1 = 0") (simp_all add: ATA_Read_def ATA_Read_LBA48_cmd_def)
  qed
qed

lemma dull_missing: "\<exists>s'. open_file dull_env test_txt mode dull_os = Some (no_file, s')"
proof -
  let ?S = "as_fs dull_env dull_os"
  have v: "d_read (fs_vol ?S) = ATA_Read (io dull_env dull_os) (dk_channel disk_zero)" "fs_info ?S = demo_info"
    by (simp_all add: as_fs_def disk_of_def ata_disk_io_def disk_io.defs volume.defs dull_os_def)
  have f0: "cpu_frequency dull_os = 0" by (simp add: dull_os_def)
  have n: "0 < (ucast (sectors_per_cluster demo_info) :: u16)" by (simp add: demo_info_def)
  have dv: "fs_dev ?S = ()" by simp
  have f: "\<exists>b. FAT32_FindEntryAny (fs_vol ?S) demo_info cur name () = Some (2, b, ())" for cur name
  proof -
    obtain r b where "d_read (fs_vol ?S) (v_master (fs_vol ?S)) (v_start (fs_vol ?S) + FAT32_ClusterToLBA demo_info cur)
        (ucast (sectors_per_cluster demo_info)) (replicate (cluster_size demo_info) 0) () = Some (r, b, ())" "r < 0"
      using dull_read [OF n f0] unfolding v(1) by blast
    then show ?thesis unfolding FAT32_FindEntryAny_def by (subst find_any_loop.simps) (simp add: FAT32_ReadCluster_def)
  qed
  have p: "test_txt = 47 # 84 # [101, 115, 116, 46, 116, 120, 116]" by (simp add: test_txt_def bytes_def)
  have "\<exists>S'. OpenFile ?S test_txt mode = Some (no_file, S')"
    using f [of "root_cluster demo_info" "take (FAT32_MAX_NAME - 1) (84 # [101, 115, 116, 46, 116, 120, 116])"]
    by (auto simp: OpenFile_def p v(2) Let_def)
  then show ?thesis by (auto simp: open_file_def on_fs_def)
qed

lemma missing_file_commands_witness: "execute dull_env (bytes ''readfile'' @ [0]) dull_os = None"
  by (rule missing_file_commands [OF dull_missing]) simp

end
