(* ===== verification/Startup.thy ===== *)
theory Startup
  imports Boot Fault Commands
begin

text \<open>
  The start of the kernel, \<^verbatim>\<open>KernelStart\<close>, \<^verbatim>\<open>InitSystem\<close> and \<^verbatim>\<open>InitConsole\<close> of
  \<^verbatim>\<open>Kernel/kernel/kernel.c\<close>, up to the loop of the shell.  \<open>None\<close> is a fault or a wait without an end;
  the kernel that stops itself is a result of its own.
\<close>

unbundle bit_operations_syntax

section \<open>State\<close>

text \<open>What the start sets up besides the state of the commands: the data of the loader, the serial line, the tables of
  the processor and its registers.\<close>

record 'd startup =
  sys :: "'d os"
  boot_share :: "SHARE_KERNEL option"
  serial_ready :: bool
  idt_table :: "nat \<Rightarrow> gate"
  idt_register :: "u16 \<times> u32 \<times> u32"
  descriptor_tables :: segments
  msrs :: "(u32 \<times> u64) list"
  UEFI_CS :: u16
  UEFI_DS :: u16

record boot_cpu =
  cs_reg :: u16
  ds_reg :: u16
  cr3_reg :: addr
  cr4_reg :: u64
  efer_reg :: u64

definition COLOR_BLACK :: u32 where "COLOR_BLACK = 0xFF000000"
definition PTE_GLOBAL :: u64 where "PTE_GLOBAL = 0x100"

text \<open>The global variables after the loop over the uninitialised section; the memory is what the loader leaves.\<close>

definition zero_gate :: gate where
  "zero_gate = \<lparr>offset_1 = 0, g_selector = 0, ist = 0, type_attributes = 0, offset_2 = 0, offset_3 = 0, g_reserved = 0\<rparr>"

definition zero_mm :: "mem \<Rightarrow> addr \<Rightarrow> mm_state" where
  "zero_mm m c = \<lparr>ram = m, MemDescAddr = 0, MemDescNum = 0,
     SYSTEM_MemoryMap = \<lparr>MapSize = 0, DescriptorSize = 0, DescriptorVersion = 0, StackAddr = 0, Buffer = 0, OsDescAddr = 0\<rparr>,
     cr3 = c, UEFI_PML4 = 0, Current_VMM_Desc = 0, VMM_ERRORCODE = 0\<rparr>"

definition zero_sched :: "mm_state \<Rightarrow> sched" where
  "zero_sched s = \<lparr>tcb = (\<lambda>_. zero_thread), current_thread = 0, next_thread_id = 0, next_TORT_Position = 0,
     free_tcb_list = replicate FREE_TCB_LIST_SIZE 0, num_of_FreeTCB = 0, TORT = replicate TORT_SIZE 0,
     sleep_queue_head = 0, sleep_queue_tail = 0, ready_queue_head = 0, ready_queue_tail = 0, schedule_prev_thread = 0,
     SYSTEM_KernelThread = 0, SYSTEM_TimerTicks = 0, KernelPML4 = 0, tss_rsp0 = 0, syscall_kernel_rsp = 0,
     interrupts = False, mm = s\<rparr>"

definition zero_gpu :: gpu_device where
  "zero_gpu = \<lparr>bus = 0, device = 0, func = 0, vendor_id = 0, device_id = 0, class_code = 0, sub_class = 0, prog_if = 0,
     revision = 0, bar = replicate 6 0, irq_line = 0, gpu_type = 0, capabilities = 0, vbe_version = 0\<rparr>"

definition zero_info :: fat32_info where
  "zero_info = \<lparr>bytes_per_sector = 0, sectors_per_cluster = 0, reserved_sectors = 0, num_fats = 0, sectors_per_fat = 0,
     root_cluster = 0, fsinfo_sector = 0, backup_boot_sector = 0, fat_region_lba = 0, data_region_lba = 0,
     fi_total_sectors = 0, total_clusters = 0, free_clusters = 0, next_free_cluster = 0, volume_label = replicate 12 0, volume_id = 0\<rparr>"

definition cleared :: "boot_cpu \<Rightarrow> mem \<Rightarrow> 'd \<Rightarrow> 'd startup" where
  "cleared c m d = \<lparr>sys = \<lparr>sched = zero_sched (zero_mm m (cr3_reg c)),
       con = \<lparr>FrameBuffer = 0, ScreenWidth = 0, ScreenHeigth = 0, PrintLine = 0, PrintRow = 0, TextColor = 0, BgColor = 0,
              font_data = 0, g_display_driver = None\<rparr>, dev = d,
       drv = \<lparr>drv_name = '''', drv_init = NO_INIT, drv_set_mode = NO_MODE, drv_hw = zero_gpu,
              drv_info = \<lparr>framebuffer = 0, width = 0, height = 0, pitch = 0, bpp = 0\<rparr>\<rparr>,
       bound = False, g_svga_io_base = 0,
       kbd = \<lparr>kb_buffer = replicate KEYBOARD_BUFFER_SIZE 0, write_index = 0, read_index = 0, kb_count = 0\<rparr>,
       tables = \<lparr>SYSTEM_RSDP_ADDR = 0, SYSTEM_XSDT_ADDR = 0, SYSTEM_FADT_ADDR = 0\<rparr>,
       gATAInfo = \<lparr>drives = replicate 4 no_drive, drive_count = 0\<rparr>, part_disk = disk_zero, part_start = 0, part_info = zero_info,
       cpu_frequency = 0, test_thread = 0\<rparr>,
     boot_share = None, serial_ready = False, idt_table = (\<lambda>_. zero_gate), idt_register = (0, 0, 0),
     descriptor_tables = \<lparr>gdt_bytes = replicate 56 0, tss_storage = replicate 104 0\<rparr>, msrs = [], UEFI_CS = 0, UEFI_DS = 0\<rparr>"

section \<open>The steps of InitSystem\<close>

text \<open>The state of the console and the address space the loader left.\<close>

definition init_globals :: "'d os \<Rightarrow> 'd os" where
  "init_globals s =
     s\<lparr>con := (con s)\<lparr>PrintLine := 0, PrintRow := 0, TextColor := COLOR_WHITE, BgColor := COLOR_BLACK\<rparr>,
       sched := (sched s)\<lparr>mm := (mm (sched s))\<lparr>UEFI_PML4 := cr3 (mm (sched s))\<rparr>\<rparr>\<rparr>"

text \<open>From the serial line to the interrupts.\<close>

definition set_up_processor :: "'d env \<Rightarrow> boot_cpu \<Rightarrow> 'd startup \<Rightarrow> 'd startup" where
  "set_up_processor e c st =
     (let s = sys st;
          (_, ready, d) = serial_init (io e s) SERIAL_COM1_PORT (serial_ready st) (dev s);
          segs = gdt_init (entry_of e ''tss'');
          regs = init_syscall_msrs (efer_reg c) (entry_of e ''syscall_entry'') (entry_of e ''syscall_cpu'');
          (idt, idtr, s) = Init_Interrupt (io e s) (ucast KERNEL_CS) (entry_of e) (entry_of e ''idt_table'') (idt_table st, s\<lparr>dev := d\<rparr>)
      in st\<lparr>sys := prints (out_ok 0 (line ''INT initialization successful'') 0) s, serial_ready := ready,
            descriptor_tables := segs, msrs := regs, UEFI_CS := ucast KERNEL_CS, UEFI_DS := ucast KERNEL_DS,
            idt_table := idt, idt_register := idtr\<rparr>)"

definition init_processor :: "'d env \<Rightarrow> boot_cpu \<Rightarrow> addr \<Rightarrow> 'd startup \<Rightarrow> bool \<times> 'd startup" where
  "init_processor e c root st =
     (let s = init_globals (sys st);
          st = st\<lparr>UEFI_CS := cs_reg c, UEFI_DS := ds_reg c\<rparr>;
          (found, t) = init_ACPI (mem_of s) root (tables s);
          s = s\<lparr>tables := t\<rparr>
      in if \<not> found then (False, st\<lparr>sys := prints (out_error 0 (line ''ACPI initialization failed'')) s\<rparr>)
         else (True, set_up_processor e c (st\<lparr>sys := prints (out_ok 0 (line ''ACPI initialization successful'') 0) s\<rparr>)))"

text \<open>Pages, the address space of the kernel and its threads.\<close>

definition init_memory :: "'d env \<Rightarrow> 'd os \<Rightarrow> (bool \<times> 'd os) option" where
  "init_memory e s = do {
     (st, s) \<leftarrow> on_mm (\<lambda>m. Some (Init_Physical_Memory_Manager m)) s;
     if st \<noteq> 0 then Some (False, prints (out_error 0 (line ''Physical Memory Manager initialization failed'')) s)
     else do {
       (table, s) \<leftarrow> on_mm (\<lambda>m. Init_Virtual_Memory_Manager m (PTE_PRESENT OR PTE_WRITABLE OR PTE_GLOBAL)) s;
       (_, s) \<leftarrow> on_mm (\<lambda>m. Some (Switch_Virtual_Mamanager m table)) s;
       let s = s\<lparr>sched := (sched s)\<lparr>KernelPML4 := cr3 (mm (sched s))\<rparr>\<rparr>;
       (_, s) \<leftarrow> on_sched (\<lambda>k. init_multitasking (entry_of e ''thread_exit'') k (entry_of e ''idle_thread'')) s;
       Some (True, s) } }"

text \<open>The first IDE controller among the first eight controllers for mass storage starts the search for drives.\<close>

definition PCI_SUBCLASS_IDE :: u8 where "PCI_SUBCLASS_IDE = 1"

definition init_drives :: "'d env \<Rightarrow> 'd os \<Rightarrow> 'd os option" where
  "init_drives e s = do {
     (devs, s) \<leftarrow> reads (\<lambda>d. Some (pci_find_storage_controllers (io e s) 8 d)) s;
     if \<exists>p \<in> set devs. class_code p = PCI_CLASS_MASS_STORAGE \<and> sub_class p = PCI_SUBCLASS_IDE
     then do { (info, s) \<leftarrow> reads (ata_scan_all (io e s)) s; Some (s\<lparr>gATAInfo := info\<rparr>) }
     else Some s }"

definition init_files :: "'d env \<Rightarrow> 'd os \<Rightarrow> 'd os option" where
  "init_files e s = do {
     ((st, first), s) \<leftarrow> on_fs e (\<lambda>S. map_option (\<lambda>(st, S). ((st, v_start (fs_vol S)), S))
         (InitFileSystem (ata_disk_io (io e s)) (gATAInfo s) ESP_GUID S)) s;
     Some (if st = 0
           then prints (out_ok 0 (line ''FS initialization successful'') 0)
                  (s\<lparr>part_disk := FindFirstATADisk (gATAInfo s), part_start := first\<rparr>)
           else s) }"

definition init_display :: "'d env \<Rightarrow> 'd os \<Rightarrow> 'd os option" where
  "init_display e s =
     (let (st, s) = display_probe (io e s) s
      in if st = 0 \<and> bound s
         then do {
           let s = prints (out_ok 0 (bytes ''Display driver: '') 0) s;
           s \<leftarrow> printm (line ''%s'') [Text (bytes (drv_name (drv s)))] s;
           map_option snd (display_set_mode (io e s) 1280 720 32 s) }
         else Some (prints (out_waring 0 (line ''No GPU driver found, using UEFI FB'')) s))"

text \<open>The frequency is measured, the bytes of the keyboard buffer are cleared, the serial line reports.\<close>

definition init_rest :: "'d env \<Rightarrow> bool \<Rightarrow> 'd os \<Rightarrow> 'd os option" where
  "init_rest e ready s = do {
     (f, s) \<leftarrow> reads (Get_CPU_Frequency (io e s)) s;
     let s = (if f \<noteq> 0 then s\<lparr>cpu_frequency := f\<rparr> else s);
     let s = s\<lparr>kbd := (kbd s)\<lparr>kb_buffer := replicate KEYBOARD_BUFFER_SIZE 0\<rparr>\<rparr>;
     on_dev (serial_putstr (io e s) ready SERIAL_COM1_PORT (line ''[OK]OS003 Kernel is running'')) s }"

definition InitSystem :: "'d env \<Rightarrow> boot_cpu \<Rightarrow> addr \<Rightarrow> 'd startup \<Rightarrow> (bool \<times> 'd startup) option" where
  "InitSystem e c root st =
     (let (good, st) = init_processor e c root st
      in if \<not> good then Some (False, st)
         else do {
           (good, s) \<leftarrow> init_memory e (sys st);
           if \<not> good then Some (False, st\<lparr>sys := s\<rparr>)
           else do {
             s \<leftarrow> init_drives e s;
             s \<leftarrow> init_files e s;
             s \<leftarrow> init_display e s;
             s \<leftarrow> init_rest e (serial_ready st) s;
             Some (True, st\<lparr>sys := s\<rparr>) } })"

section \<open>The console and the kernel\<close>

definition prompt :: "'d os \<Rightarrow> 'd os" where
  "prompt s = prints (print 0 (bytes ''Shell>'') 0xFFAAAAAA) s"

definition InitConsole :: "'d env \<Rightarrow> u32 \<Rightarrow> u32 \<Rightarrow> 'd os \<Rightarrow> 'd os option" where
  "InitConsole e text back s = do {
     s \<leftarrow> on_screen ClearScreen (s\<lparr>con := (con s)\<lparr>TextColor := text, BgColor := back\<rparr>\<rparr>);
     let s = prints (out_ok 0 (line ''OS003 Kernel is running:'') 0) s;
     (t, s) \<leftarrow> reads (get_rtc_time (io e s)) s;
     s \<leftarrow> printm (line ''  20%d/%d/%d'' @ line ''  %d:%d:%d'') (time_values t) s;
     s \<leftarrow> printm (line ''OS003 Shell'') [] s;
     Some (prompt s) }"

text \<open>The features of \<^verbatim>\<open>cr4\<close> that would keep the kernel from user pages are switched off.\<close>

definition without_smep_smap :: "u64 \<Rightarrow> u64" where
  "without_smep_smap cr4 = cr4 AND NOT (push_bit 20 1 OR push_bit 21 1)"

datatype 'd kernel_state = Stopped "'d startup" | Shell_ready "'d startup"

text \<open>The new \<^verbatim>\<open>cr4\<close>, and where the kernel is before its loop or in \<^verbatim>\<open>SYSTEM_STOP\<close>.\<close>

definition KernelStart :: "'d env \<Rightarrow> boot_cpu \<Rightarrow> SHARE_KERNEL option \<Rightarrow> mem \<Rightarrow> 'd \<Rightarrow> (u64 \<times> 'd kernel_state) option" where
  "KernelStart e c BootShare m d =
     (let st = cleared c m d;
          cr4 = without_smep_smap (cr4_reg c);
          (good, g) = LoadBootShare BootShare \<lparr>bg_console = con (sys st), SYSTEM_BootShare = None, bg_CPU_Frequency = 0, bg_MemoryMap = None\<rparr>
      in if \<not> good then Some (cr4, Stopped st)
         else do {
           share \<leftarrow> SYSTEM_BootShare g;
           mmap \<leftarrow> bg_MemoryMap g;
           let s = (sys st)\<lparr>con := bg_console g, cpu_frequency := bg_CPU_Frequency g,
                     sched := (sched (sys st))\<lparr>mm := (mm (sched (sys st)))\<lparr>SYSTEM_MemoryMap := mmap\<rparr>\<rparr>\<rparr>;
           (good, st) \<leftarrow> InitSystem e c (RSDP share) (st\<lparr>sys := s, boot_share := Some share\<rparr>);
           if \<not> good then Some (cr4, Stopped st)
           else do { s \<leftarrow> InitConsole e COLOR_WHITE COLOR_BLACK (sys st); Some (cr4, Shell_ready (st\<lparr>sys := s\<rparr>)) } })"

section \<open>The processor is ready before there are threads\<close>

definition no_threads :: "sched \<Rightarrow> bool" where
  "no_threads k \<longleftrightarrow> current_thread k = 0 \<and> SYSTEM_KernelThread k = 0 \<and> ready_queue_head k = 0 \<and> sleep_queue_head k = 0"

lemma idle_schedule: "no_threads k \<Longrightarrow> schedule_select k = Some (None, k)"
  by (simp add: schedule_select_def schedule_put_back_def wake_sleeping_threads_def no_threads_def thread_dequeue_def wake_loop.simps Let_def)

lemma output_frame:
  assumes "only_output s s'"
  shows "dev s' = dev s" "no_threads (sched s') = no_threads (sched s)" "interrupts (sched s') = interrupts (sched s)"
    "layout (con s') = layout (con s)" "only_frame (con s) (mem_of s) (mem_of s')"
proof -
  obtain m where m: "sched s' = (sched s)\<lparr>mm := (mm (sched s))\<lparr>ram := m\<rparr>\<rparr>" "dev s' = dev s" "layout (con s') = layout (con s)"
    using only_output_sched [OF assms] by metis
  then show "dev s' = dev s" "layout (con s') = layout (con s)" by simp_all
  show "no_threads (sched s') = no_threads (sched s)" "interrupts (sched s') = interrupts (sched s)"
    unfolding m(1) by (simp_all add: no_threads_def)
  show "only_frame (con s) (mem_of s) (mem_of s')" using assms by (simp add: only_output_def draws_def)
qed

lemma irq_table:
  "gate_target (set_irq c fn (Init_IDT c fn idt) 32) = fn ''irq_handler_0''"
  "(n, h) \<in> set exception_entries \<Longrightarrow> gate_target (set_irq c fn (Init_IDT c fn idt) n) = fn h"
proof -
  have o: "k \<noteq> n \<Longrightarrow> set_intr_gate c t k a ty n = t n" for t k a ty n by (simp add: set_intr_gate_def)
  show "gate_target (set_irq c fn (Init_IDT c fn idt) 32) = fn ''irq_handler_0''"
    unfolding set_irq_def set_irq_gate_def IRQ_PIC_START_def using gate_target_set [of c "Init_IDT c fn idt" 32] by (simp add: o)
  assume e: "(n, h) \<in> set exception_entries"
  then have "n < 32" by (auto simp: exception_entries_def)
  then show "gate_target (set_irq c fn (Init_IDT c fn idt) n) = fn h"
    unfolding set_irq_def set_irq_gate_def IRQ_PIC_START_def using Init_IDT_entry [OF e, of c fn idt] by (simp add: o)
qed

lemma processor_up:
  assumes "no_threads (sched (sys st))" "st' = set_up_processor e c st"
  shows "interrupts (sched (sys st'))" "no_threads (sched (sys st'))" "gate_target (idt_table st' 32) = entry_of e ''irq_handler_0''"
    "(n, h) \<in> set exception_entries \<Longrightarrow> gate_target (idt_table st' n) = entry_of e h"
proof -
  obtain x ready d where d: "serial_init (io e (sys st)) SERIAL_COM1_PORT (serial_ready st) (dev (sys st)) = (x, ready, d)" by (metis prod_cases3)
  obtain ticks d2 where t: "Init_PIC (io e (sys st)) d = (ticks, d2)" by fastforce
  let ?s = "interrupts_set True ((sys st)\<lparr>dev := io_wait (io e (sys st)) d2, sched := (sched (sys st))\<lparr>SYSTEM_TimerTicks := ticks\<rparr>\<rparr>)"
  let ?p = "prints (out_ok 0 (line ''INT initialization successful'') 0) ?s"
  have o: "only_output ?s ?p" by (rule message_output)
  have s: "sys st' = ?p" "idt_table st' = set_irq (ucast KERNEL_CS) (entry_of e) (Init_IDT (ucast KERNEL_CS) (entry_of e) (idt_table st))"
    by (simp_all add: assms(2) set_up_processor_def d Init_Interrupt_def t Let_def)
  show "interrupts (sched (sys st'))" "no_threads (sched (sys st'))"
    using output_frame(2,3) [OF o] assms(1) unfolding s(1) by (simp_all add: interrupts_set_def no_threads_def)
  show "gate_target (idt_table st' 32) = entry_of e ''irq_handler_0''"
    "(n, h) \<in> set exception_entries \<Longrightarrow> gate_target (idt_table st' n) = entry_of e h"
    unfolding s(2) by (simp_all add: irq_table)
qed

lemma tick_without_threads:
  assumes "no_threads (sched s)"
  shows "\<exists>s'. irq_0 hw s = Some (None, s') \<and> dev s' = PIC_sendEOI hw 0 (dev s) \<and> no_threads (sched s') \<and>
    con s' = con s \<and> only_frame (con s') (mem_of s) (mem_of s')"
proof -
  let ?k = "(sched s)\<lparr>SYSTEM_TimerTicks := irq_0_ticks (SYSTEM_TimerTicks (sched s)),
      mm := (mm (sched s))\<lparr>ram := UpdateCursor (con s) (TextColor (con s)) (mem_of s)\<rparr>\<rparr>"
  have k: "no_threads ?k" using assms by (simp add: no_threads_def)
  have "irq_0 hw s = Some (None, s\<lparr>sched := ?k, dev := PIC_sendEOI hw 0 (dev s)\<rparr>)"
    using idle_schedule [OF k] by (simp add: irq_0_def prints_def with_screen_def Let_def)
  then show ?thesis using k UpdateCursor_frame by auto
qed


text \<open>Memory with a root pointer of version 2 at \<open>0x1000\<close> and the tables of \<open>Acpi\<close>.\<close>

definition start_mem :: mem where
  "start_mem = new_tables(0x100F := 2, 0x1019 := 0x20)"

definition start_cpu :: boot_cpu where
  "start_cpu = \<lparr>cs_reg = 0x38, ds_reg = 0x30, cr3_reg = 0x9000, cr4_reg = 0x300668, efer_reg = 0xD00\<rparr>"

lemma start_mem_words:
  "start_mem 0x100F = 2" "rd64 start_mem 0x1018 = 0x2000" "rd32 start_mem 0x2004 = 52"
  "rd64 start_mem 0x2020 = 0x300000000000" "rd64 start_mem 0x2028 = 0x400000000000"
  "signature_is start_mem 0x2000 ''XSDT''" "\<not> signature_is start_mem 0x3000 ''FACP''" "signature_is start_mem 0x4000 ''FACP''"
  by (simp_all add: start_mem_def new_tables_def rd64_def le64_def rd32_def le32_def signature_is_def bytes_def memcmp4)

lemma start_mem_acpi: "\<exists>t. init_ACPI start_mem 0x1000 s = (True, t)"
proof -
  let ?s = "s\<lparr>SYSTEM_RSDP_ADDR := 0x1000, SYSTEM_XSDT_ADDR := 0x2000\<rparr>"
  have "xsdt_loop start_mem 0x2000 0 3 = Some 0x4000"
    unfolding numeral_3_eq_3 using start_mem_words(4,5,7,8) by simp
  then have "find_FADT start_mem ?s = 0x4000"
    using start_mem_words(3,6) by (simp add: find_FADT_def)
  then show ?thesis using start_mem_words(1,2) by (simp add: init_ACPI_def Let_def)
qed


section \<open>Starts that fail\<close>



lemma no_driver_commands:
  assumes "\<And>t. g_display_driver (con (arrive e t)) = g_display_driver (con t)"
    and "g_display_driver (con s) = None" "\<not> bound s" "n \<in> {''clear'', ''shutdown'', ''reboot'', ''clock'', ''blit''}"
  shows "execute e (bytes n @ 0 # z) s = None"
proof -
  have c: "on_screen ClearScreen t = None" if "g_display_driver (con t) = None" for t :: "'a os"
    using that by (simp add: on_screen_def clear_needs_driver)
  have l: "leaving e x s = None" for x
    by (cases "delay_ms (io e s) 100 (dev s)") (simp_all add: leaving_def pausing_def on_dev_def c assms(1,2))
  have "clock_turn e s = None" using assms(2) by (simp add: clock_turn_def clock_face_def on_screen_def fillRect_def)
  then have "cmd_clock e s = None" by (subst cmd_clock.simps) simp
  moreover have "cmd_clear s = None" "cmd_blit s = None" "cmd_shutdown e s = None" "cmd_reboot e s = None"
    by (simp_all add: cmd_clear_def c cmd_blit_def display_get_info_def assms(2,3) cmd_shutdown_def cmd_reboot_def l)
  ultimately show ?thesis using assms(4) run_entry(9-12,14) [of e z s] by (auto simp: ended_def)
qed


lemma dull_config: "pci_config_read (io dull_env s) b dn fn r d = (1, d)"
  by (simp add: pci_config_read_def dull_io dull_ports_def)

lemma dull_scan: "fst (pci_scan_gpu (io dull_env s) n ()) = []"
proof -
  have f: "gpu_funcs (io dull_env s) n dn fns [] () = (False, [], ())" for dn fns
    by (induction fns) (simp_all add: pci_device_exists_def dull_config goes_on_def Let_def PCI_CLASS_DISPLAY_def byte_at_def split_def)
  have "gpu_devs (io dull_env s) n dns [] () = ([], ())" for dns
    by (induction dns) (simp_all add: f del: gpu_funcs.simps)
  then show ?thesis by (simp add: pci_scan_gpu_def)
qed


end
