(* ===== verification/Shell.thy ===== *)
theory Shell
  imports Startup
begin

text \<open>
  The loop of the shell in \<^verbatim>\<open>KernelStart\<close> of \<^verbatim>\<open>Kernel/kernel/kernel.c\<close>: the line the user types, the
  keys that edit it and the command it runs.  The two nested loops of the code are one loop: every
  \<^verbatim>\<open>break\<close> of the inner one leads to its start again.  Between the turns the interrupt of the keyboard puts
  keys into the ring; \<open>shell_step\<close> is one turn or one such interrupt.
\<close>

section \<open>The loop\<close>

definition CmdBufferSize :: nat where "CmdBufferSize = 64"

record 'd shell =
  system :: "'d os"
  CmdBuffer :: "u8 list"
  CharInCmd :: nat

text \<open>The line is given to \<^verbatim>\<open>execute\<close> with its terminator; an empty one is not.\<close>

definition run_line :: "'d env \<Rightarrow> 'd shell \<Rightarrow> 'd shell option" where
  "run_line e sh = do {
     s \<leftarrow> printm [10] [] (system sh);
     let buf = (CmdBuffer sh)[CharInCmd sh := 0];
     s \<leftarrow> (if CharInCmd sh > 0 then map_option snd (execute e buf s) else Some s);
     Some (sh\<lparr>system := prompt s, CmdBuffer := buf[0 := 0], CharInCmd := 0\<rparr>) }"

text \<open>The cursor and the line go back one character, unless the cursor is at the left edge.\<close>

definition erase_char :: "'d shell \<Rightarrow> 'd shell option" where
  "erase_char sh =
     (let s = system sh; row = PrintRow (con s) - 1
      in if PrintRow (con s) = 0 then Some sh
         else do {
           s \<leftarrow> on_screen (\<lambda>(c, m). map_option (Pair c) (fillRect c (row * 10) (PrintLine c * 18) 12 16 (BgColor c) m))
                  (s\<lparr>con := (con s)\<lparr>PrintRow := row\<rparr>\<rparr>);
           Some (sh\<lparr>system := s, CharInCmd := CharInCmd sh - 1, CmdBuffer := (CmdBuffer sh)[CharInCmd sh - 1 := 0]\<rparr>) })"

definition shell_key :: "'d env \<Rightarrow> u8 \<Rightarrow> 'd shell \<Rightarrow> 'd shell option" where
  "shell_key e key sh =
     (if key = 0 then Some sh
      else if key = 10 \<or> CharInCmd sh \<ge> CmdBufferSize - 1 then run_line e sh
      else if key = 8 \<and> CharInCmd sh > 0 then erase_char sh
      else if key = 8 \<and> CharInCmd sh = 0 then Some sh
      else do {
        let buf = (CmdBuffer sh)[CharInCmd sh := key];
        s \<leftarrow> printm (bytes ''%c'') [Val (ucast key)] (system sh);
        Some (sh\<lparr>system := s, CmdBuffer := buf, CharInCmd := CharInCmd sh + 1\<rparr>) })"

text \<open>The comparison is one of \<^verbatim>\<open>int\<close>s.\<close>

definition page_full :: "console \<Rightarrow> bool" where
  "page_full c \<longleftrightarrow> int (unat (PrintLine c)) * 18 > int (unat (ScreenHeigth c)) - 30"

definition next_page :: "'d shell \<Rightarrow> 'd shell option" where
  "next_page sh = map_option (\<lambda>s. sh\<lparr>system := prompt s\<rparr>) (cmd_clear (system sh))"

text \<open>A turn without a key in the ring waits in \<^verbatim>\<open>GetKey\<close>.\<close>

definition shell_turn :: "'d env \<Rightarrow> 'd shell \<Rightarrow> 'd shell option" where
  "shell_turn e sh =
     (if page_full (con (system sh)) then next_page sh
      else case GetKey (kbd (system sh)) of
             None \<Rightarrow> Some sh
           | Some (key, kb) \<Rightarrow> shell_key e key (sh\<lparr>system := (system sh)\<lparr>kbd := kb\<rparr>\<rparr>))"

definition key_interrupt :: "u8 \<Rightarrow> 'd shell \<Rightarrow> 'd shell" where
  "key_interrupt key sh = sh\<lparr>system := (system sh)\<lparr>kbd := kb_put (kbd (system sh)) key\<rparr>\<rparr>"

inductive shell_step :: "'d env \<Rightarrow> 'd shell \<Rightarrow> 'd shell \<Rightarrow> bool" for e where
  turn: "shell_turn e sh = Some sh' \<Longrightarrow> shell_step e sh sh'"
| key: "shell_step e sh (key_interrupt k sh)"

inductive_cases shell_stepE: "shell_step e sh sh'"

text \<open>The loop starts with an empty line in a buffer that was not written yet.\<close>

definition shell_start :: "'d os \<Rightarrow> u8 list \<Rightarrow> 'd shell" where
  "shell_start s junk = \<lparr>system = s, CmdBuffer = junk, CharInCmd = 0\<rparr>"

section \<open>The line\<close>

definition typed :: "'d shell \<Rightarrow> u8 list" where
  "typed sh = take (CharInCmd sh) (CmdBuffer sh)"

definition line_ok :: "'d shell \<Rightarrow> bool" where
  "line_ok sh \<longleftrightarrow> length (CmdBuffer sh) = CmdBufferSize \<and> CharInCmd sh < CmdBufferSize \<and> 0 \<notin> set (typed sh) \<and> 10 \<notin> set (typed sh)"

text \<open>What a key does to a line, when there is a character in front of the cursor to erase or not; a line of 63 characters
  runs with the next key, which is lost.\<close>

definition runs :: "u8 \<Rightarrow> u8 list \<Rightarrow> bool" where
  "runs key w \<longleftrightarrow> key \<noteq> 0 \<and> (key = 10 \<or> length w \<ge> 63)"

definition edit :: "bool \<Rightarrow> u8 \<Rightarrow> u8 list \<Rightarrow> u8 list" where
  "edit left key w =
     (if key = 0 then w else if runs key w then []
      else if key = 8 then (if left then butlast w else w)
      else w @ [key])"

lemma erase_char_line:
  assumes "erase_char sh = Some sh'" "line_ok sh" "CharInCmd sh > 0"
  shows "typed sh' = (if PrintRow (con (system sh)) \<noteq> 0 then butlast (typed sh) else typed sh) \<and>
    length (CmdBuffer sh') = length (CmdBuffer sh) \<and> CharInCmd sh' \<le> CharInCmd sh"
proof -
  have b: "butlast (typed sh) = take (CharInCmd sh - 1) (CmdBuffer sh)"
    using assms(2) by (simp add: typed_def line_ok_def butlast_take)
  show ?thesis using assms(1) unfolding b by (auto simp: erase_char_def Let_def bind_eq_Some_conv typed_def split: if_splits)
qed

lemma shell_key_line:
  assumes "shell_key e key sh = Some sh'" "line_ok sh"
  shows "line_ok sh' \<and> typed sh' = edit (PrintRow (con (system sh)) \<noteq> 0) key (typed sh)"
proof -
  have len: "length (typed sh) = CharInCmd sh" using assms(2) by (simp add: typed_def line_ok_def)
  consider "key = 0" | "runs key (typed sh)" | "key = 8" "\<not> runs key (typed sh)" "CharInCmd sh = 0"
    | "key = 8" "\<not> runs key (typed sh)" "CharInCmd sh > 0" | "key \<noteq> 0" "key \<noteq> 8" "\<not> runs key (typed sh)" by blast
  then show ?thesis
  proof cases
    case 1
    then show ?thesis using assms by (simp add: shell_key_def edit_def)
  next
    case 2
    then have "run_line e sh = Some sh'" using assms(1) len by (auto simp: shell_key_def runs_def CmdBufferSize_def)
    then have "CharInCmd sh' = 0" "length (CmdBuffer sh') = length (CmdBuffer sh)"
      by (auto simp: run_line_def Let_def bind_eq_Some_conv split: if_splits)
    then show ?thesis using assms(2) 2 by (auto simp: line_ok_def typed_def edit_def runs_def)
  next
    case 3
    then show ?thesis using assms len by (auto simp: shell_key_def edit_def runs_def CmdBufferSize_def)
  next
    case 4
    then have "erase_char sh = Some sh'" using assms(1) len by (auto simp: shell_key_def runs_def CmdBufferSize_def)
    from erase_char_line [OF this assms(2) 4(3)] show ?thesis using assms(2) 4
      by (auto simp: line_ok_def edit_def dest: in_set_butlastD)
  next
    case 5
    then obtain s where s: "sh' = sh\<lparr>system := s, CmdBuffer := (CmdBuffer sh)[CharInCmd sh := key], CharInCmd := CharInCmd sh + 1\<rparr>"
      using assms(1) len by (auto simp: shell_key_def runs_def CmdBufferSize_def bind_eq_Some_conv)
    have c: "CharInCmd sh + 1 < CmdBufferSize" "key \<noteq> 10" using 5 len by (auto simp: runs_def CmdBufferSize_def)
    then have t: "typed sh' = typed sh @ [key]"
      using assms(2) by (simp add: s typed_def line_ok_def take_Suc_conv_app_nth)
    show ?thesis using assms(2) c 5 t by (auto simp: line_ok_def s edit_def)
  qed
qed

lemma shell_step_line:
  assumes "shell_step e sh sh'" "line_ok sh"
  shows "line_ok sh'"
  using assms(1)
proof cases
  case turn
  then show ?thesis using assms(2) shell_key_line [of e _ _ sh']
    by (fastforce simp: shell_turn_def next_page_def line_ok_def typed_def split: if_splits option.splits)
next
  case (key k)
  then show ?thesis using assms(2) by (simp add: key_interrupt_def line_ok_def typed_def)
qed

text \<open>C15: The line of the shell has the type of its array for ever: whatever keys are typed, whenever their interrupts come
  and whatever the commands do, the buffer has 64 bytes, the index stays below 64 with room for the terminator, and the
  line holds no terminator and no end of a line.\<close>

theorem shell_line_in_bounds:
  assumes "(shell_step e)\<^sup>*\<^sup>* (shell_start s junk) sh" "length junk = 64"
  shows "length (CmdBuffer sh) = 64 \<and> CharInCmd sh \<le> 63 \<and> 0 \<notin> set (typed sh) \<and> 10 \<notin> set (typed sh)"
proof -
  from assms(1) have "line_ok sh"
  proof (induction rule: rtranclp_induct)
    case base
    then show ?case using assms(2) by (simp add: line_ok_def shell_start_def typed_def CmdBufferSize_def)
  next
    case (step sh sh')
    then show ?case using shell_step_line by blast
  qed
  then show ?thesis by (auto simp: line_ok_def CmdBufferSize_def)
qed

lemma shell_line_in_bounds_witness:
  "\<exists>sh. (shell_step dull_env)\<^sup>*\<^sup>* (shell_start dull_os (replicate 64 0xFF)) sh \<and> length (CmdBuffer sh) = 64 \<and>
     kbd (system sh) = kb_put (kbd dull_os) 10"
proof -
  let ?sh = "key_interrupt 10 (shell_start dull_os (replicate 64 0xFF))"
  have r: "(shell_step dull_env)\<^sup>*\<^sup>* (shell_start dull_os (replicate 64 0xFF)) ?sh"
    by (rule r_into_rtranclp) (rule shell_step.key)
  then show ?thesis using shell_line_in_bounds [OF r] by (intro exI [of _ ?sh]) (simp add: key_interrupt_def shell_start_def)
qed

section \<open>What the line runs\<close>

fun keys :: "'d env \<Rightarrow> u8 list \<Rightarrow> 'd shell \<Rightarrow> 'd shell option" where
  "keys e [] sh = Some sh"
| "keys e (k # ks) sh = Option.bind (shell_key e k sh) (keys e ks)"

lemma keys_append: "keys e (ks @ ks') sh = Option.bind (keys e ks sh) (keys e ks')"
proof (induction ks arbitrary: sh)
  case (Cons k ks)
  then show ?case by (cases "shell_key e k sh") simp_all
qed simp

text \<open>Outside the page change a turn is the next key of the ring.\<close>

lemma turn_takes_key:
  assumes "ring_holds (kbd (system sh)) (k # ks)" "\<not> page_full (con (system sh))"
  shows "\<exists>kb. ring_holds kb ks \<and> shell_turn e sh = shell_key e k (sh\<lparr>system := (system sh)\<lparr>kbd := kb\<rparr>\<rparr>)"
proof -
  have "kb_count (kbd (system sh)) \<noteq> 0" using assms(1) by (simp add: ring_holds_def)
  then show ?thesis using kb.get_first [OF assms(1)] assms(2)
    by (intro exI [of _ "snd (kb_take (kbd (system sh)))"]) (simp add: shell_turn_def GetKey_def prod.case_eq_if split: prod.split)
qed

lemma char_format: "reports s (printm (bytes ''%c'') [Val v] s)"
  by (rule printm_reports [where ks = "[None]"]) (code_simp, simp)

lemma newline_format: "reports s (printm [10] [] s)"
  by (rule printm_reports [where ks = "[]"]) (code_simp, simp)

definition plain :: "u8 \<Rightarrow> bool" where
  "plain k \<longleftrightarrow> k \<noteq> 0 \<and> k \<noteq> 8 \<and> k \<noteq> 10"

lemma plain_key:
  assumes "line_ok sh" "plain k" "length (typed sh) < 63"
  shows "\<exists>sh'. shell_key e k sh = Some sh' \<and> only_output (system sh) (system sh') \<and> line_ok sh' \<and> typed sh' = typed sh @ [k]"
proof -
  have len: "length (typed sh) = CharInCmd sh" using assms(1) by (simp add: typed_def line_ok_def)
  obtain s where s: "printm (bytes ''%c'') [Val (ucast k)] (system sh) = Some s" "only_output (system sh) s"
    using char_format unfolding reports_def by blast
  let ?sh = "sh\<lparr>system := s, CmdBuffer := (CmdBuffer sh)[CharInCmd sh := k], CharInCmd := CharInCmd sh + 1\<rparr>"
  have k: "shell_key e k sh = Some ?sh" using assms(2,3) len s(1) by (simp add: shell_key_def plain_def CmdBufferSize_def)
  have "edit b k (typed sh) = typed sh @ [k]" for b using assms(2,3) by (simp add: edit_def runs_def plain_def)
  then show ?thesis using k s(2) shell_key_line [OF k assms(1)] by auto
qed

lemma plain_keys:
  assumes "line_ok sh" "\<forall>k \<in> set ks. plain k" "length (typed sh) + length ks \<le> 63"
  shows "\<exists>sh'. keys e ks sh = Some sh' \<and> only_output (system sh) (system sh') \<and> line_ok sh' \<and> typed sh' = typed sh @ ks"
  using assms
proof (induction ks arbitrary: sh)
  case (Cons k ks)
  obtain sh1 where h: "shell_key e k sh = Some sh1" "only_output (system sh) (system sh1)" "line_ok sh1" "typed sh1 = typed sh @ [k]"
    using plain_key [of sh k e] Cons.prems by auto
  obtain sh' where "keys e ks sh1 = Some sh'" "only_output (system sh1) (system sh')" "line_ok sh'" "typed sh' = typed sh1 @ ks"
    using Cons.IH [OF h(3)] Cons.prems h(4) by auto
  then show ?case using h only_output_trans [OF h(2)] by auto
qed (simp add: only_output_refl)

lemma enter_runs:
  assumes "line_ok sh" "typed sh \<noteq> []"
  shows "\<exists>s z. only_output (system sh) s \<and>
    map_option system (shell_key e 10 sh) = map_option (\<lambda>(n, s). prompt s) (execute e (typed sh @ 0 # z) s)"
proof -
  obtain s where s: "printm [10] [] (system sh) = Some s" "only_output (system sh) s"
    using newline_format unfolding reports_def by blast
  have n: "CharInCmd sh < length (CmdBuffer sh)" "CharInCmd sh > 0" using assms by (auto simp: line_ok_def typed_def)
  then have b: "(CmdBuffer sh)[CharInCmd sh := 0] = typed sh @ 0 # drop (CharInCmd sh + 1) (CmdBuffer sh)"
    by (simp add: typed_def upd_conv_take_nth_drop)
  have "map_option system (shell_key e 10 sh) =
      map_option (\<lambda>(n, s). prompt s) (execute e (typed sh @ 0 # drop (CharInCmd sh + 1) (CmdBuffer sh)) s)"
    using s(1) n(2) by (cases "execute e (typed sh @ 0 # drop (CharInCmd sh + 1) (CmdBuffer sh)) s")
      (auto simp: shell_key_def run_line_def b Let_def)
  then show ?thesis using s(2) by blast
qed

text \<open>C14: The shell does what is typed: the keys of a line of up to 63 plain characters and the end of the line run exactly the
  command of that name, on a state that differs from the one before by what was drawn, and then the shell prompts again.\<close>

theorem typed_command_runs:
  assumes "line_ok sh" "typed sh = []" "\<forall>k \<in> set w. plain k" "w \<noteq> []" "length w \<le> 63"
  shows "\<exists>s. only_output (system sh) s \<and>
    map_option system (keys e (w @ [10]) sh) =
      map_option (\<lambda>(n, s). prompt s) (case map_of (command_table e s) w of Some r \<Rightarrow> r | None \<Rightarrow> Some (0, not_found s))"
proof -
  obtain sh' where h: "keys e w sh = Some sh'" "only_output (system sh) (system sh')" "line_ok sh'" "typed sh' = w"
    using plain_keys [of sh w e] assms by auto
  obtain s z where s: "only_output (system sh') s"
    "map_option system (shell_key e 10 sh') = map_option (\<lambda>(n, s). prompt s) (execute e (w @ 0 # z) s)"
    using enter_runs [of sh' e] h(3,4) assms(4) by auto
  have "0 \<notin> set w" using assms(3) by (auto simp: plain_def)
  note x = execute_table [OF this]
  have "map_option system (keys e (w @ [10]) sh) = map_option system (shell_key e 10 sh')"
    by (simp add: keys_append h(1)) (cases "shell_key e 10 sh'"; simp)
  then show ?thesis using s only_output_trans [OF h(2)] unfolding x by metis
qed

lemma dull_shell: "line_ok (shell_start dull_os (replicate 64 0))" "typed (shell_start dull_os (replicate 64 0)) = []"
  by (simp_all add: line_ok_def typed_def shell_start_def CmdBufferSize_def)

lemma typed_command_runs_witness:
  "\<exists>s. only_output dull_os s \<and>
    map_option system (keys dull_env (bytes ''pmm'' @ [10]) (shell_start dull_os (replicate 64 0))) = map_option prompt (cmd_pmm s)"
proof -
  have "bytes ''pmm'' \<noteq> []" "length (bytes ''pmm'') \<le> 63" "\<forall>k \<in> set (bytes ''pmm''). plain k" by (simp_all add: bytes_def plain_def)
  from typed_command_runs [OF dull_shell this(3,1,2), of dull_env] obtain s where s: "only_output dull_os s"
    "map_option system (keys dull_env (bytes ''pmm'' @ [10]) (shell_start dull_os (replicate 64 0))) =
      map_option (\<lambda>(n, s). prompt s) (case map_of (command_table dull_env s) (bytes ''pmm'') of Some r \<Rightarrow> r | None \<Rightarrow> Some (0, not_found s))"
    by (auto simp: shell_start_def)
  have "map_of (command_table dull_env s) (bytes ''pmm'') = Some (ended (cmd_pmm s))"
    using table_entries(3) distinct_names table_names by (metis map_of_is_SomeI)
  then show ?thesis using s by (auto simp: ended_def option.map_comp comp_def)
qed

text \<open>The screen is cleared while a line is being typed: what was typed is no longer shown, and still runs.\<close>

lemma page_keeps_line: "next_page sh = Some sh' \<Longrightarrow> typed sh' = typed sh"
  by (auto simp: next_page_def typed_def)

text \<open>At the left edge, where a long line goes on after a wrap, nothing can be erased.\<close>

lemma erase_at_edge: "PrintRow (con (system sh)) = 0 \<Longrightarrow> erase_char sh = Some sh"
  by (simp add: erase_char_def Let_def)

end
