(* ===== verification/User.thy ===== *)
theory User
  imports Shell
begin

text \<open>
  How a thread gets to ring 3 and back: \<^verbatim>\<open>user_thread_bootstrap\<close> of \<^verbatim>\<open>Kernel/kernel/Thread.c\<close>, which
  builds the frame of an interrupt that never was on the stack of the thread and returns from it; and the threads of
  \<^verbatim>\<open>Kernel/kernel/kernel.c\<close> that demonstrate it, with \<^verbatim>\<open>SYSTEM_DEBUG\<close> of \<^verbatim>\<open>Kernel/lib/delay.c\<close>.
\<close>

unbundle bit_operations_syntax

section \<open>The way in\<close>

definition return_address :: "addr \<Rightarrow> addr" where
  "return_address entry = (entry AND NOT 0xFFF) + PAGE_SIZE - 8"

definition user_thread_bootstrap :: "reg \<Rightarrow> reg \<Rightarrow> reg \<Rightarrow> reg \<Rightarrow> reg \<Rightarrow> thread \<Rightarrow> cpu \<Rightarrow> cpu" where
  "user_thread_bootstrap r_entry r_sp r_cs r_ss r_ret t s =
     (let s = exec (\<lambda>_ s. s) Cli s;
          s = s\<lparr>rg := (rg s)(r_entry := user_entry t, r_sp := user_rsp t, r_cs := USER_CS, r_ss := USER_DS,
                           r_ret := return_address (user_entry t))\<rparr>
      in run (\<lambda>_ s. s) (bootstrap_frame r_entry r_sp r_cs r_ss r_ret) s)"

text \<open>The seven quadwords below the top of the stack that the frame takes.\<close>

definition frame_slots :: "addr \<Rightarrow> addr set" where
  "frame_slots p = {p - 8, p - 16, p - 24, p - 32, p - 40, p - 48, p - 56}"

lemma in_own_page:
  assumes "copy AND 0xFFF = (0 :: addr)"
  shows "(copy OR (entry AND 0xFFF)) AND NOT 0xFFF = copy"
proof (rule bit_word_eqI)
  have m: "(0xFFF :: addr) = mask 12" by (simp add: mask_eq_exp_minus_1)
  fix i assume i: "i < LENGTH(64)"
  have "\<not> bit (copy AND 0xFFF) i" using assms by simp
  then show "bit ((copy OR (entry AND 0xFFF)) AND NOT 0xFFF) i = bit copy i"
    using i unfolding m by (auto simp: bit_simps)
qed

lemma flags_enabled: "((f :: u64) AND NOT IF_mask) OR 0x200 = f OR 0x200"
  by (simp add: IF_mask_def bit.disj_conj_distrib2)

text \<open>C17: A new user thread comes up in ring 3 at its entry point, with the selectors of ring 3, interrupts on and the top of
  its own stack, one word of which holds where a return of its function goes: into the last 8 bytes of its copy of the page of
  the entry point, where \<^verbatim>\<open>CreateUserThread\<close> has put \<^verbatim>\<open>int $0x80\<close>.  Nothing but the seven words
  below the top of that stack has changed, whichever registers the compiler has chosen.\<close>

theorem user_thread_enters_ring3:
  fixes s :: cpu and t :: thread
  assumes "distinct [r_entry, r_sp, r_cs, r_ss, r_ret, RAX, RSP]"
    and "user_entry t = copy OR (entry AND 0xFFF)" "copy AND 0xFFF = 0"
  defines "f \<equiv> user_thread_bootstrap r_entry r_sp r_cs r_ss r_ret t s"
  shows "rip f = user_entry t \<and> cs f = USER_CS \<and> ss f = USER_DS \<and> flags f = flags s OR 0x200 \<and>
    rg f RSP = user_rsp t - 8 \<and> rip (exec env Ret f) = copy + PAGE_SIZE - 8 \<and>
    (\<forall>a. a \<notin> frame_slots (user_rsp t) \<longrightarrow> slot_at f a = slot_at s a)"
proof -
  have "return_address (user_entry t) = copy + PAGE_SIZE - 8"
    using in_own_page [OF assms(3)] by (simp add: return_address_def assms(2))
  then show ?thesis using assms(1) flags_enabled [of "flags s"]
    by (auto simp: f_def user_thread_bootstrap_def bootstrap_frame_def push_def frame_slots_def)
qed

lemma user_thread_enters_ring3_witness:
  "rip (user_thread_bootstrap RBX RCX RDX RSI RDI (zero_thread\<lparr>user_entry := 0x8000123, user_rsp := 0x8005000\<rparr>) demo_cpu) = 0x8000123"
  using user_thread_enters_ring3 [where r_entry = RBX and r_sp = RCX and r_cs = RDX and r_ss = RSI and r_ret = RDI and
      t = "zero_thread\<lparr>user_entry := 0x8000123, user_rsp := 0x8005000\<rparr>" and copy = "0x8000000" and entry = "0x400123" and
      s = demo_cpu and env = "\<lambda>_ s. s"] by simp

section \<open>A thread in ring 3\<close>

text \<open>A system call as the calling thread sees it: what happens while it does not run is \<open>arrive\<close>, and after
  \<^verbatim>\<open>SYS_exit\<close> it does not run again.\<close>

definition user_call :: "'d env \<Rightarrow> u64 \<times> u64 \<Rightarrow> 'd os \<Rightarrow> 'd os option" where
  "user_call e c s = (case c of (nr, arg) \<Rightarrow>
     (case syscall_dispatch (sched s) nr arg of
        None \<Rightarrow> None
      | Some (Returns r, k) \<Rightarrow> Some (s\<lparr>sched := k\<rparr>)
      | Some (Prints ch r, k) \<Rightarrow> printm (bytes ''%c'') [Val (ucast ch)] (s\<lparr>sched := k\<rparr>)
      | Some (Switches t, k) \<Rightarrow> Some (if nr = SYS_exit then s\<lparr>sched := k\<rparr> else arrive e (s\<lparr>sched := k\<rparr>))))"

fun user_calls :: "'d env \<Rightarrow> (u64 \<times> u64) list \<Rightarrow> 'd os \<Rightarrow> 'd os option" where
  "user_calls e [] s = Some s"
| "user_calls e (c # calls) s = Option.bind (user_call e c s) (user_calls e calls)"

text \<open>Both arrays are printed with their terminator.\<close>

definition putchars :: "u8 list \<Rightarrow> (u64 \<times> u64) list" where
  "putchars t = map (\<lambda>c. (SYS_putchar, ucast c)) (t @ [0])"

definition thread_usertest :: "(u64 \<times> u64) list" where
  "thread_usertest = putchars (line ''Hello World!'') @ [(SYS_sleep, 2000)] @
     putchars (line ''This is a ring3 thread'') @ [(SYS_sleep, 1000), (SYS_exit, 0)]"

section \<open>Threads in ring 0\<close>

definition thread_sleep :: "'d env \<Rightarrow> u64 \<Rightarrow> 'd os \<Rightarrow> 'd os option" where
  "thread_sleep e sec s = map_option (\<lambda>(_, s). arrive e s) (on_sched (\<lambda>k. ThreadSleepSecond k sec) s)"

definition square :: "u32 \<Rightarrow> 'd os \<Rightarrow> 'd os option" where
  "square color = on_screen (\<lambda>(c, m). map_option (\<lambda>m. (c, m)) (fillRect c 400 400 5 5 color m))"

text \<open>One round of \<^verbatim>\<open>thread_test\<close>, which goes round for ever.\<close>

definition thread_test :: "'d env \<Rightarrow> 'd os \<Rightarrow> 'd os option" where
  "thread_test e s = do {
     s \<leftarrow> square COLOR_RED s;
     s \<leftarrow> thread_sleep e 1 s;
     s \<leftarrow> square COLOR_GREEN s;
     s \<leftarrow> thread_sleep e 1 s;
     s \<leftarrow> square COLOR_BLUE s;
     thread_sleep e 1 s }"

text \<open>The addresses of the two variables on the stack are the compiler's choice.\<close>

definition thread_uvmt :: "'d env \<Rightarrow> addr \<Rightarrow> addr \<Rightarrow> 'd os \<Rightarrow> 'd os option" where
  "thread_uvmt e a_at b_at s = do {
     s \<leftarrow> printm (line ''This is a thread that uses virtual memory.'') [] s;
     s \<leftarrow> printm (line ''a = %d b = %d'' @ line ''a at %p b at %p'') [Val 100, Val 1234, Val a_at, Val b_at] s;
     a \<leftarrow> load64 (mm (sched s)) (vmm_Descriptor (mem_of s) (Current_VMM_Desc (mm (sched s))));
     s \<leftarrow> printm (line ''%p'') [Val a] s;
     thread_sleep e 5 s }"

definition thread_fillrect :: "'d os \<Rightarrow> 'd os option" where
  "thread_fillrect = on_screen (\<lambda>(c, m). map_option (\<lambda>m. (c, m))
     (fillRect c (ScreenWidth c div 2) 0 (ScreenWidth c div 2) (ScreenHeigth c) COLOR_YELLOW m))"

section \<open>Waiting for a key\<close>

partial_function (option) until_hit :: "'d hw \<Rightarrow> 'd \<Rightarrow> 'd option" where
  "until_hit hw d = (let (hit, d) = kbhit hw d in if hit then Some d else until_hit hw d)"

definition SYSTEM_DEBUG :: "'d env \<Rightarrow> 'd os \<Rightarrow> 'd os option" where
  "SYSTEM_DEBUG e s = do {
     let s = s\<lparr>sched := (sched s)\<lparr>interrupts := False\<rparr>\<rparr>;
     s \<leftarrow> on_dev (until_hit (io e s)) s;
     let s = s\<lparr>sched := (sched s)\<lparr>interrupts := True\<rparr>\<rparr>;
     pausing e (delay_ms (io e s) 800) s }"

section \<open>What the thread in ring 3 does\<close>

lemma user_calls_append: "user_calls e (a @ b) s = Option.bind (user_calls e a s) (user_calls e b)"
proof (induction a arbitrary: s)
  case (Cons c a)
  then show ?case by (cases "user_call e c s") simp_all
qed simp

lemma low_byte: "ucast (ucast c AND 0xFF :: u64) = (c :: u8)"
proof (rule bit_word_eqI)
  have m: "(0xFF :: u64) = mask 8" by (simp add: mask_eq_exp_minus_1)
  show "bit (ucast (ucast c AND 0xFF :: u64) :: u8) i = bit c i" if "i < LENGTH(8)" for i
    using that unfolding m by (auto simp: bit_simps)
qed

lemma putchar_prints: "user_call e (SYS_putchar, ucast (c :: u8)) s = printm (bytes ''%c'') [Val (ucast c)] s"
  by (simp add: low_byte user_call_def syscall_dispatch_def SYS_putchar_def SYS_exit_def SYS_yield_def)

lemma chars_report: "reports s (user_calls e (map (\<lambda>c. (SYS_putchar, ucast (c :: u8))) t) s)"
proof (induction t arbitrary: s)
  case (Cons c t)
  show ?case unfolding list.map user_calls.simps putchar_prints by (rule reports_bind [OF char_format]) (rule Cons)
qed (simp add: reports_def only_output_refl)

text \<open>Up to its first sleep the thread draws and does nothing else, in whatever state it starts.\<close>

lemma user_test_speaks:
  "\<exists>s1. only_output s s1 \<and> user_calls e thread_usertest s =
     Option.bind (user_call e (SYS_sleep, 2000) s1)
       (user_calls e (putchars (line ''This is a ring3 thread'') @ [(SYS_sleep, 1000), (SYS_exit, 0)]))"
proof -
  obtain s1 where "user_calls e (putchars (line ''Hello World!'')) s = Some s1" "only_output s s1"
    using chars_report unfolding reports_def putchars_def by blast
  then show ?thesis by (auto simp: thread_usertest_def user_calls_append)
qed

text \<open>\<^verbatim>\<open>SYSTEM_DEBUG\<close> looks at the controller and not at the ring, so it sees a key although interrupts are off, and
  leaves it to the interrupt.\<close>

lemma debug_sees_key:
  assumes "kbhit (io e s) (dev s) = (True, d)"
  shows "SYSTEM_DEBUG e s = pausing e (delay_ms (io e s) 800)
    (s\<lparr>dev := d, sched := (sched s)\<lparr>interrupts := True\<rparr>\<rparr>)"
proof -
  have "until_hit (io e s) (dev s) = Some d" by (subst until_hit.simps) (simp add: assms)
  moreover have "io e (s\<lparr>sched := k\<rparr>) = io e s" "io e (s\<lparr>dev := d, sched := k\<rparr>) = io e s" for k by (simp_all add: io_def)
  ultimately show ?thesis by (simp add: SYSTEM_DEBUG_def on_dev_def Let_def)
qed

end
