(* ===== verification/Spec2Isabelle.thy ===== *)
theory Spec2Isabelle
  imports Sync KString Traps Keyboard Fs FatProps Fault Svga User
begin

text \<open>
  \<^bold>\<open>A verification library for the OS003 kernel\<close>

  OS003 is a small x86-64 operating system: a UEFI boot loader hands a memory map and a frame
  buffer to a kernel, which manages pages and address spaces, runs threads, takes interrupts and
  system calls, drives an ATA disk, keeps files on a FAT32 partition, and offers a shell on the
  screen.  The theories translate the C of \<^verbatim>\<open>src/Kernel\<close> and the loader in
  \<^verbatim>\<open>src/Bootloader\<close>, function by function and under the names of the source, and prove
  what makes each part correct.  This theory imports all of them.

  \<^bold>\<open>The program and the theories\<close>

  Each theory names its source file at its head; the parts build on each other in this order.

  \<^item> \<open>Prelude\<close>, \<open>CMem\<close>: the C integer types as words, little-endian bytes, and the flat memory
    with \<^verbatim>\<open>memset\<close> and \<^verbatim>\<open>memcpy\<close>.  \<open>KString\<close> (\<^verbatim>\<open>lib/kstring.c\<close>): strings,
    comparison, numbers to text and back.
  \<^item> Memory.  \<open>Bitmap\<close> (\<^verbatim>\<open>mm/bitmap.c\<close>), \<open>EfiMem\<close> (\<^verbatim>\<open>mm/EfiMemDesc.c\<close>) and \<open>Pmm\<close>
    (\<^verbatim>\<open>mm/pmm.c\<close>) are the physical allocator: one descriptor with a bitmap of free pages for
    each region of the firmware's map.  \<open>Paging\<close> (\<^verbatim>\<open>mm/paging.c\<close>) builds and walks the
    four-level tables with pages from it, and \<open>Vmm\<close> (\<^verbatim>\<open>mm/vmm.c\<close>) hands out virtual ranges
    on top.  Their state is the record \<open>mm_state\<close>: the memory, the descriptor array, the
    page table register and the current address space.
  \<^item> Threads.  \<open>Queue\<close> relates the intrusive lists to HOL lists; \<open>Thread\<close> (\<^verbatim>\<open>kernel/Thread.c\<close>)
    is the ready and the sleep queue, the creation and end of threads and \<^verbatim>\<open>schedule\<close>;
    \<open>Sync\<close> is the spin lock, mutex and semaphore of the same file, with the step relation
    \<open>lock_step\<close> of several threads that use one mutex.
  \<^item> Traps.  \<open>Isr\<close> has the assembly of \<^verbatim>\<open>idt.c\<close>, \<^verbatim>\<open>pic.c\<close>, \<^verbatim>\<open>Thread.c\<close> and
    \<^verbatim>\<open>Syscall.c\<close> as lists of instructions and their interpreter; \<open>Traps\<close> has the
    descriptor tables (\<^verbatim>\<open>gdt.c\<close>, \<^verbatim>\<open>idt.c\<close>) and the system calls (\<^verbatim>\<open>Syscall.c\<close>).
  \<^item> Devices.  \<open>Hw\<close> (\<^verbatim>\<open>io.c\<close>, \<^verbatim>\<open>delay.c\<close>, \<^verbatim>\<open>serial.c\<close>, \<^verbatim>\<open>Time.c\<close>,
    \<^verbatim>\<open>pic.c\<close>), \<open>Keyboard\<close> (\<^verbatim>\<open>Keyboard.c\<close> and \<^verbatim>\<open>irq_1\<close>), \<open>Ata\<close>
    (\<^verbatim>\<open>drives/ata.c\<close>), \<open>AtaDev\<close> (its calls return), \<open>AtaDisk\<close> (its calls on a drive that
    follows the ATA standard read and write sectors).
  \<^item> Files.  \<open>Fat\<close>, \<open>FatDir\<close>, \<open>FatFile\<close> (\<^verbatim>\<open>fs/fat32.c\<close>): the volume and its allocation
    table, directories, contents of files.  \<open>FatDisk\<close>, \<open>FatData\<close>, \<open>FatNames\<close>, \<open>FatProps\<close>: what is
    proved of them.  \<open>Gpt\<close> (\<^verbatim>\<open>drives/gpt.c\<close>) finds the partition, \<open>Fs\<close>
    (\<^verbatim>\<open>fs/fs.c\<close>) resolves paths and offers the calls of the rest of the kernel.
  \<^item> Output.  \<open>Screen\<close> (\<^verbatim>\<open>drives/display.c\<close>) has the drawing primitives on the frame buffer,
    \<open>Format\<close> (\<^verbatim>\<open>kernel/Print.c\<close>) the formats of \<^verbatim>\<open>printf\<close>, and \<open>Console\<close>
    (\<^verbatim>\<open>lib/Draw.c\<close>, \<^verbatim>\<open>kernel/Print.c\<close>) characters, the cursor, lines and messages.
  \<^item> \<open>Pci\<close> (\<^verbatim>\<open>drives/pci.c\<close>): configuration space and the scans of the bus.
    \<open>Machine\<close> puts memory, threads, devices and console into one state, \<open>machine\<close>, and has the
    functions that use several of them: the reports of tables, threads and disks, \<^verbatim>\<open>CleanAllThreads\<close>,
    the timer interrupt.  \<open>Acpi\<close> (\<^verbatim>\<open>acpi/tables.c\<close>, \<^verbatim>\<open>acpi/power.c\<close>):
    tables, shutdown and reboot.  \<open>Fault\<close> (\<^verbatim>\<open>idt.c\<close>): the handlers that report and stop.
  \<^item> \<open>Display\<close> (\<^verbatim>\<open>drives/display.c\<close>): probing, drivers and modes; \<open>Svga\<close>: the command ring of
    the VMware adapter.
  \<^item> The loader.  \<open>Boot\<close> (\<^verbatim>\<open>Bootloader/src/main.c\<close>, \<^verbatim>\<open>lib.c\<close>): files from the firmware, the
    screen mode, the kernel's header, the data handed over and the jump.
  \<^item> The shell (\<^verbatim>\<open>kernel/kernel.c\<close>).  \<open>Os\<close> is its state, the record \<open>os\<close> that extends \<open>machine\<close> and the display's \<open>kernel\<close>,
    and the record \<open>env\<close> of what comes from outside; \<open>Commands\<close> has every command and \<^verbatim>\<open>execute\<close>;
    \<open>Startup\<close> is \<^verbatim>\<open>KernelStart\<close> up to its loop; \<open>Shell\<close> is the loop, and \<open>shell_step\<close> the relation
    of its turns and the keyboard interrupts between them.  \<open>User\<close> has the way of a thread into ring 3
    (\<^verbatim>\<open>user_thread_bootstrap\<close>) and the demonstration threads the commands start.

  \<^bold>\<open>Conventions\<close>

  Integers have the width of the source, as words; a C \<^verbatim>\<open>int\<close> that only counts is an \<open>int\<close> or a
  \<open>nat\<close>.  Memory of the memory manager is a map from addresses to bytes; a buffer a caller passes
  is the list of its bytes.  Code that changes state takes the state and returns the changed one.
  Error codes are returned as the code returns them.  A loop that need not end is a
  \<open>partial_function\<close> into options, and \<open>None\<close> is such a loop that goes on for ever, and also an
  access past the end of a caller's buffer or to an unmapped address; a property that says that a
  call works says that it gives \<open>Some\<close>.  No definition has a fuel argument that the code lacks,
  save where a loop of the code counts.

  \<^bold>\<open>Interfaces\<close>

  Locales state what one part relies on in another, and each is interpreted on the code's model:
  \<^item> \<open>page_allocator\<close> (\<open>pmm\<close>): allocated pages were free and belong to the managed memory, freeing
    gives them back.
  \<^item> \<open>fifo_queue\<close> (\<open>ready_queue\<close>, \<open>sleep_queue\<close>, \<open>mutex_queue\<close>, \<open>sem_queue\<close>): the four queues of threads.
  \<^item> \<open>type_ahead\<close> (\<open>kb\<close>): the ring buffer of the keyboard as a bounded queue.
  \<^item> \<open>ticking\<close> (\<open>drive_clock\<close>, \<open>log_clock\<close>, \<open>uart_clock\<close>): a time stamp counter that moves on, on which
    every wait of the ATA driver, of a shutdown and of the serial line ends.
  \<^item> \<open>config_space\<close> (\<open>host\<close>, \<open>bga_bus\<close>): a register selected through the one port is read through the
    other.
  \<^item> \<open>boot_services\<close> (\<open>uefi\<close>): the calls of the firmware that open, read and close files and give and
    take back memory; what the loader opens it closes.
  \<^item> \<open>block_device\<close> (\<open>ata_dev\<close>): sectors read back as last written.  The file system's lemmas are
    proved in this locale; the interpretation is the ATA driver on the drive of \<open>AtaDisk\<close>, so the
    properties of \<open>FatProps\<close> hold of the composition of file system and driver.

  \<^bold>\<open>What is proved\<close>

  \<^item> Memory: allocation gives pages that were free and marks exactly those; allocation and freeing
    cancel; initialisation makes a well-formed descriptor; mapping and unmapping change the
    translation of exactly one page; replacing the tables by copies keeps every translation; a failed
    virtual allocation gives everything back.
  \<^item> Threads: \<^verbatim>\<open>schedule\<close> is round robin on the ready queue; a timer tick wakes exactly
    the threads that are due; a mutex has at most one holder and forgets no waiter in every reachable state;
    semaphore counts are conserved; an interrupt and a switch away and back leave all registers as they were.
  \<^item> Devices: the keyboard delivers keys in order; every call of the ATA driver returns, and what it
    writes it reads back; the tables the processor reads are the ones the code means.
  \<^item> Files: entries of the allocation table read back; an allocated cluster was free and the tables
    change nowhere else; freeing a chain ends and frees exactly the chain; a file reads back as
    written; long names survive writing and reading; new entries overwrite no entry in use; a path is resolved
    component by component.
  \<^item> Output: a line plots one point per step and returns; a block transfer is the copy of a snapshot;
    a number in a format reads back; printing writes the frame buffer only, and the text appears as glyphs.
    The reports return and do nothing but draw.
  \<^item> Bus: both scans return the first controllers of their class, none is missed or found twice.
    A display whose adapter answers comes up in the mode the console assumes; commands stay inside the
    ring of the VMware adapter, save the word past its end that a finding names.
  \<^item> Power: the fixed table is found in an extended table of any length; a shutdown writes the
    registers in the order of the standard.  A fatal exception ends with interrupts off and nothing run after.
  \<^item> Loader: on every path it closes what it opened and gives back what it took; a file that is no
    kernel is not started; a good one is entered with the data of the firmware.
  \<^item> Shell: interrupts during the start find no thread and do no harm; a start that is refused
    touches no device; \<^verbatim>\<open>execute\<close> is a table lookup; commands that inspect only draw; the line stays
    inside its array in every reachable state; typing a name and the end of the line runs that command.
    A user thread comes up in ring 3 at its entry point, and a return of its function ends it.

  The properties that name a defect prove it of the code: they are listed as findings, with the line.

  \<^bold>\<open>Assumptions\<close>

  The ports, the time stamp counter and the data behind them are a record of functions (\<open>hw\<close>), the
  drive of \<open>AtaDisk\<close> is written from the ATA standard, with a busy bit that is always clear.
  The firmware the loader calls is a record of functions too.  What interrupts do while a command
  waits is a parameter (\<open>arrive\<close>), and so is the time written into new directory entries (\<open>stamp\<close>);
  no other interrupt comes inside a handler or between the steps of a command.
  Structures lie in memory without padding beyond what the compiler inserts for alignment; the byte
  before the buffer of \<^verbatim>\<open>printf\<close>, which it looks at for an empty text, is no end of a line.
  Local arrays of the code that it reads before writing start as zeros.  Inside operations that
  disable interrupts each operation is one step.  Addresses the linker chooses and C functions an
  assembly stub calls are parameters; of the latter only the calling convention is assumed.
  The page that holds an open file's directory entry is kept as its address and its 32 bytes.  Long
  name pieces are kept with the directory scan across clusters, as the code keeps them.

  \<^bold>\<open>Not modelled\<close>

  \<^item> The bodies of the demonstration threads of \<^verbatim>\<open>kernel.c\<close> (\<^verbatim>\<open>thread_test\<close>, \<^verbatim>\<open>thread_uvmt\<close>,
    \<^verbatim>\<open>thread_usertest\<close>, \<^verbatim>\<open>thread_fillrect\<close>): they draw or print and sleep; starting and ending them is modelled.
  \<^item> Single instructions (\<^verbatim>\<open>sti\<close>, \<^verbatim>\<open>cli\<close>, \<^verbatim>\<open>cpuid\<close>, \<^verbatim>\<open>rdmsr\<close>, moves of control registers) have no definition of
    their own: they are fields of the states.  \<^verbatim>\<open>SYSTEM_DEBUG\<close> is called nowhere.
  \<^item> The loader's \<^verbatim>\<open>GetCPUFrequency\<close> and \<^verbatim>\<open>STOP\<close>, and what is commented out in it.
  \<^item> \<^verbatim>\<open>GNU-EFI\<close> under \<^verbatim>\<open>src/Bootloader\<close>, a vendored library of declarations: the calls of the firmware are
    the parameters of \<open>Boot\<close>.
  \<^item> The build files.
\<close>

end
